(* ===== verification/Prelude.thy ===== *)
theory Prelude
  imports
    Complex_Main
    "HOL-Library.Multiset"
    "HOL-Library.Product_Lexorder"
    "HOL-Library.List_Lexorder"
    "HOL-Library.AList"
    "HOL-Library.Char_ord"
begin

text \<open>
  What the component theories share: the Python exceptions the code raises and the result type
  that carries them, the Python list operations used by several components (slicing, strided
  ranges, stable sorting in both directions, index gathering), and the list and multiset lemmas
  their proofs rest on.  An exception is the left injection \<open>Inl\<close> of a \<open>result\<close>; a normal
  return is \<open>Inr\<close>.  The text of an exception message is not kept, its class is.
\<close>

section \<open>Results\<close>

datatype py_error =
    AssertionError
  | ValueError
  | KeyError
  | IndexError
  | TypeError
  | ZeroDivisionError
  | RuntimeError
  | NotImplementedError
  | AttributeError
  | TimeoutError

type_synonym 'a result = "py_error + 'a"

named_theorems result_simps \<open>unfolding of the result combinators\<close>

definition rbind :: "'a result \<Rightarrow> ('a \<Rightarrow> 'b result) \<Rightarrow> 'b result" where
  "rbind m f = (case m of Inl e \<Rightarrow> Inl e | Inr x \<Rightarrow> f x)"

definition assert_r :: "bool \<Rightarrow> py_error \<Rightarrow> unit result" where
  "assert_r b e = (if b then Inr () else Inl e)"

fun map_r :: "('a \<Rightarrow> 'b result) \<Rightarrow> 'a list \<Rightarrow> 'b list result" where
  "map_r f [] = Inr []"
| "map_r f (x # xs) = rbind (f x) (\<lambda>y. rbind (map_r f xs) (\<lambda>ys. Inr (y # ys)))"

fun fold_r :: "('a \<Rightarrow> 's \<Rightarrow> 's result) \<Rightarrow> 'a list \<Rightarrow> 's \<Rightarrow> 's result" where
  "fold_r f [] s = Inr s"
| "fold_r f (x # xs) s = rbind (f x s) (fold_r f xs)"

lemma rbind_Inl [simp, result_simps]: "rbind (Inl e) f = Inl e"
  by (simp add: rbind_def)

lemma rbind_Inr [simp, result_simps]: "rbind (Inr x) f = f x"
  by (simp add: rbind_def)

lemma rbind_eq_Inr_iff [result_simps]:
  "rbind m f = Inr y \<longleftrightarrow> (\<exists>x. m = Inr x \<and> f x = Inr y)"
  by (cases m) auto

lemma rbind_assoc: "rbind (rbind m f) g = rbind m (\<lambda>x. rbind (f x) g)"
  by (cases m) auto

lemma assert_r_True [simp, result_simps]: "assert_r True e = Inr ()"
  by (simp add: assert_r_def)

lemma assert_r_False [simp, result_simps]: "assert_r False e = Inl e"
  by (simp add: assert_r_def)

lemma assert_r_eq_Inr_iff [simp, result_simps]: "assert_r b e = Inr u \<longleftrightarrow> b"
  by (simp add: assert_r_def)

lemma map_r_Inr: "(\<And>x. x \<in> set xs \<Longrightarrow> f x = Inr (g x)) \<Longrightarrow> map_r f xs = Inr (map g xs)"
  by (induction xs) auto

lemma map_r_total: "(\<And>x. x \<in> set xs \<Longrightarrow> \<exists>y. f x = Inr y) \<Longrightarrow> \<exists>ys. map_r f xs = Inr ys"
  using map_r_Inr [of xs f "\<lambda>x. projr (f x)"] by force

lemma map_r_length: "map_r f xs = Inr ys \<Longrightarrow> length ys = length xs"
  by (induction xs arbitrary: ys) (auto simp: rbind_eq_Inr_iff)

lemma map_r_nth:
  "map_r f xs = Inr ys \<Longrightarrow> i < length xs \<Longrightarrow> f (xs ! i) = Inr (ys ! i)"
proof (induction xs arbitrary: ys i)
  case Nil
  then show ?case by simp
next
  case (Cons x xs)
  then obtain y zs where "f x = Inr y" "map_r f xs = Inr zs" "ys = y # zs"
    by (auto simp: rbind_eq_Inr_iff)
  with Cons show ?case by (cases i) auto
qed

lemma fold_r_append: "fold_r f (xs @ ys) s = rbind (fold_r f xs s) (fold_r f ys)"
  by (induction xs arbitrary: s) (auto simp: rbind_def split: sum.split)

lemma fold_r_Inr: "(\<And>x s. x \<in> set xs \<Longrightarrow> f x s = Inr (g x s)) \<Longrightarrow> fold_r f xs s = Inr (fold g xs s)"
  by (induction xs arbitrary: s) auto

section \<open>Python lists\<close>

text \<open>\<open>xs[i]\<close> for a non-negative index: out of range raises \<open>IndexError\<close>.\<close>

definition py_nth :: "'a list \<Rightarrow> nat \<Rightarrow> 'a result" where
  "py_nth xs i = (if i < length xs then Inr (xs ! i) else Inl IndexError)"

text \<open>\<open>xs[a:b]\<close> with non-negative bounds, which Python clips to the list.\<close>

definition py_slice :: "nat \<Rightarrow> nat \<Rightarrow> 'a list \<Rightarrow> 'a list" where
  "py_slice a b xs = take (b - a) (drop a xs)"

lemma set_py_slice: "x \<in> set (py_slice a b xs) \<Longrightarrow> x \<in> set xs"
  by (auto simp: py_slice_def dest!: in_set_takeD in_set_dropD)

text \<open>\<open>xs[-n:]\<close>; for \<open>n = 0\<close> the slice starts at \<open>-0 = 0\<close> and keeps everything.\<close>

definition py_take_last :: "nat \<Rightarrow> 'a list \<Rightarrow> 'a list" where
  "py_take_last n xs = (if n = 0 then xs else drop (length xs - n) xs)"

text \<open>\<open>xs[:-n]\<close>; for \<open>n = 0\<close> the slice ends at \<open>-0 = 0\<close> and is empty.\<close>

definition py_drop_last :: "nat \<Rightarrow> 'a list \<Rightarrow> 'a list" where
  "py_drop_last n xs = (if n = 0 then [] else take (length xs - n) xs)"

text \<open>\<open>xs[::2]\<close> and \<open>xs[1::2]\<close>.\<close>

fun evens :: "'a list \<Rightarrow> 'a list" where
  "evens [] = []"
| "evens [x] = [x]"
| "evens (x # y # zs) = x # evens zs"

definition odds :: "'a list \<Rightarrow> 'a list" where
  "odds xs = evens (drop 1 xs)"

lemma mset_evens_odds: "mset (evens xs) + mset (odds xs) = mset xs"
proof (induction xs rule: evens.induct)
  case (3 x y zs)
  then show ?case by (cases zs) (auto simp: odds_def)
qed (auto simp: odds_def)

text \<open>
  \<open>sorted(xs, key=f)\<close> is the library's stable \<open>sort_key\<close>; with \<open>reverse=True\<close> Python keeps
  the stability, so equal elements stay in their order.
\<close>

definition sorted_rev :: "('a \<Rightarrow> 'k::linorder) \<Rightarrow> 'a list \<Rightarrow> 'a list" where
  "sorted_rev f xs = rev (sort_key f (rev xs))"

lemma mset_sorted_rev [simp]: "mset (sorted_rev f xs) = mset xs"
  by (simp add: sorted_rev_def)

lemma length_sorted_rev [simp]: "length (sorted_rev f xs) = length xs"
  by (simp add: sorted_rev_def)

lemma set_sorted_rev [simp]: "set (sorted_rev f xs) = set xs"
  by (simp add: sorted_rev_def)

lemma sorted_rev_desc: "sorted_wrt (\<lambda>a b. f b \<le> f a) (sorted_rev f xs)"
proof -
  have "sorted (map f (sort_key f (rev xs)))" by (rule sorted_sort_key)
  then show ?thesis
    by (simp add: sorted_rev_def sorted_wrt_rev sorted_map)
qed

lemma sorted_rev_nth_mono:
  "i \<le> j \<Longrightarrow> j < length xs \<Longrightarrow> f (sorted_rev f xs ! j) \<le> f (sorted_rev f xs ! i)"
  using sorted_wrt_nth_less [OF sorted_rev_desc, of i j f xs] by (cases "i = j") auto

text \<open>\<open>[xs[i] for i in idxs]\<close>, with the \<open>IndexError\<close> of an index out of range.\<close>

definition gather :: "'a list \<Rightarrow> nat list \<Rightarrow> 'a list result" where
  "gather xs idxs = map_r (py_nth xs) idxs"

lemma gather_Inr: "set idxs \<subseteq> {..<length xs} \<Longrightarrow> gather xs idxs = Inr (map ((!) xs) idxs)"
  unfolding gather_def by (rule map_r_Inr) (auto simp: py_nth_def)

text \<open>Consecutive pieces of length \<open>n\<close>, the offsets of \<open>range(0, len(xs), n)\<close>.\<close>

function chunks_of :: "nat \<Rightarrow> 'a list \<Rightarrow> 'a list list" where
  "chunks_of n xs = (if n = 0 \<or> xs = [] then [] else take n xs # chunks_of n (drop n xs))"
  by pat_completeness auto
termination
  by (relation "measure (\<lambda>(n, xs). length xs)") auto

declare chunks_of.simps [simp del]

lemma chunks_of_Nil [simp]: "chunks_of n [] = []"
  by (subst chunks_of.simps) simp

lemma chunks_of_0 [simp]: "chunks_of 0 xs = []"
  by (subst chunks_of.simps) simp

lemma chunks_of_step: "n \<noteq> 0 \<Longrightarrow> xs \<noteq> [] \<Longrightarrow> chunks_of n xs = take n xs # chunks_of n (drop n xs)"
  by (subst chunks_of.simps) simp

lemma concat_chunks_of: "n \<noteq> 0 \<Longrightarrow> concat (chunks_of n xs) = xs"
  by (induction n xs rule: chunks_of.induct) (subst chunks_of.simps, auto)

lemma chunks_of_nonempty: "ys \<in> set (chunks_of n xs) \<Longrightarrow> ys \<noteq> []"
proof (induction n xs rule: chunks_of.induct)
  case (1 n xs)
  then show ?case by (cases "n = 0 \<or> xs = []") (auto simp: chunks_of_step)
qed

lemma chunks_of_length_le: "ys \<in> set (chunks_of n xs) \<Longrightarrow> length ys \<le> n"
proof (induction n xs rule: chunks_of.induct)
  case (1 n xs)
  then show ?case by (cases "n = 0 \<or> xs = []") (auto simp: chunks_of_step)
qed

lemma chunks_of_length_exact:
  "n dvd length xs \<Longrightarrow> ys \<in> set (chunks_of n xs) \<Longrightarrow> length ys = n"
proof (induction n xs rule: chunks_of.induct)
  case (1 n xs)
  show ?case
  proof (cases "n = 0 \<or> xs = []")
    case True
    with "1.prems" show ?thesis by auto
  next
    case False
    with "1.prems"(1) have le: "n \<le> length xs" by (auto dest: dvd_imp_le)
    from False "1.prems"(2) consider "ys = take n xs" | "ys \<in> set (chunks_of n (drop n xs))"
      by (auto simp: chunks_of_step)
    then show ?thesis
    proof cases
      case 1
      with le show ?thesis by simp
    next
      case 2
      from "1.prems"(1) le have "n dvd length (drop n xs)" by (simp add: dvd_minus_self)
      with "1.IH" False 2 show ?thesis by blast
    qed
  qed
qed

lemma length_chunks_of: "n dvd length xs \<Longrightarrow> n \<noteq> 0 \<Longrightarrow> length (chunks_of n xs) = length xs div n"
proof (induction n xs rule: chunks_of.induct)
  case (1 n xs)
  show ?case
  proof (cases "xs = []")
    case True
    then show ?thesis by simp
  next
    case False
    with "1.prems" have le: "n \<le> length xs" by (auto dest: dvd_imp_le)
    with "1.prems" have "n dvd length (drop n xs)" by (simp add: dvd_minus_self)
    with "1.IH" "1.prems" False have "length (chunks_of n (drop n xs)) = length (drop n xs) div n"
      by blast
    with "1.prems" False le show ?thesis by (simp add: chunks_of_step le_div_geq)
  qed
qed

section \<open>Python dicts\<close>

text \<open>
  A dict is an association list in insertion order: \<open>map_of\<close> is \<open>d.get(k)\<close>, \<open>AList.update\<close> is
  \<open>d[k] = v\<close>, which keeps the place of an existing key and appends a new one.
\<close>

definition dict_get :: "('k \<times> 'v) list \<Rightarrow> 'k \<Rightarrow> 'v \<Rightarrow> 'v" where
  "dict_get d k dflt = (case map_of d k of Some v \<Rightarrow> v | None \<Rightarrow> dflt)"

lemma dict_get_update [simp]:
  "dict_get (AList.update k v d) k' dflt = (if k' = k then v else dict_get d k' dflt)"
  by (simp add: dict_get_def update_conv')

lemma dict_get_Nil [simp]: "dict_get [] k dflt = dflt"
  by (simp add: dict_get_def)

text \<open>\<open>xs[idxs] = vals\<close>: item assignment through an index list.\<close>

definition scatter :: "'a list \<Rightarrow> nat list \<Rightarrow> 'a list \<Rightarrow> 'a list" where
  "scatter xs idxs vals = fold (\<lambda>(i, v) xs. xs[i := v]) (zip idxs vals) xs"

lemma scatter_simps [simp]:
  "scatter xs [] vals = xs" "scatter xs idxs [] = xs"
  "scatter xs (i # idxs) (v # vals) = scatter (xs[i := v]) idxs vals"
  by (simp_all add: scatter_def)

lemma length_scatter [simp]: "length (scatter xs idxs vals) = length xs"
proof (induction idxs arbitrary: xs vals)
  case (Cons i idxs)
  then show ?case by (cases vals) simp_all
qed simp

lemma nth_scatter_map:
  "distinct idxs \<Longrightarrow> set idxs \<subseteq> {..<length xs} \<Longrightarrow> j < length xs \<Longrightarrow>
   scatter xs idxs (map f idxs) ! j = (if j \<in> set idxs then f j else xs ! j)"
proof (induction idxs arbitrary: xs)
  case (Cons i idxs)
  then show ?case by (auto simp: nth_list_update)
qed simp

section \<open>Lists and multisets\<close>

lemma sum_list_concat: "sum_list (concat xss) = sum_list (map sum_list xss)"
  for xss :: "'a::comm_monoid_add list list"
  by (induction xss) auto

lemma mset_concat_map_cong:
  "mset (concat (map f xs)) = (\<Sum>x\<leftarrow>xs. mset (f x))"
  by (induction xs) auto

lemma mset_eq_upt_iff: "mset xs = mset [0..<n] \<longleftrightarrow> distinct xs \<and> set xs = {..<n}"
proof
  assume "mset xs = mset [0..<n]"
  then show "distinct xs \<and> set xs = {..<n}"
    by (metis distinct_upt mset_eq_imp_distinct_iff mset_eq_setD set_upt atLeast0LessThan)
next
  assume "distinct xs \<and> set xs = {..<n}"
  then show "mset xs = mset [0..<n]"
    by (metis atLeast_upt distinct_upt set_eq_iff_mset_eq_distinct)
qed

section \<open>Texts\<close>

definition py_space :: "char \<Rightarrow> bool" where
  "py_space c = (let n = (of_char c :: nat) in (9 \<le> n \<and> n \<le> 13) \<or> (28 \<le> n \<and> n \<le> 32) \<or> n = 133 \<or> n = 160)"

definition strip_spaces :: "string \<Rightarrow> string" where
  "strip_spaces s = rev (dropWhile py_space (rev (dropWhile py_space s)))"

text \<open>Numerals: digits may be grouped by single underscores.\<close>

definition is_digit :: "char \<Rightarrow> bool" where
  "is_digit c = (48 \<le> (of_char c :: nat) \<and> (of_char c :: nat) \<le> 57)"

fun digits :: "bool \<Rightarrow> string \<Rightarrow> string \<times> string" where
  "digits after [] = ([], [])"
| "digits after (c # cs) =
     (if is_digit c then (let (d, r) = digits True cs in (c # d, r))
      else if after \<and> c = CHR ''_'' \<and> cs \<noteq> [] \<and> is_digit (hd cs) then digits False cs
      else ([], c # cs))"

definition digits_value :: "string \<Rightarrow> nat" where
  "digits_value ds = foldl (\<lambda>n c. 10 * n + (of_char c - 48)) 0 ds"

definition take_sign :: "string \<Rightarrow> bool \<times> string" where
  "take_sign s = (case s of c # cs \<Rightarrow> if c = CHR ''-'' then (True, cs) else if c = CHR ''+'' then (False, cs) else (False, s) | [] \<Rightarrow> (False, s))"

text \<open>\<open>int(s)\<close>.\<close>

definition int_of_text :: "string \<Rightarrow> int result" where
  "int_of_text s =
     (let (neg, t) = take_sign (strip_spaces s); (ds, r) = digits False t in
      if ds = [] \<or> r \<noteq> [] then Inl ValueError else Inr (if neg then - int (digits_value ds) else int (digits_value ds)))"

end
