(* ===== verification/Heapq.thy ===== *)
theory Heapq
  imports Prelude
begin

text \<open>
  Python's \<open>heapq\<close> as the code uses it: a binary heap kept in a list, \<open>heappush\<close> and
  \<open>heappop\<close> written over the sift loops of the standard library, comparing elements only with
  the \<open>__lt__\<close> of their class (the parameter \<open>lt\<close>).  The locale \<open>priority_queue\<close> is the
  interface the partitioning code relies on; \<open>strict_weak_order\<close> collects what \<open>__lt__\<close> has to
  satisfy, and a \<open>sublocale\<close> shows that the list heap then implements the interface.
\<close>

section \<open>The interface\<close>

locale priority_queue =
  fixes push :: "'q \<Rightarrow> 'a \<Rightarrow> 'q"
    and pop :: "'q \<Rightarrow> ('a \<times> 'q) result"
    and elems :: "'q \<Rightarrow> 'a multiset"
    and invar :: "'q \<Rightarrow> bool"
    and le :: "'a \<Rightarrow> 'a \<Rightarrow> bool"
  assumes elems_push: "elems (push q x) = add_mset x (elems q)"
    and invar_push: "invar q \<Longrightarrow> invar (push q x)"
    and pop_empty: "elems q = {#} \<Longrightarrow> pop q = Inl IndexError"
    and pop_total: "elems q \<noteq> {#} \<Longrightarrow> \<exists>x q'. pop q = Inr (x, q')"
    and elems_pop: "pop q = Inr (x, q') \<Longrightarrow> elems q = add_mset x (elems q')"
    and invar_pop: "invar q \<Longrightarrow> pop q = Inr (x, q') \<Longrightarrow> invar q'"
    and pop_le: "invar q \<Longrightarrow> pop q = Inr (x, q') \<Longrightarrow> y \<in># elems q \<Longrightarrow> le x y"
begin

lemma elems_push_all: "elems (foldl push q xs) = mset xs + elems q"
  by (induction xs arbitrary: q) (auto simp: elems_push)

lemma invar_push_all: "invar q \<Longrightarrow> invar (foldl push q xs)"
  by (induction xs arbitrary: q) (auto simp: invar_push)

lemma pop_fails_iff: "pop q = Inl e \<longleftrightarrow> elems q = {#} \<and> e = IndexError"
  by (cases "elems q = {#}") (use pop_empty [of q] pop_total [of q] in auto)

lemma pop_pop_total:
  assumes "2 \<le> size (elems q)"
  shows "\<exists>x y q1 q2. pop q = Inr (x, q1) \<and> pop q1 = Inr (y, q2)
    \<and> elems q = add_mset x (add_mset y (elems q2))"
proof -
  from assms have "elems q \<noteq> {#}" by auto
  then obtain x q1 where p1: "pop q = Inr (x, q1)" using pop_total by blast
  then have e1: "elems q = add_mset x (elems q1)" by (rule elems_pop)
  with assms have "elems q1 \<noteq> {#}" by auto
  then obtain y q2 where p2: "pop q1 = Inr (y, q2)" using pop_total by blast
  then have "elems q1 = add_mset y (elems q2)" by (rule elems_pop)
  with p1 p2 e1 show ?thesis by auto
qed

end

section \<open>The list heap\<close>

abbreviation parent_pos :: "nat \<Rightarrow> nat" where
  "parent_pos i \<equiv> (i - 1) div 2"

function heap_siftdown :: "('a \<Rightarrow> 'a \<Rightarrow> bool) \<Rightarrow> nat \<Rightarrow> 'a \<Rightarrow> nat \<Rightarrow> 'a list \<Rightarrow> 'a list" where
  "heap_siftdown lt startpos newitem pos heap =
     (if startpos < pos \<and> lt newitem (heap ! parent_pos pos)
      then heap_siftdown lt startpos newitem (parent_pos pos) (heap[pos := heap ! parent_pos pos])
      else heap[pos := newitem])"
  by pat_completeness auto
termination
  by (relation "measure (\<lambda>(lt, s, x, pos, h). pos)") auto

definition min_child :: "('a \<Rightarrow> 'a \<Rightarrow> bool) \<Rightarrow> nat \<Rightarrow> 'a list \<Rightarrow> nat" where
  "min_child lt pos heap =
     (if 2 * pos + 2 < length heap \<and> \<not> lt (heap ! (2 * pos + 1)) (heap ! (2 * pos + 2))
      then 2 * pos + 2 else 2 * pos + 1)"

lemma min_child_bounds:
  "2 * pos + 1 < length h \<Longrightarrow>
    min_child lt pos h < length h \<and> pos < min_child lt pos h \<and> parent_pos (min_child lt pos h) = pos"
  by (auto simp: min_child_def)

function heap_sink :: "('a \<Rightarrow> 'a \<Rightarrow> bool) \<Rightarrow> nat \<Rightarrow> 'a list \<Rightarrow> nat \<times> 'a list" where
  "heap_sink lt pos heap =
     (if 2 * pos + 1 < length heap
      then heap_sink lt (min_child lt pos heap) (heap[pos := heap ! min_child lt pos heap])
      else (pos, heap))"
  by pat_completeness auto
termination
  by (relation "measure (\<lambda>(lt, pos, h). length h - pos)")
    (use min_child_bounds in \<open>fastforce simp: diff_less_mono2\<close>)+

definition heap_siftup :: "('a \<Rightarrow> 'a \<Rightarrow> bool) \<Rightarrow> nat \<Rightarrow> 'a list \<Rightarrow> 'a list" where
  "heap_siftup lt pos heap =
     (let newitem = heap ! pos; (p, h) = heap_sink lt pos heap
      in heap_siftdown lt pos newitem p (h[p := newitem]))"

definition heappush :: "('a \<Rightarrow> 'a \<Rightarrow> bool) \<Rightarrow> 'a list \<Rightarrow> 'a \<Rightarrow> 'a list" where
  "heappush lt heap item = heap_siftdown lt 0 item (length heap) (heap @ [item])"

definition heappop :: "('a \<Rightarrow> 'a \<Rightarrow> bool) \<Rightarrow> 'a list \<Rightarrow> ('a \<times> 'a list) result" where
  "heappop lt heap =
     (if heap = [] then Inl IndexError
      else if butlast heap = [] then Inr (last heap, [])
      else Inr (heap ! 0, heap_siftup lt 0 ((butlast heap)[0 := last heap])))"

declare heap_siftdown.simps [simp del] heap_sink.simps [simp del]

section \<open>The elements are kept\<close>

lemma length_heap_siftdown [simp]: "length (heap_siftdown lt s x pos h) = length h"
  by (induction lt s x pos h rule: heap_siftdown.induct) (subst heap_siftdown.simps, simp)

lemma siftdown_move:
  "s < pos \<Longrightarrow> lt x (h ! parent_pos pos) \<Longrightarrow>
    heap_siftdown lt s x pos h = heap_siftdown lt s x (parent_pos pos) (h[pos := h ! parent_pos pos])"
  by (subst heap_siftdown.simps) simp

lemma siftdown_stop:
  "\<not> (s < pos \<and> lt x (h ! parent_pos pos)) \<Longrightarrow> heap_siftdown lt s x pos h = h[pos := x]"
  by (subst heap_siftdown.simps) (simp only: if_False)

lemma sink_move:
  "2 * pos + 1 < length h \<Longrightarrow>
    heap_sink lt pos h = heap_sink lt (min_child lt pos h) (h[pos := h ! min_child lt pos h])"
  by (subst heap_sink.simps) simp

lemma sink_stop: "\<not> 2 * pos + 1 < length h \<Longrightarrow> heap_sink lt pos h = (pos, h)"
  by (subst heap_sink.simps) simp

lemma parent_less: "0 < i \<Longrightarrow> parent_pos i < i"
  by linarith

lemma mset_move:
  assumes "i < length h" "j < length h" "i \<noteq> j"
  shows "mset (h[i := h ! j, j := x]) = mset (h[i := x])"
proof -
  let ?g = "h[i := x]"
  have "mset (?g[i := ?g ! j, j := ?g ! i]) = mset ?g"
    using assms by (intro mset_swap) simp_all
  with assms show ?thesis by simp
qed

lemma mset_heap_siftdown: "pos < length h \<Longrightarrow> mset (heap_siftdown lt s x pos h) = mset (h[pos := x])"
proof (induction lt s x pos h rule: heap_siftdown.induct)
  case (1 lt s x pos h)
  show ?case
  proof (cases "s < pos \<and> lt x (h ! parent_pos pos)")
    case True
    then have "parent_pos pos < pos" by (intro parent_less) linarith
    with True "1" show ?thesis by (simp add: siftdown_move mset_move)
  next
    case False
    then show ?thesis using siftdown_stop [of s pos lt x h] by simp
  qed
qed

lemma heap_sink_props:
  assumes "heap_sink lt pos h = (p, h')" and "pos < length h"
  shows "p < length h \<and> length h' = length h \<and> mset (h'[p := x]) = mset (h[pos := x])"
  using assms
proof (induction lt pos h rule: heap_sink.induct)
  case (1 lt pos h)
  show ?case
  proof (cases "2 * pos + 1 < length h")
    case True
    from min_child_bounds [OF True, of lt] "1.IH" [OF True] "1.prems" show ?thesis
      by (simp add: sink_move [OF True] mset_move)
  next
    case False
    with "1.prems" show ?thesis by (simp add: sink_stop)
  qed
qed

lemma mset_heap_siftup: "pos < length h \<Longrightarrow> mset (heap_siftup lt pos h) = mset h"
proof -
  assume pos: "pos < length h"
  obtain p h' where s: "heap_sink lt pos h = (p, h')" by fastforce
  from heap_sink_props [OF s pos, of "h ! pos"] show ?thesis
    by (simp add: heap_siftup_def s mset_heap_siftdown Let_def)
qed

lemma mset_heappush [simp]: "mset (heappush lt h x) = add_mset x (mset h)"
  by (simp add: heappush_def mset_heap_siftdown)

lemma mset_heappop: "heappop lt h = Inr (x, h') \<Longrightarrow> mset h = add_mset x (mset h')"
proof -
  assume r: "heappop lt h = Inr (x, h')"
  then have ne: "h \<noteq> []" by (auto simp: heappop_def)
  then obtain ys z where h: "h = ys @ [z]" by (metis append_butlast_last_id)
  show ?thesis
  proof (cases ys)
    case Nil
    with r h show ?thesis by (auto simp: heappop_def)
  next
    case (Cons y ys')
    with r h have "x = y" "h' = heap_siftup lt 0 (z # ys')" by (auto simp: heappop_def)
    with h Cons show ?thesis by (simp add: mset_heap_siftup)
  qed
qed

lemma heappop_total: "h \<noteq> [] \<Longrightarrow> \<exists>x h'. heappop lt h = Inr (x, h')"
  by (auto simp: heappop_def)

lemma length_heappush [simp]: "length (heappush lt h x) = Suc (length h)"
  by (metis mset_heappush size_add_mset size_mset)

lemma length_heappop: "heappop lt h = Inr (x, h') \<Longrightarrow> length h = Suc (length h')"
  by (metis mset_heappop size_add_mset size_mset)

section \<open>The heap order\<close>

definition heap_inv :: "('a \<Rightarrow> 'a \<Rightarrow> bool) \<Rightarrow> 'a list \<Rightarrow> bool" where
  "heap_inv lt h \<longleftrightarrow> (\<forall>i. 0 < i \<and> i < length h \<longrightarrow> \<not> lt (h ! i) (h ! parent_pos i))"

text \<open>The order holds except between \<open>pos\<close> and its parent: the precondition of \<open>_siftdown\<close>.\<close>

definition heap_up :: "('a \<Rightarrow> 'a \<Rightarrow> bool) \<Rightarrow> nat \<Rightarrow> 'a list \<Rightarrow> bool" where
  "heap_up lt pos h \<longleftrightarrow>
     (\<forall>i. 0 < i \<and> i < length h \<and> i \<noteq> pos \<longrightarrow> \<not> lt (h ! i) (h ! parent_pos i)) \<and>
     (\<forall>i. 0 < i \<and> i < length h \<and> parent_pos i = pos \<and> 0 < pos \<longrightarrow> \<not> lt (h ! i) (h ! parent_pos pos))"

text \<open>The order holds except at the hole \<open>pos\<close> and its children: the invariant of \<open>_siftup\<close>.\<close>

definition heap_hole :: "('a \<Rightarrow> 'a \<Rightarrow> bool) \<Rightarrow> nat \<Rightarrow> 'a list \<Rightarrow> bool" where
  "heap_hole lt pos h \<longleftrightarrow>
     (\<forall>i. 0 < i \<and> i < length h \<and> i \<noteq> pos \<and> parent_pos i \<noteq> pos \<longrightarrow> \<not> lt (h ! i) (h ! parent_pos i)) \<and>
     (\<forall>i. 0 < i \<and> i < length h \<and> parent_pos i = pos \<and> 0 < pos \<longrightarrow> \<not> lt (h ! i) (h ! parent_pos pos))"

locale strict_weak_order =
  fixes lt :: "'a \<Rightarrow> 'a \<Rightarrow> bool"
  assumes asym: "lt a b \<Longrightarrow> \<not> lt b a"
    and neg_trans: "\<not> lt b a \<Longrightarrow> \<not> lt c b \<Longrightarrow> \<not> lt c a"
begin

lemma irrefl: "\<not> lt a a"
  using asym by blast

lemma heap_up_move:
  assumes up: "heap_up lt pos (h[pos := x])" and pos: "0 < pos" "pos < length h"
    and lt: "lt x (h ! parent_pos pos)"
  shows "heap_up lt (parent_pos pos) (h[pos := h ! parent_pos pos, parent_pos pos := x])"
proof -
  let ?p = "parent_pos pos" and ?g = "h[pos := h ! parent_pos pos, parent_pos pos := x]"
  have p: "?p < pos" "?p < length h" using pos parent_less by (auto intro: less_trans)
  have edge: "\<not> lt (h ! i) ((h[pos := x]) ! parent_pos i)"
    if "0 < i" "i < length h" "i \<noteq> pos" for i
    using up that unfolding heap_up_def by (metis length_list_update nth_list_update_neq)
  have child: "\<not> lt (h ! i) (h ! ?p)" if "0 < i" "i < length h" "parent_pos i = pos" for i
  proof -
    have "i \<noteq> pos" using that pos parent_less by (metis less_irrefl)
    with up that pos p show ?thesis unfolding heap_up_def
      by (metis length_list_update nat_neq_iff nth_list_update_neq)
  qed
  have xp: "\<not> lt (h ! ?p) x" using lt asym by blast
  have order: "\<not> lt (?g ! i) (?g ! parent_pos i)" if i: "0 < i" "i < length h" "i \<noteq> ?p" for i
  proof (cases "i = pos")
    case True
    with p pos xp show ?thesis by simp
  next
    case False
    consider "parent_pos i = pos" | "parent_pos i = ?p" | "parent_pos i \<noteq> pos" "parent_pos i \<noteq> ?p"
      by blast
    then show ?thesis
    proof cases
      case 1
      with False i p pos child show ?thesis by simp
    next
      case 2
      with False i p pos edge [of i] have "\<not> lt (h ! i) (h ! ?p)" by simp
      with xp have "\<not> lt (h ! i) x" by (rule neg_trans)
      with 2 False i p show ?thesis by simp
    next
      case 3
      with False i p pos edge [of i] show ?thesis by simp
    qed
  qed
  have grand: "\<not> lt (?g ! i) (?g ! parent_pos ?p)"
    if i: "0 < i" "i < length h" "parent_pos i = ?p" "0 < ?p" for i
  proof -
    have pp: "parent_pos ?p < ?p" using i parent_less by blast
    have up_edge: "\<not> lt (h ! ?p) (h ! parent_pos ?p)" using edge [of ?p] i p pp by simp
    show ?thesis
    proof (cases "i = pos")
      case True
      with i p pp up_edge show ?thesis by simp
    next
      case False
      have "\<not> lt (h ! i) (h ! ?p)" using False i p edge [of i] by simp
      with up_edge have "\<not> lt (h ! i) (h ! parent_pos ?p)" by (rule neg_trans)
      moreover have "i \<noteq> ?p" using i parent_less [of i] by linarith
      moreover have "parent_pos ?p \<noteq> pos" using pp p by linarith
      ultimately show ?thesis using False pp by simp
    qed
  qed
  from order grand show ?thesis unfolding heap_up_def by (simp only: length_list_update) blast
qed

lemma heap_siftdown_inv:
  "heap_up lt pos (h[pos := x]) \<Longrightarrow> pos < length h \<Longrightarrow> heap_inv lt (heap_siftdown lt 0 x pos h)"
proof (induction pos arbitrary: h rule: less_induct)
  case (less pos)
  show ?case
  proof (cases "0 < pos \<and> lt x (h ! parent_pos pos)")
    case True
    then have p: "parent_pos pos < pos" using parent_less by blast
    let ?h = "h[pos := h ! parent_pos pos]"
    have "heap_up lt (parent_pos pos) (?h[parent_pos pos := x])"
      using heap_up_move [OF less.prems(1) _ less.prems(2)] True by simp
    with less.IH [OF p, of ?h] less.prems(2) p True show ?thesis
      by (simp add: siftdown_move)
  next
    case False
    then have "heap_siftdown lt 0 x pos h = h[pos := x]" by (rule siftdown_stop)
    moreover have "heap_inv lt (h[pos := x])"
      unfolding heap_inv_def
    proof (intro allI impI)
      fix i
      assume i: "0 < i \<and> i < length (h[pos := x])"
      show "\<not> lt (h[pos := x] ! i) (h[pos := x] ! parent_pos i)"
      proof (cases "i = pos")
        case True
        with False i have "\<not> lt x (h ! parent_pos pos)" by simp
        moreover have "parent_pos i \<noteq> pos" using i True parent_less by (metis less_irrefl)
        ultimately show ?thesis using True i by simp
      next
        case False
        with less.prems(1) i show ?thesis unfolding heap_up_def by blast
      qed
    qed
    ultimately show ?thesis by simp
  qed
qed

lemma min_child_le:
  assumes "2 * pos + 1 < length h" "0 < i" "i < length h" "parent_pos i = pos"
  shows "\<not> lt (h ! i) (h ! min_child lt pos h)"
proof -
  have "i = 2 * pos + 1 \<or> i = 2 * pos + 2" using assms(2,4) by linarith
  with assms irrefl asym show ?thesis by (auto simp: min_child_def)
qed

lemma heap_hole_move:
  assumes hole: "heap_hole lt pos h" and c: "2 * pos + 1 < length h"
  shows "heap_hole lt (min_child lt pos h) (h[pos := h ! min_child lt pos h])"
proof -
  let ?c = "min_child lt pos h"
  let ?g = "h[pos := h ! ?c]"
  note b = min_child_bounds [OF c, of lt]
  have order: "\<not> lt (?g ! i) (?g ! parent_pos i)"
    if i: "0 < i" "i < length h" "i \<noteq> ?c" "parent_pos i \<noteq> ?c" for i
  proof (cases "i = pos")
    case True
    then have "parent_pos i \<noteq> pos" using i parent_less by (metis less_irrefl)
    with True i b hole show ?thesis unfolding heap_hole_def by simp
  next
    case False
    show ?thesis
    proof (cases "parent_pos i = pos")
      case True
      with False i b min_child_le [OF c] show ?thesis by simp
    next
      case neq: False
      with False i hole show ?thesis unfolding heap_hole_def by simp
    qed
  qed
  have child: "\<not> lt (?g ! i) (?g ! parent_pos ?c)"
    if i: "0 < i" "i < length h" "parent_pos i = ?c" for i
  proof -
    have "i \<noteq> pos" using i b parent_less [of i] by linarith
    moreover have "parent_pos i \<noteq> pos" using i b by simp
    ultimately have "\<not> lt (h ! i) (h ! parent_pos i)" using i hole unfolding heap_hole_def by blast
    with i b \<open>i \<noteq> pos\<close> show ?thesis by simp
  qed
  from order child show ?thesis unfolding heap_hole_def by simp
qed

lemma heap_sink_hole:
  "heap_hole lt pos h \<Longrightarrow> pos < length h \<Longrightarrow> heap_sink lt pos h = (p, h') \<Longrightarrow>
    heap_hole lt p h' \<and> \<not> 2 * p + 1 < length h'"
proof (induction "length h - pos" arbitrary: pos h rule: less_induct)
  case less
  show ?case
  proof (cases "2 * pos + 1 < length h")
    case True
    note b = min_child_bounds [OF True, of lt]
    show ?thesis
    proof (rule less.hyps)
      show "length (h[pos := h ! min_child lt pos h]) - min_child lt pos h < length h - pos"
        using b by (simp add: diff_less_mono2)
      show "heap_hole lt (min_child lt pos h) (h[pos := h ! min_child lt pos h])"
        by (rule heap_hole_move [OF less.prems(1) True])
      show "min_child lt pos h < length (h[pos := h ! min_child lt pos h])" using b by simp
      show "heap_sink lt (min_child lt pos h) (h[pos := h ! min_child lt pos h]) = (p, h')"
        using less.prems(3) by (simp add: sink_move [OF True])
    qed
  next
    case False
    with less.prems show ?thesis by (simp add: sink_stop)
  qed
qed

lemma heap_hole_filled:
  assumes "heap_hole lt p h" "\<not> 2 * p + 1 < length h" "p < length h"
  shows "heap_up lt p (h[p := x])"
proof -
  have "parent_pos i \<noteq> p" if "0 < i" "i < length h" for i
    using that assms(2) by linarith
  with assms(1) show ?thesis unfolding heap_up_def heap_hole_def
    by (metis length_list_update nth_list_update_neq)
qed

lemma heap_inv_push: "heap_inv lt h \<Longrightarrow> heap_inv lt (heappush lt h x)"
proof -
  assume inv: "heap_inv lt h"
  have "heap_up lt (length h) ((h @ [x])[length h := x])"
    unfolding heap_up_def
  proof (intro conjI allI impI)
    fix i
    assume i: "0 < i \<and> i < length ((h @ [x])[length h := x]) \<and> i \<noteq> length h"
    then have "i < length h" "parent_pos i < length h" using parent_less [of i] by auto
    with inv i show "\<not> lt ((h @ [x])[length h := x] ! i) ((h @ [x])[length h := x] ! parent_pos i)"
      unfolding heap_inv_def by (simp add: nth_append)
  next
    fix i
    assume "0 < i \<and> i < length ((h @ [x])[length h := x]) \<and> parent_pos i = length h \<and> 0 < length h"
    then show "\<not> lt ((h @ [x])[length h := x] ! i) ((h @ [x])[length h := x] ! parent_pos (length h))"
      using parent_less [of i] by simp
  qed
  then show ?thesis unfolding heappush_def by (rule heap_siftdown_inv) simp
qed

lemma heap_inv_pop: "heap_inv lt h \<Longrightarrow> heappop lt h = Inr (x, h') \<Longrightarrow> heap_inv lt h'"
proof -
  assume inv: "heap_inv lt h" and pop: "heappop lt h = Inr (x, h')"
  show ?thesis
  proof (cases "butlast h = []")
    case True
    with pop show ?thesis by (auto simp: heappop_def heap_inv_def split: if_splits)
  next
    case False
    let ?b = "(butlast h)[0 := last h]"
    have len: "length ?b = length h - 1" "0 < length ?b"
      using False by (simp, metis length_greater_0_conv length_list_update)
    have h': "h' = heap_siftup lt 0 ?b" using pop False by (auto simp: heappop_def split: if_splits)
    have "heap_hole lt 0 ?b"
      unfolding heap_hole_def
    proof (intro conjI allI impI)
      fix i
      assume i: "0 < i \<and> i < length ?b \<and> i \<noteq> 0 \<and> parent_pos i \<noteq> 0"
      then have "parent_pos i < length ?b" using parent_less [of i] by linarith
      moreover have "\<not> lt (h ! i) (h ! parent_pos i)"
        using inv i len unfolding heap_inv_def by (metis less_imp_diff_less len(1) less_le_trans diff_le_self)
      ultimately show "\<not> lt (?b ! i) (?b ! parent_pos i)" using i by (simp add: nth_butlast)
    qed simp
    moreover obtain p g where s: "heap_sink lt 0 ?b = (p, g)" by fastforce
    ultimately have "heap_hole lt p g" "\<not> 2 * p + 1 < length g"
      using heap_sink_hole len(2) by blast+
    moreover have "p < length g" using heap_sink_props [OF s len(2)] by simp
    ultimately have "heap_up lt p (g[p := ?b ! 0, p := ?b ! 0])"
      using heap_hole_filled by simp
    then have "heap_inv lt (heap_siftdown lt 0 (?b ! 0) p (g[p := ?b ! 0]))"
      by (rule heap_siftdown_inv) (simp add: \<open>p < length g\<close>)
    then show ?thesis by (simp add: h' heap_siftup_def s Let_def)
  qed
qed

lemma heap_root_le: "heap_inv lt h \<Longrightarrow> i < length h \<Longrightarrow> \<not> lt (h ! i) (h ! 0)"
proof (induction i rule: less_induct)
  case (less i)
  show ?case
  proof (cases "i = 0")
    case True
    then show ?thesis using irrefl by simp
  next
    case False
    then have p: "parent_pos i < i" using parent_less by blast
    with less have "\<not> lt (h ! parent_pos i) (h ! 0)" by simp
    moreover have "\<not> lt (h ! i) (h ! parent_pos i)" using less.prems False by (simp add: heap_inv_def)
    ultimately show ?thesis by (rule neg_trans)
  qed
qed

lemma heappop_root: "heappop lt h = Inr (x, h') \<Longrightarrow> x = h ! 0"
  by (auto simp: heappop_def last_conv_nth length_butlast split: if_splits
      dest: arg_cong [where f = length])

end

sublocale strict_weak_order \<subseteq> heap: priority_queue
  "heappush lt" "heappop lt" mset "heap_inv lt" "\<lambda>a b. \<not> lt b a"
proof
  show "mset q = {#} \<Longrightarrow> heappop lt q = Inl IndexError" for q :: "'a list"
    by (simp add: heappop_def)
  show "mset q \<noteq> {#} \<Longrightarrow> \<exists>x q'. heappop lt q = Inr (x, q')" for q :: "'a list"
    by (simp add: heappop_total)
  show "\<not> lt y x" if "heap_inv lt q" "heappop lt q = Inr (x, q')" "y \<in># mset q" for q q' :: "'a list" and x y
    using that heappop_root [of q x q'] heap_root_le by (auto simp: in_set_conv_nth)
qed (auto intro: mset_heappop heap_inv_push heap_inv_pop)

end
