(* ===== verification/Seqlen_Balancing.thy ===== *)
theory Seqlen_Balancing
  imports Heapq
begin

text \<open>
  \<open>verl/utils/seqlen_balancing.py\<close>: the workload estimate, the Karmarkar-Karp differencing
  partition over a heap of states, the greedy partition, the checked and sorted partition the
  trainer calls, micro-batch rearrangement with its inverse, and the uid-preserving partition.
  Sequence lengths and workloads are Python integers (\<open>int\<close>), indices and partition counts
  are \<open>nat\<close>.  The classes \<open>Set\<close> and \<open>State\<close> nested in \<open>karmarkar_karp\<close> are the records
  \<open>kk_set\<close> and \<open>kk_state\<close>.  The locale \<open>kk_state_invariant\<close> lifts a property kept by one
  \<open>State.merge\<close> to the whole merging loop; it is interpreted for each of the properties the
  correctness theorems combine.
\<close>

section \<open>Workloads\<close>

definition calculate_workload :: "int list \<Rightarrow> int list" where
  "calculate_workload seqlen_list = map (\<lambda>s. 24576 * s + s ^ 2) seqlen_list"

lemma length_calculate_workload [simp]: "length (calculate_workload xs) = length xs"
  by (simp add: calculate_workload_def)

lemma calculate_workload_nonneg:
  "\<forall>s\<in>set xs. 0 \<le> s \<Longrightarrow> w \<in> set (calculate_workload xs) \<Longrightarrow> 0 \<le> w"
  by (auto simp: calculate_workload_def)

section \<open>Karmarkar-Karp: the classes Set and State\<close>

record kk_set =
  set_sum :: int
  set_items :: "(nat \<times> int) list"

definition set_new :: kk_set where
  "set_new = \<lparr>set_sum = 0, set_items = []\<rparr>"

definition set_add :: "nat \<Rightarrow> int \<Rightarrow> kk_set \<Rightarrow> kk_set" where
  "set_add idx val s = s\<lparr>set_items := set_items s @ [(idx, val)], set_sum := set_sum s + val\<rparr>"

definition set_merge :: "kk_set \<Rightarrow> kk_set \<Rightarrow> kk_set" where
  "set_merge s other = foldl (\<lambda>s (idx, val). set_add idx val s) s (set_items other)"

definition set_lt :: "kk_set \<Rightarrow> kk_set \<Rightarrow> bool" where
  "set_lt a b =
     (if set_sum a \<noteq> set_sum b then set_sum a < set_sum b
      else if length (set_items a) \<noteq> length (set_items b)
        then length (set_items a) < length (set_items b)
      else set_items a < set_items b)"

definition set_key :: "kk_set \<Rightarrow> int \<times> nat \<times> (nat \<times> int) list" where
  "set_key s = (set_sum s, length (set_items s), set_items s)"

record kk_state =
  st_k :: nat
  st_sets :: "kk_set list"

definition state_init :: "(nat \<times> int) list \<Rightarrow> nat \<Rightarrow> kk_state result" where
  "state_init items k =
     rbind (assert_r (length items = 1 \<or> length items = k) AssertionError) (\<lambda>_.
     rbind (fold_r (\<lambda>(i, idx, seqlen) sets.
              if i < length sets then Inr (sets[i := set_add idx seqlen (sets ! i)])
              else Inl IndexError)
            (List.enumerate 0 items) (replicate k set_new)) (\<lambda>sets.
     Inr \<lparr>st_k = k, st_sets = sorted_rev set_key sets\<rparr>))"

definition get_partitions :: "kk_state \<Rightarrow> nat list list" where
  "get_partitions s = map (\<lambda>x. map fst (set_items x)) (st_sets s)"

definition state_merge :: "kk_state \<Rightarrow> kk_state \<Rightarrow> kk_state" where
  "state_merge s other =
     s\<lparr>st_sets := sorted_rev set_key
         (map (\<lambda>i. set_merge (st_sets s ! i) (st_sets other ! (st_k s - 1 - i))) [0..<st_k s])\<rparr>"

definition state_spread :: "kk_state \<Rightarrow> int" where
  "state_spread s = set_sum (st_sets s ! 0) - set_sum (last (st_sets s))"

definition state_lt :: "kk_state \<Rightarrow> kk_state \<Rightarrow> bool" where
  "state_lt s other =
     (if state_spread s \<noteq> state_spread other then state_spread s > state_spread other
      else set_lt (st_sets other ! 0) (st_sets s ! 0))"

section \<open>Karmarkar-Karp: the algorithm\<close>

definition kk_initial_states :: "int list \<Rightarrow> nat \<Rightarrow> bool \<Rightarrow> kk_state list result" where
  "kk_initial_states seqlen_list k_partitions equal_size =
     (let sorted_seqlen_list = sort (map (\<lambda>(i, seqlen). (seqlen, i)) (List.enumerate 0 seqlen_list)) in
      if equal_size then
        (if k_partitions = 0 then Inl ZeroDivisionError
         else if length seqlen_list mod k_partitions \<noteq> 0 then Inl AssertionError
         else map_r (\<lambda>group. state_init (map (\<lambda>(seqlen, idx). (idx, seqlen)) group) k_partitions)
                (chunks_of k_partitions sorted_seqlen_list))
      else map_r (\<lambda>(seqlen, idx). state_init [(idx, seqlen)] k_partitions) sorted_seqlen_list)"

function kk_loop :: "kk_state list \<Rightarrow> kk_state list result" where
  "kk_loop states_pq =
     (if 1 < length states_pq then
        (case heappop state_lt states_pq of
           Inl e \<Rightarrow> Inl e
         | Inr (state0, pq1) \<Rightarrow>
             (case heappop state_lt pq1 of
                Inl e \<Rightarrow> Inl e
              | Inr (state1, pq2) \<Rightarrow> kk_loop (heappush state_lt pq2 (state_merge state0 state1))))
      else Inr states_pq)"
  by pat_completeness auto
termination
  by (relation "measure length") (auto dest!: length_heappop)

declare kk_loop.simps [simp del]

definition karmarkar_karp :: "int list \<Rightarrow> nat \<Rightarrow> bool \<Rightarrow> nat list list result" where
  "karmarkar_karp seqlen_list k_partitions equal_size =
     rbind (kk_initial_states seqlen_list k_partitions equal_size) (\<lambda>states.
     rbind (kk_loop (foldl (heappush state_lt) [] states)) (\<lambda>states_pq.
     rbind (py_nth states_pq 0) (\<lambda>final_state.
       let partitions = get_partitions final_state in
       if equal_size then
         rbind (assert_r (list_all (\<lambda>p. length p * k_partitions = length seqlen_list) partitions)
                  AssertionError) (\<lambda>_. Inr partitions)
       else Inr partitions)))"

definition check_and_sort_partitions ::
  "int list \<Rightarrow> nat \<Rightarrow> nat list list \<Rightarrow> nat list list result" where
  "check_and_sort_partitions seqlen_list k_partitions partitions =
     rbind (assert_r (length partitions = k_partitions) AssertionError) (\<lambda>_.
     rbind (map_r (\<lambda>partition. rbind (assert_r (0 < length partition) AssertionError)
              (\<lambda>_. Inr (sort partition))) partitions) (\<lambda>sorted_partitions.
     rbind (assert_r (set (concat partitions) = set [0..<length seqlen_list]) AssertionError) (\<lambda>_.
     Inr sorted_partitions)))"

definition get_seqlen_balanced_partitions :: "int list \<Rightarrow> nat \<Rightarrow> bool \<Rightarrow> nat list list result" where
  "get_seqlen_balanced_partitions seqlen_list k_partitions equal_size =
     rbind (assert_r (k_partitions \<le> length seqlen_list) AssertionError) (\<lambda>_.
     rbind (karmarkar_karp seqlen_list k_partitions equal_size) (\<lambda>partitions.
     check_and_sort_partitions seqlen_list k_partitions partitions))"

section \<open>Lemmas on Set\<close>

lemma set_lt_iff: "set_lt a b \<longleftrightarrow> set_key a < set_key b"
  by (auto simp: set_lt_def set_key_def less_prod_def)

lemma set_merge_sum_items:
  "set_sum (set_merge s other) = set_sum s + sum_list (map snd (set_items other)) \<and>
   set_items (set_merge s other) = set_items s @ set_items other"
proof -
  have "set_sum (foldl (\<lambda>s (idx, val). set_add idx val s) s xs) = set_sum s + sum_list (map snd xs) \<and>
    set_items (foldl (\<lambda>s (idx, val). set_add idx val s) s xs) = set_items s @ xs" for xs
    by (induction xs arbitrary: s) (auto simp: set_add_def)
  then show ?thesis by (simp add: set_merge_def)
qed

lemmas set_merge_simps [simp] =
  set_merge_sum_items [THEN conjunct1] set_merge_sum_items [THEN conjunct2]

lemma set_key_mono_sum: "set_key a \<le> set_key b \<Longrightarrow> set_sum a \<le> set_sum b"
  by (auto simp: set_key_def less_eq_prod_def)

section \<open>The state order is a strict weak order\<close>

lemma state_lt_iff:
  "state_lt s t \<longleftrightarrow> (state_spread t, set_key (st_sets t ! 0)) < (state_spread s, set_key (st_sets s ! 0))"
  by (auto simp: state_lt_def set_lt_iff less_prod_def)

interpretation kk_heap: strict_weak_order state_lt
  by unfold_locales (auto simp: state_lt_iff not_less intro: order_trans)

section \<open>Lifting a property of one merge to the loop\<close>

lemma kk_loop_step:
  assumes "1 < length pq"
  obtains s0 s1 pq' where
    "mset pq = add_mset s0 (add_mset s1 (mset pq'))"
    "kk_loop pq = kk_loop (heappush state_lt pq' (state_merge s0 s1))"
proof -
  from assms have "2 \<le> size (mset pq)" by simp
  then obtain s0 s1 q1 q2 where q: "heappop state_lt pq = Inr (s0, q1)" "heappop state_lt q1 = Inr (s1, q2)"
    "mset pq = add_mset s0 (add_mset s1 (mset q2))"
    using kk_heap.heap.pop_pop_total by blast
  with assms have "kk_loop pq = kk_loop (heappush state_lt q2 (state_merge s0 s1))"
    by (subst kk_loop.simps) simp
  with q(3) show ?thesis by (rule that)
qed

lemma kk_loop_stop: "length pq \<le> 1 \<Longrightarrow> kk_loop pq = Inr pq"
  by (subst kk_loop.simps) simp

text \<open>The loop always returns, with one state left (none when it started with none).\<close>

lemma kk_loop_returns: "\<exists>pq'. kk_loop pq = Inr pq' \<and> length pq' = min 1 (length pq)"
proof (induction "length pq" arbitrary: pq rule: less_induct)
  case less
  show ?case
  proof (cases "1 < length pq")
    case True
    then obtain s0 s1 q where q: "mset pq = add_mset s0 (add_mset s1 (mset q))"
      "kk_loop pq = kk_loop (heappush state_lt q (state_merge s0 s1))"
      by (rule kk_loop_step)
    from q(1) have "length pq = Suc (Suc (length q))" by (metis size_add_mset size_mset)
    with less [of "heappush state_lt q (state_merge s0 s1)"] q(2) show ?thesis by simp
  next
    case False
    then show ?thesis by (simp add: kk_loop_stop)
  qed
qed

locale kk_state_invariant =
  fixes I :: "kk_state \<Rightarrow> bool"
  assumes merge: "I a \<Longrightarrow> I b \<Longrightarrow> I (state_merge a b)"
begin

lemma loop_inv: "\<forall>s\<in>set pq. I s \<Longrightarrow> kk_loop pq = Inr pq' \<Longrightarrow> \<forall>s\<in>set pq'. I s"
proof (induction "length pq" arbitrary: pq rule: less_induct)
  case less
  show ?case
  proof (cases "1 < length pq")
    case True
    then obtain s0 s1 q where q: "mset pq = add_mset s0 (add_mset s1 (mset q))"
      "kk_loop pq = kk_loop (heappush state_lt q (state_merge s0 s1))"
      by (rule kk_loop_step)
    let ?q = "heappush state_lt q (state_merge s0 s1)"
    from q(1) have "set pq = insert s0 (insert s1 (set q))" by (metis set_mset_add_mset_insert set_mset_mset)
    with less.prems(1) have "I s0" "I s1" "\<forall>s\<in>set q. I s" by auto
    then have "\<forall>s\<in>set_mset (mset ?q). I s" using merge by auto
    then have "\<forall>s\<in>set ?q. I s" by (simp only: set_mset_mset)
    moreover have "length ?q < length pq"
      using arg_cong [OF q(1), of size] by simp
    ultimately show ?thesis using less.hyps less.prems(2) q(2) by metis
  next
    case False
    with less.prems show ?thesis by (simp add: kk_loop_stop)
  qed
qed

end

locale kk_additive = kk_state_invariant +
  fixes m :: "kk_state \<Rightarrow> 'm::comm_monoid_add"
  assumes additive: "I a \<Longrightarrow> I b \<Longrightarrow> m (state_merge a b) = m a + m b"
begin

lemma loop_sum:
  "\<forall>s\<in>set pq. I s \<Longrightarrow> kk_loop pq = Inr pq' \<Longrightarrow> (\<Sum>s\<in>#mset pq'. m s) = (\<Sum>s\<in>#mset pq. m s)"
proof (induction "length pq" arbitrary: pq rule: less_induct)
  case less
  show ?case
  proof (cases "1 < length pq")
    case True
    then obtain s0 s1 q where q: "mset pq = add_mset s0 (add_mset s1 (mset q))"
      "kk_loop pq = kk_loop (heappush state_lt q (state_merge s0 s1))"
      by (rule kk_loop_step)
    let ?q = "heappush state_lt q (state_merge s0 s1)"
    from q(1) have "set pq = insert s0 (insert s1 (set q))" by (metis set_mset_add_mset_insert set_mset_mset)
    with less.prems(1) have I: "I s0" "I s1" "\<forall>s\<in>set q. I s" by auto
    then have "\<forall>s\<in>set_mset (mset ?q). I s" using merge by auto
    then have "\<forall>s\<in>set ?q. I s" by (simp only: set_mset_mset)
    moreover have "length ?q < length pq"
      using arg_cong [OF q(1), of size] by simp
    ultimately have "(\<Sum>s\<in>#mset pq'. m s) = (\<Sum>s\<in>#mset ?q. m s)"
      using less.hyps less.prems(2) q(2) by metis
    then show ?thesis by (simp add: q(1) additive [OF I(1,2)] ac_simps)
  next
    case False
    with less.prems show ?thesis by (simp add: kk_loop_stop)
  qed
qed

end

section \<open>Well-formed states\<close>

definition kk_wf :: "nat \<Rightarrow> kk_state \<Rightarrow> bool" where
  "kk_wf k s \<longleftrightarrow> st_k s = k \<and> length (st_sets s) = k \<and>
     (\<forall>x\<in>set (st_sets s). set_sum x = sum_list (map snd (set_items x))) \<and>
     sorted_wrt (\<lambda>a b. set_key b \<le> set_key a) (st_sets s)"

definition state_items :: "kk_state \<Rightarrow> (nat \<times> int) multiset" where
  "state_items s = mset (concat (map set_items (st_sets s)))"

abbreviation merged_sets :: "kk_state \<Rightarrow> kk_state \<Rightarrow> kk_set list" where
  "merged_sets a b \<equiv> map (\<lambda>i. set_merge (st_sets a ! i) (st_sets b ! (st_k a - 1 - i))) [0..<st_k a]"

lemma st_sets_state_merge: "st_sets (state_merge a b) = sorted_rev set_key (merged_sets a b)"
  by (simp add: state_merge_def)

lemma mset_state_merge: "mset (st_sets (state_merge a b)) = mset (merged_sets a b)"
  by (simp only: st_sets_state_merge mset_sorted_rev)

lemma set_state_merge: "set (st_sets (state_merge a b)) = set (merged_sets a b)"
  by (simp only: st_sets_state_merge set_sorted_rev)

lemma length_state_merge [simp]: "length (st_sets (state_merge a b)) = st_k a"
  by (simp add: st_sets_state_merge)

lemma st_k_state_merge [simp]: "st_k (state_merge a b) = st_k a"
  by (simp add: state_merge_def)

lemma kk_wf_nth_mono:
  "kk_wf k s \<Longrightarrow> i \<le> j \<Longrightarrow> j < k \<Longrightarrow> set_key (st_sets s ! j) \<le> set_key (st_sets s ! i)"
  unfolding kk_wf_def by (cases "i = j") (auto simp: sorted_wrt_iff_nth_less)

lemma kk_wf_state_merge: "kk_wf k a \<Longrightarrow> kk_wf k b \<Longrightarrow> kk_wf k (state_merge a b)"
  by (auto simp: kk_wf_def st_sets_state_merge sorted_rev_desc)

lemma mset_concat_sorted_rev:
  "mset (concat (map f (sorted_rev g xs))) = mset (concat (map f xs))"
proof -
  have "(\<Sum>x\<in>#mset (sorted_rev g xs). mset (f x)) = (\<Sum>x\<in>#mset xs. mset (f x))" by simp
  then show ?thesis by (simp only: mset_concat_map_cong sum_mset_sum_list flip: mset_map)
qed

lemma sum_list_rev_upt: "(\<Sum>i\<leftarrow>[0..<k]. f (k - Suc i)) = (\<Sum>i\<leftarrow>[0..<k]. f i)"
  for f :: "nat \<Rightarrow> 'a::comm_monoid_add"
proof -
  have "map (\<lambda>i. f (k - Suc i)) [0..<k] = rev (map f [0..<k])"
    by (rule nth_equalityI) (auto simp: rev_nth)
  then show ?thesis by (simp only: sum_list_rev)
qed

lemma state_items_state_merge:
  assumes "kk_wf k a" "kk_wf k b"
  shows "state_items (state_merge a b) = state_items a + state_items b"
proof -
  have len: "st_k a = k" "length (st_sets a) = k" "length (st_sets b) = k"
    using assms by (auto simp: kk_wf_def)
  have nth: "mset (concat (map set_items xs)) = (\<Sum>i\<leftarrow>[0..<length xs]. mset (set_items (xs ! i)))"
    for xs :: "kk_set list"
  proof -
    have "map set_items xs = map (\<lambda>i. set_items (xs ! i)) [0..<length xs]"
      by (metis (no_types, lifting) comp_def map_nth map_map map_eq_conv)
    then show ?thesis by (simp add: mset_concat comp_def)
  qed
  have "state_items (state_merge a b) = mset (concat (map set_items (merged_sets a b)))"
    by (simp only: state_items_def st_sets_state_merge mset_concat_sorted_rev)
  also have "\<dots> =
      (\<Sum>i\<leftarrow>[0..<k]. mset (set_items (st_sets a ! i)) + mset (set_items (st_sets b ! (k - 1 - i))))"
    by (simp add: mset_concat comp_def len)
  also have "\<dots> = (\<Sum>i\<leftarrow>[0..<k]. mset (set_items (st_sets a ! i))) +
      (\<Sum>i\<leftarrow>[0..<k]. mset (set_items (st_sets b ! (k - 1 - i))))"
    by (simp add: sum_list_addf)
  also have "\<dots> = state_items a + state_items b"
    by (simp add: sum_list_rev_upt [of "\<lambda>i. mset (set_items (st_sets b ! i))"] state_items_def nth len)
  finally show ?thesis .
qed

interpretation kk_items: kk_additive "kk_wf k" state_items for k
  by unfold_locales (auto simp: kk_wf_state_merge state_items_state_merge)

section \<open>Equal sizes, filled sets and the spread under merging\<close>

text \<open>With equal sizes every set of a state holds the same number of items.\<close>

definition kk_uniform :: "nat \<Rightarrow> kk_state \<Rightarrow> bool" where
  "kk_uniform k s \<longleftrightarrow> kk_wf k s \<and>
     (\<exists>n. \<forall>x\<in>set (st_sets s). length (set_items x) = n)"

lemma kk_uniform_merge: "kk_uniform k a \<Longrightarrow> kk_uniform k b \<Longrightarrow> kk_uniform k (state_merge a b)"
proof -
  assume a: "kk_uniform k a" and b: "kk_uniform k b"
  then obtain n m where
    n: "\<forall>x\<in>set (st_sets a). length (set_items x) = n" and
    m: "\<forall>x\<in>set (st_sets b). length (set_items x) = m" and
    wf: "kk_wf k a" "kk_wf k b" by (auto simp: kk_uniform_def)
  from wf have len: "st_k a = k" "length (st_sets a) = k" "length (st_sets b) = k"
    by (auto simp: kk_wf_def)
  have "length (set_items x) = n + m" if "x \<in> set (merged_sets a b)" for x
  proof -
    from that obtain i where "i < k" and x: "x = set_merge (st_sets a ! i) (st_sets b ! (k - 1 - i))"
      by (auto simp: len)
    then have "st_sets a ! i \<in> set (st_sets a)" "st_sets b ! (k - 1 - i) \<in> set (st_sets b)"
      by (simp_all add: len)
    with n m x show ?thesis by simp
  qed
  with kk_wf_state_merge [OF wf] show ?thesis
    unfolding kk_uniform_def by (auto simp: st_sets_state_merge)
qed

interpretation kk_equal: kk_state_invariant "kk_uniform k" for k
  by unfold_locales (rule kk_uniform_merge)

text \<open>
  With non-negative values the non-empty sets of a state come first, and merging fills as many
  sets as there are items, until all \<open>k\<close> are filled.
\<close>

definition kk_filled :: "nat \<Rightarrow> kk_state \<Rightarrow> bool" where
  "kk_filled k s \<longleftrightarrow> kk_wf k s \<and>
     (\<forall>x\<in>set (st_sets s). \<forall>v\<in>snd ` set (set_items x). 0 \<le> v) \<and>
     length (filter (\<lambda>x. set_items x \<noteq> []) (st_sets s)) = min k (size (state_items s))"

lemma kk_filled_first:
  assumes s: "kk_filled k s" and ij: "i \<le> j" "j < k" and ne: "set_items (st_sets s ! j) \<noteq> []"
  shows "set_items (st_sets s ! i) \<noteq> []"
proof
  assume "set_items (st_sets s ! i) = []"
  moreover have wf: "kk_wf k s" using s by (simp add: kk_filled_def)
  moreover have in_j: "st_sets s ! j \<in> set (st_sets s)" and in_i: "st_sets s ! i \<in> set (st_sets s)"
    using wf ij by (auto simp: kk_wf_def)
  ultimately have "set_key (st_sets s ! i) = (0, 0, [])"
    by (auto simp: set_key_def kk_wf_def)
  moreover have "0 \<le> sum_list (map snd (set_items (st_sets s ! j)))"
    using s in_j by (intro sum_list_nonneg) (auto simp: kk_filled_def)
  then have "0 \<le> set_sum (st_sets s ! j)" using wf in_j by (simp add: kk_wf_def)
  then have "\<not> set_key (st_sets s ! j) \<le> (0, 0, [])"
    using ne by (auto simp: set_key_def less_eq_prod_def)
  ultimately show False using kk_wf_nth_mono [OF wf ij] by simp
qed

lemma count_first:
  assumes "\<And>i j. i \<le> j \<Longrightarrow> j < k \<Longrightarrow> P j \<Longrightarrow> P i"
  shows "i < k \<Longrightarrow> P i \<longleftrightarrow> i < length (filter P [0..<k])"
  using assms
proof (induction k)
  case 0
  then show ?case by simp
next
  case (Suc k)
  show ?case
  proof (cases "P k")
    case True
    then have "\<forall>i\<le>k. P i" using Suc.prems(2) by blast
    then have "filter P [0..<Suc k] = [0..<Suc k]" by (intro filter_True) auto
    then show ?thesis using \<open>\<forall>i\<le>k. P i\<close> Suc.prems(1) by simp
  next
    case False
    have mono: "\<And>i j. i \<le> j \<Longrightarrow> j < k \<Longrightarrow> P j \<Longrightarrow> P i" using Suc.prems(2) by (meson less_SucI)
    show ?thesis
    proof (cases "i = k")
      case True
      moreover have "length (filter P [0..<k]) \<le> k" using length_filter_le [of P "[0..<k]"] by simp
      ultimately show ?thesis using False by simp
    next
      case neq: False
      with Suc.prems(1) have "i < k" by simp
      with Suc.IH [OF _ mono] False show ?thesis by simp
    qed
  qed
qed

lemma filter_nth_upt: "length (filter Q xs) = length (filter (\<lambda>i. Q (xs ! i)) [0..<length xs])"
proof -
  have "filter Q xs = filter Q (map ((!) xs) [0..<length xs])" by (simp add: map_nth)
  then show ?thesis by (simp only: filter_map length_map comp_def)
qed

lemma kk_filled_nth_iff:
  assumes s: "kk_filled k s" and i: "i < k"
  shows "set_items (st_sets s ! i) \<noteq> [] \<longleftrightarrow> i < min k (size (state_items s))"
proof -
  have len: "length (st_sets s) = k" using s by (simp add: kk_filled_def kk_wf_def)
  have "set_items (st_sets s ! i) \<noteq> [] \<longleftrightarrow>
      i < length (filter (\<lambda>i. set_items (st_sets s ! i) \<noteq> []) [0..<k])"
    using kk_filled_first [OF s] by (intro count_first [OF _ i]) blast
  also have "length (filter (\<lambda>i. set_items (st_sets s ! i) \<noteq> []) [0..<k]) = min k (size (state_items s))"
    using s filter_nth_upt [of "\<lambda>x. set_items x \<noteq> []" "st_sets s"] by (simp add: kk_filled_def len)
  finally show ?thesis .
qed

lemma length_filter_mset_cong: "mset xs = mset ys \<Longrightarrow> length (filter P xs) = length (filter P ys)"
  by (metis mset_filter size_mset)

lemma count_two_ends:
  assumes "p \<le> k" "q \<le> k"
  shows "length (filter (\<lambda>i. i < p \<or> k - 1 - i < q) [0..<k]) = min k (p + q)"
proof -
  have "filter (\<lambda>i. i < p \<or> k - 1 - i < q) [0..<k] = filter (\<lambda>i. i < p \<or> k \<le> i + q) [0..<k]"
    by (rule filter_cong) auto
  moreover have "{i. (i < p \<or> k \<le> i + q) \<and> i < k} = {..<k} - {p..<k - q}" using assms by auto
  moreover have "card ({..<k} - {p..<k - q}) = k - (k - q - p)"
    by (subst card_Diff_subset) auto
  moreover have "length (filter P [0..<k]) = card {i. P i \<and> i < k}" for P
    by (subst distinct_card [symmetric]) (auto intro: arg_cong [of _ _ card])
  ultimately show ?thesis using assms by auto
qed

lemma kk_filled_merge:
  assumes a: "kk_filled k a" and b: "kk_filled k b"
  shows "kk_filled k (state_merge a b)"
proof -
  have wf: "kk_wf k a" "kk_wf k b" using a b by (auto simp: kk_filled_def)
  then have len: "st_k a = k" "length (st_sets a) = k" "length (st_sets b) = k"
    by (auto simp: kk_wf_def)
  let ?n = "size (state_items a)" and ?m = "size (state_items b)"
  have "length (filter (\<lambda>x. set_items x \<noteq> []) (st_sets (state_merge a b)))
      = length (filter (\<lambda>x. set_items x \<noteq> []) (merged_sets a b))"
    by (rule length_filter_mset_cong [OF mset_state_merge])
  also have "\<dots> = length (filter (\<lambda>i. i < min k ?n \<or> k - 1 - i < min k ?m) [0..<k])"
  proof -
    have "set_items (st_sets a ! i) @ set_items (st_sets b ! (k - 1 - i)) \<noteq> [] \<longleftrightarrow>
        i < min k ?n \<or> k - 1 - i < min k ?m" if "i < k" for i
      using kk_filled_nth_iff [OF a that] kk_filled_nth_iff [OF b, of "k - 1 - i"] that by auto
    then have "filter (\<lambda>i. set_items (st_sets a ! i) @ set_items (st_sets b ! (k - 1 - i)) \<noteq> []) [0..<k]
        = filter (\<lambda>i. i < min k ?n \<or> k - 1 - i < min k ?m) [0..<k]"
      by (intro filter_cong refl) (simp only: atLeastLessThan_iff set_upt)
    then show ?thesis by (simp only: filter_map comp_def len length_map set_merge_simps)
  qed
  also have "\<dots> = min k (min k ?n + min k ?m)" by (rule count_two_ends) auto
  also have "\<dots> = min k (size (state_items (state_merge a b)))"
    by (simp add: state_items_state_merge [OF wf])
  finally have count: "length (filter (\<lambda>x. set_items x \<noteq> []) (st_sets (state_merge a b)))
      = min k (size (state_items (state_merge a b)))" .
  have "\<forall>v\<in>snd ` set (set_items x). 0 \<le> v" if "x \<in> set (merged_sets a b)" for x
  proof -
    from that obtain i where "i < k" and x: "x = set_merge (st_sets a ! i) (st_sets b ! (k - 1 - i))"
      by (auto simp: len)
    then have "st_sets a ! i \<in> set (st_sets a)" "st_sets b ! (k - 1 - i) \<in> set (st_sets b)"
      by (simp_all add: len)
    with a b x show ?thesis unfolding kk_filled_def by (auto simp del: upt_Suc)
  qed
  with count kk_wf_state_merge [OF wf] show ?thesis
    unfolding kk_filled_def by (auto simp: st_sets_state_merge)
qed

interpretation kk_nonneg: kk_state_invariant "kk_filled k" for k
  by unfold_locales (rule kk_filled_merge)

text \<open>Merging pairs large sets with small ones, so the spread never exceeds the larger spread.\<close>

definition kk_spread_le :: "nat \<Rightarrow> int \<Rightarrow> kk_state \<Rightarrow> bool" where
  "kk_spread_le k B s \<longleftrightarrow> kk_wf k s \<and>
     (\<forall>i<k. \<forall>j<k. set_sum (st_sets s ! i) - set_sum (st_sets s ! j) \<le> B)"

lemma kk_spread_le_merge:
  assumes a: "kk_spread_le k B a" and b: "kk_spread_le k B b"
  shows "kk_spread_le k B (state_merge a b)"
proof -
  have wf: "kk_wf k a" "kk_wf k b" using a b by (auto simp: kk_spread_le_def)
  then have len: "st_k a = k" "length (st_sets a) = k" "length (st_sets b) = k"
    by (auto simp: kk_wf_def)
  let ?f = "\<lambda>i. set_sum (st_sets a ! i) + set_sum (st_sets b ! (k - 1 - i))"
  have diff: "?f i - ?f j \<le> B" if ij: "i < k" "j < k" for i j
  proof (cases "i \<le> j")
    case True
    then have "set_key (st_sets b ! (k - 1 - i)) \<le> set_key (st_sets b ! (k - 1 - j))"
      using ij by (intro kk_wf_nth_mono [OF wf(2)]) auto
    then have "set_sum (st_sets b ! (k - 1 - i)) \<le> set_sum (st_sets b ! (k - 1 - j))"
      by (rule set_key_mono_sum)
    moreover have "set_sum (st_sets a ! i) - set_sum (st_sets a ! j) \<le> B"
      using a ij by (simp add: kk_spread_le_def)
    ultimately show ?thesis by linarith
  next
    case False
    then have "set_key (st_sets a ! i) \<le> set_key (st_sets a ! j)"
      using ij by (intro kk_wf_nth_mono [OF wf(1)]) auto
    then have "set_sum (st_sets a ! i) \<le> set_sum (st_sets a ! j)"
      by (rule set_key_mono_sum)
    moreover have "k - 1 - i < k" "k - 1 - j < k" using ij by auto
    then have "set_sum (st_sets b ! (k - 1 - i)) - set_sum (st_sets b ! (k - 1 - j)) \<le> B"
      using b unfolding kk_spread_le_def by blast
    ultimately show ?thesis by linarith
  qed
  have val: "\<exists>i<k. set_sum x = ?f i" if "x \<in> set (merged_sets a b)" for x
  proof -
    from that obtain i where i: "i < k" and x: "x = set_merge (st_sets a ! i) (st_sets b ! (k - 1 - i))"
      by (auto simp: len)
    then have "st_sets b ! (k - 1 - i) \<in> set (st_sets b)" by (simp add: len)
    with wf(2) x i show ?thesis by (auto simp: kk_wf_def)
  qed
  have "set_sum (st_sets (state_merge a b) ! i) - set_sum (st_sets (state_merge a b) ! j) \<le> B"
    if ij: "i < k" "j < k" for i j
  proof -
    have mem: "st_sets (state_merge a b) ! l \<in> set (merged_sets a b)" if "l < k" for l
      using that nth_mem [of l "st_sets (state_merge a b)"] by (simp only: length_state_merge len set_state_merge)
    from val [OF mem [OF ij(1)]] val [OF mem [OF ij(2)]] obtain i' j' where
      "i' < k" "set_sum (st_sets (state_merge a b) ! i) = ?f i'"
      "j' < k" "set_sum (st_sets (state_merge a b) ! j) = ?f j'" by blast
    with diff show ?thesis by simp
  qed
  with kk_wf_state_merge [OF wf] show ?thesis by (simp add: kk_spread_le_def)
qed

interpretation kk_balance: kk_state_invariant "kk_spread_le k B" for k B
  by unfold_locales (rule kk_spread_le_merge)

section \<open>The initial states\<close>

abbreviation single :: "nat \<times> int \<Rightarrow> kk_set" where
  "single x \<equiv> set_add (fst x) (snd x) set_new"

abbreviation init_sets :: "(nat \<times> int) list \<Rightarrow> nat \<Rightarrow> kk_set list" where
  "init_sets items k \<equiv> map single items @ replicate (k - length items) set_new"

lemma state_init_fold:
  "length xs \<le> m \<Longrightarrow>
   fold_r (\<lambda>(i, idx, seqlen) sets.
      if i < length sets then Inr (sets[i := set_add idx seqlen (sets ! i)]) else Inl IndexError)
     (List.enumerate (length pre) xs) (pre @ replicate m set_new)
   = Inr (pre @ init_sets xs m)"
proof (induction xs arbitrary: pre m)
  case Nil
  then show ?case by simp
next
  case (Cons x xs)
  then obtain m' where m: "m = Suc m'" "length xs \<le> m'" by (cases m) auto
  have len: "Suc (length pre) = length (pre @ [single x])" by simp
  have "fold_r (\<lambda>(i, idx, seqlen) sets.
      if i < length sets then Inr (sets[i := set_add idx seqlen (sets ! i)]) else Inl IndexError)
     (List.enumerate (length (pre @ [single x])) xs) ((pre @ [single x]) @ replicate m' set_new)
    = Inr ((pre @ [single x]) @ init_sets xs m')" using m(2) by (rule Cons.IH)
  then show ?case by (cases x) (simp add: m list_update_append nth_append)
qed

lemma state_init_ok:
  assumes "length items = 1 \<or> length items = k" "length items \<le> k"
  shows "state_init items k = Inr \<lparr>st_k = k, st_sets = sorted_rev set_key (init_sets items k)\<rparr>"
  using assms state_init_fold [of items k "[]"] by (simp add: state_init_def)

lemma set_add_simps [simp]:
  "set_sum (set_add idx v x) = set_sum x + v" "set_items (set_add idx v x) = set_items x @ [(idx, v)]"
  by (simp_all add: set_add_def)

lemma set_new_simps [simp]: "set_sum set_new = 0" "set_items set_new = []"
  by (simp_all add: set_new_def)

lemma state_init_shape:
  assumes "state_init items k = Inr s" "length items \<le> k"
  shows "st_k s = k \<and> st_sets s = sorted_rev set_key (init_sets items k)
    \<and> (length items = 1 \<or> length items = k)"
proof -
  from assms have "length items = 1 \<or> length items = k"
    by (auto simp: state_init_def rbind_eq_Inr_iff)
  with assms state_init_ok [of items k] show ?thesis by auto
qed

lemma state_init_wf:
  assumes "state_init items k = Inr s" "length items \<le> k"
  shows "kk_wf k s"
  using state_init_shape [OF assms] assms(2) by (auto simp: kk_wf_def sorted_rev_desc)

lemma state_init_items:
  assumes "state_init items k = Inr s" "length items \<le> k"
  shows "state_items s = mset items"
proof -
  have "concat (map set_items (init_sets items k)) = items"
    by (induction items) (simp_all add: concat_replicate_trivial comp_def)
  with state_init_shape [OF assms] show ?thesis by (simp only: state_items_def mset_concat_sorted_rev)
qed

lemma state_init_uniform:
  assumes "state_init items k = Inr s" "length items = k"
  shows "kk_uniform k s"
proof -
  have le: "length items \<le> k" using assms(2) by simp
  have "set (st_sets s) = set (init_sets items k)"
    using state_init_shape [OF assms(1) le] by (simp only: set_sorted_rev)
  moreover have "init_sets items k = map single items" by (simp add: assms(2) [symmetric])
  ultimately have "set (st_sets s) = single ` set items" by simp
  then have "\<forall>x\<in>set (st_sets s). length (set_items x) = 1" by (simp add: ball_simps)
  with state_init_wf [OF assms(1) le] show ?thesis unfolding kk_uniform_def by blast
qed

lemma state_init_filled:
  assumes "state_init [(i, v)] k = Inr s" "0 < k" "0 \<le> v"
  shows "kk_filled k s"
proof -
  have len: "length [(i, v)] \<le> k" using assms(2) by simp
  have "mset (st_sets s) = mset (init_sets [(i, v)] k)"
    using state_init_shape [OF assms(1) len] by (simp only: mset_sorted_rev)
  then have "length (filter (\<lambda>x. set_items x \<noteq> []) (st_sets s))
      = length (filter (\<lambda>x. set_items x \<noteq> []) (init_sets [(i, v)] k))"
    by (rule length_filter_mset_cong)
  also have "\<dots> = 1" by simp
  finally show ?thesis
    using state_init_shape [OF assms(1) len] state_init_wf [OF assms(1) len]
      state_init_items [OF assms(1) len] assms(2,3)
    by (auto simp: kk_filled_def)
qed

lemma state_init_spread:
  assumes "state_init items k = Inr s" "length items \<le> k"
    and "\<And>x y. x \<in> set (init_sets items k) \<Longrightarrow> y \<in> set (init_sets items k) \<Longrightarrow> set_sum x - set_sum y \<le> B"
  shows "kk_spread_le k B s"
proof -
  note wf = state_init_wf [OF assms(1,2)]
  have mem: "st_sets s ! i \<in> set (init_sets items k)" if "i < k" for i
    using that wf nth_mem [of i "st_sets s"] state_init_shape [OF assms(1,2)]
    by (simp only: kk_wf_def set_sorted_rev)
  with wf assms(3) show ?thesis by (simp add: kk_spread_le_def)
qed

section \<open>What the loop leaves\<close>

lemma kk_final:
  assumes "states \<noteq> []"
  obtains final where "kk_loop (foldl (heappush state_lt) [] states) = Inr [final]"
    and "\<And>k. \<forall>s\<in>set states. kk_wf k s \<Longrightarrow>
      kk_wf k final \<and> state_items final = (\<Sum>s\<leftarrow>states. state_items s)"
    and "\<And>k. \<forall>s\<in>set states. kk_uniform k s \<Longrightarrow> kk_uniform k final"
    and "\<And>k. \<forall>s\<in>set states. kk_filled k s \<Longrightarrow> kk_filled k final"
    and "\<And>k B. \<forall>s\<in>set states. kk_spread_le k B s \<Longrightarrow> kk_spread_le k B final"
proof -
  let ?pq = "foldl (heappush state_lt) [] states"
  have m: "mset ?pq = mset states" using kk_heap.heap.elems_push_all [of "[]" states] by simp
  then have st: "set ?pq = set states" and "length ?pq = length states"
    by (metis set_mset_mset, metis size_mset)
  with assms have "min 1 (length ?pq) = 1" by (cases states) simp_all
  with kk_loop_returns [of ?pq] obtain pq' where pq': "kk_loop ?pq = Inr pq'" "length pq' = 1" by auto
  from pq'(2) obtain final where "pq' = [final]" by (auto simp: length_Suc_conv)
  with pq'(1) have r: "kk_loop ?pq = Inr [final]" by simp
  show ?thesis
  proof (rule that [OF r])
    fix k assume a: "\<forall>s\<in>set states. kk_wf k s"
    with kk_items.loop_inv [OF _ r] kk_items.loop_sum [OF _ r]
    show "kk_wf k final \<and> state_items final = (\<Sum>s\<leftarrow>states. state_items s)"
      by (simp add: st m sum_mset_sum_list flip: mset_map)
  next
    fix k assume "\<forall>s\<in>set states. kk_uniform k s"
    with kk_equal.loop_inv [OF _ r] show "kk_uniform k final" by (simp add: st)
  next
    fix k assume "\<forall>s\<in>set states. kk_filled k s"
    with kk_nonneg.loop_inv [OF _ r] show "kk_filled k final" by (simp add: st)
  next
    fix k B assume "\<forall>s\<in>set states. kk_spread_le k B s"
    with kk_balance.loop_inv [OF _ r] show "kk_spread_le k B final" by (simp add: st)
  qed
qed

abbreviation swap_pair :: "'a \<times> 'b \<Rightarrow> 'b \<times> 'a" where
  "swap_pair \<equiv> (\<lambda>(a, b). (b, a))"

abbreviation sorted_seqlens :: "int list \<Rightarrow> (int \<times> nat) list" where
  "sorted_seqlens xs \<equiv> sort (map swap_pair (List.enumerate 0 xs))"

abbreviation init_state :: "(nat \<times> int) list \<Rightarrow> nat \<Rightarrow> kk_state" where
  "init_state items k \<equiv> \<lparr>st_k = k, st_sets = sorted_rev set_key (init_sets items k)\<rparr>"

lemma mset_sorted_seqlens: "mset (map swap_pair (sorted_seqlens xs)) = mset (List.enumerate 0 xs)"
proof -
  have "mset (map swap_pair (sorted_seqlens xs)) = image_mset swap_pair (image_mset swap_pair (mset (List.enumerate 0 xs)))"
    by simp
  also have "\<dots> = mset (List.enumerate 0 xs)"
    by (simp add: image_mset.compositionality comp_def split_beta flip: mset_map)
  finally show ?thesis .
qed

lemma snd_sorted_seqlens: "x \<in> set (sorted_seqlens xs) \<Longrightarrow> fst x \<in> set xs"
  by (auto simp: in_set_enumerate_eq)

lemma kk_initial_states_unequal:
  assumes "0 < k"
  obtains states where "kk_initial_states xs k False = Inr states" "length states = length xs"
    "(\<Sum>s\<leftarrow>states. state_items s) = mset (List.enumerate 0 xs)"
    "\<And>s. s \<in> set states \<Longrightarrow> \<exists>i v. v \<in> set xs \<and> state_init [(i, v)] k = Inr s"
proof -
  let ?g = "\<lambda>x. init_state [swap_pair x] k"
  have ini: "state_init [y] k = Inr (init_state [y] k)" for y
    using assms by (intro state_init_ok) auto
  have r: "kk_initial_states xs k False = Inr (map ?g (sorted_seqlens xs))"
    unfolding kk_initial_states_def Let_def if_False
    by (rule map_r_Inr) (simp only: ini split_beta)
  have "(\<Sum>s\<leftarrow>map ?g (sorted_seqlens xs). state_items s) = (\<Sum>x\<leftarrow>sorted_seqlens xs. {#swap_pair x#})"
    using assms state_init_items [OF ini] by (simp add: comp_def)
  also have "\<dots> = mset (map swap_pair (sorted_seqlens xs))" by (induction "sorted_seqlens xs") auto
  also have "\<dots> = mset (List.enumerate 0 xs)" by (rule mset_sorted_seqlens)
  finally have sum: "(\<Sum>s\<leftarrow>map ?g (sorted_seqlens xs). state_items s) = mset (List.enumerate 0 xs)" .
  show ?thesis
  proof (rule that [OF r _ sum])
    show "length (map ?g (sorted_seqlens xs)) = length xs" by simp
    fix s assume "s \<in> set (map ?g (sorted_seqlens xs))"
    then obtain x where "x \<in> set (sorted_seqlens xs)" "s = init_state [swap_pair x] k"
      unfolding set_map by blast
    moreover obtain v i where "x = (v, i)" by (cases x)
    ultimately have "v \<in> set xs \<and> state_init [(i, v)] k = Inr s"
      using ini [of "(i, v)"] snd_sorted_seqlens [of x] by (simp only: split fst_conv)
    then show "\<exists>i v. v \<in> set xs \<and> state_init [(i, v)] k = Inr s" by blast
  qed
qed

lemma kk_initial_states_equal:
  assumes "0 < k" "k dvd length xs"
  obtains states where "kk_initial_states xs k True = Inr states" "states = [] \<longleftrightarrow> xs = []"
    "(\<Sum>s\<leftarrow>states. state_items s) = mset (List.enumerate 0 xs)"
    "\<And>s. s \<in> set states \<Longrightarrow>
      \<exists>items. length items = k \<and> snd ` set items \<subseteq> set xs \<and> state_init items k = Inr s"
proof -
  let ?sl = "sorted_seqlens xs"
  let ?g = "\<lambda>grp. init_state (map swap_pair grp) k"
  have dvd: "k dvd length ?sl" using assms by simp
  have len: "length grp = k" if "grp \<in> set (chunks_of k ?sl)" for grp
    using that by (rule chunks_of_length_exact [OF dvd])
  have ini: "state_init (map swap_pair grp) k = Inr (?g grp)" if "grp \<in> set (chunks_of k ?sl)" for grp
    using len [OF that] by (intro state_init_ok) auto
  have r: "kk_initial_states xs k True = Inr (map ?g (chunks_of k ?sl))"
    unfolding kk_initial_states_def using assms ini by (auto simp: Let_def dvd_eq_mod_eq_0 intro!: map_r_Inr)
  have "(\<Sum>s\<leftarrow>map ?g (chunks_of k ?sl). state_items s) = (\<Sum>grp\<leftarrow>chunks_of k ?sl. mset (map swap_pair grp))"
    using state_init_items [OF ini] len by (auto intro!: arg_cong [of _ _ sum_list] simp del: mset_map)
  also have "\<dots> = mset (map swap_pair (concat (chunks_of k ?sl)))"
    by (induction "chunks_of k ?sl" rule: list.induct) (auto simp: mset_concat map_concat comp_def)
  also have "\<dots> = mset (List.enumerate 0 xs)" using assms(1) by (simp only: concat_chunks_of mset_sorted_seqlens)
  finally have sum: "(\<Sum>s\<leftarrow>map ?g (chunks_of k ?sl). state_items s) = mset (List.enumerate 0 xs)" .
  have mem: "set grp \<subseteq> set ?sl" if "grp \<in> set (chunks_of k ?sl)" for grp
    using that concat_chunks_of [of k ?sl] assms(1) by (metis UN_upper gr_implies_not0 set_concat)
  show ?thesis
  proof (rule that [OF r _ sum])
    have "chunks_of k ?sl = [] \<longleftrightarrow> ?sl = []"
      using assms(1) by (cases "?sl = []") (simp_all add: chunks_of_step)
    moreover have "length ?sl = length xs" by simp
    ultimately show "map ?g (chunks_of k ?sl) = [] \<longleftrightarrow> xs = []"
      by (simp only: length_map flip: length_0_conv)
    fix s assume "s \<in> set (map ?g (chunks_of k ?sl))"
    then obtain grp where grp: "grp \<in> set (chunks_of k ?sl)" "s = ?g grp" by auto
    moreover have "snd ` set (map swap_pair grp) \<subseteq> set xs"
      using mem [OF grp(1)] snd_sorted_seqlens by (fastforce split: prod.splits)
    moreover have "length (map swap_pair grp) = k" using len [OF grp(1)] by simp
    moreover have "state_init (map swap_pair grp) k = Inr s" using ini [OF grp(1)] grp(2) by (simp only:)
    ultimately show "\<exists>items. length items = k \<and> snd ` set items \<subseteq> set xs \<and> state_init items k = Inr s"
      by blast
  qed
qed

section \<open>Reading the partitions off the final state\<close>

definition part_sum :: "int list \<Rightarrow> nat list \<Rightarrow> int" where
  "part_sum xs p = (\<Sum>i\<leftarrow>p. xs ! i)"

lemma part_sum_sort [simp]: "part_sum xs (sort p) = part_sum xs p"
  unfolding part_sum_def by (metis mset_map mset_sort sum_mset_sum_list)

lemma get_partitions_indices:
  assumes "state_items final = mset (List.enumerate 0 xs)"
  shows "mset (concat (get_partitions final)) = mset [0..<length xs]"
proof -
  have "concat (get_partitions final) = map fst (concat (map set_items (st_sets final)))"
    by (simp add: get_partitions_def map_concat comp_def)
  then have "mset (concat (get_partitions final)) = image_mset fst (state_items final)"
    by (simp add: state_items_def)
  also have "\<dots> = mset (map fst (List.enumerate 0 xs))" by (simp only: assms mset_map)
  also have "map fst (List.enumerate 0 xs) = [0..<length xs]" by simp
  finally show ?thesis .
qed

lemma get_partitions_sums:
  assumes "state_items final = mset (List.enumerate 0 xs)" "kk_wf k final" "i < k"
  shows "part_sum xs (get_partitions final ! i) = set_sum (st_sets final ! i)"
proof -
  let ?x = "st_sets final ! i"
  have len: "length (st_sets final) = k" using assms(2) by (simp add: kk_wf_def)
  then have mem: "?x \<in> set (st_sets final)" using assms(3) by simp
  have "set (set_items ?x) \<subseteq> set_mset (state_items final)"
    using mem by (auto simp: state_items_def)
  then have val: "xs ! fst y = snd y" if "y \<in> set (set_items ?x)" for y
    using that assms(1) by (auto simp: in_set_enumerate_eq subset_iff)
  have "part_sum xs (get_partitions final ! i) = (\<Sum>y\<leftarrow>set_items ?x. xs ! fst y)"
    using assms(3) len by (simp add: get_partitions_def part_sum_def comp_def)
  also have "\<dots> = (\<Sum>y\<leftarrow>set_items ?x. snd y)" using val by (metis map_ext)
  also have "\<dots> = set_sum ?x" using assms(2) mem by (simp add: kk_wf_def)
  finally show ?thesis .
qed

lemma check_and_sort_partitions_ok:
  assumes "length ps = k" "\<forall>p\<in>set ps. p \<noteq> []" "mset (concat ps) = mset [0..<length xs]"
  shows "check_and_sort_partitions xs k ps = Inr (map sort ps)"
proof -
  have "map_r (\<lambda>p. rbind (assert_r (0 < length p) AssertionError) (\<lambda>_. Inr (sort p))) ps
      = Inr (map sort ps)"
    using assms(2) by (intro map_r_Inr) simp
  moreover have "set (concat ps) = set [0..<length xs]" using assms(3) by (rule mset_eq_setD)
  ultimately show ?thesis using assms(1) by (simp add: check_and_sort_partitions_def)
qed

lemma mset_concat_map_sort: "mset (concat (map sort ps)) = mset (concat ps)"
  by (induction ps) auto

text \<open>What a caller of \<open>get_seqlen_balanced_partitions\<close> may rely on.\<close>

definition balanced_partition :: "int list \<Rightarrow> nat \<Rightarrow> int \<Rightarrow> nat list list \<Rightarrow> bool" where
  "balanced_partition xs k B ps \<longleftrightarrow>
     length ps = k \<and> mset (concat ps) = mset [0..<length xs] \<and>
     (\<forall>p\<in>set ps. p \<noteq> [] \<and> sorted p) \<and>
     (\<forall>p\<in>set ps. \<forall>q\<in>set ps. part_sum xs p - part_sum xs q \<le> B)"

lemma balanced_partition_final:
  assumes items: "state_items final = mset (List.enumerate 0 xs)"
    and spread: "kk_spread_le k B final" and ne: "\<forall>p\<in>set (get_partitions final). p \<noteq> []"
  shows "check_and_sort_partitions xs k (get_partitions final) = Inr (map sort (get_partitions final))
    \<and> balanced_partition xs k B (map sort (get_partitions final))"
proof
  let ?ps = "get_partitions final"
  have wf: "kk_wf k final" using spread by (simp add: kk_spread_le_def)
  then have len: "length ?ps = k" by (simp add: get_partitions_def kk_wf_def)
  note idx = get_partitions_indices [OF items]
  show "check_and_sort_partitions xs k ?ps = Inr (map sort ?ps)"
    by (rule check_and_sort_partitions_ok [OF len ne idx])
  have "part_sum xs p - part_sum xs q \<le> B" if pq: "p \<in> set ?ps" "q \<in> set ?ps" for p q
  proof -
    from pq len obtain i j where "i < k" "p = ?ps ! i" "j < k" "q = ?ps ! j"
      by (metis in_set_conv_nth)
    with spread get_partitions_sums [OF items wf] show ?thesis by (simp add: kk_spread_le_def)
  qed
  moreover have "sort p \<noteq> []" if "p \<in> set ?ps" for p
    using ne that by (metis length_0_conv length_sort)
  ultimately show "balanced_partition xs k B (map sort ?ps)"
    using len idx by (simp add: balanced_partition_def mset_concat_map_sort)
qed

lemma karmarkar_karp_unequal:
  assumes k: "0 < k" and xs: "xs \<noteq> []" "\<forall>x\<in>set xs. 0 \<le> x"
  obtains final where "karmarkar_karp xs k False = Inr (get_partitions final)"
    "state_items final = mset (List.enumerate 0 xs)" "kk_filled k final"
    "kk_spread_le k (Max (set xs)) final"
proof -
  obtain states where st: "kk_initial_states xs k False = Inr states" "length states = length xs"
    "(\<Sum>s\<leftarrow>states. state_items s) = mset (List.enumerate 0 xs)"
    "\<And>s. s \<in> set states \<Longrightarrow> \<exists>i v. v \<in> set xs \<and> state_init [(i, v)] k = Inr s"
    using kk_initial_states_unequal [OF k] by blast
  have ini: "kk_wf k s \<and> kk_filled k s \<and> kk_spread_le k (Max (set xs)) s" if "s \<in> set states" for s
  proof -
    from st(4) [OF that] obtain i v where v: "v \<in> set xs" "state_init [(i, v)] k = Inr s" by blast
    have bnd: "0 \<le> v" "v \<le> Max (set xs)" using v xs by auto
    have le: "length [(i, v)] \<le> k" using k by simp
    have "kk_spread_le k (Max (set xs)) s"
      by (rule state_init_spread [OF v(2) le]) (use bnd in auto)
    with state_init_wf [OF v(2) le] state_init_filled [OF v(2) k bnd(1)] show ?thesis by blast
  qed
  have "states \<noteq> []" using st(2) xs by auto
  then obtain final where f: "kk_loop (foldl (heappush state_lt) [] states) = Inr [final]"
    "state_items final = mset (List.enumerate 0 xs)" "kk_filled k final"
    "kk_spread_le k (Max (set xs)) final"
    using ini st(3) by (elim kk_final) (metis (no_types, lifting))
  then have "karmarkar_karp xs k False = Inr (get_partitions final)"
    by (simp add: karmarkar_karp_def st(1) py_nth_def)
  with f that show ?thesis by blast
qed

lemma uniform_partition_sizes:
  assumes "kk_uniform k final" "state_items final = mset (List.enumerate 0 xs)"
  shows "\<forall>p\<in>set (get_partitions final). length p * k = length xs"
proof -
  obtain n where n: "\<forall>x\<in>set (st_sets final). length (set_items x) = n"
    and len: "length (st_sets final) = k"
    using assms(1) by (auto simp: kk_uniform_def kk_wf_def)
  have "length xs = size (state_items final)" by (simp add: assms(2))
  also have "\<dots> = (\<Sum>x\<leftarrow>st_sets final. length (set_items x))"
    by (simp add: state_items_def length_concat comp_def)
  also have "\<dots> = (\<Sum>x\<leftarrow>st_sets final. n)"
    using n by (intro arg_cong [of _ _ sum_list] map_cong) auto
  also have "\<dots> = n * k" by (simp add: sum_list_triv len)
  finally show ?thesis using n by (auto simp: get_partitions_def)
qed

lemma karmarkar_karp_equal:
  assumes k: "0 < k" "k dvd length xs" and xs: "xs \<noteq> []"
  obtains final where "karmarkar_karp xs k True = Inr (get_partitions final)"
    "state_items final = mset (List.enumerate 0 xs)"
    "\<forall>p\<in>set (get_partitions final). length p * k = length xs"
    "kk_spread_le k (Max (set xs) - Min (set xs)) final"
proof -
  let ?B = "Max (set xs) - Min (set xs)"
  obtain states where st: "kk_initial_states xs k True = Inr states" "states = [] \<longleftrightarrow> xs = []"
    "(\<Sum>s\<leftarrow>states. state_items s) = mset (List.enumerate 0 xs)"
    "\<And>s. s \<in> set states \<Longrightarrow>
      \<exists>items. length items = k \<and> snd ` set items \<subseteq> set xs \<and> state_init items k = Inr s"
    using kk_initial_states_equal [OF k] by blast
  have ini: "kk_wf k s \<and> kk_uniform k s \<and> kk_spread_le k ?B s" if "s \<in> set states" for s
  proof -
    from st(4) [OF that] obtain items where it: "length items = k" "snd ` set items \<subseteq> set xs"
      "state_init items k = Inr s" by blast
    have le: "length items \<le> k" using it(1) by simp
    have "v - w \<le> ?B" if "v \<in> set xs" "w \<in> set xs" for v w
      using that by (simp add: diff_mono)
    then have "kk_spread_le k ?B s"
      using it(1,2) by (intro state_init_spread [OF it(3) le]) force
    with state_init_wf [OF it(3) le] state_init_uniform [OF it(3,1)] show ?thesis by blast
  qed
  have "states \<noteq> []" using st(2) xs by auto
  then obtain final where f: "kk_loop (foldl (heappush state_lt) [] states) = Inr [final]"
    "state_items final = mset (List.enumerate 0 xs)" "kk_uniform k final" "kk_spread_le k ?B final"
    using ini st(3) by (elim kk_final) (metis (no_types, lifting))
  have sizes: "\<forall>p\<in>set (get_partitions final). length p * k = length xs"
    by (rule uniform_partition_sizes [OF f(3,2)])
  then have "karmarkar_karp xs k True = Inr (get_partitions final)"
    by (simp add: karmarkar_karp_def st(1) f(1) py_nth_def list_all_iff)
  with f sizes that show ?thesis by blast
qed

section \<open>The partition theorems\<close>

lemma balanced_partitions_ok:
  assumes "0 < k" "k \<le> length xs" "\<forall>x\<in>set xs. 0 \<le> x"
  shows "\<exists>ps. get_seqlen_balanced_partitions xs k False = Inr ps
    \<and> balanced_partition xs k (Max (set xs)) ps"
proof -
  have "xs \<noteq> []" using assms(1,2) by auto
  then obtain final where f: "karmarkar_karp xs k False = Inr (get_partitions final)"
    "state_items final = mset (List.enumerate 0 xs)" "kk_filled k final"
    "kk_spread_le k (Max (set xs)) final"
    using karmarkar_karp_unequal assms(1,3) by metis
  have "size (state_items final) = length xs" by (simp add: f(2))
  then have "min k (size (state_items final)) = k" using assms(2) by simp
  then have ne: "set_items (st_sets final ! i) \<noteq> []" if "i < k" for i
    using kk_filled_nth_iff [OF f(3) that] that by simp
  have "length (st_sets final) = k" using f(3) by (simp add: kk_filled_def kk_wf_def)
  then have "\<forall>x\<in>set (st_sets final). set_items x \<noteq> []" using ne by (metis in_set_conv_nth)
  then have "\<forall>p\<in>set (get_partitions final). p \<noteq> []" by (simp add: get_partitions_def)
  with balanced_partition_final [OF f(2,4)] show ?thesis
    using assms(2) by (simp add: get_seqlen_balanced_partitions_def f(1))
qed

text \<open>
  C6. With non-negative workloads and at least as many items as partitions,
  \<open>get_seqlen_balanced_partitions\<close> with \<open>equal_size=False\<close> never trips one of its assertions: it
  returns exactly \<open>k\<close> sorted non-empty lists that together hold every index once, and the workloads of
  any two of them differ by at most the largest single workload.
\<close>

theorem balanced_partitions_correct:
  assumes "0 < k" "k \<le> length xs" "\<forall>x\<in>set xs. 0 \<le> x"
  shows "\<exists>ps. get_seqlen_balanced_partitions xs k False = Inr ps
    \<and> balanced_partition xs k (Max (set xs)) ps"
  using assms by (rule balanced_partitions_ok)

theorem balanced_partitions_correct_witness:
  "\<exists>ps. get_seqlen_balanced_partitions [5, 0, 3, 8] 3 False = Inr ps
    \<and> balanced_partition [5, 0, 3, 8] 3 (Max (set [5, 0, 3, 8])) ps"
  using balanced_partitions_correct [of 3 "[5, 0, 3, 8]"] by simp

lemma equal_partitions_ok:
  assumes "0 < k" "k dvd length xs" "xs \<noteq> []"
  shows "\<exists>ps. get_seqlen_balanced_partitions xs k True = Inr ps
    \<and> balanced_partition xs k (Max (set xs) - Min (set xs)) ps
    \<and> (\<forall>p\<in>set ps. length p = length xs div k)"
proof -
  obtain final where f: "karmarkar_karp xs k True = Inr (get_partitions final)"
    "state_items final = mset (List.enumerate 0 xs)"
    "\<forall>p\<in>set (get_partitions final). length p * k = length xs"
    "kk_spread_le k (Max (set xs) - Min (set xs)) final"
    using karmarkar_karp_equal assms by metis
  have "k \<le> length xs" using assms by (auto dest: dvd_imp_le)
  moreover have "\<forall>p\<in>set (get_partitions final). p \<noteq> []" using f(3) assms(3) by fastforce
  moreover have "\<forall>p\<in>set (get_partitions final). length p = length xs div k"
    using f(3) assms(1) by (metis nonzero_mult_div_cancel_right not_gr_zero)
  ultimately show ?thesis using balanced_partition_final [OF f(2,4)]
    by (simp add: get_seqlen_balanced_partitions_def f(1))
qed

text \<open>
  With \<open>equal_size=True\<close> and a divisible length, for any integer workloads, the assertions on
  the partition sizes never fire: every partition has exactly \<open>length xs div k\<close> indices, the
  partitions hold every index once, and their workloads differ by at most the gap between the
  largest and the smallest workload.
\<close>

lemma equal_partitions_correct:
  assumes "0 < k" "k dvd length xs" "xs \<noteq> []"
  shows "\<exists>ps. get_seqlen_balanced_partitions xs k True = Inr ps
    \<and> balanced_partition xs k (Max (set xs) - Min (set xs)) ps
    \<and> (\<forall>p\<in>set ps. length p = length xs div k)"
  using assms by (rule equal_partitions_ok)

end
