(* ===== verification/Micro_Batching.thy ===== *)
theory Micro_Batching
  imports Seqlen_Balancing
begin

text \<open>
  The callers of the partitioner in \<open>verl/utils/seqlen_balancing.py\<close>: the greedy partition, the
  imbalance metrics, \<open>rearrange_micro_batches\<close> with the grouping used for reward-model training,
  \<open>get_reverse_idx\<close> and \<open>restore_dynamic_batch\<close>, which undo it, and the partition that keeps the
  samples of one uid together.  A batch is the list of its rows with their effective sequence
  lengths.  The all-reduce over the data-parallel group is a parameter (\<open>dp_group\<close>): the
  function from this rank's count to the maximum over the ranks.
\<close>

section \<open>The greedy partition\<close>

definition greedy_min_idx :: "nat \<Rightarrow> int list \<Rightarrow> nat option" where
  "greedy_min_idx k_partitions partition_sums =
     foldl (\<lambda>min_idx j. case min_idx of None \<Rightarrow> Some j
              | Some m \<Rightarrow> if partition_sums ! j < partition_sums ! m then Some j else Some m)
       None [0..<k_partitions]"

definition greedy_step ::
  "nat \<Rightarrow> int \<times> nat \<Rightarrow> nat list list \<times> int list \<Rightarrow> (nat list list \<times> int list) result" where
  "greedy_step k_partitions item st =
     (case item of (seqlen, i) \<Rightarrow> case st of (partitions, partition_sums) \<Rightarrow>
      case greedy_min_idx k_partitions partition_sums of
        None \<Rightarrow> Inl TypeError
      | Some m \<Rightarrow> Inr (partitions[m := partitions ! m @ [i]],
                      partition_sums[m := partition_sums ! m + seqlen]))"

definition greedy_partition :: "int list \<Rightarrow> nat \<Rightarrow> bool \<Rightarrow> nat list list result" where
  "greedy_partition seqlen_list k_partitions equal_size =
     (let bias = (if equal_size then sum_list seqlen_list + 1 else 0);
          sorted_seqlen = map (\<lambda>(i, seqlen). (seqlen + bias, i)) (List.enumerate 0 seqlen_list) in
      rbind (fold_r (greedy_step k_partitions) sorted_seqlen
              (replicate k_partitions [], replicate k_partitions 0)) (\<lambda>(partitions, _).
      if equal_size then
        rbind (assert_r (list_all (\<lambda>p. length p * k_partitions = length seqlen_list) partitions)
                 AssertionError) (\<lambda>_. Inr partitions)
      else Inr partitions))"

section \<open>Integer rounding\<close>

definition ceildiv :: "int \<Rightarrow> int \<Rightarrow> int result" where
  "ceildiv a b = (if b = 0 then Inl ZeroDivisionError else Inr (- (a div (- b))))"

definition roundup_divisible :: "int \<Rightarrow> int \<Rightarrow> int result" where
  "roundup_divisible a b = (if b = 0 then Inl ZeroDivisionError else Inr (((a + b - 1) div b) * b))"

section \<open>Imbalance metrics\<close>

record unbalance_metrics =
  um_min :: int
  um_max :: int
  um_minmax_diff :: int
  um_balanced_min :: int
  um_balanced_max :: int
  um_mean :: real

fun py_min :: "int list \<Rightarrow> int result" where
  "py_min [] = Inl ValueError"
| "py_min (x # xs) = Inr (foldl min x xs)"

fun py_max :: "int list \<Rightarrow> int result" where
  "py_max [] = Inl ValueError"
| "py_max (x # xs) = Inr (foldl max x xs)"

definition log_seqlen_unbalance :: "int list \<Rightarrow> nat list list \<Rightarrow> unbalance_metrics result" where
  "log_seqlen_unbalance seqlen_list partitions =
     (let k_partition = length partitions in
      if k_partition = 0 then Inl ZeroDivisionError else
      (let batch_size = length seqlen_list div k_partition in
       if batch_size = 0 then Inl ValueError else
       (let window_sums = map sum_list (chunks_of batch_size seqlen_list) in
        rbind (py_min window_sums) (\<lambda>min_sum_seqlen.
        rbind (py_max window_sums) (\<lambda>max_sum_seqlen.
        rbind (map_r (\<lambda>partition. rbind (gather seqlen_list partition) (\<lambda>vs. Inr (sum_list vs))) partitions)
          (\<lambda>balanced_sum_seqlen_list.
        rbind (py_min balanced_sum_seqlen_list) (\<lambda>min_balanced.
        rbind (py_max balanced_sum_seqlen_list) (\<lambda>max_balanced.
        Inr \<lparr>um_min = min_sum_seqlen, um_max = max_sum_seqlen,
             um_minmax_diff = max_sum_seqlen - min_sum_seqlen,
             um_balanced_min = min_balanced, um_balanced_max = max_balanced,
             um_mean = of_int (sum_list window_sums) / of_nat (length partitions)\<rparr>)))))))) "

section \<open>Micro-batches\<close>

record 'r mb_batch =
  mb_rows :: "'r list"
  mb_nested :: bool
  mb_seq_lens :: "int list"
  mb_mask_width :: int

record mb_args =
  max_token_len :: int
  dist_initialized :: bool
  dp_group :: "(int \<Rightarrow> int) option"
  num_batches_divided_by :: "int option"
  same_micro_num_in_dp :: bool
  min_num_micro_batch :: "int option"
  use_dynamic_bsz_balance :: bool
  force_group_size :: nat

definition num_micro_batches :: "mb_args \<Rightarrow> nat \<Rightarrow> int \<Rightarrow> int result" where
  "num_micro_batches a num_groups total_seqlen =
     rbind (ceildiv total_seqlen (max_token_len a)) (\<lambda>c.
     let n = min (int num_groups) c;
         n = (case min_num_micro_batch a of None \<Rightarrow> n | Some m \<Rightarrow> max m n);
         n = (case dp_group a of
                None \<Rightarrow> n
              | Some all_reduce \<Rightarrow>
                  if dist_initialized a \<and> same_micro_num_in_dp a then all_reduce n else n)
     in case num_batches_divided_by a of None \<Rightarrow> Inr n | Some d \<Rightarrow> roundup_divisible n d)"

definition expand_groups :: "nat \<Rightarrow> nat list \<Rightarrow> nat list" where
  "expand_groups g group_partition = concat (map (\<lambda>gi. [gi * g..<gi * g + g]) group_partition)"

definition mb_sort_key :: "int list \<Rightarrow> nat \<Rightarrow> nat list \<Rightarrow> int \<times> nat" where
  "mb_sort_key workloads g part =
     ((if g > 1 then (\<Sum>c\<leftarrow>chunks_of g part. workloads ! (hd c div g))
       else (\<Sum>idx\<leftarrow>part. workloads ! idx)),
      (case part of [] \<Rightarrow> 0 | i # _ \<Rightarrow> i))"

definition balance_order :: "int list \<Rightarrow> nat \<Rightarrow> nat list list \<Rightarrow> nat list list" where
  "balance_order workloads g micro_bsz_idx =
     (let sorted_idx = sorted_rev (mb_sort_key workloads g) micro_bsz_idx
      in rev (evens sorted_idx) @ odds sorted_idx)"

definition micro_batch_indices :: "int list \<Rightarrow> nat \<Rightarrow> nat \<Rightarrow> bool \<Rightarrow> nat list list result" where
  "micro_batch_indices seq_lens g n balance =
     (let workloads_per_sample = calculate_workload seq_lens;
          workloads = (if g > 1 then map sum_list (chunks_of g workloads_per_sample)
                       else workloads_per_sample) in
      rbind (get_seqlen_balanced_partitions workloads n False) (\<lambda>parts.
      let micro_bsz_idx = (if g > 1 then map (expand_groups g) parts else parts) in
      Inr (if balance then balance_order workloads g micro_bsz_idx else micro_bsz_idx)))"

definition rearrange_micro_batches ::
  "'r mb_batch \<Rightarrow> mb_args \<Rightarrow> ('r list list \<times> nat list list) result" where
  "rearrange_micro_batches batch a =
     rbind (if mb_nested batch then py_max (mb_seq_lens batch) else Inr (mb_mask_width batch)) (\<lambda>max_seq_len.
     rbind (assert_r (max_seq_len \<le> max_token_len a) AssertionError) (\<lambda>_.
     let batch_size = length (mb_seq_lens batch); g = force_group_size a in
     if g = 0 then Inl ZeroDivisionError else
     rbind (assert_r (batch_size mod g = 0) AssertionError) (\<lambda>_.
     let num_groups = batch_size div g in
     rbind (num_micro_batches a num_groups (sum_list (mb_seq_lens batch))) (\<lambda>n.
     rbind (assert_r (n \<le> int num_groups) AssertionError) (\<lambda>_.
     rbind (micro_batch_indices (mb_seq_lens batch) g (nat n) (use_dynamic_bsz_balance a)) (\<lambda>micro_bsz_idx.
     rbind (map_r (gather (mb_rows batch)) micro_bsz_idx) (\<lambda>micro_batches.
     Inr (micro_batches, micro_bsz_idx))))))))"

definition get_reverse_idx :: "nat list \<Rightarrow> nat list result" where
  "get_reverse_idx idx_map =
     fold_r (\<lambda>(i, idx) r. if idx < length r then Inr (r[idx := i]) else Inl IndexError)
       (List.enumerate 0 idx_map) idx_map"

definition restore_dynamic_batch :: "'a list \<Rightarrow> nat list list \<Rightarrow> 'a list result" where
  "restore_dynamic_batch data batch_idx_list =
     (let indices = concat batch_idx_list in
      rbind (assert_r (length indices = length data) AssertionError) (\<lambda>_.
      rbind (get_reverse_idx indices) (\<lambda>revert_indices.
      gather data revert_indices)))"

section \<open>Partitions that keep uid groups together\<close>

record 'u grouping =
  gr_groups :: "(nat list \<times> int) list"
  gr_uid :: "'u option"
  gr_indices :: "nat list"
  gr_seqlen :: int

definition group_step :: "nat \<times> int \<times> 'u \<Rightarrow> 'u grouping \<Rightarrow> 'u grouping" where
  "group_step x st = (case x of (i, seqlen, uid) \<Rightarrow>
     if Some uid \<noteq> gr_uid st then
       \<lparr>gr_groups = (if gr_indices st \<noteq> [] then gr_groups st @ [(gr_indices st, gr_seqlen st)]
                     else gr_groups st),
        gr_uid = Some uid, gr_indices = [i], gr_seqlen = seqlen\<rparr>
     else st\<lparr>gr_indices := gr_indices st @ [i], gr_seqlen := gr_seqlen st + seqlen\<rparr>)"

definition build_groups :: "int list \<Rightarrow> 'u list \<Rightarrow> (nat list \<times> int) list" where
  "build_groups seqlen_list uid_list =
     (let st = fold group_step (List.enumerate 0 (zip seqlen_list uid_list))
                 \<lparr>gr_groups = [], gr_uid = None, gr_indices = [], gr_seqlen = 0\<rparr>
      in if gr_indices st \<noteq> [] then gr_groups st @ [(gr_indices st, gr_seqlen st)] else gr_groups st)"

definition get_group_balanced_partitions ::
  "int list \<Rightarrow> 'u list \<Rightarrow> nat \<Rightarrow> nat list list result" where
  "get_group_balanced_partitions seqlen_list uid_list k_partitions =
     rbind (assert_r (length seqlen_list = length uid_list) AssertionError) (\<lambda>_.
     let groups = build_groups seqlen_list uid_list in
     rbind (assert_r (k_partitions \<le> length groups) AssertionError) (\<lambda>_.
     rbind (map_r (\<lambda>(indices, _). rbind (gather seqlen_list indices) (\<lambda>ls.
              Inr (sum_list (calculate_workload ls)))) groups) (\<lambda>group_workloads.
     rbind (get_seqlen_balanced_partitions group_workloads k_partitions True) (\<lambda>group_partitions.
     map_r (\<lambda>group_partition. rbind (gather (map fst groups) group_partition)
              (\<lambda>idxs. Inr (sort (concat idxs)))) group_partitions))))"

section \<open>Rounding and the greedy partition are correct\<close>

lemma ceildiv_least:
  assumes "0 < b"
  shows "\<exists>c. ceildiv a b = Inr c \<and> a \<le> c * b \<and> (\<forall>d. a \<le> d * b \<longrightarrow> c \<le> d)"
proof (intro exI conjI allI impI)
  let ?c = "- (a div - b)"
  show "ceildiv a b = Inr ?c" using assms by (simp add: ceildiv_def)
  have eq: "?c = - ((- a) div b)" by (simp add: div_minus_right)
  have "b * ((- a) div b) \<le> - a" using assms by (metis mult.commute mult_div_mod_eq pos_mod_sign le_add_same_cancel1)
  then show "a \<le> ?c * b" unfolding eq by (simp add: mult.commute)
  fix d assume "a \<le> d * b"
  then have "(- d) * b \<le> - a" by simp
  then have "- d \<le> (- a) div b" using assms by (metis zdiv_mono1 nonzero_mult_div_cancel_right less_irrefl)
  then show "?c \<le> d" unfolding eq by simp
qed

lemma roundup_divisible_least:
  assumes "0 < b"
  shows "\<exists>c. roundup_divisible a b = Inr c \<and> b dvd c \<and> a \<le> c \<and> c < a + b"
proof (intro exI conjI)
  show "roundup_divisible a b = Inr ((a + b - 1) div b * b)" using assms by (simp add: roundup_divisible_def)
  have "(a + b - 1) div b * b = a + b - 1 - (a + b - 1) mod b" by (simp add: minus_mod_eq_div_mult)
  moreover have "0 \<le> (a + b - 1) mod b" "(a + b - 1) mod b < b" using assms by auto
  ultimately show "a \<le> (a + b - 1) div b * b" "(a + b - 1) div b * b < a + b" by linarith+
qed simp

lemma greedy_min_idx_ok:
  "0 < k \<Longrightarrow> \<exists>m<k. greedy_min_idx k s = Some m \<and> (\<forall>j<k. s ! m \<le> s ! j)"
proof (induction k)
  case 0
  then show ?case by simp
next
  case (Suc k)
  have step: "greedy_min_idx (Suc k) s = (case greedy_min_idx k s of None \<Rightarrow> Some k
      | Some m \<Rightarrow> if s ! k < s ! m then Some k else Some m)"
    by (simp add: greedy_min_idx_def)
  show ?case
  proof (cases k)
    case 0
    then show ?thesis by (auto simp: step greedy_min_idx_def)
  next
    case (Suc k')
    with Suc.IH obtain m where "m < k" "greedy_min_idx k s = Some m" "\<forall>j<k. s ! m \<le> s ! j" by auto
    then show ?thesis by (auto simp: step less_Suc_eq intro!: exI [of _ "if s ! k < s ! m then k else m"] dest: order.strict_trans2)
  qed
qed

lemma mset_concat_update:
  assumes "m < length ps"
  shows "mset (concat (ps[m := ps ! m @ ys])) = mset (concat ps) + mset ys"
proof -
  have "concat ps = concat (take m ps) @ ps ! m @ concat (drop (Suc m) ps)"
    using id_take_nth_drop [OF assms] by (metis concat.simps(2) concat_append)
  moreover have "concat (ps[m := ps ! m @ ys]) = concat (take m ps) @ (ps ! m @ ys) @ concat (drop (Suc m) ps)"
    using assms by (simp add: upd_conv_take_nth_drop)
  ultimately show ?thesis by simp
qed

definition greedy_inv :: "int list \<Rightarrow> int \<Rightarrow> nat \<Rightarrow> nat \<Rightarrow> nat list list \<times> int list \<Rightarrow> bool" where
  "greedy_inv xs b k m st \<longleftrightarrow> (case st of (ps, ss) \<Rightarrow>
     length ps = k \<and> length ss = k \<and> mset (concat ps) = mset [0..<m] \<and>
     (\<forall>j<k. ss ! j = b * int (length (ps ! j)) + part_sum xs (ps ! j)) \<and>
     (\<forall>i<k. \<forall>j<k. length (ps ! i) \<le> length (ps ! j) + 1))"

lemma part_sum_le_total:
  assumes "\<forall>x\<in>set xs. 0 \<le> x" "distinct p" "set p \<subseteq> {..<length xs}"
  shows "0 \<le> part_sum xs p \<and> part_sum xs p \<le> sum_list xs"
proof -
  have "part_sum xs p = (\<Sum>i\<in>set p. xs ! i)"
    by (simp add: part_sum_def sum_list_distinct_conv_sum_set assms(2))
  moreover have "sum_list xs = (\<Sum>i<length xs. xs ! i)"
    by (simp add: sum_list_sum_nth atLeast0LessThan)
  moreover have "(\<Sum>i\<in>set p. xs ! i) \<le> (\<Sum>i<length xs. xs ! i)"
    using assms by (intro sum_mono2) (auto simp: subset_iff)
  moreover have "0 \<le> (\<Sum>i\<in>set p. xs ! i)"
    using assms by (intro sum_nonneg) (auto simp: subset_iff)
  ultimately show ?thesis by simp
qed

lemma greedy_step_inv:
  assumes inv: "greedy_inv xs (sum_list xs + 1) k n st" and k: "0 < k" and n: "n < length xs"
    and nonneg: "\<forall>x\<in>set xs. 0 \<le> x"
  shows "\<exists>st'. greedy_step k (xs ! n + (sum_list xs + 1), n) st = Inr st'
    \<and> greedy_inv xs (sum_list xs + 1) k (Suc n) st'"
proof -
  let ?b = "sum_list xs + 1"
  obtain ps ss where st: "st = (ps, ss)" by (cases st)
  have len: "length ps = k" "length ss = k" and idx: "mset (concat ps) = mset [0..<n]"
    and sums: "\<And>j. j < k \<Longrightarrow> ss ! j = ?b * int (length (ps ! j)) + part_sum xs (ps ! j)"
    and near: "\<And>i j. i < k \<Longrightarrow> j < k \<Longrightarrow> length (ps ! i) \<le> length (ps ! j) + 1"
    using inv by (auto simp: greedy_inv_def st)
  obtain m where m: "m < k" "greedy_min_idx k ss = Some m" "\<And>j. j < k \<Longrightarrow> ss ! m \<le> ss ! j"
    using greedy_min_idx_ok [OF k, of ss] by blast
  let ?ps = "ps[m := ps ! m @ [n]]" and ?ss = "ss[m := ss ! m + (xs ! n + ?b)]"
  have bounds: "0 \<le> part_sum xs (ps ! j) \<and> part_sum xs (ps ! j) \<le> sum_list xs" if "j < k" for j
  proof (rule part_sum_le_total [OF nonneg])
    have "distinct (concat ps)" "set (concat ps) = {..<n}" using idx mset_eq_upt_iff by blast+
    moreover have "ps ! j \<in> set ps" using that len by simp
    ultimately have "distinct (ps ! j)" "set (ps ! j) \<subseteq> {..<n}"
      by (auto simp: distinct_concat_iff)
    then show "distinct (ps ! j)" "set (ps ! j) \<subseteq> {..<length xs}" using n by auto
  qed
  have shortest: "length (ps ! m) \<le> length (ps ! j)" if "j < k" for j
  proof -
    have "?b * int (length (ps ! m)) < ?b * int (length (ps ! j)) + ?b"
      using m(3) [OF that] sums [OF that] sums [OF m(1)] bounds [OF that] bounds [OF m(1)] by linarith
    then have "?b * int (length (ps ! m)) < ?b * (int (length (ps ! j)) + 1)" by (simp add: distrib_left)
    moreover have "0 < ?b" using bounds [OF that] by linarith
    ultimately show ?thesis using mult_less_cancel_left_pos by fastforce
  qed
  have "greedy_step k (xs ! n + ?b, n) st = Inr (?ps, ?ss)"
    by (simp add: greedy_step_def st m(2))
  moreover have "?ss ! j = ?b * int (length (?ps ! j)) + part_sum xs (?ps ! j)" if "j < k" for j
    using that len m(1) sums by (cases "j = m") (simp_all add: part_sum_def distrib_left)
  moreover have "length (?ps ! i) \<le> length (?ps ! j) + 1" if "i < k" "j < k" for i j
    using that len m(1) shortest [of j] near [of i j] near [of i m] by (cases "i = m"; cases "j = m") auto
  moreover have "mset (concat ?ps) = mset [0..<Suc n]"
    using m(1) len idx by (simp add: mset_concat_update)
  ultimately show ?thesis using len by (auto simp: greedy_inv_def)
qed

lemma greedy_fold_inv:
  assumes "0 < k" "\<forall>x\<in>set xs. 0 \<le> x" "n \<le> length xs"
  shows "\<exists>st. fold_r (greedy_step k)
      (map (\<lambda>(i, x). (x + (sum_list xs + 1), i)) (take n (List.enumerate 0 xs)))
      (replicate k [], replicate k 0) = Inr st \<and> greedy_inv xs (sum_list xs + 1) k n st"
  using assms(3)
proof (induction n)
  case 0
  show ?case by (auto simp: greedy_inv_def part_sum_def)
next
  case (Suc n)
  then obtain st where "fold_r (greedy_step k)
      (map (\<lambda>(i, x). (x + (sum_list xs + 1), i)) (take n (List.enumerate 0 xs)))
      (replicate k [], replicate k 0) = Inr st" "greedy_inv xs (sum_list xs + 1) k n st"
    by auto
  moreover have "take (Suc n) (List.enumerate 0 xs) = take n (List.enumerate 0 xs) @ [(n, xs ! n)]"
    using Suc.prems by (simp add: take_Suc_conv_app_nth nth_enumerate_eq)
  ultimately show ?case using greedy_step_inv [of xs k n st] Suc.prems assms(1,2)
    by (auto simp: fold_r_append)
qed

lemma near_equal_lengths:
  assumes "0 < k" "length ls = k" "k dvd sum_list ls"
    and near: "\<And>i j. i < k \<Longrightarrow> j < k \<Longrightarrow> ls ! i \<le> ls ! j + (1::nat)" and i: "i < k"
  shows "ls ! i * k = sum_list ls"
proof -
  let ?l = "Min (set ls)"
  have ne: "set ls \<noteq> {}" using assms(1,2) by auto
  have lo: "?l \<le> ls ! j" if "j < k" for j using that assms(2) by simp
  obtain m where m: "m < k" "ls ! m = ?l" using Min_in [OF _ ne] assms(2) by (metis in_set_conv_nth List.finite_set)
  have hi: "ls ! j \<le> ?l + 1" if "j < k" for j using near [OF that m(1)] m(2) by simp
  have S: "sum_list ls = (\<Sum>j<k. ls ! j)" by (simp add: sum_list_sum_nth atLeast0LessThan assms(2))
  have "(\<Sum>j<k. ?l) \<le> (\<Sum>j<k. ls ! j)" by (intro sum_mono) (simp add: lo)
  then have ge: "k * ?l \<le> sum_list ls" by (simp add: S)
  have "(\<Sum>j<k. ls ! j) < (\<Sum>j<k. ?l + 1)"
    by (rule sum_strict_mono_ex1) (use hi m in \<open>auto intro!: bexI [of _ m]\<close>)
  then have "sum_list ls < k * ?l + k" by (simp add: S)
  with ge assms(3) have eq: "sum_list ls = k * ?l"
    by (metis add.commute dvd_add_right_iff dvd_imp_le dvd_triv_left le_add_diff_inverse nat_add_left_cancel_less not_gr_zero add_0_right not_le)
  have "ls ! i = ?l"
  proof (rule ccontr)
    assume "ls ! i \<noteq> ?l"
    then have "?l < ls ! i" using lo [OF i] by simp
    then have "(\<Sum>j<k. ?l) < (\<Sum>j<k. ls ! j)"
      by (intro sum_strict_mono_ex1) (use lo i in \<open>auto intro!: bexI [of _ i]\<close>)
    then show False using eq by (simp add: S)
  qed
  then show ?thesis using eq by (simp add: mult.commute)
qed

text \<open>
  With non-negative values and a length divisible by \<open>k\<close>, the bias of
  \<open>greedy_partition(..., equal_size=True)\<close> is large enough: the size assertions never fire, every
  one of the \<open>k\<close> partitions has exactly \<open>length xs div k\<close> indices, and every index is in exactly one.
\<close>

lemma greedy_equal_correct:
  assumes "0 < k" "k dvd length xs" "\<forall>x\<in>set xs. 0 \<le> x"
  shows "\<exists>ps. greedy_partition xs k True = Inr ps \<and> length ps = k
    \<and> mset (concat ps) = mset [0..<length xs] \<and> (\<forall>p\<in>set ps. length p = length xs div k)"
proof -
  obtain ps ss where run: "fold_r (greedy_step k)
      (map (\<lambda>(i, x). (x + (sum_list xs + 1), i)) (List.enumerate 0 xs))
      (replicate k [], replicate k 0) = Inr (ps, ss)" and inv: "greedy_inv xs (sum_list xs + 1) k (length xs) (ps, ss)"
    using greedy_fold_inv [OF assms(1,3), of "length xs"] by auto
  have len: "length ps = k" and idx: "mset (concat ps) = mset [0..<length xs]"
    and near: "\<And>i j. i < k \<Longrightarrow> j < k \<Longrightarrow> length (ps ! i) \<le> length (ps ! j) + 1"
    using inv by (auto simp: greedy_inv_def)
  have total: "sum_list (map length ps) = length xs"
    using arg_cong [OF idx, of size] by (simp add: length_concat)
  have "length (ps ! i) * k = length xs" if "i < k" for i
    using near_equal_lengths [of k "map length ps" i] assms(1,2) len near that by (simp add: total)
  then have sz: "\<forall>p\<in>set ps. length p * k = length xs" using len by (metis in_set_conv_nth)
  then have "\<forall>p\<in>set ps. length p = length xs div k"
    using assms(1) by (metis nonzero_mult_div_cancel_right not_gr_zero)
  moreover have "greedy_partition xs k True = Inr ps"
    using run sz by (simp add: greedy_partition_def list_all_iff)
  ultimately show ?thesis using len idx by blast
qed

lemma mset_concat_mset_cong: "mset xss = mset yss \<Longrightarrow> mset (concat xss) = mset (concat yss)"
  by (metis mset_concat mset_map sum_mset_sum_list)

lemma expand_groups_1 [simp]: "expand_groups (Suc 0) gs = gs"
  by (induction gs) (auto simp: expand_groups_def)

lemma concat_map_expand_groups: "concat (map (expand_groups g) parts) = expand_groups g (concat parts)"
  by (induction parts) (auto simp: expand_groups_def)

lemma expand_groups_upt: "expand_groups g [0..<n] = [0..<n * g]"
proof (induction n)
  case (Suc n)
  have "[0..<Suc n * g] = [0..<n * g] @ [n * g..<n * g + g]"
    by (metis add.commute le_add1 mult_Suc upt_add_eq_append zero_le)
  with Suc show ?case by (simp add: expand_groups_def)
qed (simp add: expand_groups_def)

lemma mset_expand_groups_cong: "mset xs = mset ys \<Longrightarrow> mset (expand_groups g xs) = mset (expand_groups g ys)"
  unfolding expand_groups_def by (intro mset_concat_mset_cong) (simp only: mset_map)

lemma mset_balance_order [simp]: "mset (balance_order w g idx) = mset idx"
  unfolding balance_order_def Let_def by (simp add: mset_evens_odds)

lemma set_balance_order [simp]: "set (balance_order w g idx) = set idx"
  using mset_balance_order by (rule mset_eq_setD)

lemma expand_groups_eq_Nil_iff [simp]: "expand_groups g gs = [] \<longleftrightarrow> g = 0 \<or> gs = []"
  by (cases gs) (auto simp: expand_groups_def)

definition group_workloads :: "int list \<Rightarrow> nat \<Rightarrow> int list" where
  "group_workloads seq_lens g = (if g > 1 then map sum_list (chunks_of g (calculate_workload seq_lens))
     else calculate_workload seq_lens)"

lemma group_workloads_ok:
  assumes "\<forall>x\<in>set seq_lens. 0 \<le> x" "0 < g" "g dvd length seq_lens"
  shows "length (group_workloads seq_lens g) = length seq_lens div g \<and> (\<forall>x\<in>set (group_workloads seq_lens g). 0 \<le> x)"
proof -
  have "\<forall>x\<in>set (calculate_workload seq_lens). 0 \<le> x"
    using assms(1) by (simp add: calculate_workload_nonneg)
  moreover have "set (concat (chunks_of g (calculate_workload seq_lens))) = set (calculate_workload seq_lens)"
    using assms(2) by (simp add: concat_chunks_of)
  ultimately have "\<forall>c\<in>set (chunks_of g (calculate_workload seq_lens)). 0 \<le> sum_list c"
    by (auto intro!: sum_list_nonneg)
  then show ?thesis using assms calculate_workload_nonneg [of seq_lens]
    by (auto simp: group_workloads_def length_chunks_of)
qed

definition whole_groups :: "nat \<Rightarrow> nat \<Rightarrow> nat list list \<Rightarrow> bool" where
  "whole_groups g n idx \<longleftrightarrow> mset (concat idx) = mset [0..<n] \<and>
     (\<forall>p\<in>set idx. p \<noteq> [] \<and> (\<exists>gs. p = expand_groups g gs))"

lemma micro_batch_indices_ok:
  assumes "\<forall>x\<in>set seq_lens. 0 \<le> x" "0 < g" "g dvd length seq_lens" "0 < n" "n \<le> length seq_lens div g"
  shows "\<exists>idx. micro_batch_indices seq_lens g n balance = Inr idx \<and> length idx = n
    \<and> whole_groups g (length seq_lens) idx"
proof -
  let ?w = "group_workloads seq_lens g"
  note w = group_workloads_ok [OF assms(1-3)]
  obtain parts where parts: "get_seqlen_balanced_partitions ?w n False = Inr parts"
    "balanced_partition ?w n (Max (set ?w)) parts"
    using balanced_partitions_ok [of n ?w] assms(4,5) w by auto
  let ?idx = "map (expand_groups g) parts"
  have "(if g > 1 then ?idx else parts) = ?idx"
    using assms(2) by (cases "g = 1") (auto simp: map_idI)
  then have run: "micro_batch_indices seq_lens g n balance
      = Inr (if balance then balance_order ?w g ?idx else ?idx)"
    using parts(1) by (simp add: micro_batch_indices_def group_workloads_def Let_def)
  have "mset (concat parts) = mset [0..<length seq_lens div g]"
    using parts(2) w by (simp add: balanced_partition_def)
  then have "mset (concat ?idx) = mset (expand_groups g [0..<length seq_lens div g])"
    unfolding concat_map_expand_groups by (rule mset_expand_groups_cong)
  then have "mset (concat ?idx) = mset [0..<length seq_lens]"
    using assms(3) by (simp add: expand_groups_upt)
  moreover have "mset (concat (balance_order ?w g ?idx)) = mset (concat ?idx)"
    by (intro mset_concat_mset_cong) simp
  ultimately have "whole_groups g (length seq_lens) (if balance then balance_order ?w g ?idx else ?idx)"
    using parts(2) assms(2) by (auto simp: whole_groups_def balanced_partition_def)
  moreover have "length (balance_order ?w g ?idx) = n"
    using parts(2) by (metis balanced_partition_def length_map mset_balance_order size_mset)
  ultimately show ?thesis using run parts(2) by (auto simp: balanced_partition_def)
qed

lemma rearrange_micro_batches_ok:
  assumes "\<forall>x\<in>set (mb_seq_lens b). 0 \<le> x" "length (mb_rows b) = length (mb_seq_lens b)"
    and "0 < force_group_size a" "force_group_size a dvd length (mb_seq_lens b)"
    and "\<forall>x\<in>set (mb_seq_lens b). x \<le> max_token_len a" "mb_seq_lens b \<noteq> []"
    and "mb_nested b \<or> mb_mask_width b \<le> max_token_len a"
    and n: "num_micro_batches a (length (mb_seq_lens b) div force_group_size a) (sum_list (mb_seq_lens b)) = Inr n"
      "0 < n" "n \<le> int (length (mb_seq_lens b) div force_group_size a)"
  shows "\<exists>idx. rearrange_micro_batches b a = Inr (map (map ((!) (mb_rows b))) idx, idx)
    \<and> length idx = nat n \<and> whole_groups (force_group_size a) (length (mb_rows b)) idx"
proof -
  have mx: "\<exists>m. py_max (mb_seq_lens b) = Inr m \<and> m \<le> max_token_len a"
  proof -
    obtain x xs where xs: "mb_seq_lens b = x # xs" using assms(6) by (cases "mb_seq_lens b") auto
    have "foldl max x xs \<le> c" if "\<forall>y\<in>set (x # xs). y \<le> c" for x c :: int and xs
      using that by (induction xs arbitrary: x) auto
    with assms(5) show ?thesis by (simp add: xs)
  qed
  have nn: "0 < nat n" "nat n \<le> length (mb_seq_lens b) div force_group_size a"
    using n(2,3) by (simp_all add: nat_le_iff)
  obtain idx where idx: "micro_batch_indices (mb_seq_lens b) (force_group_size a) (nat n) (use_dynamic_bsz_balance a) = Inr idx"
    "length idx = nat n" "whole_groups (force_group_size a) (length (mb_seq_lens b)) idx"
    using micro_batch_indices_ok [OF assms(1,3,4) nn] by blast
  have "set (concat idx) = {..<length (mb_rows b)}"
    using idx(3) assms(2) by (metis whole_groups_def mset_eq_upt_iff)
  then have "map_r (gather (mb_rows b)) idx = Inr (map (map ((!) (mb_rows b))) idx)"
    by (intro map_r_Inr gather_Inr) auto
  moreover have "length (mb_seq_lens b) mod force_group_size a = 0" using assms(4) by auto
  ultimately show ?thesis using mx assms(2,3,7) n idx
    by (auto simp: rearrange_micro_batches_def Let_def)
qed

lemma get_reverse_idx_fold:
  assumes "distinct idx" "set idx = {..<length idx}" "m \<le> length idx"
  shows "\<exists>r. fold_r (\<lambda>(i, idx) r. if idx < length r then Inr (r[idx := i]) else Inl IndexError)
      (take m (List.enumerate 0 idx)) idx = Inr r \<and> length r = length idx \<and> (\<forall>i<m. r ! (idx ! i) = i)"
  using assms(3)
proof (induction m)
  case 0
  show ?case by simp
next
  case (Suc m)
  then obtain r where r: "fold_r (\<lambda>(i, idx) r. if idx < length r then Inr (r[idx := i]) else Inl IndexError)
      (take m (List.enumerate 0 idx)) idx = Inr r" "length r = length idx" "\<forall>i<m. r ! (idx ! i) = i" by auto
  have "idx ! m < length idx" using Suc.prems assms(2) by (metis Suc_le_lessD lessThan_iff nth_mem)
  moreover have "idx ! m \<noteq> idx ! i" if "i < m" for i
    using that Suc.prems assms(1) by (simp add: nth_eq_iff_index_eq)
  moreover have "take (Suc m) (List.enumerate 0 idx) = take m (List.enumerate 0 idx) @ [(m, idx ! m)]"
    using Suc.prems by (simp add: take_Suc_conv_app_nth nth_enumerate_eq)
  ultimately show ?case using r by (auto simp: fold_r_append less_Suc_eq)
qed

lemma get_reverse_idx_inverse:
  assumes "mset idx = mset [0..<n]"
  shows "\<exists>r. get_reverse_idx idx = Inr r \<and> length r = n
    \<and> (\<forall>i<n. r ! (idx ! i) = i) \<and> (\<forall>j<n. r ! j < n \<and> idx ! (r ! j) = j)"
proof -
  have d: "distinct idx" "set idx = {..<n}" using assms mset_eq_upt_iff by blast+
  have len: "length idx = n" using arg_cong [OF assms, of size] by simp
  obtain r where r: "get_reverse_idx idx = Inr r" "length r = n" "\<forall>i<n. r ! (idx ! i) = i"
    using get_reverse_idx_fold [of idx "length idx"] d len by (auto simp: get_reverse_idx_def)
  have "r ! j < n \<and> idx ! (r ! j) = j" if "j < n" for j
  proof -
    from that d(2) len obtain i where "i < n" "j = idx ! i" by (metis in_set_conv_nth lessThan_iff)
    with r(3) show ?thesis by simp
  qed
  with r show ?thesis by blast
qed

lemma restore_dynamic_batch_permuted:
  assumes "mset (concat idx) = mset [0..<n]"
  shows "restore_dynamic_batch (map h (concat idx)) idx = Inr (map h [0..<n])"
proof -
  obtain r where r: "get_reverse_idx (concat idx) = Inr r" "length r = n"
    "\<forall>j<n. r ! j < n \<and> concat idx ! (r ! j) = j"
    using get_reverse_idx_inverse [OF assms] by blast
  have len: "length (concat idx) = n" using arg_cong [OF assms, of size] by simp
  have "set r \<subseteq> {..<n}" using r(2,3) by (auto simp: in_set_conv_nth)
  then have "gather (map h (concat idx)) r = Inr (map ((!) (map h (concat idx))) r)"
    using len by (intro gather_Inr) simp
  also have "map ((!) (map h (concat idx))) r = map h [0..<n]"
    using r(2,3) len by (intro nth_equalityI) auto
  finally show ?thesis using r(1) len by (simp add: restore_dynamic_batch_def)
qed

lemma concat_gathered: "concat (map (map ((!) rows)) idx) = map ((!) rows) (concat idx)"
  by (simp add: map_concat)

text \<open>
  C7. When the batch has as many rows as lengths, no sequence is longer than \<open>max_token_len\<close>, the
  rows come in whole groups and the micro-batch count \<open>n\<close> computed from the token total, the
  all-reduce and the rounding satisfies \<open>0 < n \<le> num_groups\<close>, \<open>rearrange_micro_batches\<close> returns
  exactly \<open>n\<close> micro-batches: none is empty, every row is in exactly one of them, each is a
  sequence of whole groups of \<open>force_group_size\<close> consecutive rows, and each micro-batch holds the
  rows its index list names, in that order.
\<close>

theorem rearrange_micro_batches_correct:
  assumes "\<forall>x\<in>set (mb_seq_lens b). 0 \<le> x \<and> x \<le> max_token_len a"
    and "length (mb_rows b) = length (mb_seq_lens b)" "mb_rows b \<noteq> []"
    and "0 < force_group_size a" "force_group_size a dvd length (mb_rows b)"
    and "mb_nested b \<or> mb_mask_width b \<le> max_token_len a"
    and "num_micro_batches a (length (mb_rows b) div force_group_size a) (sum_list (mb_seq_lens b)) = Inr n"
    and "0 < n" "n \<le> int (length (mb_rows b) div force_group_size a)"
  shows "\<exists>idx. rearrange_micro_batches b a = Inr (map (map ((!) (mb_rows b))) idx, idx)
    \<and> length idx = nat n \<and> mset (concat idx) = mset [0..<length (mb_rows b)]
    \<and> (\<forall>p\<in>set idx. p \<noteq> [] \<and> (\<exists>gs. p = expand_groups (force_group_size a) gs))"
  using rearrange_micro_batches_ok [of b a n] assms by (fastforce simp: whole_groups_def)

theorem rearrange_micro_batches_correct_witness:
  "\<exists>idx. rearrange_micro_batches
      \<lparr>mb_rows = [10, 11, 12, 13::int], mb_nested = True, mb_seq_lens = [4, 1, 2, 2], mb_mask_width = 4\<rparr>
      \<lparr>max_token_len = 6, dist_initialized = True, dp_group = Some (max 2), num_batches_divided_by = Some 2,
       same_micro_num_in_dp = True, min_num_micro_batch = None, use_dynamic_bsz_balance = True,
       force_group_size = 2\<rparr> = Inr (map (map ((!) [10, 11, 12, 13])) idx, idx)
    \<and> length idx = nat 2 \<and> mset (concat idx) = mset [0..<length [10, 11, 12, 13::int]]
    \<and> (\<forall>p\<in>set idx. p \<noteq> [] \<and> (\<exists>gs. p = expand_groups 2 gs))"
  using rearrange_micro_batches_correct
    [of "\<lparr>mb_rows = [10, 11, 12, 13::int], mb_nested = True, mb_seq_lens = [4, 1, 2, 2], mb_mask_width = 4\<rparr>"
        "\<lparr>max_token_len = 6, dist_initialized = True, dp_group = Some (max 2), num_batches_divided_by = Some 2,
          same_micro_num_in_dp = True, min_num_micro_batch = None, use_dynamic_bsz_balance = True,
          force_group_size = 2\<rparr>" 2]
  by (simp add: num_micro_batches_def ceildiv_def roundup_divisible_def)

text \<open>
  \<open>restore_dynamic_batch\<close> undoes \<open>rearrange_micro_batches\<close>: for every row-wise computation
  \<open>f\<close>, concatenating its results over the micro-batches and restoring them with the returned index
  lists gives the results in the order of the original batch.
\<close>

lemma restore_after_rearrange:
  assumes "\<forall>x\<in>set (mb_seq_lens b). 0 \<le> x \<and> x \<le> max_token_len a"
    and "length (mb_rows b) = length (mb_seq_lens b)" "mb_rows b \<noteq> []"
    and "0 < force_group_size a" "force_group_size a dvd length (mb_rows b)"
    and "mb_nested b \<or> mb_mask_width b \<le> max_token_len a"
    and "num_micro_batches a (length (mb_rows b) div force_group_size a) (sum_list (mb_seq_lens b)) = Inr n"
    and "0 < n" "n \<le> int (length (mb_rows b) div force_group_size a)"
  shows "rbind (rearrange_micro_batches b a)
      (\<lambda>(micro_batches, idx). restore_dynamic_batch (concat (map (map f) micro_batches)) idx)
    = Inr (map f (mb_rows b))"
proof -
  obtain idx where idx: "rearrange_micro_batches b a = Inr (map (map ((!) (mb_rows b))) idx, idx)"
    "whole_groups (force_group_size a) (length (mb_rows b)) idx"
    using rearrange_micro_batches_ok [of b a n] assms by fastforce
  have "concat (map (map f) (map (map ((!) (mb_rows b))) idx)) = map (\<lambda>i. f (mb_rows b ! i)) (concat idx)"
    by (simp add: map_concat comp_def)
  moreover have "map (\<lambda>i. f (mb_rows b ! i)) [0..<length (mb_rows b)] = map f (mb_rows b)"
    by (rule nth_equalityI) simp_all
  moreover have "mset (concat idx) = mset [0..<length (mb_rows b)]"
    using idx(2) unfolding whole_groups_def by blast
  note restore_dynamic_batch_permuted [OF this, of "\<lambda>i. f (mb_rows b ! i)"]
  ultimately show ?thesis using idx(1) by simp
qed

text \<open>
  \<open>max_token_len\<close> is not an upper bound on the tokens of a micro-batch: three sequences of
  three tokens with a limit of five are split into two micro-batches, one of which has six tokens.
\<close>

lemma micro_batch_token_overflow:
  "rearrange_micro_batches
     \<lparr>mb_rows = [3, 3, 3::int], mb_nested = True, mb_seq_lens = [3, 3, 3], mb_mask_width = 3\<rparr>
     \<lparr>max_token_len = 5, dist_initialized = False, dp_group = None, num_batches_divided_by = None,
      same_micro_num_in_dp = True, min_num_micro_batch = None, use_dynamic_bsz_balance = False,
      force_group_size = 1\<rparr>
   = Inr ([[3, 3], [3]], [[0, 1], [2]])"
  by code_simp

section \<open>Groups of one uid stay together\<close>

definition grouping_inv :: "'u list \<Rightarrow> nat \<Rightarrow> 'u grouping \<Rightarrow> bool" where
  "grouping_inv us m st \<longleftrightarrow>
     concat (map fst (gr_groups st)) @ gr_indices st = [0..<m] \<and>
     (\<forall>G\<in>set (map fst (gr_groups st)). G \<noteq> []) \<and> (m > 0 \<longrightarrow> gr_indices st \<noteq> []) \<and>
     gr_uid st = (if m = 0 then None else Some (us ! (m - 1))) \<and>
     (\<forall>i. Suc i < m \<longrightarrow> us ! i = us ! Suc i \<longrightarrow>
        (\<exists>G\<in>set (gr_indices st # map fst (gr_groups st)). {i, Suc i} \<subseteq> set G))"

lemma grouping_inv_step:
  assumes "grouping_inv us m st"
  shows "grouping_inv us (Suc m) (group_step (m, s, us ! m) st)"
proof (cases "Some (us ! m) \<noteq> gr_uid st")
  case True
  have "gr_indices st \<noteq> [] \<longleftrightarrow> m > 0"
    using assms unfolding grouping_inv_def by (metis Nil_is_append_conv neq0_conv upt_0)
  moreover have "us ! i \<noteq> us ! Suc i" if "Suc i = m" for i
    using True assms that by (auto simp: grouping_inv_def)
  ultimately show ?thesis using True assms
    by (auto simp: grouping_inv_def group_step_def less_Suc_eq)
next
  case False
  then have m: "m > 0" "gr_indices st \<noteq> []" using assms by (auto simp: grouping_inv_def split: if_splits)
  have "last (gr_indices st) = m - 1"
    using assms m by (metis grouping_inv_def last_appendR last_upt neq0_conv)
  then have "m - 1 \<in> set (gr_indices st)" using m(2) last_in_set by fastforce
  moreover have "group_step (m, s, us ! m) st
      = st\<lparr>gr_indices := gr_indices st @ [m], gr_seqlen := gr_seqlen st + s\<rparr>"
    using False by (simp add: group_step_def)
  moreover have "concat (map fst (gr_groups st)) @ gr_indices st = [0..<m]"
    "\<forall>G\<in>set (map fst (gr_groups st)). G \<noteq> []"
    and adj: "\<And>i. Suc i < m \<Longrightarrow> us ! i = us ! Suc i \<Longrightarrow>
        \<exists>G\<in>set (gr_indices st # map fst (gr_groups st)). {i, Suc i} \<subseteq> set G"
    using assms unfolding grouping_inv_def by blast+
  moreover have "\<exists>G\<in>set ((gr_indices st @ [m]) # map fst (gr_groups st)). {i, Suc i} \<subseteq> set G"
    if "Suc i < Suc m" "us ! i = us ! Suc i" for i
  proof (cases "Suc i = m")
    case True
    then have "{i, Suc i} \<subseteq> set (gr_indices st @ [m])"
      using \<open>m - 1 \<in> set (gr_indices st)\<close> by auto
    then show ?thesis by simp
  next
    case False
    then have "Suc i < m" using that(1) by simp
    from adj [OF this that(2)] show ?thesis by fastforce
  qed
  ultimately show ?thesis using False assms unfolding grouping_inv_def by simp
qed

lemma build_groups_fold:
  assumes "length sl = length us" "m \<le> length us"
  shows "grouping_inv us m (fold group_step (take m (List.enumerate 0 (zip sl us)))
    \<lparr>gr_groups = [], gr_uid = None, gr_indices = [], gr_seqlen = 0\<rparr>)"
  using assms(2)
proof (induction m)
  case 0
  show ?case by (simp add: grouping_inv_def)
next
  case (Suc m)
  have "take (Suc m) (List.enumerate 0 (zip sl us))
      = take m (List.enumerate 0 (zip sl us)) @ [(m, sl ! m, us ! m)]"
    using Suc.prems assms(1) by (simp add: take_Suc_conv_app_nth nth_enumerate_eq)
  with Suc show ?case by (simp add: grouping_inv_step)
qed

lemma build_groups_ok:
  assumes "length sl = length us"
  shows "concat (map fst (build_groups sl us)) = [0..<length us]
    \<and> (\<forall>G\<in>set (map fst (build_groups sl us)). G \<noteq> [])
    \<and> (\<forall>i. Suc i < length us \<longrightarrow> us ! i = us ! Suc i \<longrightarrow>
        (\<exists>G\<in>set (map fst (build_groups sl us)). {i, Suc i} \<subseteq> set G))"
  using build_groups_fold [OF assms order.refl] assms
  by (auto simp: build_groups_def grouping_inv_def Let_def)

lemma adjacent_runs_together:
  assumes d: "distinct (concat ps)" and n: "j < n" "i \<le> j" and cover: "{..<n} \<subseteq> set (concat ps)"
    and adj: "\<And>l. Suc l < n \<Longrightarrow> us ! l = us ! Suc l \<Longrightarrow> \<exists>p\<in>set ps. {l, Suc l} \<subseteq> set p"
    and run: "\<forall>l\<in>{i..j}. us ! l = us ! i"
  shows "\<exists>p\<in>set ps. {i..j} \<subseteq> set p"
  using n run
proof (induction j)
  case 0
  have "0 \<in> set (concat ps)" using cover 0(1) by blast
  then obtain p where "p \<in> set ps" "0 \<in> set p" unfolding set_concat by blast
  then show ?case using 0(2) by (intro bexI [of _ p]) simp_all
next
  case (Suc j)
  show ?case
  proof (cases "i \<le> j")
    case True
    have "j < n" using Suc.prems(1) by simp
    moreover have "\<forall>l\<in>{i..j}. us ! l = us ! i" by (rule ballI, rule bspec [OF Suc.prems(3)]) simp
    ultimately obtain p where p: "p \<in> set ps" "{i..j} \<subseteq> set p" using Suc.IH True by blast
    have "us ! j = us ! i" "us ! Suc j = us ! i"
      by (rule bspec [OF Suc.prems(3)], use True in simp)+
    then have "us ! j = us ! Suc j" by simp
    with adj [OF Suc.prems(1)] obtain q where q: "q \<in> set ps" "{j, Suc j} \<subseteq> set q" by blast
    have "j \<in> set p \<inter> set q" using p q True by auto
    then have "p = q" using d p(1) q(1) by (auto simp: distinct_concat_iff)
    moreover have "{i..Suc j} = insert (Suc j) {i..j}"
      using True by (intro atLeastAtMostSuc_conv) simp
    ultimately show ?thesis using p q by (intro bexI [of _ q]) simp_all
  next
    case False
    then have i: "i = Suc j" using Suc.prems(2) by simp
    have "Suc j \<in> set (concat ps)" using cover Suc.prems(1) by blast
    then obtain p where "p \<in> set ps" "Suc j \<in> set p" unfolding set_concat by blast
    then show ?thesis unfolding i by (intro bexI [of _ p]) simp_all
  qed
qed

lemma get_group_balanced_partitions_ok:
  assumes "length sl = length us" "0 < k" "k dvd length (build_groups sl us)" "us \<noteq> []"
  shows "\<exists>ps. get_group_balanced_partitions sl us k = Inr ps \<and> length ps = k
    \<and> mset (concat ps) = mset [0..<length us] \<and> (\<forall>p\<in>set ps. p \<noteq> [] \<and> sorted p)
    \<and> (\<forall>G\<in>set (map fst (build_groups sl us)). \<exists>p\<in>set ps. set G \<subseteq> set p)"
proof -
  let ?G = "map fst (build_groups sl us)" and ?n = "length (build_groups sl us)"
  have G: "concat ?G = [0..<length us]" "\<forall>g\<in>set ?G. g \<noteq> []"
    using build_groups_ok [OF assms(1)] by blast+
  have ne: "?G \<noteq> []" using G(1) assms(4) by (cases "build_groups sl us") (auto simp: eq_commute [of "[]"])
  let ?w = "map (\<lambda>(indices, _). sum_list (calculate_workload (map ((!) sl) indices))) (build_groups sl us)"
  have in_range: "set (fst g) \<subseteq> {..<length sl}" if "g \<in> set (build_groups sl us)" for g
  proof -
    have "set (fst g) \<subseteq> set (concat ?G)" using that by auto
    then show ?thesis using assms(1) by (simp add: G(1) atLeast0LessThan)
  qed
  have w: "map_r (\<lambda>(indices, _). rbind (gather sl indices) (\<lambda>ls. Inr (sum_list (calculate_workload ls))))
      (build_groups sl us) = Inr ?w"
    by (rule map_r_Inr) (use in_range in \<open>auto simp: gather_Inr split: prod.split\<close>)
  have "k dvd length ?w" "?w \<noteq> []" using assms(3) ne by auto
  then obtain parts where parts: "get_seqlen_balanced_partitions ?w k True = Inr parts"
    and bal: "balanced_partition ?w k (Max (set ?w) - Min (set ?w)) parts"
    using equal_partitions_ok [OF assms(2)] by blast
  have idx: "mset (concat parts) = mset [0..<?n]" and len: "length parts = k"
    and pne: "\<forall>p\<in>set parts. p \<noteq> []" using bal by (auto simp: balanced_partition_def)
  have rng: "set (concat parts) = {..<?n}" using idx mset_eq_upt_iff by blast
  let ?ps = "map (\<lambda>p. sort (concat (map ((!) ?G) p))) parts"
  have "map_r (\<lambda>p. rbind (gather ?G p) (\<lambda>idxs. Inr (sort (concat idxs)))) parts = Inr ?ps"
  proof (rule map_r_Inr)
    fix p assume "p \<in> set parts"
    then have "set p \<subseteq> {..<length ?G}" using rng by auto
    then show "rbind (gather ?G p) (\<lambda>idxs. Inr (sort (concat idxs))) = Inr (sort (concat (map ((!) ?G) p)))"
      by (simp only: gather_Inr rbind_Inr)
  qed
  moreover have "k \<le> ?n" using assms(3) ne by (auto dest: dvd_imp_le)
  ultimately have run: "get_group_balanced_partitions sl us k = Inr ?ps"
    using assms(1) w parts by (simp add: get_group_balanced_partitions_def)
  have "mset (concat ?ps) = mset (concat (map (\<lambda>p. concat (map ((!) ?G) p)) parts))"
    using mset_concat_map_sort [of "map (\<lambda>p. concat (map ((!) ?G) p)) parts"] by (simp add: comp_def)
  also have "\<dots> = mset (concat (map ((!) ?G) (concat parts)))" by (induction parts) auto
  also have "\<dots> = mset (concat (map ((!) ?G) [0..<?n]))"
    using idx by (intro mset_concat_mset_cong) (simp only: mset_map)
  also have "map ((!) ?G) [0..<?n] = ?G" by (metis length_map map_nth)
  finally have all: "mset (concat ?ps) = mset [0..<length us]" by (simp only: G(1))
  have sub: "\<exists>p\<in>set ?ps. set g \<subseteq> set p" if g: "g \<in> set ?G" for g
  proof -
    from g obtain i where i: "i < ?n" "g = ?G ! i" by (metis in_set_conv_nth length_map)
    then have "i \<in> set (concat parts)" using rng by blast
    then obtain p where p: "p \<in> set parts" "i \<in> set p" unfolding set_concat by blast
    then have "set g \<subseteq> set (sort (concat (map ((!) ?G) p)))" using i(2) by auto
    with p(1) show ?thesis by auto
  qed
  have "concat (map ((!) ?G) p) \<noteq> []" if p: "p \<in> set parts" for p
  proof -
    obtain i where "i \<in> set p" using pne p by (metis last_in_set)
    moreover have "i < ?n" using rng p calculation by auto
    then have "?G ! i \<in> set ?G" by simp
    then have "?G ! i \<noteq> []" using G(2) by blast
    ultimately show ?thesis unfolding concat_eq_Nil_conv set_map by blast
  qed
  then have "\<forall>p\<in>set ?ps. p \<noteq> [] \<and> sorted p" by (auto simp del: concat_eq_Nil_conv) 
      (metis length_0_conv length_sort)
  then show ?thesis using run len all sub by (intro exI [of _ ?ps]) simp
qed

text \<open>
  When the number of uid runs is a multiple of \<open>k\<close>, \<open>get_group_balanced_partitions\<close> returns
  \<open>k\<close> non-empty sorted lists that hold every sample once, and a run of consecutive samples with one
  uid is never split: it lies inside one of the lists.
\<close>

lemma group_partitions_keep_runs:
  assumes "length sl = length us" "0 < k" "k dvd length (build_groups sl us)" "us \<noteq> []"
  shows "\<exists>ps. get_group_balanced_partitions sl us k = Inr ps \<and> length ps = k
    \<and> mset (concat ps) = mset [0..<length us] \<and> (\<forall>p\<in>set ps. p \<noteq> [] \<and> sorted p)
    \<and> (\<forall>i j. i \<le> j \<and> j < length us \<and> (\<forall>l\<in>{i..j}. us ! l = us ! i) \<longrightarrow> (\<exists>p\<in>set ps. {i..j} \<subseteq> set p))"
proof -
  obtain ps where ps: "get_group_balanced_partitions sl us k = Inr ps" "length ps = k"
    "mset (concat ps) = mset [0..<length us]" "\<forall>p\<in>set ps. p \<noteq> [] \<and> sorted p"
    "\<forall>G\<in>set (map fst (build_groups sl us)). \<exists>p\<in>set ps. set G \<subseteq> set p"
    using get_group_balanced_partitions_ok [OF assms] by blast
  have d: "distinct (concat ps)" "set (concat ps) = {..<length us}" using ps(3) mset_eq_upt_iff by blast+
  have adj: "\<exists>p\<in>set ps. {l, Suc l} \<subseteq> set p" if "Suc l < length us" "us ! l = us ! Suc l" for l
    using build_groups_ok [OF assms(1)] that ps(5) by (meson subset_trans)
  have "\<exists>p\<in>set ps. {i..j} \<subseteq> set p"
    if "i \<le> j" "j < length us" "\<forall>l\<in>{i..j}. us ! l = us ! i" for i j
    using adjacent_runs_together [OF d(1) that(2,1) _ adj that(3)] d(2) by blast
  with ps show ?thesis by blast
qed

end
