(* ===== verification/Teacher_Config.thy ===== *)
theory Teacher_Config
  imports Prelude
begin

text \<open>
  \<open>verl/workers/config/fsdp_teacher.py\<close>: the teacher configuration, its validation in
  \<open>__post_init__\<close>, and the routing of batch rows to teachers.  A Python dict is an association
  list in insertion order: \<open>map_of\<close> is \<open>get\<close>, \<open>AList.update\<close> is item assignment.  The ability
  column holds the strings the code obtains with \<open>str\<close>.
\<close>

section \<open>Routing\<close>

definition TOP_K_STRATEGIES :: "string list" where
  "TOP_K_STRATEGIES = [''only_stu'', ''only_tch'', ''intersection'', ''union'', ''union-intersection'']"

definition REWARD_WEIGHT_MODES :: "string list" where
  "REWARD_WEIGHT_MODES = [''student_p'', ''teacher_p'', ''none'']"

definition route_row :: "string list \<Rightarrow> (string \<times> string) list \<Rightarrow> string \<Rightarrow> bool \<Rightarrow> nat \<Rightarrow> string result" where
  "route_row abilities ability_to_teacher default_teacher strict_routing i =
     rbind (py_nth abilities i) (\<lambda>ability.
     case map_of ability_to_teacher ability of
       Some teacher \<Rightarrow> Inr teacher
     | None \<Rightarrow> if strict_routing then Inl ValueError else Inr default_teacher)"

definition route_by_ability ::
  "string list option \<Rightarrow> nat \<Rightarrow> (string \<times> string) list option \<Rightarrow> string \<Rightarrow> bool \<Rightarrow> string list result" where
  "route_by_ability abilities n_samples ability_to_teacher default_teacher strict_routing =
     (case ability_to_teacher of
        None \<Rightarrow> Inr (replicate n_samples default_teacher)
      | Some a2t \<Rightarrow>
          if a2t = [] then Inr (replicate n_samples default_teacher)
          else (case abilities of
                  None \<Rightarrow> if strict_routing then Inl ValueError else Inr (replicate n_samples default_teacher)
                | Some abl \<Rightarrow> map_r (route_row abl a2t default_teacher strict_routing) [0..<n_samples]))"

section \<open>The configuration\<close>

record teacher_entry =
  te_name :: string
  te_path :: string

record fsdp_teacher_config =
  enabled :: bool
  model_path :: "string option"
  teachers :: "teacher_entry list"
  ability_to_teacher :: "(string \<times> string) list"
  strict_routing :: bool
  default_teacher :: "string option"
  micro_batch_size_per_gpu :: nat
  teacher_temperature :: real
  log_prob_top_k :: int
  top_k_strategy :: string
  reward_weight_mode :: string
  metric_top_k :: int

definition teacher_names :: "fsdp_teacher_config \<Rightarrow> string list" where
  "teacher_names cfg = map te_name (teachers cfg)"

definition teacher_paths :: "fsdp_teacher_config \<Rightarrow> (string \<times> string) list" where
  "teacher_paths cfg = fold (\<lambda>t d. AList.update (te_name t) (te_path t) d) (teachers cfg) []"

definition is_multi_teacher :: "fsdp_teacher_config \<Rightarrow> bool" where
  "is_multi_teacher cfg = (1 < length (teachers cfg))"

definition falsy_str :: "string option \<Rightarrow> bool" where
  "falsy_str s = (s = None \<or> s = Some [])"

definition post_init :: "fsdp_teacher_config \<Rightarrow> fsdp_teacher_config result" where
  "post_init self =
     (if \<not> enabled self then Inr self
      else if top_k_strategy self \<notin> set TOP_K_STRATEGIES then Inl ValueError
      else if reward_weight_mode self \<notin> set REWARD_WEIGHT_MODES then Inl ValueError
      else if log_prob_top_k self < 0 then Inl ValueError
      else if metric_top_k self < 0 then Inl ValueError
      else (let names = teacher_names self in
        if names = [] \<and> falsy_str (model_path self) then Inl ValueError
        else if \<not> distinct names then Inl ValueError
        else (let self = (if names \<noteq> [] \<and> default_teacher self = None
                          then self\<lparr>default_teacher := Some (hd names)\<rparr> else self) in
          case default_teacher self of
            Some d \<Rightarrow>
              if names \<noteq> [] \<and> d \<notin> set names then Inl ValueError
              else if \<exists>(_, teacher)\<in>set (ability_to_teacher self). names \<noteq> [] \<and> teacher \<notin> set names
                then Inl ValueError else Inr self
          | None \<Rightarrow>
              if \<exists>(_, teacher)\<in>set (ability_to_teacher self). names \<noteq> [] \<and> teacher \<notin> set names
                then Inl ValueError else Inr self)))"

definition route_default :: "fsdp_teacher_config \<Rightarrow> string" where
  "route_default cfg = (case default_teacher cfg of
       Some d \<Rightarrow> d
     | None \<Rightarrow> (case teacher_names cfg of n # _ \<Rightarrow> n | [] \<Rightarrow> ''default''))"

definition route :: "fsdp_teacher_config \<Rightarrow> string list option \<Rightarrow> nat \<Rightarrow> string list result" where
  "route cfg abilities n_samples =
     route_by_ability abilities n_samples (Some (ability_to_teacher cfg)) (route_default cfg) (strict_routing cfg)"

definition init_model_paths :: "fsdp_teacher_config \<Rightarrow> (string \<times> string option) list" where
  "init_model_paths cfg =
     (let paths = teacher_paths cfg in
      if paths = [] then [(if falsy_str (default_teacher cfg) then ''default'' else the (default_teacher cfg),
                           model_path cfg)]
      else map (\<lambda>(n, p). (n, Some p)) paths)"

section \<open>Routing is total and exact\<close>

text \<open>What the documentation of \<open>route_by_ability\<close> promises for one row.\<close>

definition route_spec :: "string list option \<Rightarrow> (string \<times> string) list \<Rightarrow> string \<Rightarrow> nat \<Rightarrow> string" where
  "route_spec abilities a2t dflt i =
     (case abilities of
        None \<Rightarrow> dflt
      | Some abl \<Rightarrow> (case map_of a2t (abl ! i) of Some t \<Rightarrow> t | None \<Rightarrow> dflt))"

definition routable :: "string list option \<Rightarrow> nat \<Rightarrow> (string \<times> string) list \<Rightarrow> bool \<Rightarrow> bool" where
  "routable abilities n a2t strict \<longleftrightarrow>
     a2t = [] \<or> (case abilities of None \<Rightarrow> \<not> strict
       | Some abl \<Rightarrow> n \<le> length abl \<and> (strict \<longrightarrow> (\<forall>i<n. map_of a2t (abl ! i) \<noteq> None)))"

lemma map_r_error:
  assumes "\<forall>x\<in>set xs. \<forall>e. f x = Inl e \<longrightarrow> e = err" "\<exists>x\<in>set xs. \<exists>e. f x = Inl e"
  shows "map_r f xs = Inl err"
  using assms
proof (induction xs)
  case (Cons x xs)
  show ?case
  proof (cases "f x")
    case (Inl e)
    with Cons.prems show ?thesis by simp
  next
    case (Inr y)
    with Cons show ?thesis by simp
  qed
qed simp

lemma route_by_ability_ok:
  assumes "routable abilities n a2t strict"
  shows "route_by_ability abilities n (Some a2t) dflt strict
    = Inr (map (\<lambda>i. route_spec abilities a2t dflt i) [0..<n])"
proof (cases "a2t = []")
  case True
  then show ?thesis
    by (cases abilities) (simp_all add: route_by_ability_def route_spec_def map_replicate_const)
next
  case a2t: False
  show ?thesis
  proof (cases abilities)
    case None
    with a2t assms show ?thesis
      by (simp add: route_by_ability_def route_spec_def routable_def map_replicate_const)
  next
    case (Some abl)
    have "map_r (route_row abl a2t dflt strict) [0..<n] = Inr (map (route_spec abilities a2t dflt) [0..<n])"
      using assms a2t
      by (intro map_r_Inr) (auto simp: Some routable_def route_row_def route_spec_def py_nth_def split: option.split)
    with a2t Some show ?thesis by (simp add: route_by_ability_def)
  qed
qed

text \<open>
  C3. \<open>route_by_ability\<close> returns one teacher per row, in batch order: the mapped teacher of the
  row's ability, and the default teacher when there is no mapping, no ability column or no entry
  for the ability.  With a column of the batch's length it fails in exactly the strict cases
  (missing column, unknown ability), and then with \<open>ValueError\<close>.
\<close>

theorem route_by_ability_correct:
  assumes "\<forall>abl. abilities = Some abl \<longrightarrow> n \<le> length abl"
  shows "route_by_ability abilities n (Some a2t) dflt strict =
    (if routable abilities n a2t strict then Inr (map (\<lambda>i. route_spec abilities a2t dflt i) [0..<n])
     else Inl ValueError)"
proof (cases "routable abilities n a2t strict")
  case True
  then show ?thesis by (simp add: route_by_ability_ok)
next
  case False
  then have a2t: "a2t \<noteq> []" by (auto simp: routable_def)
  show ?thesis
  proof (cases abilities)
    case None
    with False a2t show ?thesis by (simp add: route_by_ability_def routable_def)
  next
    case (Some abl)
    with False assms a2t obtain i where "strict" "i < n" "map_of a2t (abl ! i) = None"
      by (auto simp: routable_def)
    then have "map_r (route_row abl a2t dflt strict) [0..<n] = Inl ValueError"
      using assms Some
      by (intro map_r_error) (auto simp: route_row_def py_nth_def split: option.splits intro!: bexI [of _ i])
    with False a2t Some show ?thesis by (simp add: route_by_ability_def)
  qed
qed

theorem route_by_ability_correct_witness:
  "route_by_ability (Some [''math'', ''chem'', ''code'']) 3 (Some [(''math'', ''tm''), (''code'', ''tc'')]) ''tm'' True =
    (if routable (Some [''math'', ''chem'', ''code'']) 3 [(''math'', ''tm''), (''code'', ''tc'')] True
     then Inr (map (\<lambda>i. route_spec (Some [''math'', ''chem'', ''code''])
                       [(''math'', ''tm''), (''code'', ''tc'')] ''tm'' i) [0..<3])
     else Inl ValueError)"
  by (rule route_by_ability_correct) simp

section \<open>Routed teachers exist\<close>

lemma teacher_paths_keys:
  "set (map fst (teacher_paths cfg)) = set (teacher_names cfg) \<and> distinct (map fst (teacher_paths cfg))"
proof -
  have "fst ` set (fold (\<lambda>t d. AList.update (te_name t) (te_path t) d) ts d) = fst ` set d \<union> te_name ` set ts
      \<and> (distinct (map fst d) \<longrightarrow> distinct (map fst (fold (\<lambda>t d. AList.update (te_name t) (te_path t) d) ts d)))"
    for ts and d :: "(string \<times> string) list"
    by (induction ts arbitrary: d) (auto simp: dom_update distinct_update)
  from this [of "teachers cfg" "[]"] show ?thesis
    by (simp add: teacher_paths_def teacher_names_def)
qed

lemma teacher_paths_Nil_iff: "teacher_paths cfg = [] \<longleftrightarrow> teachers cfg = []"
proof -
  have "set (teacher_paths cfg) = {} \<longleftrightarrow> set (teacher_names cfg) = {}"
    using teacher_paths_keys [of cfg] by auto
  then show ?thesis by (simp add: teacher_names_def)
qed

lemma init_model_names:
  "set (map fst (init_model_paths cfg)) =
    (if teachers cfg = [] then {if falsy_str (default_teacher cfg) then ''default'' else the (default_teacher cfg)}
     else set (teacher_names cfg))"
proof (cases "teachers cfg = []")
  case True
  then show ?thesis by (simp add: init_model_paths_def teacher_paths_Nil_iff)
next
  case False
  then have "map fst (init_model_paths cfg) = map fst (teacher_paths cfg)"
    by (simp add: init_model_paths_def teacher_paths_Nil_iff split_def)
  with False teacher_paths_keys show ?thesis by simp
qed

lemma distinct_init_model_names: "distinct (map fst (init_model_paths cfg))"
  using teacher_paths_keys [of cfg] by (auto simp: init_model_paths_def Let_def split_def comp_def)

text \<open>A configuration that went through the constructor.\<close>

definition valid_config :: "fsdp_teacher_config \<Rightarrow> bool" where
  "valid_config cfg \<longleftrightarrow> (\<exists>cfg0. enabled cfg0 \<and> post_init cfg0 = Inr cfg)"

lemma post_init_cases:
  assumes "post_init cfg0 = Inr cfg" "enabled cfg0"
  shows "distinct (teacher_names cfg) \<and> top_k_strategy cfg \<in> set TOP_K_STRATEGIES
    \<and> reward_weight_mode cfg \<in> set REWARD_WEIGHT_MODES \<and> 0 \<le> log_prob_top_k cfg \<and> 0 \<le> metric_top_k cfg
    \<and> (teachers cfg = [] \<longrightarrow> \<not> falsy_str (model_path cfg))
    \<and> (teachers cfg \<noteq> [] \<longrightarrow> (\<exists>d. default_teacher cfg = Some d \<and> d \<in> set (teacher_names cfg))
         \<and> (\<forall>(_, t)\<in>set (ability_to_teacher cfg). t \<in> set (teacher_names cfg)))"
  using assms
  by (auto simp: post_init_def Let_def teacher_names_def split: if_splits option.splits)

lemma route_spec_in_names:
  assumes "valid_config cfg" "teachers cfg \<noteq> []"
  shows "route_spec abilities (ability_to_teacher cfg) (route_default cfg) i \<in> set (teacher_names cfg)"
proof -
  have v: "\<exists>d. default_teacher cfg = Some d \<and> d \<in> set (teacher_names cfg)"
    "\<forall>(_, t)\<in>set (ability_to_teacher cfg). t \<in> set (teacher_names cfg)"
    using assms post_init_cases unfolding valid_config_def by blast+
  then have "route_default cfg \<in> set (teacher_names cfg)" by (auto simp: route_default_def)
  moreover have "t \<in> set (teacher_names cfg)" if "map_of (ability_to_teacher cfg) a = Some t" for a t
    using map_of_SomeD [OF that] v(2) by auto
  ultimately show ?thesis by (auto simp: route_spec_def split: option.split)
qed

text \<open>
  The rows of a batch are served when every teacher they are routed to has a module: always with a
  configured teacher list, and in single-teacher mode when no ability mapping is given and the
  default teacher is not the empty string.
\<close>

definition served_config :: "fsdp_teacher_config \<Rightarrow> bool" where
  "served_config cfg \<longleftrightarrow> valid_config cfg \<and>
     (teachers cfg \<noteq> [] \<or> ability_to_teacher cfg = [] \<and> default_teacher cfg \<noteq> Some [])"

lemma route_in_modules:
  assumes "served_config cfg" "route cfg abilities n = Inr routes"
  shows "length routes = n \<and> set routes \<subseteq> set (map fst (init_model_paths cfg))"
proof -
  have err: "routable abilities n (ability_to_teacher cfg) (strict_routing cfg)"
  proof (rule ccontr)
    let ?a = "ability_to_teacher cfg"
    assume nr: "\<not> ?thesis"
    then have "?a \<noteq> []" by (auto simp: routable_def)
    moreover obtain abl where "abilities = Some abl"
      using nr assms(2) calculation
      by (cases abilities) (auto simp: route_def route_by_ability_def routable_def split: if_splits)
    moreover have "n \<le> length abl \<and> (strict_routing cfg \<longrightarrow> (\<forall>i<n. map_of ?a (abl ! i) \<noteq> None))"
    proof -
      have m: "map_r (route_row abl ?a (route_default cfg) (strict_routing cfg)) [0..<n] = Inr routes"
        using assms(2) calculation by (simp add: route_def route_by_ability_def)
      have row: "route_row abl ?a (route_default cfg) (strict_routing cfg) i = Inr (routes ! i)" if "i < n" for i
        using map_r_nth [OF m, of i] that by simp
      then have each: "i < length abl \<and> (strict_routing cfg \<longrightarrow> map_of ?a (abl ! i) \<noteq> None)" if "i < n" for i
        using row [OF that] by (auto simp: route_row_def py_nth_def rbind_eq_Inr_iff split: if_splits option.splits)
      then have "n \<le> length abl" by (metis less_irrefl not_less)
      with each show ?thesis by blast
    qed
    ultimately show False using nr by (simp add: routable_def)
  qed
  then have r: "routes = map (route_spec abilities (ability_to_teacher cfg) (route_default cfg)) [0..<n]"
    using assms(2) route_by_ability_ok [OF err] by (simp add: route_def)
  have "route_spec abilities (ability_to_teacher cfg) (route_default cfg) i \<in> set (map fst (init_model_paths cfg))" for i
  proof (cases "teachers cfg = []")
    case True
    then have "ability_to_teacher cfg = []" "default_teacher cfg \<noteq> Some []"
      using assms(1) by (auto simp: served_config_def)
    then show ?thesis using True unfolding init_model_names
      by (auto simp: route_spec_def route_default_def falsy_str_def teacher_names_def
            split: option.split)
  next
    case False
    then show ?thesis using assms(1) route_spec_in_names unfolding init_model_names
      by (simp add: served_config_def)
  qed
  with r show ?thesis by auto
qed

text \<open>
  C4. A configuration that passed \<open>__post_init__\<close> with a teacher list, or in single-teacher mode
  without an ability mapping, routes every batch only to teachers that \<open>init_model\<close> builds a module
  for: whatever the ability column holds, \<open>route\<close> either raises or names, for each row, a key of the
  teacher modules.
\<close>

theorem routed_teachers_are_built:
  assumes "enabled cfg0" "post_init cfg0 = Inr cfg"
    and "teachers cfg \<noteq> [] \<or> ability_to_teacher cfg = [] \<and> default_teacher cfg \<noteq> Some []"
    and "route cfg abilities n = Inr routes"
  shows "length routes = n \<and> set routes \<subseteq> set (map fst (init_model_paths cfg))"
proof (rule route_in_modules [OF _ assms(4)])
  show "served_config cfg" using assms(1-3) by (auto simp: served_config_def valid_config_def)
qed

theorem routed_teachers_are_built_witness:
  "length [''tc'', ''tm''] = 2 \<and> set [''tc'', ''tm''] \<subseteq> set (map fst (init_model_paths
     \<lparr>enabled = True, model_path = None,
      teachers = [\<lparr>te_name = ''tm'', te_path = ''m''\<rparr>, \<lparr>te_name = ''tc'', te_path = ''c''\<rparr>],
      ability_to_teacher = [(''code'', ''tc'')], strict_routing = False, default_teacher = Some ''tm'',
      micro_batch_size_per_gpu = 2, teacher_temperature = 1, log_prob_top_k = 0,
      top_k_strategy = ''only_stu'', reward_weight_mode = ''student_p'', metric_top_k = 0\<rparr>))"
  by (rule routed_teachers_are_built
      [of "\<lparr>enabled = True, model_path = None,
            teachers = [\<lparr>te_name = ''tm'', te_path = ''m''\<rparr>, \<lparr>te_name = ''tc'', te_path = ''c''\<rparr>],
            ability_to_teacher = [(''code'', ''tc'')], strict_routing = False, default_teacher = None,
            micro_batch_size_per_gpu = 2, teacher_temperature = 1, log_prob_top_k = 0,
            top_k_strategy = ''only_stu'', reward_weight_mode = ''student_p'', metric_top_k = 0\<rparr>"
          _ "Some [''code'', ''x'']"])
    (simp_all add: post_init_def Let_def TOP_K_STRATEGIES_def REWARD_WEIGHT_MODES_def teacher_names_def
      route_def route_by_ability_def route_default_def route_row_def py_nth_def upt_rec)

text \<open>
  The constructor does not check the ability mapping in single-teacher mode: a configuration
  with a \<open>model_path\<close>, no teacher list and a mapping from \<open>math\<close> to an unknown teacher is accepted,
  and \<open>route\<close> then sends the math rows to a teacher without a module.
\<close>

lemma single_teacher_mapping_unchecked:
  "\<exists>cfg. enabled cfg \<and> post_init cfg = Inr cfg
     \<and> route cfg (Some [''math'']) 1 = Inr [''expert''] \<and> map fst (init_model_paths cfg) = [''default'']"
  by (rule exI [of _ "\<lparr>enabled = True, model_path = Some ''m'', teachers = [],
            ability_to_teacher = [(''math'', ''expert'')], strict_routing = True, default_teacher = None,
            micro_batch_size_per_gpu = 2, teacher_temperature = 1, log_prob_top_k = 0,
            top_k_strategy = ''only_stu'', reward_weight_mode = ''student_p'', metric_top_k = 0\<rparr>"])
    (simp add: post_init_def Let_def TOP_K_STRATEGIES_def REWARD_WEIGHT_MODES_def teacher_names_def
      route_def route_by_ability_def route_default_def route_row_def py_nth_def falsy_str_def
      init_model_paths_def teacher_paths_def)

end
