(* ===== verification/Tensor.thy ===== *)
theory Tensor
  imports Prelude
begin

text \<open>
  The numbers of the tensor code.  The arithmetic of the scoring functions is modelled over the
  reals (rounding is not), extended with the three special values the code produces on purpose and
  removes again: the infinities and NaN.  \<open>masked_fill(..., -inf)\<close>, \<open>logsumexp\<close> of an empty
  candidate set and \<open>nan_to_num\<close> all depend on them.  A tensor is the nested list of its rows.
\<close>

section \<open>Extended numbers\<close>

datatype fl = Fin real | PInf | NInf | NaN

instantiation fl :: "{zero, one, plus, uminus, minus, times}"
begin

definition zero_fl :: fl where
  "zero_fl = Fin 0"

definition one_fl :: fl where
  "one_fl = Fin 1"

fun plus_fl :: "fl \<Rightarrow> fl \<Rightarrow> fl" where
  "plus_fl (Fin x) (Fin y) = Fin (x + y)"
| "plus_fl NaN _ = NaN"
| "plus_fl _ NaN = NaN"
| "plus_fl PInf NInf = NaN"
| "plus_fl NInf PInf = NaN"
| "plus_fl PInf _ = PInf"
| "plus_fl _ PInf = PInf"
| "plus_fl NInf _ = NInf"
| "plus_fl _ NInf = NInf"

fun uminus_fl :: "fl \<Rightarrow> fl" where
  "uminus_fl (Fin x) = Fin (- x)"
| "uminus_fl PInf = NInf"
| "uminus_fl NInf = PInf"
| "uminus_fl NaN = NaN"

definition minus_fl :: "fl \<Rightarrow> fl \<Rightarrow> fl" where
  "minus_fl x y = x + (- y)"

definition inf_of_sign :: "real \<Rightarrow> fl" where
  "inf_of_sign x = (if x = 0 then NaN else if x > 0 then PInf else NInf)"

fun times_fl :: "fl \<Rightarrow> fl \<Rightarrow> fl" where
  "times_fl (Fin x) (Fin y) = Fin (x * y)"
| "times_fl NaN _ = NaN"
| "times_fl _ NaN = NaN"
| "times_fl PInf (Fin y) = inf_of_sign y"
| "times_fl NInf (Fin y) = inf_of_sign (- y)"
| "times_fl (Fin x) PInf = inf_of_sign x"
| "times_fl (Fin x) NInf = inf_of_sign (- x)"
| "times_fl PInf PInf = PInf"
| "times_fl NInf NInf = PInf"
| "times_fl PInf NInf = NInf"
| "times_fl NInf PInf = NInf"

instance ..

end

lemma plus_fl_comm: "x + y = y + (x::fl)"
  by (cases y; induction x y rule: plus_fl.induct) simp_all

lemma plus_fl_NaN: "x + NaN = NaN"
  using plus_fl_comm [of x NaN] by simp

lemma plus_fl_assoc: "(x + y) + z = x + (y + (z::fl))"
  by (cases z; induction x y rule: plus_fl.induct) (simp_all add: plus_fl_NaN)

lemma plus_fl_0: "Fin 0 + x = x"
  by (cases x) simp_all

instance fl :: comm_monoid_add
  by standard (simp add: plus_fl_assoc, rule plus_fl_comm, simp add: plus_fl_0 zero_fl_def)

fun fl_exp :: "fl \<Rightarrow> fl" where
  "fl_exp (Fin x) = Fin (exp x)"
| "fl_exp PInf = PInf"
| "fl_exp NInf = Fin 0"
| "fl_exp NaN = NaN"

fun fl_log :: "fl \<Rightarrow> fl" where
  "fl_log (Fin x) = (if x < 0 then NaN else if x = 0 then NInf else Fin (ln x))"
| "fl_log PInf = PInf"
| "fl_log NInf = NaN"
| "fl_log NaN = NaN"

text \<open>Division by a number; the sign of a zero divisor is not kept, it counts as \<open>+0\<close>.\<close>

definition fl_div :: "fl \<Rightarrow> real \<Rightarrow> fl" where
  "fl_div x c = (if c = 0 then (case x of Fin r \<Rightarrow> inf_of_sign r | y \<Rightarrow> y) else x * Fin (inverse c))"

fun fl_max :: "fl \<Rightarrow> fl \<Rightarrow> fl" where
  "fl_max NaN _ = NaN"
| "fl_max _ NaN = NaN"
| "fl_max NInf y = y"
| "fl_max x NInf = x"
| "fl_max PInf _ = PInf"
| "fl_max _ PInf = PInf"
| "fl_max (Fin x) (Fin y) = Fin (max x y)"

definition logsumexp :: "fl list \<Rightarrow> fl" where
  "logsumexp xs = fl_log (sum_list (map fl_exp xs))"

fun nan_to_num :: "fl \<Rightarrow> fl" where
  "nan_to_num (Fin x) = Fin x"
| "nan_to_num _ = Fin 0"

fun is_fin :: "fl \<Rightarrow> bool" where
  "is_fin (Fin _) = True"
| "is_fin _ = False"

fun fl_real :: "fl \<Rightarrow> real" where
  "fl_real (Fin x) = x"
| "fl_real _ = 0"

definition fl_of_bool :: "bool \<Rightarrow> fl" where
  "fl_of_bool b = (if b then 1 else 0)"

definition where_t :: "bool list \<Rightarrow> fl list \<Rightarrow> fl list \<Rightarrow> fl list" where
  "where_t m xs ys = map (\<lambda>(b, x, y). if b then x else y) (zip m (zip xs ys))"

definition zip_with :: "('a \<Rightarrow> 'b \<Rightarrow> 'c) \<Rightarrow> 'a list \<Rightarrow> 'b list \<Rightarrow> 'c list" where
  "zip_with f xs ys = map (\<lambda>(x, y). f x y) (zip xs ys)"

section \<open>Lemmas\<close>

lemma is_fin_iff: "is_fin x \<longleftrightarrow> (\<exists>r. x = Fin r)"
  by (cases x) auto

lemma Fin_fl_real: "is_fin x \<Longrightarrow> Fin (fl_real x) = x"
  by (cases x) auto

lemma fl_zero_one [simp]: "(0::fl) = Fin 0" "(1::fl) = Fin 1"
  by (simp_all add: zero_fl_def one_fl_def)

lemma minus_fl_Fin [simp]: "Fin x - Fin y = Fin (x - y)" "NInf - Fin y = NInf" "Fin x - NInf = PInf"
  "NInf - NInf = NaN"
  by (simp_all add: minus_fl_def)

lemma fl_neg_minus: "- (x - y) = y - (x::fl)"
  by (cases x; cases y) (simp_all add: minus_fl_def)

lemma fl_times_zero [simp]: "is_fin x \<Longrightarrow> x * Fin 0 = Fin 0" "is_fin x \<Longrightarrow> Fin 0 * x = Fin 0"
  by (cases x; simp)+

lemma length_zip_with [simp]: "length (zip_with f xs ys) = min (length xs) (length ys)"
  by (simp add: zip_with_def)

lemma nth_zip_with [simp]:
  "i < length xs \<Longrightarrow> i < length ys \<Longrightarrow> zip_with f xs ys ! i = f (xs ! i) (ys ! i)"
  by (simp add: zip_with_def)

lemma length_where_t [simp]: "length (where_t m xs ys) = min (length m) (min (length xs) (length ys))"
  by (simp add: where_t_def)

lemma nth_where_t [simp]:
  "i < length m \<Longrightarrow> i < length xs \<Longrightarrow> i < length ys \<Longrightarrow>
   where_t m xs ys ! i = (if m ! i then xs ! i else ys ! i)"
  by (simp add: where_t_def)

text \<open>Log-probabilities are finite or \<open>-inf\<close>; their exponentials are finite and non-negative.\<close>

definition is_lp :: "fl \<Rightarrow> bool" where
  "is_lp x \<longleftrightarrow> is_fin x \<or> x = NInf"

definition fl_mass :: "fl \<Rightarrow> real" where
  "fl_mass x = (case x of Fin r \<Rightarrow> exp r | _ \<Rightarrow> 0)"

lemma fl_exp_lp: "is_lp x \<Longrightarrow> fl_exp x = Fin (fl_mass x)"
  by (cases x) (auto simp: is_lp_def fl_mass_def)

lemma fl_mass_nonneg [simp]: "0 \<le> fl_mass x"
  by (simp add: fl_mass_def split: fl.split)

lemma fl_mass_pos: "is_fin x \<Longrightarrow> 0 < fl_mass x"
  by (cases x) (auto simp: fl_mass_def)

lemma sum_list_Fin: "sum_list (map (\<lambda>x. Fin (f x)) xs) = Fin (sum_list (map f xs))"
  by (induction xs) auto

lemma sum_list_exp_lp:
  "\<forall>x\<in>set xs. is_lp x \<Longrightarrow> sum_list (map fl_exp xs) = Fin (\<Sum>x\<leftarrow>xs. fl_mass x)"
  by (induction xs) (auto simp: fl_exp_lp)

lemma sum_mass_pos:
  assumes "x \<in> set xs" "is_fin x"
  shows "0 < (\<Sum>y\<leftarrow>xs. fl_mass y)"
proof -
  have "fl_mass x \<le> (\<Sum>y\<leftarrow>xs. fl_mass y)"
    using assms(1) by (intro member_le_sum_list) auto
  with fl_mass_pos [OF assms(2)] show ?thesis by linarith
qed

lemma logsumexp_fin:
  assumes "\<forall>x\<in>set xs. is_lp x" "x \<in> set xs" "is_fin x"
  shows "logsumexp xs = Fin (ln (\<Sum>y\<leftarrow>xs. fl_mass y))"
  using sum_mass_pos [OF assms(2,3)] by (simp add: logsumexp_def sum_list_exp_lp [OF assms(1)])

lemma logsumexp_all_NInf:
  assumes "\<forall>x\<in>set xs. x = NInf"
  shows "logsumexp xs = NInf"
proof -
  have "sum_list (map fl_exp xs) = Fin 0" using assms by (induction xs) simp_all
  then show ?thesis by (simp add: logsumexp_def)
qed

lemma softmax_weight:
  assumes "\<forall>x\<in>set xs. is_lp x" "\<exists>x\<in>set xs. is_fin x" "y \<in> set xs"
  shows "fl_exp (y - logsumexp xs) = Fin (fl_mass y / (\<Sum>x\<leftarrow>xs. fl_mass x))"
proof -
  obtain x where x: "x \<in> set xs" "is_fin x" using assms(2) by blast
  note lse = logsumexp_fin [OF assms(1) x]
  note pos = sum_mass_pos [OF x]
  from assms(1,3) consider r where "y = Fin r" | "y = NInf" by (auto simp: is_lp_def is_fin_iff)
  then show ?thesis
  proof cases
    case 1
    with lse pos show ?thesis by (simp add: exp_diff fl_mass_def)
  next
    case 2
    with lse show ?thesis by (simp add: fl_mass_def)
  qed
qed

end
