(* ===== verification/Top_K_Reward.thy ===== *)
theory Top_K_Reward
  imports Tensor
begin

text \<open>
  The top-K scoring functions of \<open>verl/workers/fsdp_teacher_worker.py\<close> and the log-probabilities
  of \<open>verl/utils/torch_functional.py\<close>.  The functions act on the last dimension, so they are given
  for one position: a list of logits over the vocabulary, a list of \<open>K\<close> candidates.
  \<open>torch.topk\<close> is a parameter \<open>topk\<close> that returns the ids it selects.
\<close>

section \<open>Log-probabilities of labels\<close>

definition log_softmax :: "fl list \<Rightarrow> fl list" where
  "log_softmax logits = map (\<lambda>x. x - logsumexp logits) logits"

definition logprobs_from_logits_naive :: "fl list \<Rightarrow> nat \<Rightarrow> fl result" where
  "logprobs_from_logits_naive logits label = py_nth (log_softmax logits) label"

definition logprobs_from_logits_v2 :: "bool \<Rightarrow> fl list list \<Rightarrow> nat list \<Rightarrow> fl list result" where
  "logprobs_from_logits_v2 is_float32_or_64 logits labels =
     (if length logits \<noteq> length labels then Inl ValueError
      else if is_float32_or_64 then
        rbind (map_r (\<lambda>(logit, label). py_nth logit label) (zip logits labels)) (\<lambda>logits_labels.
        let logsumexp_values = map logsumexp logits in
        Inr (zip_with (-) logits_labels logsumexp_values))
      else
        map_r (\<lambda>(row_logits, row_label). py_nth (log_softmax row_logits) row_label) (zip logits labels))"

section \<open>Teacher log-probabilities over the candidates\<close>

record top_k_scores =
  ts_log_probs :: "fl list"
  ts_teacher_top_k_ids :: "nat list"
  ts_teacher_log_probs :: "fl list"
  ts_student_in_teacher :: "bool list"
  ts_teacher_in_student :: "bool list"

definition masked_max :: "fl list \<Rightarrow> bool list \<Rightarrow> fl" where
  "masked_max xs keep = foldl fl_max NInf (where_t keep xs (replicate (length xs) NInf))"

definition compute_top_k_teacher_log_probs ::
  "(fl list \<Rightarrow> nat \<Rightarrow> nat list) \<Rightarrow> fl list \<Rightarrow> nat list \<Rightarrow> nat \<Rightarrow> string \<Rightarrow> top_k_scores result" where
  "compute_top_k_teacher_log_probs topk logits student_ids top_k strategy =
     (if length logits < top_k then Inl RuntimeError else
      (let log_denom = logsumexp logits;
           t_ids = topk logits top_k;
           t_logits = map ((!) logits) t_ids;
           teacher_log_probs = map (\<lambda>x. x - log_denom) t_logits;
           matches = map (\<lambda>s. map (\<lambda>t. s = t) t_ids) student_ids;
           student_in_teacher = map (\<lambda>m. list_ex id m) matches;
           teacher_in_student = map (\<lambda>j. list_ex (\<lambda>m. m ! j) matches) [0..<length t_ids] in
       rbind (if strategy = ''intersection''
              then Inr (map (\<lambda>m. masked_max t_logits m - log_denom) matches)
              else rbind (gather logits student_ids) (\<lambda>g. Inr (map (\<lambda>x. x - log_denom) g))) (\<lambda>log_probs.
       Inr \<lparr>ts_log_probs = log_probs, ts_teacher_top_k_ids = t_ids, ts_teacher_log_probs = teacher_log_probs,
            ts_student_in_teacher = student_in_teacher, ts_teacher_in_student = teacher_in_student\<rparr>)))"

definition overlap_ratio :: "bool list list \<Rightarrow> real" where
  "overlap_ratio student_in_teacher =
     (\<Sum>b\<leftarrow>concat student_in_teacher. if b then 1 else 0) / real (length (concat student_in_teacher))"

section \<open>Weights and reward\<close>

definition reward_weight_source :: "string \<Rightarrow> fl list \<Rightarrow> fl list \<Rightarrow> fl list result" where
  "reward_weight_source weight_mode student_log_probs teacher_log_probs =
     (if weight_mode = ''student_p'' then Inr student_log_probs
      else if weight_mode = ''teacher_p'' then Inr teacher_log_probs
      else if weight_mode = ''none'' then Inr (map (\<lambda>_. Fin 0) student_log_probs)
      else Inl ValueError)"

definition compute_reward_weights ::
  "fl list \<Rightarrow> fl list \<Rightarrow> bool list \<Rightarrow> string \<Rightarrow> bool \<Rightarrow> fl list result" where
  "compute_reward_weights student_log_probs teacher_log_probs valid_mask weight_mode normalized =
     rbind (reward_weight_source weight_mode student_log_probs teacher_log_probs) (\<lambda>log_probs.
     let log_probs = where_t valid_mask log_probs (replicate (length log_probs) NInf);
         weights = (if normalized
                    then map (\<lambda>x. fl_exp (x - logsumexp log_probs)) log_probs
                    else map fl_exp log_probs)
     in Inr (map nan_to_num weights))"

definition top_k_valid :: "string \<Rightarrow> fl list \<Rightarrow> bool list \<Rightarrow> bool list \<Rightarrow> (bool list \<times> bool) result" where
  "top_k_valid strategy student_log_probs student_in_teacher teacher_in_student =
     (if strategy = ''only_stu'' \<or> strategy = ''only_tch''
        then Inr (map (\<lambda>_. True) student_log_probs, True)
      else if strategy = ''intersection'' then Inr (student_in_teacher, True)
      else if strategy = ''union''
        then Inr (map (\<lambda>_. True) student_in_teacher @ map Not teacher_in_student, True)
      else if strategy = ''union-intersection''
        then Inr (map Not student_in_teacher @ map Not teacher_in_student, False)
      else Inl ValueError)"

definition compute_top_k_reward ::
  "fl list \<Rightarrow> fl list \<Rightarrow> bool list \<Rightarrow> bool list \<Rightarrow> string \<Rightarrow> string \<Rightarrow> fl list result" where
  "compute_top_k_reward student_log_probs teacher_log_probs student_in_teacher teacher_in_student
       strategy weight_mode =
     rbind (top_k_valid strategy student_log_probs student_in_teacher teacher_in_student) (\<lambda>(valid, normalized).
     let kl = zip_with (-) student_log_probs teacher_log_probs;
         kl = (if strategy = ''intersection'' then where_t valid kl (map (\<lambda>_. Fin 0) kl) else kl) in
     rbind (compute_reward_weights student_log_probs teacher_log_probs
              (take (length student_log_probs) valid) weight_mode normalized) (\<lambda>weights.
     Inr (zip_with (*) (map uminus kl) weights)))"

section \<open>The two log-probability paths agree\<close>

lemma logprobs_v2_naive:
  "logprobs_from_logits_v2 wide logits labels =
     (if length logits \<noteq> length labels then Inl ValueError
      else map_r (\<lambda>(row, label). logprobs_from_logits_naive row label) (zip logits labels))"
proof (cases "wide \<and> length logits = length labels")
  case False
  then show ?thesis
    by (auto simp: logprobs_from_logits_v2_def logprobs_from_logits_naive_def)
next
  case True
  then have "length logits = length labels" by simp
  then have "rbind (map_r (\<lambda>(row, label). py_nth row label) (zip logits labels))
      (\<lambda>vs. Inr (zip_with (-) vs (map logsumexp logits)))
    = map_r (\<lambda>(row, label). py_nth (log_softmax row) label) (zip logits labels)"
  proof (induction logits labels rule: list_induct2)
    case Nil
    then show ?case by (simp add: zip_with_def)
  next
    case (Cons row logits label labels)
    show ?case
    proof (cases "label < length row")
      case True
      then show ?thesis using Cons.IH [symmetric]
        by (cases "map_r (\<lambda>(row, label). py_nth row label) (zip logits labels)")
          (auto simp: py_nth_def log_softmax_def zip_with_def)
    qed (simp add: py_nth_def log_softmax_def)
  qed
  with True show ?thesis
    by (simp add: logprobs_from_logits_v2_def logprobs_from_logits_naive_def [abs_def] Let_def)
qed

text \<open>
  The memory-saving float32/float64 branch of \<open>logprobs_from_logits_v2\<close> (gather, then
  subtract the log-sum-exp) and its bfloat16 branch (log-softmax, then gather) compute the same
  values and raise the same errors as the naive log-softmax-and-gather of each row.
\<close>

lemma logprobs_v2_eq_naive:
  "logprobs_from_logits_v2 wide logits labels =
     (if length logits \<noteq> length labels then Inl ValueError
      else map_r (\<lambda>(row, label). logprobs_from_logits_naive row label) (zip logits labels))"
  by (rule logprobs_v2_naive)

section \<open>Weights\<close>

lemma where_t_NInf_set:
  "length m = length xs \<Longrightarrow> y \<in> set (where_t m xs (replicate (length xs) NInf)) \<Longrightarrow> y \<in> set xs \<or> y = NInf"
  by (auto simp: where_t_def in_set_zip split: if_splits)

lemma masked_source_lp:
  assumes "length m = length src" "\<And>i. i < length src \<Longrightarrow> m ! i \<Longrightarrow> is_lp (src ! i)"
  shows "\<forall>x\<in>set (where_t m src (replicate (length src) NInf)). is_lp x"
proof
  fix x assume "x \<in> set (where_t m src (replicate (length src) NInf))"
  then obtain i where "i < length src" "x = where_t m src (replicate (length src) NInf) ! i"
    using assms(1) by (auto simp: in_set_conv_nth)
  then show "is_lp x" using assms by (simp add: is_lp_def)
qed

lemma weights_normalized:
  assumes len: "length m = length src" and lp: "\<And>i. i < length src \<Longrightarrow> m ! i \<Longrightarrow> is_lp (src ! i)"
    and ex: "i0 < length src" "m ! i0" "is_fin (src ! i0)"
    and src: "reward_weight_source mode s t = Inr src"
  defines "S \<equiv> (\<Sum>x\<leftarrow>where_t m src (replicate (length src) NInf). fl_mass x)"
  shows "compute_reward_weights s t m mode True
      = Inr (map (\<lambda>i. Fin (if m ! i then fl_mass (src ! i) / S else 0)) [0..<length src]) \<and> 0 < S"
proof
  let ?l = "where_t m src (replicate (length src) NInf)"
  have lps: "\<forall>x\<in>set ?l. is_lp x" by (rule masked_source_lp [OF len lp])
  have "?l ! i0 = src ! i0" using ex len by simp
  moreover have "?l ! i0 \<in> set ?l" using ex len by (intro nth_mem) simp
  ultimately have in0: "\<exists>x\<in>set ?l. is_fin x" using ex(3) by metis
  then show "0 < S" unfolding S_def using sum_mass_pos by blast
  have "map nan_to_num (map (\<lambda>x. fl_exp (x - logsumexp ?l)) ?l)
      = map (\<lambda>i. Fin (if m ! i then fl_mass (src ! i) / S else 0)) [0..<length src]"
  proof (rule nth_equalityI)
    fix i assume "i < length (map nan_to_num (map (\<lambda>x. fl_exp (x - logsumexp ?l)) ?l))"
    then have i: "i < length src" using len by simp
    then have "?l ! i \<in> set ?l" using len by (intro nth_mem) simp
    from softmax_weight [OF lps in0 this] i len
    show "map nan_to_num (map (\<lambda>x. fl_exp (x - logsumexp ?l)) ?l) ! i
        = map (\<lambda>i. Fin (if m ! i then fl_mass (src ! i) / S else 0)) [0..<length src] ! i"
      by (simp add: S_def fl_mass_def)
  qed (simp add: len)
  then show "compute_reward_weights s t m mode True
      = Inr (map (\<lambda>i. Fin (if m ! i then fl_mass (src ! i) / S else 0)) [0..<length src])"
    by (simp add: compute_reward_weights_def src Let_def)
qed

lemma mass_sum_masked:
  "length m = length src \<Longrightarrow>
   (\<Sum>x\<leftarrow>where_t m src (replicate (length src) NInf). fl_mass x)
   = (\<Sum>i\<leftarrow>[0..<length src]. if m ! i then fl_mass (src ! i) else 0)"
proof -
  assume len: "length m = length src"
  have "map fl_mass (where_t m src (replicate (length src) NInf))
      = map (\<lambda>i. if m ! i then fl_mass (src ! i) else 0) [0..<length src]"
    using len by (intro nth_equalityI) (auto simp: fl_mass_def)
  then show ?thesis by simp
qed

text \<open>
  C9. When at least one valid candidate has a finite log-probability, the normalised weights of
  \<open>compute_reward_weights\<close> are a probability distribution supported on the valid candidates: finite,
  non-negative, zero on every masked candidate, and they sum to one.
\<close>

theorem reward_weights_distribution:
  assumes "reward_weight_source mode s t = Inr src" "length m = length src"
    and "\<forall>i<length src. m ! i \<longrightarrow> is_lp (src ! i)"
    and "\<exists>i<length src. m ! i \<and> is_fin (src ! i)"
  shows "\<exists>ws. compute_reward_weights s t m mode True = Inr (map Fin ws) \<and> length ws = length src
    \<and> (\<forall>i<length ws. 0 \<le> ws ! i \<and> (\<not> m ! i \<longrightarrow> ws ! i = 0)) \<and> sum_list ws = 1"
proof -
  let ?S = "\<Sum>x\<leftarrow>where_t m src (replicate (length src) NInf). fl_mass x"
  let ?ws = "map (\<lambda>i. if m ! i then fl_mass (src ! i) / ?S else 0) [0..<length src]"
  obtain i0 where "i0 < length src" "m ! i0" "is_fin (src ! i0)" using assms(4) by blast
  with assms have w: "compute_reward_weights s t m mode True = Inr (map Fin ?ws)" and pos: "0 < ?S"
    using weights_normalized [of m src i0 mode s t] by (simp_all add: comp_def)
  have "sum_list ?ws = (\<Sum>i\<leftarrow>[0..<length src]. (if m ! i then fl_mass (src ! i) else 0) * inverse ?S)"
    by (intro arg_cong [of _ _ sum_list] map_cong) (simp_all add: divide_inverse)
  also have "\<dots> = (\<Sum>i\<leftarrow>[0..<length src]. if m ! i then fl_mass (src ! i) else 0) * inverse ?S"
    by (rule sum_list_mult_const)
  also have "\<dots> = ?S * inverse ?S" by (simp only: mass_sum_masked [OF assms(2)])
  also have "\<dots> = 1" using pos by simp
  finally have "sum_list ?ws = 1" .
  with w pos show ?thesis by (intro exI [of _ ?ws]) (auto simp: less_imp_le)
qed

theorem reward_weights_distribution_witness:
  "\<exists>ws. compute_reward_weights [Fin 0, NInf, Fin 1] [Fin 0, Fin 0, Fin 2] [True, True, False] ''student_p'' True
      = Inr (map Fin ws) \<and> length ws = length [Fin 0, NInf, Fin 1]
    \<and> (\<forall>i<length ws. 0 \<le> ws ! i \<and> (\<not> [True, True, False] ! i \<longrightarrow> ws ! i = 0)) \<and> sum_list ws = 1"
  by (rule reward_weights_distribution)
    (auto simp: reward_weight_source_def less_Suc_eq is_lp_def intro!: exI [of _ 0])

lemma reward_weights_all_masked:
  assumes "reward_weight_source mode s t = Inr src" "length m = length src" "\<forall>i<length src. \<not> m ! i"
  shows "compute_reward_weights s t m mode True = Inr (map (\<lambda>_. Fin 0) src)"
proof -
  let ?l = "where_t m src (replicate (length src) NInf)"
  have l: "?l = map (\<lambda>_. NInf) src" using assms(2,3) by (intro nth_equalityI) auto
  then have "logsumexp ?l = NInf" by (intro logsumexp_all_NInf) auto
  then show ?thesis using assms(1) by (simp add: compute_reward_weights_def Let_def l comp_def)
qed

section \<open>Rewards\<close>

lemma top_k_valid_take:
  assumes "length sit = length s" "strategy = ''only_tch'' \<or> strategy = ''union''"
  shows "\<exists>valid. top_k_valid strategy s sit tis = Inr (valid, True) \<and> take (length s) valid = map (\<lambda>_. True) s"
  using assms by (auto simp: top_k_valid_def map_replicate_const)

text \<open>
  For every input, the strategies \<open>only_tch\<close> and \<open>union\<close> of \<open>compute_top_k_reward\<close> return
  exactly what \<open>only_stu\<close> returns: the extra half of the validity mask that \<open>union\<close> builds for the
  teacher's own candidates is cut off before it is used, and no teacher candidate is ever scored.
\<close>

lemma union_and_only_tch_are_only_stu:
  assumes "length sit = length s" "strategy = ''only_tch'' \<or> strategy = ''union''"
  shows "compute_top_k_reward s t sit tis strategy mode = compute_top_k_reward s t sit tis ''only_stu'' mode"
proof -
  obtain valid where v: "top_k_valid strategy s sit tis = Inr (valid, True)"
    "take (length s) valid = map (\<lambda>_. True) s" using top_k_valid_take [OF assms] by blast
  have "top_k_valid ''only_stu'' s sit tis = Inr (map (\<lambda>_. True) s, True)"
    by (simp add: top_k_valid_def)
  then show ?thesis using v assms(2)
    by (auto simp: compute_top_k_reward_def Let_def)
qed

lemma intersection_reward_shape:
  assumes "length t = length s" "length sit = length s"
    and "\<forall>i<length s. is_fin (s ! i)" "\<forall>i<length s. sit ! i \<longrightarrow> is_fin (t ! i)"
    and "reward_weight_source mode s t = Inr src" "length src = length s"
    and "compute_reward_weights s t sit mode True = Inr (map Fin ws)" "length ws = length s"
  shows "compute_top_k_reward s t sit tis ''intersection'' mode
    = Inr (map (\<lambda>i. Fin (if sit ! i then (fl_real (t ! i) - fl_real (s ! i)) * ws ! i else 0)) [0..<length s])"
proof -
  have "top_k_valid ''intersection'' s sit tis = Inr (sit, True)" by (simp add: top_k_valid_def)
  moreover have "zip_with (*) (map uminus (where_t sit (zip_with (-) s t)
        (map (\<lambda>_. Fin 0) (zip_with (-) s t)))) (map Fin ws)
      = map (\<lambda>i. Fin (if sit ! i then (fl_real (t ! i) - fl_real (s ! i)) * ws ! i else 0)) [0..<length s]"
    (is "?l = ?r")
  proof (rule nth_equalityI)
    show "length ?l = length ?r" using assms by simp
    fix i assume "i < length ?l"
    then have i: "i < length s" using assms by simp
    then obtain x where x: "s ! i = Fin x" using assms(3) by (auto simp: is_fin_iff)
    show "?l ! i = ?r ! i"
    proof (cases "sit ! i")
      case True
      then obtain y where "t ! i = Fin y" using assms(4) i by (auto simp: is_fin_iff)
      with True i x assms show ?thesis by simp
    qed (use i assms in simp)
  qed
  ultimately show ?thesis using assms by (simp add: compute_top_k_reward_def Let_def)
qed

text \<open>
  C8. Under \<open>intersection\<close> the teacher scores \<open>-inf\<close> for every student candidate outside its own
  top-K, which makes the raw KL infinite there.  With the student's log-probabilities finite, the
  reward never shows it: for each weight mode the function returns finite rewards, exactly zero on
  every candidate outside the teacher's top-K, also when no candidate is shared.
\<close>

theorem intersection_reward_finite:
  assumes "length t = length s" "length sit = length s" "\<forall>i<length s. is_fin (s ! i)"
    and "\<forall>i<length s. if sit ! i then is_fin (t ! i) else t ! i = NInf"
    and "mode = ''student_p'' \<or> mode = ''teacher_p'' \<or> mode = ''none''"
  shows "\<exists>rs. compute_top_k_reward s t sit tis ''intersection'' mode = Inr (map Fin rs)
    \<and> length rs = length s \<and> (\<forall>i<length s. \<not> sit ! i \<longrightarrow> rs ! i = 0)"
proof -
  obtain src where src: "reward_weight_source mode s t = Inr src" "length src = length s"
    "\<forall>i<length s. sit ! i \<longrightarrow> is_fin (src ! i)"
    using assms by (auto simp: reward_weight_source_def)
  obtain ws where ws: "compute_reward_weights s t sit mode True = Inr (map Fin ws)" "length ws = length s"
  proof (cases "\<exists>i<length s. sit ! i")
    case True
    then obtain i0 where i0: "i0 < length src" "sit ! i0" "is_fin (src ! i0)" using src by auto
    have lp: "is_lp (src ! i)" if "i < length src" "sit ! i" for i
      using src(2,3) that by (simp add: is_lp_def)
    have "length sit = length src" using assms(2) src(2) by simp
    from weights_normalized [OF this lp i0 src(1)] show ?thesis
      by (intro that [of "map (\<lambda>i. if sit ! i then fl_mass (src ! i)
            / (\<Sum>x\<leftarrow>where_t sit src (replicate (length src) NInf). fl_mass x) else 0) [0..<length src]"])
        (simp_all add: src(2) comp_def)
  next
    case False
    then have "\<forall>i<length src. \<not> sit ! i" using src(2) by simp
    from reward_weights_all_masked [OF src(1) _ this] show ?thesis
      using assms(2) src(2) by (intro that [of "map (\<lambda>_. 0) src"]) (simp_all add: comp_def)
  qed
  have "\<forall>i<length s. sit ! i \<longrightarrow> is_fin (t ! i)" using assms(4) by metis
  from intersection_reward_shape [OF assms(1-3) this src(1,2) ws, of tis]
  show ?thesis
    by (intro exI [of _ "map (\<lambda>i. if sit ! i then (fl_real (t ! i) - fl_real (s ! i)) * ws ! i else 0) [0..<length s]"])
      (simp add: comp_def)
qed

theorem intersection_reward_finite_witness:
  "\<exists>rs. compute_top_k_reward [Fin (-1), Fin (-2)] [Fin (-3), NInf] [True, False] [True, False] ''intersection'' ''teacher_p''
      = Inr (map Fin rs)
    \<and> length rs = length [Fin (-1), Fin (-2)] \<and> (\<forall>i<length [Fin (-1), Fin (-2)]. \<not> [True, False] ! i \<longrightarrow> rs ! i = 0)"
  by (rule intersection_reward_finite) (auto simp: less_Suc_eq)

lemma only_stu_reward_shape:
  assumes "length t = length s" "\<forall>i<length s. is_fin (s ! i)" "\<forall>i<length s. is_fin (t ! i)"
    and "compute_reward_weights s t (map (\<lambda>_. True) s) mode True = Inr (map Fin ws)" "length ws = length s"
  shows "compute_top_k_reward s t sit tis ''only_stu'' mode
    = Inr (map Fin (map (\<lambda>i. (fl_real (t ! i) - fl_real (s ! i)) * ws ! i) [0..<length s]))"
proof -
  have "zip_with (*) (map uminus (zip_with (-) s t)) (map Fin ws)
      = map Fin (map (\<lambda>i. (fl_real (t ! i) - fl_real (s ! i)) * ws ! i) [0..<length s])" (is "?l = ?r")
  proof (rule nth_equalityI)
    show "length ?l = length ?r" using assms by simp
    fix i assume "i < length ?l"
    then have i: "i < length s" using assms by simp
    then obtain x y where "s ! i = Fin x" "t ! i = Fin y" using assms(2,3) by (meson is_fin_iff)
    with i assms show "?l ! i = ?r ! i" by simp
  qed
  with assms show ?thesis by (simp add: compute_top_k_reward_def top_k_valid_def Let_def map_replicate_const)
qed

lemma gibbs:
  fixes s t :: "fl list"
  assumes len: "length t = length s" and s: "\<forall>i<length s. is_fin (s ! i)" and t: "\<forall>i<length s. is_fin (t ! i)"
    and S: "0 < S" and le: "(\<Sum>x\<leftarrow>t. fl_mass x) \<le> S" and eq: "(\<Sum>x\<leftarrow>s. fl_mass x) = S"
  shows "(\<Sum>i\<leftarrow>[0..<length s]. (fl_real (t ! i) - fl_real (s ! i)) * (fl_mass (s ! i) / S)) \<le> 0"
proof -
  have term_le: "(fl_real (t ! i) - fl_real (s ! i)) * (fl_mass (s ! i) / S) \<le> (fl_mass (t ! i) - fl_mass (s ! i)) / S"
    if i: "i < length s" for i
  proof -
    obtain x y where xy: "s ! i = Fin x" "t ! i = Fin y" using i s t by (meson is_fin_iff)
    have "y - x \<le> exp (y - x) - 1" using exp_ge_add_one_self [of "y - x"] by linarith
    then have "(y - x) * exp x \<le> (exp (y - x) - 1) * exp x" by (intro mult_right_mono) simp_all
    also have "\<dots> = exp y - exp x" by (simp add: left_diff_distrib flip: exp_add)
    finally show ?thesis using S by (simp add: xy fl_mass_def divide_right_mono)
  qed
  have "(\<Sum>i\<leftarrow>[0..<length s]. (fl_real (t ! i) - fl_real (s ! i)) * (fl_mass (s ! i) / S))
      \<le> (\<Sum>i\<leftarrow>[0..<length s]. (fl_mass (t ! i) - fl_mass (s ! i)) / S)"
    by (rule sum_list_mono) (use term_le in simp)
  also have "\<dots> = ((\<Sum>i\<leftarrow>[0..<length s]. fl_mass (t ! i)) - (\<Sum>i\<leftarrow>[0..<length s]. fl_mass (s ! i))) / S"
    by (simp add: sum_list_subtractf [symmetric] divide_inverse sum_list_mult_const)
  also have "(\<Sum>i\<leftarrow>[0..<length s]. fl_mass (t ! i)) = (\<Sum>x\<leftarrow>t. fl_mass x)"
    using arg_cong [OF map_nth [of t], of "map fl_mass"] by (simp add: len comp_def)
  also have "(\<Sum>i\<leftarrow>[0..<length s]. fl_mass (s ! i)) = (\<Sum>x\<leftarrow>s. fl_mass x)"
    using arg_cong [OF map_nth [of s], of "map fl_mass"] by (simp add: comp_def)
  also have "((\<Sum>x\<leftarrow>t. fl_mass x) - (\<Sum>x\<leftarrow>s. fl_mass x)) / S \<le> 0"
    using le eq S by (simp add: divide_nonpos_pos)
  finally show ?thesis .
qed

text \<open>
  With the default strategy and weights (\<open>only_stu\<close>, \<open>student_p\<close>) and finite
  log-probabilities, the rewards of a position sum to minus the KL divergence of the renormalised
  candidate distribution: whenever the teacher puts at most the student's mass on the candidate
  set, the sum is at most zero (Gibbs' inequality), so no candidate set of a student that
  already holds the larger mass is rewarded in total.
\<close>

lemma only_stu_reward_nonpositive:
  assumes "length t = length s" "s \<noteq> []" "\<forall>x\<in>set s. is_fin x" "\<forall>x\<in>set t. is_fin x"
    and "(\<Sum>x\<leftarrow>t. fl_mass x) \<le> (\<Sum>x\<leftarrow>s. fl_mass x)"
  shows "\<exists>rs. compute_top_k_reward s t sit tis ''only_stu'' ''student_p'' = Inr (map Fin rs)
    \<and> length rs = length s \<and> sum_list rs \<le> 0"
proof -
  let ?m = "map (\<lambda>_. True) s"
  have fin: "\<forall>i<length s. is_fin (s ! i)" "\<forall>i<length s. is_fin (t ! i)"
    using assms(1,3,4) by simp_all
  have lp: "\<And>i. i < length s \<Longrightarrow> ?m ! i \<Longrightarrow> is_lp (s ! i)" using fin by (simp add: is_lp_def)
  have src: "reward_weight_source ''student_p'' s t = Inr s" by (simp add: reward_weight_source_def)
  have m: "length ?m = length s" "0 < length s" "?m ! 0" "is_fin (s ! 0)" using assms(2) fin by simp_all
  have "where_t ?m s (replicate (length s) NInf) = s" by (intro nth_equalityI) simp_all
  then have S: "0 < (\<Sum>x\<leftarrow>s. fl_mass x)"
    and w: "compute_reward_weights s t ?m ''student_p'' True
      = Inr (map Fin (map (\<lambda>i. fl_mass (s ! i) / (\<Sum>x\<leftarrow>s. fl_mass x)) [0..<length s]))"
    using weights_normalized [OF m(1) lp m(2-4) src] by (simp_all add: comp_def)
  have "(\<Sum>i\<leftarrow>[0..<length s]. (fl_real (t ! i) - fl_real (s ! i)) * (fl_mass (s ! i) / (\<Sum>x\<leftarrow>s. fl_mass x))) \<le> 0"
    by (rule gibbs [OF assms(1) fin S assms(5) refl])
  moreover have "map (\<lambda>i. (fl_real (t ! i) - fl_real (s ! i))
        * map (\<lambda>i. fl_mass (s ! i) / (\<Sum>x\<leftarrow>s. fl_mass x)) [0..<length s] ! i) [0..<length s]
      = map (\<lambda>i. (fl_real (t ! i) - fl_real (s ! i)) * (fl_mass (s ! i) / (\<Sum>x\<leftarrow>s. fl_mass x))) [0..<length s]"
    (is "?l = ?r") by (intro map_cong) simp_all
  moreover have "compute_top_k_reward s t sit tis ''only_stu'' ''student_p'' = Inr (map Fin ?l)"
    by (rule only_stu_reward_shape [OF assms(1) fin w]) simp
  moreover have "length ?r = length s" by simp
  ultimately show ?thesis by (intro exI [of _ ?r] conjI) (simp only:)+
qed

section \<open>Teacher scores of the candidates\<close>

lemma foldl_fl_max_hit:
  assumes "\<forall>x\<in>set xs. x = NInf \<or> x = Fin v"
  shows "foldl fl_max NInf xs = (if Fin v \<in> set xs then Fin v else NInf)"
proof -
  have absorb: "foldl fl_max (Fin v) xs = Fin v" if "\<forall>x\<in>set xs. x = NInf \<or> x = Fin v" for xs
    using that by (induction xs) (simp, force)
  show ?thesis using assms
  proof (induction xs)
    case (Cons x xs)
    then have "x = NInf \<or> x = Fin v" "\<forall>x\<in>set xs. x = NInf \<or> x = Fin v" by simp_all
    with Cons.IH absorb [of xs] show ?case by (elim disjE) simp_all
  qed simp
qed

lemma masked_max_match:
  assumes "\<forall>t\<in>set ids. t < length logits \<and> is_fin (logits ! t)"
  shows "masked_max (map ((!) logits) ids) (map (\<lambda>t. s = t) ids)
    = (if s \<in> set ids then logits ! s else NInf)"
proof -
  let ?w = "where_t (map (\<lambda>t. s = t) ids) (map ((!) logits) ids) (replicate (length ids) NInf)"
  have w: "?w = map (\<lambda>t. if s = t then logits ! s else NInf) ids"
    by (intro nth_equalityI) auto
  show ?thesis
  proof (cases "s \<in> set ids")
    case True
    then obtain v where v: "logits ! s = Fin v" using assms by (auto simp: is_fin_iff)
    have "foldl fl_max NInf ?w = (if Fin v \<in> set ?w then Fin v else NInf)"
      by (rule foldl_fl_max_hit) (auto simp: w v)
    moreover have "Fin v \<in> set ?w" using True by (simp add: w v image_iff)
    ultimately show ?thesis using True v by (simp add: masked_max_def)
  next
    case False
    then have "?w = map (\<lambda>_. NInf) ids" unfolding w by (intro map_cong) auto
    with False show ?thesis using foldl_fl_max_hit [of "map (\<lambda>_. NInf) ids" 0]
      by (simp add: masked_max_def image_iff)
  qed
qed

text \<open>
  C10. Let \<open>torch.topk\<close> select \<open>k\<close> positions inside the vocabulary.  For finite logits and
  candidates inside the vocabulary \<open>compute_top_k_teacher_log_probs\<close> returns, for every strategy,
  the two membership masks of the candidate sets; the score of a candidate is its log-softmax
  value, except that \<open>intersection\<close> scores \<open>-inf\<close> exactly the candidates outside the teacher's
  top-K.
\<close>

theorem teacher_top_k_scores_correct:
  assumes "\<forall>xs k. k \<le> length xs \<longrightarrow> length (topk xs k) = k \<and> set (topk xs k) \<subseteq> {..<length xs}"
    and "k \<le> length logits" "\<forall>x\<in>set logits. is_fin x" "set ids \<subseteq> {..<length logits}"
  shows "compute_top_k_teacher_log_probs topk logits ids k strategy
    = Inr \<lparr>ts_log_probs = map (\<lambda>s. if strategy = ''intersection'' \<and> s \<notin> set (topk logits k)
                               then NInf else log_softmax logits ! s) ids,
           ts_teacher_top_k_ids = topk logits k,
           ts_teacher_log_probs = map ((!) (log_softmax logits)) (topk logits k),
           ts_student_in_teacher = map (\<lambda>s. s \<in> set (topk logits k)) ids,
           ts_teacher_in_student = map (\<lambda>t. t \<in> set ids) (topk logits k)\<rparr>"
proof -
  let ?t = "topk logits k"
  have t: "set ?t \<subseteq> {..<length logits}" using assms(1,2) by blast
  have "logits \<noteq> [] \<Longrightarrow> is_fin (logsumexp logits)"
    using logsumexp_fin [of logits "hd logits"] assms(3) by (simp add: is_lp_def)
  then have NInf: "NInf - logsumexp logits = NInf" if "logits \<noteq> []"
    using that by (auto simp: is_fin_iff)
  have mm: "masked_max (map ((!) logits) ?t) (map (\<lambda>t. s = t) ?t) - logsumexp logits
      = (if s \<notin> set ?t then NInf else log_softmax logits ! s)" if "s \<in> set ids" for s
  proof -
    have "\<forall>x\<in>set ?t. x < length logits \<and> is_fin (logits ! x)" using t assms(3) by auto
    moreover have "s < length logits" "logits \<noteq> []" using that assms(4) by auto
    ultimately show ?thesis using NInf by (simp add: masked_max_match log_softmax_def)
  qed
  have sit: "map (list_ex id) (map (\<lambda>s. map (\<lambda>t. s = t) ?t) ids) = map (\<lambda>s. s \<in> set ?t) ids"
    by (auto simp: list_ex_iff)
  have tis: "map (\<lambda>j. list_ex (\<lambda>m. m ! j) (map (\<lambda>s. map (\<lambda>t. s = t) ?t) ids)) [0..<length ?t]
      = map (\<lambda>t. t \<in> set ids) ?t"
    by (intro nth_equalityI) (auto simp: list_ex_iff)
  have lp: "map (\<lambda>x. x - logsumexp logits) (map ((!) logits) js) = map ((!) (log_softmax logits)) js"
    if "set js \<subseteq> {..<length logits}" for js
    using that by (auto simp: log_softmax_def)
  have inter: "map (\<lambda>m. masked_max (map ((!) logits) ?t) m - logsumexp logits) (map (\<lambda>s. map (\<lambda>t. s = t) ?t) ids)
      = map (\<lambda>s. if s \<notin> set ?t then NInf else log_softmax logits ! s) ids"
    unfolding map_map comp_def by (intro map_cong refl mm)
  have "\<not> length logits < k" using assms(2) by simp
  then show ?thesis
    unfolding compute_top_k_teacher_log_probs_def Let_def sit tis inter lp [OF t]
    by (simp only: if_False gather_Inr [OF assms(4)] rbind_Inr lp [OF assms(4)]) simp
qed

theorem teacher_top_k_scores_correct_witness:
  "compute_top_k_teacher_log_probs (\<lambda>xs k. take k [0..<length xs]) [Fin 1, Fin 3, Fin 2] [2, 0] 2 ''intersection''
    = Inr \<lparr>ts_log_probs = map (\<lambda>s. if ''intersection'' = ''intersection'' \<and> s \<notin> set (take 2 [0..<length [Fin 1, Fin 3, Fin 2]])
                               then NInf else log_softmax [Fin 1, Fin 3, Fin 2] ! s) [2, 0],
           ts_teacher_top_k_ids = take 2 [0..<length [Fin 1, Fin 3, Fin 2]],
           ts_teacher_log_probs = map ((!) (log_softmax [Fin 1, Fin 3, Fin 2])) (take 2 [0..<length [Fin 1, Fin 3, Fin 2]]),
           ts_student_in_teacher = map (\<lambda>s. s \<in> set (take 2 [0..<length [Fin 1, Fin 3, Fin 2]])) [2, 0],
           ts_teacher_in_student = map (\<lambda>t. t \<in> set [2, 0]) (take 2 [0..<length [Fin 1, Fin 3, Fin 2]])\<rparr>"
  by (rule teacher_top_k_scores_correct) (auto dest: less_le_trans)

end
