(* ===== verification/Teacher_Worker.thy ===== *)
theory Teacher_Worker
  imports Teacher_Config Top_K_Reward
begin

text \<open>
  \<open>TeacherWorker\<close> of \<open>verl/workers/fsdp_teacher_worker.py\<close>: the grouping of rows by teacher, the
  sequence of FSDP forwards a rank issues, the scatter of their results to the rows of the batch,
  and the scores and metrics of \<open>compute_rm_score\<close>.  What is not in the repository is a field of
  the environment \<open>teacher_env\<close>: the forward of a loaded model, \<open>torch.topk\<close>, the all-reduce of
  the process group and the contents of uninitialised memory (\<open>torch.empty\<close>).  The list of
  forwards a rank issued is kept as \<open>st_issued\<close>, since each of them is a collective operation.
\<close>

section \<open>Grouping rows\<close>

definition group_rows_by_teacher :: "string list \<Rightarrow> (string \<times> nat list) list" where
  "group_rows_by_teacher routes =
     fold (\<lambda>(i, name) order. AList.update name (dict_get order name [] @ [i]) order)
       (List.enumerate 0 routes) []"

definition local_micro_batch_counts ::
  "(string \<times> nat list) list \<Rightarrow> string list \<Rightarrow> nat \<Rightarrow> nat list result" where
  "local_micro_batch_counts order names micro_bs =
     map_r (\<lambda>name. if micro_bs = 0 then Inl ZeroDivisionError
                   else Inr ((length (dict_get order name []) + micro_bs - 1) div micro_bs)) names"

section \<open>Data\<close>

record 'i rm_row =
  rr_inputs :: 'i
  rr_responses :: "nat list"
  rr_old_log_probs :: "fl list"
  rr_student_top_k_ids :: "nat list list"
  rr_student_top_k_log_probs :: "fl list list"

record 'i rm_data =
  rd_rows :: "'i rm_row list"
  rd_ability :: "string list option"
  rd_response_mask :: "real list list option"
  rd_has_top_k_ids :: bool
  rd_has_top_k_log_probs :: bool
  rd_top_k_is_reward :: bool

record fwd_row =
  fr_log_probs :: "fl list"
  fr_top_k :: "top_k_scores list option"

record ('i, 'm) teacher_env =
  ev_build_model :: "string option \<Rightarrow> 'm"
  ev_forward :: "'m \<Rightarrow> 'i list \<Rightarrow> fl list list list"
  ev_topk :: "fl list \<Rightarrow> nat \<Rightarrow> nat list"
  ev_wide :: bool
  ev_all_reduce_max :: "(nat list \<Rightarrow> nat list) option"
  ev_uninit :: "nat \<Rightarrow> fl list list"
  ev_uninit_top_k :: "nat \<Rightarrow> top_k_scores list list"

record rm_state =
  st_teacher_log_probs :: "fl list list"
  st_top_k_parts :: "top_k_scores list list option"
  st_issued :: "(string \<times> nat list) list"

record top_k_metrics =
  tm_overlap_ratio :: real
  tm_student_mass :: fl
  tm_teacher_mass :: fl
  tm_reward_mean :: fl

datatype scores = Token_scores "fl list list" | Candidate_scores "fl list list list"

record rm_output =
  ro_rm_scores :: scores
  ro_teacher_log_probs :: "fl list list"
  ro_top_k_reward :: "fl list list list option"
  ro_mopd_teacher :: "string list"
  ro_teacher_counts :: "(string \<times> nat) list"
  ro_top_k_metrics :: "top_k_metrics option"
  ro_issued :: "(string \<times> nat list) list"

section \<open>Operations\<close>

definition init_model :: "('i, 'm) teacher_env \<Rightarrow> fsdp_teacher_config \<Rightarrow> (string \<times> 'm) list" where
  "init_model env cfg =
     fold (\<lambda>(name, path) modules. AList.update name (ev_build_model env path) modules) (init_model_paths cfg) []"

definition response_logits :: "fsdp_teacher_config \<Rightarrow> 'i rm_row \<Rightarrow> fl list list \<Rightarrow> fl list list" where
  "response_logits cfg row logits =
     (let response_length = length (rr_responses row) in
      map (map (\<lambda>x. fl_div x (teacher_temperature cfg)))
        (py_slice (length logits - (response_length + 1)) (length logits - 1) logits))"

definition forward_row ::
  "('i, 'm) teacher_env \<Rightarrow> fsdp_teacher_config \<Rightarrow> nat \<Rightarrow> 'i rm_row \<Rightarrow> fl list list \<Rightarrow> fwd_row result" where
  "forward_row env cfg top_k row output =
     (let logits = response_logits cfg row output in
      rbind (logprobs_from_logits_v2 (ev_wide env) logits (rr_responses row)) (\<lambda>log_probs.
      if top_k > 0 then
        rbind (map_r (\<lambda>(l, ids). compute_top_k_teacher_log_probs (ev_topk env) l ids top_k (top_k_strategy cfg))
                 (zip logits (rr_student_top_k_ids row))) (\<lambda>tk.
        Inr \<lparr>fr_log_probs = log_probs, fr_top_k = Some tk\<rparr>)
      else Inr \<lparr>fr_log_probs = log_probs, fr_top_k = None\<rparr>))"

definition forward_micro_batch ::
  "('i, 'm) teacher_env \<Rightarrow> fsdp_teacher_config \<Rightarrow> 'm \<Rightarrow> nat \<Rightarrow> 'i rm_row list \<Rightarrow> fwd_row list result" where
  "forward_micro_batch env cfg mdl top_k micro =
     map_r (\<lambda>(row, output). forward_row env cfg top_k row output)
       (zip micro (ev_forward env mdl (map rr_inputs micro)))"

definition teacher_step ::
  "('i, 'm) teacher_env \<Rightarrow> fsdp_teacher_config \<Rightarrow> (string \<times> 'm) list \<Rightarrow> (string \<times> nat list) list \<Rightarrow> nat
   \<Rightarrow> 'i rm_row list \<Rightarrow> string \<times> nat \<Rightarrow> rm_state \<Rightarrow> rm_state result" where
  "teacher_step env cfg modules order top_k all_rows ns st =
     (case ns of (name, step) \<Rightarrow> case map_of modules name of
        None \<Rightarrow> Inl KeyError
      | Some mdl \<Rightarrow>
          (let micro_bs = micro_batch_size_per_gpu cfg;
               idxs = dict_get order name [];
               chunk = py_slice (step * micro_bs) ((step + 1) * micro_bs) idxs;
               rows = (if chunk = [] then [0] else chunk) in
           rbind (gather all_rows rows) (\<lambda>micro.
           rbind (forward_micro_batch env cfg mdl top_k micro) (\<lambda>out.
           let st = st\<lparr>st_issued := st_issued st @ [(name, rows)]\<rparr> in
           if chunk = [] then Inr st
           else (let st = st\<lparr>st_teacher_log_probs := scatter (st_teacher_log_probs st) chunk (map fr_log_probs out)\<rparr> in
             if top_k > 0 then
               (let parts = (case st_top_k_parts st of Some ps \<Rightarrow> ps | None \<Rightarrow> ev_uninit_top_k env (length all_rows)) in
                Inr (st\<lparr>st_top_k_parts := Some (scatter parts chunk (map (the \<circ> fr_top_k) out))\<rparr>))
             else Inr st)))))"

definition forward_plan :: "string list \<Rightarrow> nat list \<Rightarrow> (string \<times> nat) list" where
  "forward_plan names n_micro = concat (map (\<lambda>(name, n). map (\<lambda>step. (name, step)) [0..<n]) (zip names n_micro))"

definition masked_mass :: "fl list list list \<Rightarrow> real list list option \<Rightarrow> fl" where
  "masked_mass log_probs response_mask =
     (let mass = map (map (\<lambda>c. sum_list (map fl_exp c))) log_probs in
      case response_mask of
        None \<Rightarrow> fl_div (sum_list (concat mass)) (real (length (concat mass)))
      | Some m \<Rightarrow> fl_div (sum_list (concat (zip_with (zip_with (\<lambda>x w. x * Fin w)) mass m)))
                    (max (sum_list (concat m)) 1))"

definition apply_mask :: "real list list option \<Rightarrow> fl list list \<Rightarrow> fl list list" where
  "apply_mask response_mask x = (case response_mask of None \<Rightarrow> x
     | Some m \<Rightarrow> zip_with (zip_with (\<lambda>v w. v * Fin w)) x m)"

definition apply_mask3 :: "real list list option \<Rightarrow> fl list list list \<Rightarrow> fl list list list" where
  "apply_mask3 response_mask x = (case response_mask of None \<Rightarrow> x
     | Some m \<Rightarrow> zip_with (zip_with (\<lambda>c w. map (\<lambda>v. v * Fin w) c)) x m)"

definition reverse_kl :: "fl list \<Rightarrow> fl list \<Rightarrow> fl list" where
  "reverse_kl student teacher = zip_with (\<lambda>s t. - (s - t)) student teacher"

definition top_k_rewards ::
  "fsdp_teacher_config \<Rightarrow> 'i rm_row list \<Rightarrow> top_k_scores list list \<Rightarrow> fl list list list result" where
  "top_k_rewards cfg rows parts =
     map_r (\<lambda>(row, tks). map_r (\<lambda>(s, tk). compute_top_k_reward s (ts_log_probs tk) (ts_student_in_teacher tk)
               (ts_teacher_in_student tk) (top_k_strategy cfg) (reward_weight_mode cfg))
             (zip (rr_student_top_k_log_probs row) tks)) (zip rows parts)"

definition top_k_report ::
  "'i rm_row list \<Rightarrow> real list list option \<Rightarrow> top_k_scores list list \<Rightarrow> fl list list list \<Rightarrow> top_k_metrics" where
  "top_k_report rows response_mask parts reward =
     (let sit = map (map ts_student_in_teacher) parts;
          K = (case concat sit of c # _ \<Rightarrow> length c | [] \<Rightarrow> 0);
          denom = max (case response_mask of Some m \<Rightarrow> sum_list (concat m)
                       | None \<Rightarrow> (\<Sum>c\<leftarrow>concat sit. real (length (take 1 c)))) 1;
          overlap = apply_mask3 response_mask (map (map (map fl_of_bool)) sit)
      in \<lparr>tm_overlap_ratio = fl_real (sum_list (concat (concat overlap))) / (denom * real K),
          tm_student_mass = masked_mass (map rr_student_top_k_log_probs rows) response_mask,
          tm_teacher_mass = masked_mass (map (map ts_log_probs) parts) response_mask,
          tm_reward_mean = fl_div (sum_list (concat (concat reward))) denom\<rparr>)"

definition compute_rm_score ::
  "('i, 'm) teacher_env \<Rightarrow> fsdp_teacher_config \<Rightarrow> (string \<times> 'm) list \<Rightarrow> 'i rm_data \<Rightarrow> rm_output result" where
  "compute_rm_score env cfg modules data =
     (let rows = rd_rows data; n = length rows in
      rbind (route cfg (rd_ability data) n) (\<lambda>routes.
      let order = group_rows_by_teacher routes;
          top_k = nat (if log_prob_top_k cfg \<noteq> 0 then log_prob_top_k cfg else metric_top_k cfg);
          use_top_k = (top_k > 0 \<and> rd_has_top_k_ids data \<and> rd_has_top_k_log_probs data);
          names = sort (map fst modules) in
      rbind (local_micro_batch_counts order names (micro_batch_size_per_gpu cfg)) (\<lambda>counts.
      let n_micro = (case ev_all_reduce_max env of None \<Rightarrow> counts | Some all_reduce \<Rightarrow> all_reduce counts) in
      rbind (fold_r (teacher_step env cfg modules order (if use_top_k then top_k else 0) rows)
               (forward_plan names n_micro)
               \<lparr>st_teacher_log_probs = ev_uninit env n, st_top_k_parts = None, st_issued = []\<rparr>) (\<lambda>st.
      let rm_scores = apply_mask (rd_response_mask data)
                        (zip_with reverse_kl (map rr_old_log_probs rows) (st_teacher_log_probs st));
          base = \<lparr>ro_rm_scores = Token_scores rm_scores, ro_teacher_log_probs = st_teacher_log_probs st,
                  ro_top_k_reward = None, ro_mopd_teacher = routes,
                  ro_teacher_counts = map (\<lambda>(k, v). (k, length v)) (sort_key fst order),
                  ro_top_k_metrics = None, ro_issued = st_issued st\<rparr> in
      if \<not> use_top_k then Inr base
      else (case st_top_k_parts st of
              None \<Rightarrow> Inl KeyError
            | Some parts \<Rightarrow>
                rbind (top_k_rewards cfg rows parts) (\<lambda>reward.
                let reward = apply_mask3 (rd_response_mask data) reward;
                    out = base\<lparr>ro_top_k_metrics := Some (top_k_report rows (rd_response_mask data) parts reward)\<rparr> in
                Inr (if rd_top_k_is_reward data then out\<lparr>ro_rm_scores := Candidate_scores reward\<rparr>
                     else out\<lparr>ro_top_k_reward := Some reward\<rparr>)))))))"

section \<open>Groups cover the rows\<close>

lemma enumerate_snoc: "List.enumerate n (xs @ [x]) = List.enumerate n xs @ [(n + length xs, x)]"
  by (simp add: enumerate_append_eq)

lemma group_rows_get:
  "dict_get (group_rows_by_teacher routes) name [] = filter (\<lambda>i. routes ! i = name) [0..<length routes]"
proof (induction routes rule: rev_induct)
  case Nil
  show ?case by (simp add: group_rows_by_teacher_def)
next
  case (snoc r rs)
  have "group_rows_by_teacher (rs @ [r])
      = AList.update r (dict_get (group_rows_by_teacher rs) r [] @ [length rs]) (group_rows_by_teacher rs)"
    by (simp add: group_rows_by_teacher_def enumerate_snoc)
  moreover have "filter (\<lambda>i. (rs @ [r]) ! i = nm) [0..<length rs] = filter (\<lambda>i. rs ! i = nm) [0..<length rs]" for nm
    by (intro filter_cong) (auto simp: nth_append)
  ultimately show ?case using snoc by (auto simp: nth_append)
qed

lemma group_rows_keys:
  "distinct (map fst (group_rows_by_teacher routes)) \<and> set (map fst (group_rows_by_teacher routes)) = set routes"
proof (induction routes rule: rev_induct)
  case Nil
  show ?case by (simp add: group_rows_by_teacher_def)
next
  case (snoc r rs)
  have "group_rows_by_teacher (rs @ [r])
      = AList.update r (dict_get (group_rows_by_teacher rs) r [] @ [length rs]) (group_rows_by_teacher rs)"
    by (simp add: group_rows_by_teacher_def enumerate_snoc)
  with snoc show ?case by (simp add: distinct_update dom_update)
qed

definition routed_chunk :: "nat \<Rightarrow> string list \<Rightarrow> string \<times> nat \<Rightarrow> nat list" where
  "routed_chunk mb routes ns = py_slice (snd ns * mb) ((snd ns + 1) * mb)
     (filter (\<lambda>i. routes ! i = fst ns) [0..<length routes])"

lemma routed_chunk_props:
  "distinct (routed_chunk mb routes ns)"
  "i \<in> set (routed_chunk mb routes ns) \<Longrightarrow> i < length routes \<and> routes ! i = fst ns"
  by (auto simp: routed_chunk_def py_slice_def dest!: in_set_takeD in_set_dropD)

lemma in_some_chunk:
  assumes "0 < mb" "x \<in> set xs"
  shows "\<exists>step < (length xs + mb - 1) div mb. x \<in> set (py_slice (step * mb) ((step + 1) * mb) xs)"
proof -
  obtain j where j: "j < length xs" "x = xs ! j" using assms(2) by (auto simp: in_set_conv_nth)
  have step: "j div mb < (length xs + mb - 1) div mb"
  proof -
    have "(j + mb) div mb \<le> (length xs + mb - 1) div mb" using j(1) assms(1) by (intro div_le_mono) simp
    then show ?thesis using assms(1) by simp
  qed
  have dm: "j div mb * mb + j mod mb = j" by simp
  have "drop (j div mb * mb) xs ! (j mod mb) = xs ! (j div mb * mb + j mod mb)"
    using j(1) div_times_less_eq_dividend [of j mb] by (intro nth_drop) linarith
  then have "x = take mb (drop (j div mb * mb) xs) ! (j mod mb)"
    using j assms(1) by (simp only: dm nth_take mod_less_divisor)
  moreover have "j mod mb < length (take mb (drop (j div mb * mb) xs))"
    using j(1) assms(1) dm by (simp add: less_diff_conv)
  ultimately have "x \<in> set (take mb (drop (j div mb * mb) xs))" by (metis nth_mem)
  with step show ?thesis by (intro exI [of _ "j div mb"]) (simp add: py_slice_def)
qed

lemma forward_plan_mem:
  "(name, step) \<in> set (forward_plan names n_micro) \<longleftrightarrow>
     (\<exists>t < min (length names) (length n_micro). name = names ! t \<and> step < n_micro ! t)"
proof
  assume "(name, step) \<in> set (forward_plan names n_micro)"
  then show "\<exists>t < min (length names) (length n_micro). name = names ! t \<and> step < n_micro ! t"
    by (auto simp: forward_plan_def set_zip)
next
  assume "\<exists>t < min (length names) (length n_micro). name = names ! t \<and> step < n_micro ! t"
  then obtain t where t: "t < min (length names) (length n_micro)" "name = names ! t" "step < n_micro ! t" by blast
  then have "(names ! t, n_micro ! t) \<in> set (zip names n_micro)" by (auto simp: set_zip)
  with t(2,3) show "(name, step) \<in> set (forward_plan names n_micro)"
    unfolding forward_plan_def by force
qed

lemma forward_plan_covers:
  assumes "0 < mb" "i < length routes" "routes ! i \<in> set names" "length n_micro = length names"
    and "\<forall>t<length names. (length (filter (\<lambda>i. routes ! i = names ! t) [0..<length routes]) + mb - 1) div mb \<le> n_micro ! t"
  shows "\<exists>ns\<in>set (forward_plan names n_micro). i \<in> set (routed_chunk mb routes ns)"
proof -
  obtain t where t: "t < length names" "names ! t = routes ! i" using assms(3) by (auto simp: in_set_conv_nth)
  let ?idx = "filter (\<lambda>j. routes ! j = names ! t) [0..<length routes]"
  have "i \<in> set ?idx" using assms(2) t(2) by simp
  from in_some_chunk [OF assms(1) this] obtain step
    where s: "step < (length ?idx + mb - 1) div mb" "i \<in> set (py_slice (step * mb) ((step + 1) * mb) ?idx)" by blast
  have "step < n_micro ! t" using s(1) assms(5) t(1) by (meson less_le_trans)
  then have "(names ! t, step) \<in> set (forward_plan names n_micro)"
    using t(1) assms(4) by (auto simp: forward_plan_mem)
  moreover have "i \<in> set (routed_chunk mb routes (names ! t, step))"
    using s(2) by (simp add: routed_chunk_def)
  ultimately show ?thesis by blast
qed

lemma local_counts_ok:
  "0 < mb \<Longrightarrow> local_micro_batch_counts (group_rows_by_teacher routes) names mb
    = Inr (map (\<lambda>name. (length (filter (\<lambda>i. routes ! i = name) [0..<length routes]) + mb - 1) div mb) names)"
  unfolding local_micro_batch_counts_def by (intro map_r_Inr) (simp add: group_rows_get)


section \<open>The forward loop\<close>

text \<open>What a frozen teacher assigns to one row, whichever rows share its micro-batch.\<close>

definition row_result ::
  "('i, 'm) teacher_env \<Rightarrow> fsdp_teacher_config \<Rightarrow> ('m \<Rightarrow> 'i \<Rightarrow> fl list list) \<Rightarrow> nat \<Rightarrow> 'm \<Rightarrow> 'i rm_row \<Rightarrow> fwd_row result" where
  "row_result env cfg lg top_k m row = forward_row env cfg top_k row (lg m (rr_inputs row))"

definition scored_by ::
  "('i, 'm) teacher_env \<Rightarrow> fsdp_teacher_config \<Rightarrow> ('m \<Rightarrow> 'i \<Rightarrow> fl list list) \<Rightarrow> nat \<Rightarrow> (string \<times> 'm) list
   \<Rightarrow> 'i rm_row list \<Rightarrow> bool" where
  "scored_by env cfg lg top_k modules rows \<longleftrightarrow>
     (\<forall>(name, m)\<in>set modules. \<forall>row\<in>set rows. \<exists>fr. row_result env cfg lg top_k m row = Inr fr)"

lemma forward_micro_batch_ok:
  assumes rowwise: "\<forall>m xs. ev_forward env m xs = map (lg m) xs"
    and "\<forall>row\<in>set micro. \<exists>fr. row_result env cfg lg top_k m row = Inr fr"
  shows "forward_micro_batch env cfg m top_k micro = Inr (map (\<lambda>row. projr (row_result env cfg lg top_k m row)) micro)"
proof -
  have z: "zip micro (ev_forward env m (map rr_inputs micro)) = map (\<lambda>row. (row, lg m (rr_inputs row))) micro"
    by (simp add: rowwise zip_map2 zip_same_conv_map comp_def)
  have "map_r (\<lambda>(row, output). forward_row env cfg top_k row output) (map (\<lambda>row. (row, lg m (rr_inputs row))) micro)
      = Inr (map (\<lambda>(row, output). projr (forward_row env cfg top_k row output))
              (map (\<lambda>row. (row, lg m (rr_inputs row))) micro))"
    using assms(2) by (intro map_r_Inr) (force simp: row_result_def)
  then show ?thesis by (simp add: forward_micro_batch_def z row_result_def comp_def)
qed

lemma teacher_step_ok:
  assumes rowwise: "\<forall>m xs. ev_forward env m xs = map (lg m) xs"
    and sc: "scored_by env cfg lg top_k modules rows" and rows: "length routes = length rows" "rows \<noteq> []"
    and m: "map_of modules (fst ns) = Some m"
  defines "chunk \<equiv> routed_chunk (micro_batch_size_per_gpu cfg) routes ns"
  defines "F \<equiv> \<lambda>i. projr (row_result env cfg lg top_k m (rows ! i))"
  shows "teacher_step env cfg modules (group_rows_by_teacher routes) top_k rows ns st = Inr (st\<lparr>
      st_teacher_log_probs := scatter (st_teacher_log_probs st) chunk (map (fr_log_probs \<circ> F) chunk),
      st_top_k_parts := (if 0 < top_k \<and> chunk \<noteq> []
        then Some (scatter (case st_top_k_parts st of Some ps \<Rightarrow> ps | None \<Rightarrow> ev_uninit_top_k env (length rows)) chunk
                     (map (the \<circ> fr_top_k \<circ> F) chunk))
        else st_top_k_parts st),
      st_issued := st_issued st @ [(fst ns, if chunk = [] then [0] else chunk)]\<rparr>)"
proof -
  let ?rows = "if chunk = [] then [0] else chunk"
  have ch: "py_slice (snd ns * micro_batch_size_per_gpu cfg) ((snd ns + 1) * micro_batch_size_per_gpu cfg)
      (dict_get (group_rows_by_teacher routes) (fst ns) []) = chunk"
    by (simp add: chunk_def routed_chunk_def group_rows_get)
  have rng: "set ?rows \<subseteq> {..<length rows}"
    using routed_chunk_props(2) [of _ "micro_batch_size_per_gpu cfg" routes ns] rows by (auto simp: chunk_def)
  have g: "gather rows ?rows = Inr (map ((!) rows) ?rows)" by (rule gather_Inr [OF rng])
  have mem: "(fst ns, m) \<in> set modules" using m by (rule map_of_SomeD)
  have "\<forall>row\<in>set (map ((!) rows) ?rows). \<exists>fr. row_result env cfg lg top_k m row = Inr fr"
  proof
    fix row assume "row \<in> set (map ((!) rows) ?rows)"
    then have "row \<in> set rows" using rng by (auto split: if_splits)
    then show "\<exists>fr. row_result env cfg lg top_k m row = Inr fr" using sc mem by (auto simp: scored_by_def)
  qed
  from forward_micro_batch_ok [OF rowwise this]
  have f: "forward_micro_batch env cfg m top_k (map ((!) rows) ?rows) = Inr (map F ?rows)"
    by (simp add: F_def comp_def)
  obtain name step where ns: "ns = (name, step)" by (cases ns)
  show ?thesis
    using m ch g f unfolding ns
    by (cases "chunk = []") (simp_all add: teacher_step_def Let_def comp_def split: option.splits)
qed

definition covered :: "nat \<Rightarrow> string list \<Rightarrow> (string \<times> nat) list \<Rightarrow> nat \<Rightarrow> bool" where
  "covered mb routes plan i \<longleftrightarrow> (\<exists>ns\<in>set plan. i \<in> set (routed_chunk mb routes ns))"

definition parts_of :: "('i, 'm) teacher_env \<Rightarrow> nat \<Rightarrow> rm_state \<Rightarrow> top_k_scores list list" where
  "parts_of env n st = (case st_top_k_parts st of Some ps \<Rightarrow> ps | None \<Rightarrow> ev_uninit_top_k env n)"

definition issued_of :: "nat \<Rightarrow> string list \<Rightarrow> string \<times> nat \<Rightarrow> string \<times> nat list" where
  "issued_of mb routes ns = (fst ns, if routed_chunk mb routes ns = [] then [0] else routed_chunk mb routes ns)"

text \<open>The effect of a list of planned forwards on the state of the scoring loop.\<close>

definition loop_effect ::
  "('i, 'm) teacher_env \<Rightarrow> nat \<Rightarrow> nat \<Rightarrow> string list \<Rightarrow> (nat \<Rightarrow> fwd_row) \<Rightarrow> (string \<times> nat) list
   \<Rightarrow> rm_state \<Rightarrow> rm_state \<Rightarrow> bool" where
  "loop_effect env mb top_k routes F plan st st' \<longleftrightarrow>
     length (st_teacher_log_probs st') = length routes \<and> length (parts_of env (length routes) st') = length routes
     \<and> st_issued st' = st_issued st @ map (issued_of mb routes) plan
     \<and> (\<forall>i<length routes. st_teacher_log_probs st' ! i
          = (if covered mb routes plan i then fr_log_probs (F i) else st_teacher_log_probs st ! i))
     \<and> (0 < top_k \<longrightarrow> (\<forall>i<length routes. parts_of env (length routes) st' ! i
          = (if covered mb routes plan i then the (fr_top_k (F i)) else parts_of env (length routes) st ! i)))
     \<and> (0 < top_k \<longrightarrow> (\<exists>i<length routes. covered mb routes plan i) \<or> st_top_k_parts st \<noteq> None \<longrightarrow> st_top_k_parts st' \<noteq> None)"

lemma covered_simps [simp]:
  "\<not> covered mb routes [] i"
  "covered mb routes (ns # plan) i \<longleftrightarrow> i \<in> set (routed_chunk mb routes ns) \<or> covered mb routes plan i"
  by (simp_all add: covered_def)

lemma loop_effect_trans:
  assumes "loop_effect env mb top_k routes F [ns] st st1" "loop_effect env mb top_k routes F plan st1 st2"
  shows "loop_effect env mb top_k routes F (ns # plan) st st2"
proof -
  have "st_top_k_parts st2 \<noteq> None"
    if "0 < top_k" "(\<exists>i<length routes. covered mb routes (ns # plan) i) \<or> st_top_k_parts st \<noteq> None"
  proof -
    from that have "st_top_k_parts st1 \<noteq> None \<or> (\<exists>i<length routes. covered mb routes plan i)"
      using assms(1) unfolding loop_effect_def by (metis covered_simps)
    with that(1) assms(2) show ?thesis unfolding loop_effect_def by blast
  qed
  with assms show ?thesis unfolding loop_effect_def by simp
qed

lemma teacher_step_effect:
  assumes rowwise: "\<forall>m xs. ev_forward env m xs = map (lg m) xs"
    and sc: "scored_by env cfg lg top_k modules rows" and rows: "length routes = length rows" "rows \<noteq> []"
    and ns: "fst ns \<in> set (map fst modules)"
    and len: "length (st_teacher_log_probs st) = length rows" "length (parts_of env (length rows) st) = length rows"
  shows "\<exists>st1. teacher_step env cfg modules (group_rows_by_teacher routes) top_k rows ns st = Inr st1
    \<and> loop_effect env (micro_batch_size_per_gpu cfg) top_k routes
        (\<lambda>i. projr (row_result env cfg lg top_k (the (map_of modules (routes ! i))) (rows ! i))) [ns] st st1"
proof -
  let ?mb = "micro_batch_size_per_gpu cfg"
  let ?c = "routed_chunk ?mb routes ns"
  let ?F = "\<lambda>i. projr (row_result env cfg lg top_k (the (map_of modules (routes ! i))) (rows ! i))"
  from ns obtain m where m: "map_of modules (fst ns) = Some m"
    by (metis domIff dom_map_of_conv_image_fst option.exhaust set_map)
  have "projr (row_result env cfg lg top_k m (rows ! i)) = ?F i" if "i \<in> set ?c" for i
    using routed_chunk_props(2) [OF that] m by simp
  then have eq: "map (f \<circ> (\<lambda>i. projr (row_result env cfg lg top_k m (rows ! i)))) ?c = map (f \<circ> ?F) ?c" for f :: "fwd_row \<Rightarrow> 'c"
    by simp
  define st1 where "st1 = st\<lparr>
      st_teacher_log_probs := scatter (st_teacher_log_probs st) ?c (map (fr_log_probs \<circ> ?F) ?c),
      st_top_k_parts := (if 0 < top_k \<and> ?c \<noteq> []
        then Some (scatter (parts_of env (length rows) st) ?c (map (the \<circ> fr_top_k \<circ> ?F) ?c)) else st_top_k_parts st),
      st_issued := st_issued st @ [issued_of ?mb routes ns]\<rparr>"
  have step: "teacher_step env cfg modules (group_rows_by_teacher routes) top_k rows ns st = Inr st1"
    unfolding teacher_step_ok [OF rowwise sc rows m] st1_def parts_of_def issued_of_def
    by (simp only: eq eq [of "the \<circ> fr_top_k"])
  have parts1: "parts_of env (length rows) st1 = (if 0 < top_k \<and> ?c \<noteq> []
        then scatter (parts_of env (length rows) st) ?c (map (the \<circ> fr_top_k \<circ> ?F) ?c) else parts_of env (length rows) st)"
    by (simp add: st1_def parts_of_def)
  have rng: "set ?c \<subseteq> {..<length rows}"
    using routed_chunk_props(2) [of _ ?mb routes ns] rows(1) by auto
  have lp1: "st_teacher_log_probs st1 ! i
      = (if i \<in> set ?c then fr_log_probs (?F i) else st_teacher_log_probs st ! i)" if "i < length rows" for i
    using nth_scatter_map [OF routed_chunk_props(1), of ?mb routes ns "st_teacher_log_probs st" i "fr_log_probs \<circ> ?F"]
      rng len(1) that by (simp add: st1_def)
  have tk1: "parts_of env (length rows) st1 ! i = (if i \<in> set ?c then the (fr_top_k (?F i)) else parts_of env (length rows) st ! i)"
    if "i < length rows" "0 < top_k" for i
    using nth_scatter_map [OF routed_chunk_props(1), of ?mb routes ns "parts_of env (length rows) st" i "the \<circ> fr_top_k \<circ> ?F"]
      rng len(2) that by (auto simp: parts1)
  have "length (st_teacher_log_probs st1) = length rows" using len(1) by (simp add: st1_def)
  moreover have "length (parts_of env (length rows) st1) = length rows" using len(2) by (simp add: parts1)
  moreover have "st_issued st1 = st_issued st @ [issued_of ?mb routes ns]" by (simp add: st1_def)
  moreover have "0 < top_k \<longrightarrow> (\<exists>i<length routes. covered ?mb routes [ns] i) \<or> st_top_k_parts st \<noteq> None
      \<longrightarrow> st_top_k_parts st1 \<noteq> None"
    by (auto simp: st1_def)
  ultimately show ?thesis using step lp1 tk1 rows(1)
    by (intro exI [of _ st1]) (simp add: loop_effect_def)
qed

lemma teacher_loop_ok:
  assumes rowwise: "\<forall>m xs. ev_forward env m xs = map (lg m) xs"
    and sc: "scored_by env cfg lg top_k modules rows" and rows: "length routes = length rows" "rows \<noteq> []"
    and "\<forall>ns\<in>set plan. fst ns \<in> set (map fst modules)"
    and "length (st_teacher_log_probs st) = length rows" "length (parts_of env (length rows) st) = length rows"
  shows "\<exists>st'. fold_r (teacher_step env cfg modules (group_rows_by_teacher routes) top_k rows) plan st = Inr st'
    \<and> loop_effect env (micro_batch_size_per_gpu cfg) top_k routes
        (\<lambda>i. projr (row_result env cfg lg top_k (the (map_of modules (routes ! i))) (rows ! i))) plan st st'"
  using assms(5-7)
proof (induction plan arbitrary: st)
  case Nil
  then show ?case using rows(1) by (simp add: loop_effect_def)
next
  case (Cons ns plan)
  have "fst ns \<in> set (map fst modules)" "\<forall>ns\<in>set plan. fst ns \<in> set (map fst modules)"
    using Cons.prems(1) by simp_all
  note ns = this
  obtain st1 where st1: "teacher_step env cfg modules (group_rows_by_teacher routes) top_k rows ns st = Inr st1"
    "loop_effect env (micro_batch_size_per_gpu cfg) top_k routes
        (\<lambda>i. projr (row_result env cfg lg top_k (the (map_of modules (routes ! i))) (rows ! i))) [ns] st st1"
    using teacher_step_effect [OF rowwise sc rows ns(1) Cons.prems(2,3)] by blast
  then have "length (st_teacher_log_probs st1) = length rows" "length (parts_of env (length rows) st1) = length rows"
    using rows(1) by (simp_all add: loop_effect_def)
  from Cons.IH [OF ns(2) this] st1 loop_effect_trans show ?case by (simp) blast
qed

section \<open>Scoring one rank\<close>

text \<open>
  The log-probabilities a teacher gives the tokens of a row: for the token at response position
  \<open>t\<close>, the log-softmax of the temperature-scaled logits of the preceding position.
\<close>

definition teacher_row_log_probs ::
  "fsdp_teacher_config \<Rightarrow> ('m \<Rightarrow> 'i \<Rightarrow> fl list list) \<Rightarrow> 'm \<Rightarrow> 'i rm_row \<Rightarrow> fl list" where
  "teacher_row_log_probs cfg lg m row =
     map (\<lambda>(l, y). log_softmax l ! y) (zip (response_logits cfg row (lg m (rr_inputs row))) (rr_responses row))"

definition row_wf :: "('m \<Rightarrow> 'i \<Rightarrow> fl list list) \<Rightarrow> nat \<Rightarrow> nat \<Rightarrow> 'm \<Rightarrow> 'i rm_row \<Rightarrow> bool" where
  "row_wf lg V top_k m row \<longleftrightarrow>
     length (rr_responses row) < length (lg m (rr_inputs row)) \<and>
     (\<forall>l\<in>set (lg m (rr_inputs row)). length l = V) \<and> (\<forall>y\<in>set (rr_responses row). y < V) \<and>
     top_k \<le> V \<and> (\<forall>ids\<in>set (rr_student_top_k_ids row). set ids \<subseteq> {..<V})"

lemma response_logits_shape:
  assumes "row_wf lg V top_k m row"
  shows "length (response_logits cfg row (lg m (rr_inputs row))) = length (rr_responses row)
    \<and> (\<forall>l\<in>set (response_logits cfg row (lg m (rr_inputs row))). length l = V)"
proof -
  have "length (py_slice (n - (r + 1)) (n - 1) xs) = r" if "length xs = n" "r < n" for n r and xs :: "fl list list"
    using that by (simp add: py_slice_def)
  then show ?thesis using assms
    by (auto simp: row_wf_def response_logits_def Let_def dest!: set_py_slice)
qed

lemma compute_top_k_teacher_log_probs_total:
  assumes "k \<le> length logits" "set ids \<subseteq> {..<length logits}"
  shows "\<exists>r. compute_top_k_teacher_log_probs topk logits ids k strategy = Inr r"
  using assms by (simp add: compute_top_k_teacher_log_probs_def Let_def gather_Inr)

lemma row_result_ok:
  assumes "row_wf lg V top_k m row"
  shows "\<exists>fr. row_result env cfg lg top_k m row = Inr fr
    \<and> fr_log_probs fr = teacher_row_log_probs cfg lg m row"
proof -
  let ?L = "response_logits cfg row (lg m (rr_inputs row))"
  note sh = response_logits_shape [OF assms, of cfg]
  have lp: "logprobs_from_logits_v2 (ev_wide env) ?L (rr_responses row) = Inr (teacher_row_log_probs cfg lg m row)"
  proof -
    have "map_r (\<lambda>(row, label). logprobs_from_logits_naive row label) (zip ?L (rr_responses row))
        = Inr (map (\<lambda>(l, y). log_softmax l ! y) (zip ?L (rr_responses row)))"
      using sh assms
      by (intro map_r_Inr)
        (auto simp: logprobs_from_logits_naive_def py_nth_def log_softmax_def row_wf_def elim!: in_set_zipE)
    then show ?thesis using sh by (simp add: logprobs_v2_naive teacher_row_log_probs_def)
  qed
  have "\<exists>tk. map_r (\<lambda>(l, ids). compute_top_k_teacher_log_probs (ev_topk env) l ids top_k (top_k_strategy cfg))
      (zip ?L (rr_student_top_k_ids row)) = Inr tk"
  proof (rule map_r_total)
    fix x assume x: "x \<in> set (zip ?L (rr_student_top_k_ids row))"
    obtain l ids where xx: "x = (l, ids)" by (cases x)
    then have "l \<in> set ?L" "ids \<in> set (rr_student_top_k_ids row)" using x by (auto elim!: in_set_zipE)
    with sh assms have "top_k \<le> length l" "set ids \<subseteq> {..<length l}" by (simp_all add: row_wf_def)
    from compute_top_k_teacher_log_probs_total [OF this]
    show "\<exists>y. (case x of (l, ids) \<Rightarrow>
        compute_top_k_teacher_log_probs (ev_topk env) l ids top_k (top_k_strategy cfg)) = Inr y"
      by (simp add: xx)
  qed
  then show ?thesis using lp by (auto simp: row_result_def forward_row_def)
qed

lemma init_model_keys:
  "set (map fst (init_model env cfg)) = set (map fst (init_model_paths cfg)) \<and> distinct (map fst (init_model env cfg))"
proof -
  have "fst ` set (fold (\<lambda>(name, path) ms. AList.update name (ev_build_model env path) ms) ps d) = fst ` set d \<union> fst ` set ps
      \<and> (distinct (map fst d) \<longrightarrow> distinct (map fst (fold (\<lambda>(name, path) ms. AList.update name (ev_build_model env path) ms) ps d)))"
    for ps d
    by (induction ps arbitrary: d) (auto simp: dom_update distinct_update split_def)
  from this [of "init_model_paths cfg" "[]"] show ?thesis by (simp add: init_model_def)
qed

definition effective_top_k :: "fsdp_teacher_config \<Rightarrow> 'i rm_data \<Rightarrow> nat" where
  "effective_top_k cfg data =
     (if rd_has_top_k_ids data \<and> rd_has_top_k_log_probs data
      then nat (if log_prob_top_k cfg \<noteq> 0 then log_prob_top_k cfg else metric_top_k cfg) else 0)"

lemma compute_top_k_reward_total:
  assumes "strategy \<in> set TOP_K_STRATEGIES" "mode \<in> set REWARD_WEIGHT_MODES"
  shows "\<exists>r. compute_top_k_reward s t sit tis strategy mode = Inr r"
proof -
  have "\<not> isl (top_k_valid strategy s sit tis)"
    using assms(1) [unfolded TOP_K_STRATEGIES_def, simplified]
    by (elim disjE) (simp_all add: top_k_valid_def)
  then obtain v where "top_k_valid strategy s sit tis = Inr v"
    by (cases "top_k_valid strategy s sit tis") simp_all
  then obtain valid b where v: "top_k_valid strategy s sit tis = Inr (valid, b)" by (cases v) blast
  obtain w where "compute_reward_weights s t (take (length s) valid) mode b = Inr w"
    using assms(2) [unfolded REWARD_WEIGHT_MODES_def, simplified]
    by (elim disjE) (simp_all add: compute_reward_weights_def reward_weight_source_def Let_def)
  with v show ?thesis by (simp add: compute_top_k_reward_def Let_def)
qed

lemma top_k_rewards_total:
  assumes "valid_config cfg"
  shows "\<exists>r. top_k_rewards cfg rows parts = Inr r"
proof -
  have "top_k_strategy cfg \<in> set TOP_K_STRATEGIES" "reward_weight_mode cfg \<in> set REWARD_WEIGHT_MODES"
    using assms post_init_cases unfolding valid_config_def by blast+
  note ok = compute_top_k_reward_total [OF this]
  show ?thesis unfolding top_k_rewards_def
    by (intro map_r_total) (auto intro!: map_r_total ok)
qed

text \<open>What a rank returns, given the micro-batch counts \<open>n_micro\<close> after the reduction.\<close>

definition rank_scored ::
  "fsdp_teacher_config \<Rightarrow> ('m \<Rightarrow> 'i \<Rightarrow> fl list list) \<Rightarrow> (string \<times> 'm) list \<Rightarrow> nat list \<Rightarrow> 'i rm_data \<Rightarrow> rm_output \<Rightarrow> bool" where
  "rank_scored cfg lg modules n_micro data out \<longleftrightarrow>
     (let rows = rd_rows data; routes = ro_mopd_teacher out in
      routes = map (route_spec (rd_ability data) (ability_to_teacher cfg) (route_default cfg)) [0..<length rows]
      \<and> ro_teacher_log_probs out
          = map (\<lambda>i. teacher_row_log_probs cfg lg (the (map_of modules (routes ! i))) (rows ! i)) [0..<length rows]
      \<and> (effective_top_k cfg data = 0 \<longrightarrow> ro_rm_scores out = Token_scores (apply_mask (rd_response_mask data)
            (zip_with reverse_kl (map rr_old_log_probs rows) (ro_teacher_log_probs out))))
      \<and> map fst (ro_issued out) = map fst (forward_plan (sort (map fst modules)) n_micro))"

definition rank_ready ::
  "fsdp_teacher_config \<Rightarrow> ('m \<Rightarrow> 'i \<Rightarrow> fl list list) \<Rightarrow> nat \<Rightarrow> (string \<times> 'm) list \<Rightarrow> 'i rm_data \<Rightarrow> bool" where
  "rank_ready cfg lg V modules data \<longleftrightarrow> rd_rows data \<noteq> []
     \<and> routable (rd_ability data) (length (rd_rows data)) (ability_to_teacher cfg) (strict_routing cfg)
     \<and> (\<forall>(_, m)\<in>set modules. \<forall>row\<in>set (rd_rows data). row_wf lg V (effective_top_k cfg data) m row)"

definition env_ok :: "('i, 'm) teacher_env \<Rightarrow> ('m \<Rightarrow> 'i \<Rightarrow> fl list list) \<Rightarrow> bool" where
  "env_ok env lg \<longleftrightarrow> (\<forall>m xs. ev_forward env m xs = map (lg m) xs)
     \<and> (\<forall>n. length (ev_uninit env n) = n) \<and> (\<forall>n. length (ev_uninit_top_k env n) = n)"

definition counts_of :: "nat \<Rightarrow> string list \<Rightarrow> string list \<Rightarrow> nat list" where
  "counts_of mb names routes =
     map (\<lambda>name. (length (filter (\<lambda>i. routes ! i = name) [0..<length routes]) + mb - 1) div mb) names"

lemma scoring_loop_complete:
  assumes env: "env_ok env lg" and ready: "rank_ready cfg lg V modules data"
    and keys: "set routes \<subseteq> set (map fst modules)" and len: "length routes = length (rd_rows data)"
    and mb: "0 < micro_batch_size_per_gpu cfg"
    and nm: "length n_micro = length modules"
      "\<forall>t<length modules. counts_of (micro_batch_size_per_gpu cfg) (sort (map fst modules)) routes ! t \<le> n_micro ! t"
  defines "k \<equiv> effective_top_k cfg data"
  shows "\<exists>st. fold_r (teacher_step env cfg modules (group_rows_by_teacher routes) k (rd_rows data))
      (forward_plan (sort (map fst modules)) n_micro)
      \<lparr>st_teacher_log_probs = ev_uninit env (length (rd_rows data)), st_top_k_parts = None, st_issued = []\<rparr> = Inr st
    \<and> st_teacher_log_probs st = map (\<lambda>i. teacher_row_log_probs cfg lg (the (map_of modules (routes ! i))) (rd_rows data ! i))
        [0..<length (rd_rows data)]
    \<and> map fst (st_issued st) = map fst (forward_plan (sort (map fst modules)) n_micro)
    \<and> (0 < k \<longrightarrow> st_top_k_parts st \<noteq> None)"
proof -
  let ?rows = "rd_rows data" and ?names = "sort (map fst modules)" and ?mb = "micro_batch_size_per_gpu cfg"
  let ?plan = "forward_plan ?names n_micro"
  let ?F = "\<lambda>i. projr (row_result env cfg lg k (the (map_of modules (routes ! i))) (?rows ! i))"
  let ?st0 = "\<lparr>st_teacher_log_probs = ev_uninit env (length ?rows), st_top_k_parts = None, st_issued = []\<rparr>"
  have wf: "row_wf lg V k m row" if "(nm, m) \<in> set modules" "row \<in> set ?rows" for nm m row
    using ready that by (auto simp: rank_ready_def k_def)
  have sc: "scored_by env cfg lg k modules ?rows"
    unfolding scored_by_def using row_result_ok [OF wf] by (auto; blast)
  have "fst ns \<in> set (map fst modules)" if "ns \<in> set ?plan" for ns
  proof -
    obtain a b where ab: "ns = (a, b)" by (cases ns)
    with that obtain t where "t < length ?names" "a = ?names ! t"
      using forward_plan_mem [of a b ?names n_micro] by auto
    then have "a \<in> set ?names" by (metis nth_mem)
    then show ?thesis by (simp add: ab)
  qed
  then obtain st where st: "fold_r (teacher_step env cfg modules (group_rows_by_teacher routes) k ?rows) ?plan ?st0 = Inr st"
    "loop_effect env ?mb k routes ?F ?plan ?st0 st"
    using teacher_loop_ok [OF _ sc len, of ?plan ?st0] env ready
    by (auto simp: env_ok_def rank_ready_def parts_of_def)
  have cov: "covered ?mb routes ?plan i" if "i < length routes" for i
    unfolding covered_def
    by (rule forward_plan_covers [OF mb that]) (use keys that nm in \<open>auto simp: counts_of_def subset_iff\<close>)
  have lp: "fr_log_probs (?F i) = teacher_row_log_probs cfg lg (the (map_of modules (routes ! i))) (?rows ! i)"
    if "i < length ?rows" for i
  proof -
    have "routes ! i \<in> fst ` set modules" using keys that len by (auto simp: subset_iff)
    then obtain m where m: "map_of modules (routes ! i) = Some m"
      by (metis domIff dom_map_of_conv_image_fst option.exhaust)
    from row_result_ok [OF wf [OF map_of_SomeD [OF m]], of "?rows ! i" env cfg] that show ?thesis
      by (auto simp: m)
  qed
  have "st_teacher_log_probs st = map (\<lambda>i. teacher_row_log_probs cfg lg (the (map_of modules (routes ! i))) (?rows ! i))
        [0..<length ?rows]"
    using st(2) cov lp len by (intro nth_equalityI) (simp_all add: loop_effect_def)
  moreover have "map fst (st_issued st) = map fst ?plan"
    using st(2) by (simp add: loop_effect_def issued_of_def comp_def)
  moreover have "st_top_k_parts st \<noteq> None" if "0 < k"
  proof -
    have "0 < length routes" using ready len by (simp add: rank_ready_def)
    with cov [of 0] st(2) that show ?thesis by (auto simp: loop_effect_def)
  qed
  ultimately show ?thesis using st(1) by blast
qed

lemma compute_rm_score_ok:
  assumes env: "env_ok env lg" and cfg: "served_config cfg" and mb: "0 < micro_batch_size_per_gpu cfg"
    and ready: "rank_ready cfg lg V (init_model env0 cfg) data"
  defines "routes \<equiv> map (route_spec (rd_ability data) (ability_to_teacher cfg) (route_default cfg)) [0..<length (rd_rows data)]"
  defines "names \<equiv> sort (map fst (init_model env0 cfg))"
  assumes red: "\<exists>f. ev_all_reduce_max env = Some f \<and> f (counts_of (micro_batch_size_per_gpu cfg) names routes) = n_micro"
    and nm: "length n_micro = length names"
      "\<forall>t<length names. counts_of (micro_batch_size_per_gpu cfg) names routes ! t \<le> n_micro ! t"
  shows "\<exists>out. compute_rm_score env cfg (init_model env0 cfg) data = Inr out
    \<and> rank_scored cfg lg (init_model env0 cfg) n_micro data out"
proof -
  let ?ms = "init_model env0 cfg" and ?rows = "rd_rows data" and ?k = "effective_top_k cfg data"
  have r: "route cfg (rd_ability data) (length ?rows) = Inr routes"
    using ready by (simp add: rank_ready_def route_def route_by_ability_ok routes_def)
  from route_in_modules [OF cfg r] have keys: "set routes \<subseteq> set (map fst ?ms)" and len: "length routes = length ?rows"
    using init_model_keys by (simp_all, blast)
  have nm': "length n_micro = length ?ms"
    "\<forall>t<length ?ms. counts_of (micro_batch_size_per_gpu cfg) (sort (map fst ?ms)) routes ! t \<le> n_micro ! t"
    using nm by (simp_all add: names_def)
  obtain st where st: "fold_r (teacher_step env cfg ?ms (group_rows_by_teacher routes) ?k ?rows) (forward_plan names n_micro)
      \<lparr>st_teacher_log_probs = ev_uninit env (length ?rows), st_top_k_parts = None, st_issued = []\<rparr> = Inr st"
    "st_teacher_log_probs st = map (\<lambda>i. teacher_row_log_probs cfg lg (the (map_of ?ms (routes ! i))) (?rows ! i)) [0..<length ?rows]"
    "map fst (st_issued st) = map fst (forward_plan names n_micro)" "0 < ?k \<longrightarrow> st_top_k_parts st \<noteq> None"
    using scoring_loop_complete [OF env ready keys len mb nm'] unfolding names_def by (elim exE conjE)
  have cnt: "local_micro_batch_counts (group_rows_by_teacher routes) names (micro_batch_size_per_gpu cfg)
      = Inr (counts_of (micro_batch_size_per_gpu cfg) names routes)"
    by (simp add: local_counts_ok [OF mb] counts_of_def)
  define base where "base = \<lparr>ro_rm_scores = Token_scores (apply_mask (rd_response_mask data)
        (zip_with reverse_kl (map rr_old_log_probs ?rows) (st_teacher_log_probs st))),
      ro_teacher_log_probs = st_teacher_log_probs st, ro_top_k_reward = None, ro_mopd_teacher = routes,
      ro_teacher_counts = map (\<lambda>(k, v). (k, length v)) (sort_key fst (group_rows_by_teacher routes)),
      ro_top_k_metrics = None, ro_issued = st_issued st\<rparr>"
  have kk: "(if 0 < ?k then nat (if log_prob_top_k cfg \<noteq> 0 then log_prob_top_k cfg else metric_top_k cfg) else 0) = ?k"
    "(0 < nat (if log_prob_top_k cfg \<noteq> 0 then log_prob_top_k cfg else metric_top_k cfg)
        \<and> rd_has_top_k_ids data \<and> rd_has_top_k_log_probs data) = (0 < ?k)"
    by (auto simp: effective_top_k_def)
  obtain f where f: "ev_all_reduce_max env = Some f" "f (counts_of (micro_batch_size_per_gpu cfg) names routes) = n_micro"
    using red by blast
  note run = compute_rm_score_def [of env cfg ?ms data, unfolded Let_def kk r rbind_Inr names_def [symmetric] cnt f
      option.case st(1) base_def [symmetric]]
  have basic: "ro_teacher_log_probs base = st_teacher_log_probs st" "ro_mopd_teacher base = routes"
    "ro_issued base = st_issued st" by (simp_all add: base_def)
  show ?thesis
  proof (cases "0 < ?k")
    case False
    then have "compute_rm_score env cfg ?ms data = Inr base" by (simp only: run simp_thms if_True if_False)
    moreover have "rank_scored cfg lg ?ms n_micro data base"
      using st(2,3) by (simp add: rank_scored_def basic routes_def names_def base_def)
    ultimately show ?thesis by blast
  next
    case True
    then obtain parts where parts: "st_top_k_parts st = Some parts" using st(4) by auto
    obtain rew where rew: "top_k_rewards cfg ?rows parts = Inr rew"
      using top_k_rewards_total cfg unfolding served_config_def by blast
    show ?thesis using st(2,3) True
      by (simp add: run parts rew rank_scored_def basic routes_def names_def)
  qed
qed

section \<open>All ranks together\<close>

text \<open>
  The data-parallel group: every rank holds a shard of the batch and runs the same method; the
  all-reduce with \<open>ReduceOp.MAX\<close> gives each of them the elementwise maximum of all the ranks' counts.
\<close>

definition rank_counts :: "fsdp_teacher_config \<Rightarrow> (string \<times> 'm) list \<Rightarrow> 'i rm_data \<Rightarrow> nat list result" where
  "rank_counts cfg modules data =
     rbind (route cfg (rd_ability data) (length (rd_rows data))) (\<lambda>routes.
     local_micro_batch_counts (group_rows_by_teacher routes) (sort (map fst modules)) (micro_batch_size_per_gpu cfg))"

definition all_reduce_max :: "nat \<Rightarrow> nat list list \<Rightarrow> nat list" where
  "all_reduce_max n counts = map (\<lambda>t. fold max (map (\<lambda>c. c ! t) counts) 0) [0..<n]"

definition cluster_scores ::
  "('i, 'm) teacher_env \<Rightarrow> fsdp_teacher_config \<Rightarrow> 'i rm_data list \<Rightarrow> rm_output list result" where
  "cluster_scores env cfg shards =
     (let modules = init_model env cfg in
      rbind (map_r (rank_counts cfg modules) shards) (\<lambda>counts.
      map_r (compute_rm_score (env\<lparr>ev_all_reduce_max := Some (\<lambda>_. all_reduce_max (length modules) counts)\<rparr>)
               cfg modules) shards))"

lemma all_reduce_max_ge:
  assumes "c \<in> set counts" "t < n"
  shows "c ! t \<le> all_reduce_max n counts ! t"
proof -
  have "c ! t \<le> Max (set (0 # map (\<lambda>c. c ! t) counts))" using assms(1) by (intro Max_ge) auto
  then show ?thesis using assms(2) by (simp only: Max.set_eq_fold) (simp add: all_reduce_max_def)
qed

lemma cluster_ok:
  fixes shards :: "'i rm_data list"
  assumes env: "env_ok env lg" and cfg: "served_config cfg" and mb: "0 < micro_batch_size_per_gpu cfg"
    and ready: "\<forall>data\<in>set shards. rank_ready cfg lg V (init_model env cfg) data"
  shows "\<exists>outs n_micro. cluster_scores env cfg shards = Inr outs \<and> length outs = length shards
    \<and> (\<forall>r<length shards. rank_scored cfg lg (init_model env cfg) n_micro (shards ! r) (outs ! r))"
proof -
  let ?ms = "init_model env cfg"
  let ?names = "sort (map fst ?ms)" and ?mb = "micro_batch_size_per_gpu cfg"
  define routes where "routes = (\<lambda>data :: 'i rm_data. map (route_spec (rd_ability data) (ability_to_teacher cfg) (route_default cfg))
      [0..<length (rd_rows data)])"
  let ?counts = "map (\<lambda>data. counts_of ?mb ?names (routes data)) shards"
  have cnt: "map_r (rank_counts cfg ?ms) shards = Inr ?counts"
  proof (rule map_r_Inr)
    fix data assume "data \<in> set shards"
    then have "route cfg (rd_ability data) (length (rd_rows data)) = Inr (routes data)"
      using ready by (simp add: rank_ready_def route_def route_by_ability_ok routes_def)
    then show "rank_counts cfg ?ms data = Inr (counts_of ?mb ?names (routes data))"
      by (simp add: rank_counts_def local_counts_ok [OF mb] counts_of_def)
  qed
  let ?n = "all_reduce_max (length ?ms) ?counts"
  let ?env = "env\<lparr>ev_all_reduce_max := Some (\<lambda>_. ?n)\<rparr>"
  have env': "env_ok ?env lg" using env by (simp add: env_ok_def)
  have each: "\<exists>out. compute_rm_score ?env cfg ?ms data = Inr out \<and> rank_scored cfg lg ?ms ?n data out"
    if d: "data \<in> set shards" for data
  proof (rule compute_rm_score_ok [OF env' cfg mb])
    show "rank_ready cfg lg V ?ms data" using ready d by blast
    show "\<forall>t<length ?names. counts_of ?mb ?names
        (map (route_spec (rd_ability data) (ability_to_teacher cfg) (route_default cfg)) [0..<length (rd_rows data)]) ! t \<le> ?n ! t"
      using d all_reduce_max_ge [of "counts_of ?mb ?names (routes data)" ?counts] by (auto simp: routes_def)
  qed (simp_all add: all_reduce_max_def)
  then obtain outs where outs: "map_r (compute_rm_score ?env cfg ?ms) shards = Inr outs"
    using map_r_total [of shards "compute_rm_score ?env cfg ?ms"] by blast
  have "rank_scored cfg lg ?ms ?n (shards ! r) (outs ! r)" if "r < length shards" for r
    using each [of "shards ! r"] map_r_nth [OF outs that] that by auto
  then show ?thesis using outs cnt map_r_length [OF outs]
    by (intro exI [of _ outs] exI [of _ ?n]) (simp add: cluster_scores_def Let_def)
qed

lemma served_configI:
  assumes "enabled cfg0" "post_init cfg0 = Inr cfg"
    and "teachers cfg \<noteq> [] \<or> ability_to_teacher cfg = [] \<and> default_teacher cfg \<noteq> Some []"
  shows "served_config cfg"
  using assms by (auto simp: served_config_def valid_config_def)

text \<open>
  C1. On every rank, with a validated configuration and non-empty shards whose rows fit the
  vocabulary, \<open>compute_rm_score\<close> returns, and each row of each shard holds the log-probabilities of
  the teacher its ability routes to, at its own position in the batch: grouping by teacher,
  splitting into micro-batches, padding with throwaway forwards and scattering back lose and
  mix up no row, and nothing of the uninitialised result tensor is left.  Without top-K
  tensors the reward is the masked reverse KL of exactly these log-probabilities.
\<close>

theorem cluster_rows_scored:
  assumes "enabled cfg0" "post_init cfg0 = Inr cfg"
    and "teachers cfg \<noteq> [] \<or> ability_to_teacher cfg = [] \<and> default_teacher cfg \<noteq> Some []"
    and "0 < micro_batch_size_per_gpu cfg" "env_ok env lg"
    and "\<forall>data\<in>set shards. rank_ready cfg lg V (init_model env cfg) data"
  shows "\<exists>outs. cluster_scores env cfg shards = Inr outs \<and> length outs = length shards
    \<and> (\<forall>r<length shards. \<forall>i<length (rd_rows (shards ! r)).
         ro_mopd_teacher (outs ! r) ! i = route_spec (rd_ability (shards ! r)) (ability_to_teacher cfg) (route_default cfg) i
         \<and> (\<exists>m. map_of (init_model env cfg) (ro_mopd_teacher (outs ! r) ! i) = Some m
              \<and> ro_teacher_log_probs (outs ! r) ! i = teacher_row_log_probs cfg lg m (rd_rows (shards ! r) ! i)))
    \<and> (\<forall>r<length shards. effective_top_k cfg (shards ! r) = 0 \<longrightarrow>
         ro_rm_scores (outs ! r) = Token_scores (apply_mask (rd_response_mask (shards ! r))
           (zip_with reverse_kl (map rr_old_log_probs (rd_rows (shards ! r))) (ro_teacher_log_probs (outs ! r)))))"
proof -
  note cfg = served_configI [OF assms(1-3)]
  obtain outs n where outs: "cluster_scores env cfg shards = Inr outs" "length outs = length shards"
    "\<forall>r<length shards. rank_scored cfg lg (init_model env cfg) n (shards ! r) (outs ! r)"
    using cluster_ok [OF assms(5) cfg assms(4,6)] by blast
  have "\<exists>m. map_of (init_model env cfg) (route_spec (rd_ability (shards ! r)) (ability_to_teacher cfg) (route_default cfg) i) = Some m"
    if r: "r < length shards" and i: "i < length (rd_rows (shards ! r))" for r i
  proof -
    have "routable (rd_ability (shards ! r)) (length (rd_rows (shards ! r))) (ability_to_teacher cfg) (strict_routing cfg)"
      using assms(6) r by (auto simp: rank_ready_def)
    from route_in_modules [OF cfg route_by_ability_ok [OF this, of "route_default cfg", folded route_def]] i
    have "route_spec (rd_ability (shards ! r)) (ability_to_teacher cfg) (route_default cfg) i \<in> set (map fst (init_model env cfg))"
      using init_model_keys [of env cfg] by auto
    then show ?thesis by (metis domIff dom_map_of_conv_image_fst option.exhaust set_map)
  qed
  with outs show ?thesis
    by (intro exI [of _ outs]) (fastforce simp: rank_scored_def Let_def)
qed

text \<open>
  C2. The ranks stay in lockstep: whatever teachers the rows of the shards are routed to, every
  rank issues the same sequence of teacher forwards (the collectives of the FSDP modules), so
  no rank waits in a collective that another rank never enters.
\<close>

theorem cluster_lockstep:
  assumes "enabled cfg0" "post_init cfg0 = Inr cfg"
    and "teachers cfg \<noteq> [] \<or> ability_to_teacher cfg = [] \<and> default_teacher cfg \<noteq> Some []"
    and "0 < micro_batch_size_per_gpu cfg" "env_ok env lg"
    and "\<forall>data\<in>set shards. rank_ready cfg lg V (init_model env cfg) data"
  shows "\<exists>outs. cluster_scores env cfg shards = Inr outs \<and> length outs = length shards
    \<and> (\<forall>r s. r < length shards \<and> s < length shards
          \<longrightarrow> map fst (ro_issued (outs ! r)) = map fst (ro_issued (outs ! s)))"
proof -
  obtain outs n where outs: "cluster_scores env cfg shards = Inr outs" "length outs = length shards"
    "\<forall>r<length shards. rank_scored cfg lg (init_model env cfg) n (shards ! r) (outs ! r)"
    using cluster_ok [OF assms(5) served_configI [OF assms(1-3)] assms(4,6)] by blast
  then have "map fst (ro_issued (outs ! r)) = map fst (forward_plan (sort (map fst (init_model env cfg))) n)"
    if "r < length shards" for r using that by (simp add: rank_scored_def Let_def)
  with outs(1,2) show ?thesis by (intro exI [of _ outs]) simp
qed

text \<open>A concrete two-teacher cluster: the first rank holds only math rows, the second also code.\<close>

definition demo_lg :: "string option \<Rightarrow> nat \<Rightarrow> fl list list" where
  "demo_lg m x = [[Fin 0, Fin 1], [Fin 2, Fin 0]]"

definition demo_env :: "(nat, string option) teacher_env" where
  "demo_env = \<lparr>ev_build_model = \<lambda>p. p, ev_forward = \<lambda>m xs. map (demo_lg m) xs, ev_topk = \<lambda>xs k. [0..<k],
     ev_wide = False, ev_all_reduce_max = None, ev_uninit = \<lambda>n. replicate n [], ev_uninit_top_k = \<lambda>n. replicate n []\<rparr>"

definition demo_cfg :: "string option \<Rightarrow> fsdp_teacher_config" where
  "demo_cfg d = \<lparr>enabled = True, model_path = None,
     teachers = [\<lparr>te_name = ''tm'', te_path = ''m''\<rparr>, \<lparr>te_name = ''tc'', te_path = ''c''\<rparr>],
     ability_to_teacher = [(''code'', ''tc'')], strict_routing = False, default_teacher = d,
     micro_batch_size_per_gpu = 1, teacher_temperature = 1, log_prob_top_k = 0,
     top_k_strategy = ''only_stu'', reward_weight_mode = ''student_p'', metric_top_k = 0\<rparr>"

definition demo_row :: "nat rm_row" where
  "demo_row = \<lparr>rr_inputs = 7, rr_responses = [1], rr_old_log_probs = [Fin (-1)],
     rr_student_top_k_ids = [], rr_student_top_k_log_probs = []\<rparr>"

definition demo_shards :: "nat rm_data list" where
  "demo_shards =
     [\<lparr>rd_rows = [demo_row, demo_row], rd_ability = Some [''math'', ''math''], rd_response_mask = None,
       rd_has_top_k_ids = False, rd_has_top_k_log_probs = False, rd_top_k_is_reward = False\<rparr>,
      \<lparr>rd_rows = [demo_row, demo_row], rd_ability = Some [''math'', ''code''], rd_response_mask = Some [[1], [0]],
       rd_has_top_k_ids = False, rd_has_top_k_log_probs = False, rd_top_k_is_reward = False\<rparr>]"

lemma demo_post_init: "enabled (demo_cfg None) \<and> post_init (demo_cfg None) = Inr (demo_cfg (Some ''tm''))"
  by (simp add: demo_cfg_def post_init_def Let_def TOP_K_STRATEGIES_def REWARD_WEIGHT_MODES_def teacher_names_def)

lemma demo_ready:
  "env_ok demo_env demo_lg"
  "\<forall>data\<in>set demo_shards. rank_ready (demo_cfg (Some ''tm'')) demo_lg 2 (init_model demo_env (demo_cfg (Some ''tm''))) data"
  by (auto simp: env_ok_def demo_env_def demo_shards_def rank_ready_def routable_def demo_cfg_def row_wf_def
      demo_row_def demo_lg_def effective_top_k_def)

lemmas demo_hyps = demo_post_init [THEN conjunct1] demo_post_init [THEN conjunct2] demo_ready

theorem cluster_rows_scored_witness:
  "\<exists>outs. cluster_scores demo_env (demo_cfg (Some ''tm'')) demo_shards = Inr outs \<and> length outs = length demo_shards
    \<and> (\<forall>r<length demo_shards. \<forall>i<length (rd_rows (demo_shards ! r)).
         ro_mopd_teacher (outs ! r) ! i = route_spec (rd_ability (demo_shards ! r))
           (ability_to_teacher (demo_cfg (Some ''tm''))) (route_default (demo_cfg (Some ''tm''))) i
         \<and> (\<exists>m. map_of (init_model demo_env (demo_cfg (Some ''tm''))) (ro_mopd_teacher (outs ! r) ! i) = Some m
              \<and> ro_teacher_log_probs (outs ! r) ! i
                  = teacher_row_log_probs (demo_cfg (Some ''tm'')) demo_lg m (rd_rows (demo_shards ! r) ! i)))
    \<and> (\<forall>r<length demo_shards. effective_top_k (demo_cfg (Some ''tm'')) (demo_shards ! r) = 0 \<longrightarrow>
         ro_rm_scores (outs ! r) = Token_scores (apply_mask (rd_response_mask (demo_shards ! r))
           (zip_with reverse_kl (map rr_old_log_probs (rd_rows (demo_shards ! r))) (ro_teacher_log_probs (outs ! r)))))"
  by (rule cluster_rows_scored [OF demo_hyps(1,2) _ _ demo_hyps(3,4)]) (simp_all add: demo_cfg_def)

theorem cluster_lockstep_witness:
  "\<exists>outs. cluster_scores demo_env (demo_cfg (Some ''tm'')) demo_shards = Inr outs \<and> length outs = length demo_shards
    \<and> (\<forall>r s. r < length demo_shards \<and> s < length demo_shards
          \<longrightarrow> map fst (ro_issued (outs ! r)) = map fst (ro_issued (outs ! s)))"
  by (rule cluster_lockstep [OF demo_hyps(1,2) _ _ demo_hyps(3,4)]) (simp_all add: demo_cfg_def)

end
