(* ===== verification/Template_Prompt.thy ===== *)
theory Template_Prompt
  imports Prelude "HOL-Library.Sublist" Complex_Main
begin

text \<open>
  \<open>verl/utils/template_prompt.py\<close>: the rollout prefix of template mode, recovered from a tokenizer's
  chat template, the filters for self-generated queries, and the selection of rows after
  oversampling.  Text is a list of code points.  The tokenizer is a record of functions; the
  classes of Unicode characters the string and regular-expression functions of Python use are the
  record \<open>unicode\<close>.
\<close>

section \<open>Text\<close>

type_synonym codes = "nat list"

definition asc :: "string \<Rightarrow> codes" where
  "asc s = map of_char s"

record unicode =
  u_lower :: "codes \<Rightarrow> codes"
  u_space :: "nat \<Rightarrow> bool"
  u_digit :: "nat \<Rightarrow> bool"
  u_word :: "nat \<Rightarrow> bool"

fun str_find :: "codes \<Rightarrow> codes \<Rightarrow> nat option" where
  "str_find sub [] = (if sub = [] then Some 0 else None)"
| "str_find sub (c # cs) = (if prefix sub (c # cs) then Some 0 else map_option Suc (str_find sub cs))"

definition contains :: "codes \<Rightarrow> codes \<Rightarrow> bool" where
  "contains s sub \<longleftrightarrow> str_find sub s \<noteq> None"

definition str_index :: "codes \<Rightarrow> codes \<Rightarrow> nat result" where
  "str_index s sub = (case str_find sub s of None \<Rightarrow> Inl ValueError | Some i \<Rightarrow> Inr i)"

function str_replace :: "codes \<Rightarrow> codes \<Rightarrow> codes \<Rightarrow> codes" where
  "str_replace old new s =
     (if s = [] \<or> old = [] then s
      else if prefix old s then new @ str_replace old new (drop (length old) s)
      else hd s # str_replace old new (tl s))"
  by auto
termination by (relation "measure (\<lambda>(_, _, s). length s)") auto

declare str_replace.simps [simp del]

definition strip :: "unicode \<Rightarrow> codes \<Rightarrow> codes" where
  "strip u s = rev (dropWhile (u_space u) (rev (dropWhile (u_space u) s)))"

section \<open>Prefix construction\<close>

record tokenizer =
  tk_bos :: "codes option"
  tk_eos :: "codes option"
  tk_has_template :: bool
  tk_apply :: "(string \<times> codes) list \<Rightarrow> bool \<Rightarrow> codes result"
  tk_encode :: "codes \<Rightarrow> int list"
  tk_decode :: "int list \<Rightarrow> codes"
  tk_eos_id :: int

record chat_tokens =
  ct_bos :: codes
  ct_eos :: codes
  ct_user :: codes
  ct_assistant :: codes
  ct_system_start :: codes
  ct_system_end :: codes

definition FALLBACK_USER_TOKEN :: codes where
  "FALLBACK_USER_TOKEN = asc ''<'' @ [65372] @ asc ''User'' @ [65372] @ asc ''>''"

definition FALLBACK_ASSISTANT_TOKEN :: codes where
  "FALLBACK_ASSISTANT_TOKEN = asc ''<'' @ [65372] @ asc ''Assistant'' @ [65372] @ asc ''>''"

definition USER_SENTINEL :: codes where
  "USER_SENTINEL = asc ''TEMPLATE_SENTINEL_USER_XYZ''"

definition SYSTEM_SENTINEL :: codes where
  "SYSTEM_SENTINEL = asc ''TEMPLATE_SENTINEL_SYSTEM_XYZ''"

definition SPLIT_MARKER :: codes where
  "SPLIT_MARKER = asc ''<<<TEMPLATE_SPLIT_MARKER>>>''"

definition strip_bos :: "codes \<Rightarrow> codes \<Rightarrow> codes" where
  "strip_bos bos s = (if bos \<noteq> [] \<and> prefix bos s then drop (length bos) s else s)"

definition strip_end :: "codes \<Rightarrow> codes \<Rightarrow> codes" where
  "strip_end e s = (if e \<noteq> [] \<and> suffix e s then take (length s - length e) s else s)"

text \<open>The two \<open>try\<close> blocks: the markers of the user turn and of the system message.\<close>

definition user_markers :: "tokenizer \<Rightarrow> codes \<Rightarrow> (codes \<times> codes) result" where
  "user_markers tk bos =
     rbind (tk_apply tk [(''user'', USER_SENTINEL)] True) (\<lambda>user_result.
     rbind (str_index user_result USER_SENTINEL) (\<lambda>idx.
     Inr (strip_bos bos (take idx user_result), drop (idx + length USER_SENTINEL) user_result)))"

definition system_markers :: "tokenizer \<Rightarrow> codes \<Rightarrow> codes \<Rightarrow> (codes \<times> codes) result" where
  "system_markers tk bos user_tok =
     rbind (tk_apply tk [(''system'', SYSTEM_SENTINEL), (''user'', USER_SENTINEL)] True) (\<lambda>sys_result.
     rbind (str_index sys_result SYSTEM_SENTINEL) (\<lambda>sys_idx.
     rbind (str_index sys_result USER_SENTINEL) (\<lambda>user_idx.
     Inr (strip_bos bos (take sys_idx sys_result),
          strip_end user_tok (drop (sys_idx + length SYSTEM_SENTINEL) (take user_idx sys_result))))))"

definition extract_chat_tokens :: "tokenizer \<Rightarrow> chat_tokens" where
  "extract_chat_tokens tk =
     (let bos = (case tk_bos tk of None \<Rightarrow> [] | Some b \<Rightarrow> b);
          eos = (case tk_eos tk of None \<Rightarrow> [] | Some e \<Rightarrow> e) in
      if \<not> tk_has_template tk then
        \<lparr>ct_bos = bos, ct_eos = eos, ct_user = FALLBACK_USER_TOKEN, ct_assistant = FALLBACK_ASSISTANT_TOKEN,
         ct_system_start = [], ct_system_end = []\<rparr>
      else
        (let (user, assistant) = (case user_markers tk bos of
                Inl _ \<Rightarrow> (FALLBACK_USER_TOKEN, FALLBACK_ASSISTANT_TOKEN) | Inr x \<Rightarrow> x);
             (system_start, system_end) = (case system_markers tk bos user of Inl _ \<Rightarrow> ([], []) | Inr x \<Rightarrow> x) in
         \<lparr>ct_bos = bos, ct_eos = eos, ct_user = user, ct_assistant = assistant,
          ct_system_start = system_start, ct_system_end = system_end\<rparr>))"

definition resolve_template :: "codes \<Rightarrow> tokenizer \<Rightarrow> codes" where
  "resolve_template template tk =
     (let t = extract_chat_tokens tk in
      fold (\<lambda>(key, val) s. str_replace (asc (''{'' @ key @ ''}'')) val s)
        [(''bos'', ct_bos t), (''eos'', ct_eos t), (''user'', ct_user t), (''assistant'', ct_assistant t),
         (''system_start'', ct_system_start t), (''system_end'', ct_system_end t)] template)"

definition DEFAULT_TEMPLATE :: codes where
  "DEFAULT_TEMPLATE = asc ''{bos}{user}<think>'' @ [10]"

definition get_marker_prefix_ids :: "tokenizer \<Rightarrow> codes option \<Rightarrow> int list result" where
  "get_marker_prefix_ids tk system_prompt =
     rbind (tk_apply tk ((case system_prompt of None \<Rightarrow> [] | Some s \<Rightarrow> [(''system'', s)]) @ [(''user'', SPLIT_MARKER)]) False) (\<lambda>full_text.
     Inr (tk_encode tk (case str_find SPLIT_MARKER full_text of None \<Rightarrow> full_text | Some i \<Rightarrow> take i full_text)))"

definition build_prefix_ids ::
  "tokenizer \<Rightarrow> codes \<Rightarrow> codes \<Rightarrow> string \<Rightarrow> codes option \<Rightarrow> nat option \<Rightarrow> int list result" where
  "build_prefix_ids tk prefix_template prefix_suffix prefix_mode system_prompt max_prompt_length =
     rbind (if prefix_mode = ''template'' then Inr (tk_encode tk (resolve_template prefix_template tk @ prefix_suffix))
            else if prefix_mode = ''raw'' then
              rbind (get_marker_prefix_ids tk system_prompt) (\<lambda>ids.
              Inr (if prefix_suffix \<noteq> [] then ids @ tk_encode tk prefix_suffix else ids))
            else Inl ValueError) (\<lambda>prefix_ids.
     Inr (case max_prompt_length of
            None \<Rightarrow> prefix_ids
          | Some n \<Rightarrow> if length prefix_ids > n then py_take_last n prefix_ids else prefix_ids))"

section \<open>Content filters\<close>

definition MATH_KEYWORDS :: "codes list" where
  "MATH_KEYWORDS = map asc [''solve'', ''find'', ''compute'', ''prove'', ''determine'', ''evaluate'',
     ''calculate'', ''simplify'', ''show that'', ''how many'', ''what is the value'',
     ''what is'', ''let '', ''given that'', ''suppose'', ''for all'', ''there exist'',
     ''integer'', ''positive'', ''triangle'', ''circle'', ''polynomial'', ''equation'',
     ''divisible'', ''modulo'', ''remainder'', ''sum of'', ''product of'',
     ''maximum'', ''minimum'', ''probability'', ''permutation'', ''combination'']
   @ [[27714], [35777, 26126], [35745, 31639], [35774], [35299, 26041, 31243], [22810, 23569], [33509], [24050, 30693]]"

definition CODE_KEYWORDS :: "codes list" where
  "CODE_KEYWORDS = map asc [''def '', ''class '', ''import '', ''return '', ''print('', ''for '', ''while '',
     ''if '', ''else:'', ''elif '', ''try:'', ''except'', ''with '', ''assert '',
     ''input('', ''sys.stdin'', ''stdout'', ''```'', ''solution'',
     ''function'', ''algorithm'', ''implement'', ''output'', ''test case'']"

definition apos :: string where
  "apos = [CHR 39]"

definition META_PATTERNS :: "codes list" where
  "META_PATTERNS = map asc [''seems like'', ''clarify'', ''incomplete'', ''provide more'', ''more details'',
     ''i'' @ apos @ ''m an ai'', ''i am an ai'', ''deepseek'', ''language model'']
   @ [[35821, 35328, 27169, 22411]]
   @ map asc [''how can i help'', ''what would you like'', ''feel free to'',
     ''i'' @ apos @ ''d be happy to help'', ''could you clarify'', ''your message'',
     ''your question'', ''i'' @ apos @ ''m here to help'', ''qwen'']"

definition SELF_INTRO_KEYWORDS :: "codes list" where
  "SELF_INTRO_KEYWORDS = [asc ''deepseek'', [35821, 35328, 27169, 22411], [26234, 33021, 21161, 25163], asc ''qwen'', asc ''alibaba'']"

text \<open>
  The alternatives of \<open>_MATH_SYMBOL_RE\<close> that start with a backslash are covered by the backslash of
  the first one.
\<close>

definition math_symbol :: "unicode \<Rightarrow> codes \<Rightarrow> bool" where
  "math_symbol u s \<longleftrightarrow> list_ex (\<lambda>c. c \<in> set (asc (''+-=^_{}$'' @ [CHR 92])) \<or> u_digit u c) s"

text \<open>\<open>\b word \b\<close>: an occurrence with no word character next to it.\<close>

fun has_word :: "unicode \<Rightarrow> codes \<Rightarrow> bool \<Rightarrow> codes \<Rightarrow> bool" where
  "has_word u w before [] = False"
| "has_word u w before (c # cs) =
     (\<not> before \<and> prefix w (c # cs) \<and> (case drop (length w) (c # cs) of [] \<Rightarrow> True | d # _ \<Rightarrow> \<not> u_word u d)
      \<or> has_word u w (u_word u c) cs)"

definition code_symbol :: "unicode \<Rightarrow> codes \<Rightarrow> bool" where
  "code_symbol u s \<longleftrightarrow> list_ex (\<lambda>c. c \<in> set (asc ''(){}[]:;'')) s
     \<or> list_ex (\<lambda>op. contains s (asc op)) [''=='', ''!='', ''<='', ''>='', ''->'', ''=>'']
     \<or> list_ex (\<lambda>w. has_word u (asc w) False s) [''range'', ''len'', ''int'', ''str'', ''list'']"

definition is_valid_math_content :: "unicode \<Rightarrow> codes \<Rightarrow> nat \<Rightarrow> bool \<times> string" where
  "is_valid_math_content u s min_char_length =
     (if length s < min_char_length then (False, ''too_short'')
      else if list_ex (contains (u_lower u s)) META_PATTERNS then (False, ''meta_response'')
      else if list_ex (contains (u_lower u s)) SELF_INTRO_KEYWORDS then (False, ''self_intro'')
      else if \<not> ((list_ex (contains (u_lower u s)) MATH_KEYWORDS \<or> math_symbol u s) \<and> list_ex (u_digit u) s)
      then (False, ''no_math_content'')
      else (True, []))"

definition is_valid_code_content :: "unicode \<Rightarrow> codes \<Rightarrow> nat \<Rightarrow> bool \<times> string" where
  "is_valid_code_content u s min_char_length =
     (if length s < min_char_length then (False, ''too_short'')
      else if list_ex (contains (u_lower u s)) META_PATTERNS then (False, ''meta_response'')
      else if list_ex (contains (u_lower u s)) SELF_INTRO_KEYWORDS then (False, ''self_intro'')
      else if \<not> (list_ex (contains (u_lower u s)) CODE_KEYWORDS \<or> code_symbol u s) then (False, ''no_code_content'')
      else (True, []))"

definition get_content_checker :: "unicode \<Rightarrow> codes \<Rightarrow> codes \<Rightarrow> nat \<Rightarrow> bool \<times> string" where
  "get_content_checker u task = (if u_lower u task = asc ''code'' then is_valid_code_content u else is_valid_math_content u)"

record filter_result =
  fr_total :: nat
  fr_valid :: nat
  fr_rejected :: nat
  fr_reasons :: "(string \<times> nat) list"
  fr_indices :: "nat list"

definition valid_ratio :: "filter_result \<Rightarrow> real" where
  "valid_ratio r = of_nat (fr_valid r) / of_nat (max (fr_total r) 1)"

definition reject :: "string \<Rightarrow> (string \<times> nat) list \<Rightarrow> (string \<times> nat) list" where
  "reject reason reasons = AList.update reason (dict_get reasons reason 0 + 1) reasons"

definition filter_step ::
  "unicode \<Rightarrow> (codes \<Rightarrow> nat \<Rightarrow> bool \<times> string) \<Rightarrow> nat \<Rightarrow> nat \<times> codes option
   \<Rightarrow> nat list \<times> (string \<times> nat) list \<Rightarrow> nat list \<times> (string \<times> nat) list" where
  "filter_step u checker min_char_length it acc = (case (it, acc) of ((i, t), (valid, reasons)) \<Rightarrow>
     (let stripped = strip u (case t of None \<Rightarrow> [] | Some x \<Rightarrow> x) in
      if stripped = [] then (valid, reject ''empty_response'' reasons)
      else (case checker stripped min_char_length of (is_valid, reason) \<Rightarrow>
        if is_valid then (valid @ [i], reasons) else (valid, reject reason reasons))))"

definition filter_valid_texts :: "unicode \<Rightarrow> codes option list \<Rightarrow> nat \<Rightarrow> codes \<Rightarrow> filter_result" where
  "filter_valid_texts u texts min_char_length task =
     (case fold (filter_step u (get_content_checker u task) min_char_length) (enumerate 0 texts) ([], []) of (valid, reasons) \<Rightarrow>
      \<lparr>fr_total = length texts, fr_valid = length valid, fr_rejected = length texts - length valid,
       fr_reasons = reasons, fr_indices = valid\<rparr>)"

section \<open>Oversampling\<close>

function fill_cycling :: "'a list \<Rightarrow> nat \<Rightarrow> 'a list \<Rightarrow> 'a list" where
  "fill_cycling valid target filled =
     (if length filled < target then fill_cycling valid target (filled @ [valid ! (length filled mod length valid)]) else filled)"
  by auto
termination by (relation "measure (\<lambda>(_, target, filled). target - length filled)") auto

declare fill_cycling.simps [simp del]

definition truncate_after_oversample :: "'a list \<Rightarrow> int \<Rightarrow> 'a list" where
  "truncate_after_oversample valid_indices target =
     (if target \<le> 0 \<or> valid_indices = [] then []
      else if length valid_indices \<ge> nat target then take (nat target) valid_indices
      else fill_cycling valid_indices (nat target) valid_indices)"

definition oversampled_batch_size :: "int \<Rightarrow> real \<Rightarrow> int" where
  "oversampled_batch_size target ratio = (if ratio \<le> 1 then target else \<lceil>of_int target * ratio\<rceil>)"

definition drop_trailing :: "int \<Rightarrow> int list \<Rightarrow> int list" where
  "drop_trailing eos ids = rev (dropWhile (\<lambda>x. x = eos) (rev ids))"

definition decode_responses :: "unicode \<Rightarrow> tokenizer \<Rightarrow> int list list \<Rightarrow> nat list list \<Rightarrow> codes list" where
  "decode_responses u tk responses response_mask =
     map (\<lambda>(r, m). let ids = drop_trailing (tk_eos_id tk) (take (sum_list m) r) in
                   if ids = [] then [] else strip u (tk_decode tk ids)) (zip responses response_mask)"

section \<open>Recovering the chat markers\<close>

lemma strip_bos_append [simp]: "strip_bos bos (bos @ s) = s"
  by (simp add: strip_bos_def)

lemma strip_end_append [simp]: "strip_end e (s @ e) = s"
  by (simp add: strip_end_def suffix_def)

lemma strip_bos_restore: "(if prefix bos s then bos else []) @ strip_bos bos s = s"
  by (auto simp: strip_bos_def prefix_def)

lemma strip_end_restore: "strip_end e s @ e = s \<longleftrightarrow> suffix e s"
  by (auto simp: strip_end_def suffix_def)

text \<open>
  A chat template that copies the texts of a user message, and of a system and a user message, verbatim into its markup; the
  markup may be anything, in particular hold a default system prompt.
\<close>

definition copies_texts :: "tokenizer \<Rightarrow> codes \<Rightarrow> codes \<Rightarrow> codes \<Rightarrow> codes \<Rightarrow> codes \<Rightarrow> bool" where
  "copies_texts tk pre post a b c \<longleftrightarrow> tk_has_template tk
     \<and> (\<forall>q. tk_apply tk [(''user'', q)] True = Inr (pre @ q @ post))
     \<and> (\<forall>s q. tk_apply tk [(''system'', s), (''user'', q)] True = Inr (a @ s @ b @ q @ c))"

text \<open>The sentinels do not occur before their own position.\<close>

definition sentinels_fresh :: "codes \<Rightarrow> codes \<Rightarrow> codes \<Rightarrow> codes \<Rightarrow> codes \<Rightarrow> bool" where
  "sentinels_fresh pre post a b c \<longleftrightarrow>
     str_find USER_SENTINEL (pre @ USER_SENTINEL @ post) = Some (length pre)
     \<and> str_find SYSTEM_SENTINEL (a @ SYSTEM_SENTINEL @ b @ USER_SENTINEL @ c) = Some (length a)
     \<and> str_find USER_SENTINEL (a @ SYSTEM_SENTINEL @ b @ USER_SENTINEL @ c) = Some (length a + length SYSTEM_SENTINEL + length b)"

lemma extract_markers:
  assumes "copies_texts tk pre post a b c" "sentinels_fresh pre post a b c"
  defines "bos \<equiv> (case tk_bos tk of None \<Rightarrow> [] | Some x \<Rightarrow> x)"
  shows "ct_bos (extract_chat_tokens tk) = bos" "ct_user (extract_chat_tokens tk) = strip_bos bos pre" "ct_assistant (extract_chat_tokens tk) = post"
    "ct_system_start (extract_chat_tokens tk) = strip_bos bos a"
    "ct_system_end (extract_chat_tokens tk) = strip_end (ct_user (extract_chat_tokens tk)) b"
proof -
  have u: "user_markers tk bos = Inr (strip_bos bos pre, post)"
    using assms by (simp add: user_markers_def copies_texts_def sentinels_fresh_def str_index_def)
  have "system_markers tk bos t = Inr (strip_bos bos a, strip_end t b)" for t
    using assms by (simp add: system_markers_def copies_texts_def sentinels_fresh_def str_index_def)
  with u assms(1) show "ct_bos (extract_chat_tokens tk) = bos" "ct_user (extract_chat_tokens tk) = strip_bos bos pre"
    "ct_assistant (extract_chat_tokens tk) = post" "ct_system_start (extract_chat_tokens tk) = strip_bos bos a"
    "ct_system_end (extract_chat_tokens tk) = strip_end (ct_user (extract_chat_tokens tk)) b"
    by (simp_all add: extract_chat_tokens_def copies_texts_def Let_def bos_def)
qed


text \<open>A template with the default system prompt 9, and one without.\<close>

definition demo_template :: "codes \<Rightarrow> tokenizer" where
  "demo_template default_system = \<lparr>tk_bos = Some [1], tk_eos = Some [2], tk_has_template = True,
     tk_apply = (\<lambda>msgs _. case msgs of
        [(_, q)] \<Rightarrow> Inr ((1 # default_system) @ [3] @ q @ [4])
      | [(_, s), (_, q)] \<Rightarrow> Inr ([1, 5] @ s @ [6, 3] @ q @ [4])
      | _ \<Rightarrow> Inl ValueError),
     tk_encode = map int, tk_decode = map nat, tk_eos_id = 2\<rparr>"

lemma demo_copies: "copies_texts (demo_template d) ((1 # d) @ [3]) [4] [1, 5] [6, 3] [4]"
  by (simp add: copies_texts_def demo_template_def)

lemma demo_fresh: "sentinels_fresh ((1 # []) @ [3]) [4] [1, 5] [6, 3] [4]" "sentinels_fresh ((1 # [5, 9, 6]) @ [3]) [4] [1, 5] [6, 3] [4]"
  by code_simp+


section \<open>Filtering and oversampling\<close>

definition text_valid :: "unicode \<Rightarrow> codes \<Rightarrow> nat \<Rightarrow> codes option \<Rightarrow> bool" where
  "text_valid u task n t \<longleftrightarrow> (let s = strip u (case t of None \<Rightarrow> [] | Some x \<Rightarrow> x) in s \<noteq> [] \<and> fst (get_content_checker u task s n))"

lemma sum_reject: "sum_list (map snd (reject r rs)) = sum_list (map snd rs) + 1"
proof (induction rs)
  case (Cons a rs)
  then show ?case by (cases a) (auto simp: reject_def dict_get_def)
qed (simp add: reject_def dict_get_def)

lemma filter_fold:
  assumes "fold (filter_step u (get_content_checker u task) n) (enumerate k texts) (valid, reasons) = (valid', reasons')"
  shows "valid' = valid @ map fst (filter (\<lambda>(_, t). text_valid u task n t) (enumerate k texts))
    \<and> length valid' + sum_list (map snd reasons') = length valid + sum_list (map snd reasons) + length texts"
  using assms
proof (induction texts arbitrary: k valid reasons)
  case (Cons t ts)
  let ?s = "filter_step u (get_content_checker u task) n (k, t) (valid, reasons)"
  obtain v r where s: "?s = (v, r)" by fastforce
  have vr: "v = (if text_valid u task n t then valid @ [k] else valid)
      \<and> length v + sum_list (map snd r) = length valid + sum_list (map snd reasons) + 1"
    using s by (auto simp: filter_step_def text_valid_def Let_def sum_reject split: if_splits prod.splits)
  from Cons.prems s have "fold (filter_step u (get_content_checker u task) n) (enumerate (Suc k) ts) (v, r) = (valid', reasons')" by simp
  from Cons.IH [OF this] vr show ?case by auto
qed simp

lemma fill_cycling_nth:
  assumes "valid \<noteq> []" "length valid \<le> target" "length filled \<le> target" "\<forall>k<length filled. filled ! k = valid ! (k mod length valid)"
  shows "length (fill_cycling valid target filled) = target
    \<and> (\<forall>k<target. fill_cycling valid target filled ! k = valid ! (k mod length valid))"
  using assms
proof (induction valid target filled rule: fill_cycling.induct)
  case (1 valid target filled)
  show ?case
  proof (cases "length filled < target")
    case True
    let ?f = "filled @ [valid ! (length filled mod length valid)]"
    have "\<forall>k<length ?f. ?f ! k = valid ! (k mod length valid)"
      using "1.prems"(4) by (auto simp: nth_append less_Suc_eq)
    then have "length (fill_cycling valid target ?f) = target \<and> (\<forall>k<target. fill_cycling valid target ?f ! k = valid ! (k mod length valid))"
      using "1.IH" [OF True "1.prems"(1,2)] True by simp
    then show ?thesis using True by (subst (1 2) fill_cycling.simps) simp
  next
    case False
    then show ?thesis using "1.prems" by (subst (1 2) fill_cycling.simps) simp
  qed
qed

lemma truncate_cycles:
  assumes "valid \<noteq> []" "0 < target"
  shows "length (truncate_after_oversample valid target) = nat target"
    "\<forall>k<nat target. truncate_after_oversample valid target ! k = valid ! (k mod length valid)"
proof -
  have "length (truncate_after_oversample valid target) = nat target
      \<and> (\<forall>k<nat target. truncate_after_oversample valid target ! k = valid ! (k mod length valid))"
  proof (cases "length valid \<ge> nat target")
    case False
    then show ?thesis using assms fill_cycling_nth [of valid "nat target" valid] by (simp add: truncate_after_oversample_def)
  qed (use assms in \<open>auto simp: truncate_after_oversample_def\<close>)
  then show "length (truncate_after_oversample valid target) = nat target"
    "\<forall>k<nat target. truncate_after_oversample valid target ! k = valid ! (k mod length valid)" by simp_all
qed

lemma enumerate_filter: "map fst (filter (\<lambda>(_, t). P t) (enumerate 0 ts)) = filter (\<lambda>i. P (ts ! i)) [0..<length ts]"
proof -
  have "enumerate 0 ts = map (\<lambda>i. (i, ts ! i)) [0..<length ts]" by (intro nth_equalityI) (simp_all add: nth_enumerate_eq)
  then show ?thesis by (simp add: filter_map comp_def)
qed

text \<open>
  C13. Filtering and oversampling of self-generated queries: the kept indices are exactly those of the
  non-blank texts that pass the task's checker, in order; every other text is counted under one
  rejection reason; and whenever something survived, the selection for the batch has exactly the
  target size and cycles through the survivors, so no rejected text is ever trained on.
\<close>

theorem filter_and_truncate:
  assumes "0 < target" "sel = truncate_after_oversample (fr_indices (filter_valid_texts u texts n task)) target"
  shows "fr_indices (filter_valid_texts u texts n task) = filter (\<lambda>i. text_valid u task n (texts ! i)) [0..<length texts]
    \<and> fr_valid (filter_valid_texts u texts n task) + sum_list (map snd (fr_reasons (filter_valid_texts u texts n task))) = length texts
    \<and> fr_rejected (filter_valid_texts u texts n task) = sum_list (map snd (fr_reasons (filter_valid_texts u texts n task)))
    \<and> (if fr_indices (filter_valid_texts u texts n task) = [] then sel = []
       else length sel = nat target \<and> (\<forall>i\<in>set sel. i < length texts \<and> text_valid u task n (texts ! i))
         \<and> (\<forall>k<nat target. sel ! k = fr_indices (filter_valid_texts u texts n task)
                                       ! (k mod length (fr_indices (filter_valid_texts u texts n task)))))"
proof -
  let ?r = "filter_valid_texts u texts n task"
  obtain v rs where f: "fold (filter_step u (get_content_checker u task) n) (enumerate 0 texts) ([], []) = (v, rs)" by fastforce
  from filter_fold [OF f] have v: "v = filter (\<lambda>i. text_valid u task n (texts ! i)) [0..<length texts]"
    by (simp add: enumerate_filter)
  from filter_fold [OF f] have c: "length v + sum_list (map snd rs) = length texts" by (elim conjE) simp
  have r: "fr_indices ?r = v" "fr_valid ?r = length v" "fr_rejected ?r = length texts - length v" "fr_reasons ?r = rs"
    by (simp_all add: filter_valid_texts_def f)
  have sel: "length sel = nat target \<and> (\<forall>i\<in>set sel. i < length texts \<and> text_valid u task n (texts ! i))
      \<and> (\<forall>k<nat target. sel ! k = v ! (k mod length v))" if "v \<noteq> []"
  proof -
    have s: "length sel = nat target" "\<forall>k<nat target. sel ! k = v ! (k mod length v)"
      using truncate_cycles [OF that assms(1)] unfolding assms(2) r(1) by blast+
    have "set sel \<subseteq> set v"
    proof
      fix i assume "i \<in> set sel"
      then obtain k where "k < nat target" "i = sel ! k" using s(1) by (auto simp: in_set_conv_nth)
      then show "i \<in> set v" using s(2) that by simp
    qed
    then have "\<forall>i\<in>set sel. i < length texts \<and> text_valid u task n (texts ! i)" unfolding v by auto
    with s show ?thesis by blast
  qed
  have "sel = []" if "v = []" using that assms(2) by (simp add: r(1) truncate_after_oversample_def)
  with sel have "if v = [] then sel = [] else length sel = nat target \<and> (\<forall>i\<in>set sel. i < length texts \<and> text_valid u task n (texts ! i))
      \<and> (\<forall>k<nat target. sel ! k = v ! (k mod length v))" by (cases "v = []") simp_all
  moreover have "length texts - length v = sum_list (map snd rs)" using c by simp
  ultimately show ?thesis unfolding r by (intro conjI v c)
qed

definition demo_unicode :: unicode where
  "demo_unicode = \<lparr>u_lower = id, u_space = (\<lambda>c. c = 32), u_digit = (\<lambda>c. 48 \<le> c \<and> c \<le> 57), u_word = (\<lambda>c. 97 \<le> c \<and> c \<le> 122)\<rparr>"

lemma contains_length: "contains s sub \<Longrightarrow> length sub \<le> length s"
proof -
  have "str_find sub s = Some i \<Longrightarrow> length sub \<le> length s" for i
    by (induction sub s arbitrary: i rule: str_find.induct) (auto split: if_splits dest: prefix_length_le)
  then show "contains s sub \<Longrightarrow> length sub \<le> length s" by (auto simp: contains_def)
qed

lemma demo_valid: "text_valid demo_unicode [] 1 (Some [32, 49, 43])" "\<not> text_valid demo_unicode [] 1 None"
proof -
  have strip: "strip demo_unicode [32, 49, 43] = [49, 43]" by (simp add: strip_def demo_unicode_def)
  have no: "\<not> list_ex (contains [49, 43]) ps" if "list_all (\<lambda>p. 2 < length p) ps" for ps
    using that contains_length [of "[49, 43]"] by (fastforce simp: list_ex_iff list_all_iff)
  have "\<not> list_ex (contains [49, 43]) META_PATTERNS" "\<not> list_ex (contains [49, 43]) SELF_INTRO_KEYWORDS"
    by (rule no, simp add: META_PATTERNS_def SELF_INTRO_KEYWORDS_def asc_def apos_def)+
  then show "text_valid demo_unicode [] 1 (Some [32, 49, 43])"
    unfolding text_valid_def option.case strip Let_def
    by (simp add: get_content_checker_def is_valid_math_content_def math_symbol_def demo_unicode_def asc_def)
  show "\<not> text_valid demo_unicode [] 1 None" by (simp add: text_valid_def strip_def)
qed

theorem filter_and_truncate_witness:
  "fr_indices (filter_valid_texts demo_unicode [None, Some [32, 49, 43]] 1 []) = [1]
    \<and> length (truncate_after_oversample (fr_indices (filter_valid_texts demo_unicode [None, Some [32, 49, 43]] 1 [])) 4) = 4"
proof -
  note F = filter_and_truncate [OF _ refl, of 4 demo_unicode "[None, Some [32, 49, 43]]" 1 "[]"]
  have i: "fr_indices (filter_valid_texts demo_unicode [None, Some [32, 49, 43]] 1 []) = [1]"
    using F demo_valid by (simp add: upt_rec)
  show ?thesis using F unfolding i by simp
qed

end
