(* ===== verification/Data_Proto.thy ===== *)
theory Data_Proto
  imports Prelude
begin

text \<open>
  \<open>verl/protocol.py\<close>: the \<open>DataProto\<close> exchanged between the controller and the workers, a batch of
  tensor columns, a dict of object columns and a meta dict.  A column is the list of its rows, a
  \<open>TensorDict\<close> its columns in insertion order with the batch size.  In-place methods return the
  changed object.  The process-wide padding switch (\<open>DataProtoConfig.auto_padding\<close>) is an argument.
  Meta values are compared structurally, so nested dicts count as equal in insertion order only.
\<close>

section \<open>Data\<close>

datatype meta = MNone | MBool bool | MInt int | MStr string | MList "meta list" | MDict "(string \<times> meta) list"

record 'a tensor_dict =
  td_cols :: "(string \<times> 'a list) list"
  td_bs :: nat

record 'a data_proto =
  dp_batch :: "'a tensor_dict option"
  dp_non_tensor :: "(string \<times> 'a list) list"
  dp_meta :: "(string \<times> meta) list"

datatype 'a raw_column = RTensor "'a list" | RArray "'a list" | ROther

datatype idxs = Idx "int list" | Mask "bool list"

definition auto_padding_key :: string where
  "auto_padding_key = ''_verl_auto_padding''"

section \<open>Construction\<close>

definition td_make :: "(string \<times> 'a list) list \<Rightarrow> nat \<Rightarrow> 'a tensor_dict result" where
  "td_make cols bs = (if list_all (\<lambda>(_, v). length v = bs) cols then Inr \<lparr>td_cols = cols, td_bs = bs\<rparr>
                      else Inl RuntimeError)"

definition check_consistency :: "'a data_proto \<Rightarrow> unit result" where
  "check_consistency d = (case dp_batch d of
       None \<Rightarrow> Inr ()
     | Some td \<Rightarrow> assert_r (list_all (\<lambda>(_, v). length v = td_bs td) (dp_non_tensor d)) AssertionError)"

definition mk_proto ::
  "'a tensor_dict option \<Rightarrow> (string \<times> 'a list) list \<Rightarrow> (string \<times> meta) list \<Rightarrow> 'a data_proto result" where
  "mk_proto b nt mi = (let d = \<lparr>dp_batch = b, dp_non_tensor = nt, dp_meta = mi\<rparr> in
     rbind (check_consistency d) (\<lambda>_. Inr d))"

definition proto_len :: "'a data_proto \<Rightarrow> nat" where
  "proto_len d = (case dp_batch d of
       Some td \<Rightarrow> td_bs td
     | None \<Rightarrow> (case dp_non_tensor d of (_, v) # _ \<Rightarrow> length v | [] \<Rightarrow> 0))"

definition from_dict ::
  "(string \<times> 'a list) list \<Rightarrow> (string \<times> 'a list) list \<Rightarrow> (string \<times> meta) list \<Rightarrow> bool \<Rightarrow> 'a data_proto result" where
  "from_dict tensors non_tensors mi auto_padding =
     (let mi' = (if auto_padding then AList.update auto_padding_key (MBool True) mi else mi) in
      case tensors of
        [] \<Rightarrow> mk_proto None non_tensors mi'
      | (_, v) # rest \<Rightarrow>
          rbind (assert_r (list_all (\<lambda>(_, w). length v = length w) rest) AssertionError) (\<lambda>_.
          rbind (td_make tensors (length v)) (\<lambda>td. mk_proto (Some td) non_tensors mi')))"

definition from_single_dict ::
  "(string \<times> 'a raw_column) list \<Rightarrow> (string \<times> meta) list \<Rightarrow> bool \<Rightarrow> 'a data_proto result" where
  "from_single_dict data mi auto_padding =
     rbind (fold_r (\<lambda>(key, val) (tensors, non_tensors).
              case val of RTensor v \<Rightarrow> Inr (AList.update key v tensors, non_tensors)
              | RArray v \<Rightarrow> Inr (tensors, AList.update key v non_tensors)
              | ROther \<Rightarrow> Inl ValueError) data ([], [])) (\<lambda>(tensors, non_tensors).
     from_dict tensors non_tensors mi auto_padding)"

section \<open>Selecting rows and columns\<close>

definition select ::
  "'a data_proto \<Rightarrow> string list option \<Rightarrow> string list option \<Rightarrow> string list option \<Rightarrow> 'a data_proto result" where
  "select d batch_keys non_tensor_keys meta_keys =
     rbind (case batch_keys of
              None \<Rightarrow> Inr (dp_batch d)
            | Some ks \<Rightarrow> (case dp_batch d of
                None \<Rightarrow> Inl AttributeError
              | Some td \<Rightarrow> if list_all (\<lambda>k. k \<in> fst ` set (td_cols td)) ks
                           then Inr (Some (td\<lparr>td_cols := filter (\<lambda>(k, _). k \<in> set ks) (td_cols td)\<rparr>))
                           else Inl KeyError)) (\<lambda>sub_batch.
     mk_proto sub_batch
       (case non_tensor_keys of None \<Rightarrow> dp_non_tensor d
        | Some ks \<Rightarrow> filter (\<lambda>(k, _). k \<in> set ks) (dp_non_tensor d))
       (case meta_keys of None \<Rightarrow> dp_meta d | Some ks \<Rightarrow> filter (\<lambda>(k, _). k \<in> set ks) (dp_meta d)))"

definition py_index :: "nat \<Rightarrow> int \<Rightarrow> nat result" where
  "py_index n i = (if 0 \<le> i \<and> i < int n then Inr (nat i)
                   else if - int n \<le> i \<and> i < 0 then Inr (nat (int n + i)) else Inl IndexError)"

definition index_column :: "idxs \<Rightarrow> 'a list \<Rightarrow> 'a list result" where
  "index_column ix xs = (case ix of
       Idx is \<Rightarrow> rbind (map_r (py_index (length xs)) is) (gather xs)
     | Mask ms \<Rightarrow> if length ms = length xs then Inr (map snd (filter fst (zip ms xs))) else Inl IndexError)"

definition index_count :: "idxs \<Rightarrow> nat" where
  "index_count ix = (case ix of Idx is \<Rightarrow> length is | Mask ms \<Rightarrow> length (filter id ms))"

definition map_cols_r :: "('a list \<Rightarrow> 'a list result) \<Rightarrow> (string \<times> 'a list) list \<Rightarrow> (string \<times> 'a list) list result" where
  "map_cols_r f cols = map_r (\<lambda>(k, v). rbind (f v) (\<lambda>w. Inr (k, w))) cols"

definition select_idxs :: "'a data_proto \<Rightarrow> idxs \<Rightarrow> 'a data_proto result" where
  "select_idxs d ix =
     rbind (case dp_batch d of
              None \<Rightarrow> Inr None
            | Some td \<Rightarrow> rbind (map_cols_r (index_column ix) (td_cols td)) (\<lambda>cols.
                         rbind (td_make cols (index_count ix)) (\<lambda>td'. Inr (Some td')))) (\<lambda>b.
     rbind (map_cols_r (index_column ix) (dp_non_tensor d)) (\<lambda>nt. mk_proto b nt (dp_meta d)))"

definition slice_bound :: "nat \<Rightarrow> int option \<Rightarrow> nat \<Rightarrow> nat" where
  "slice_bound n b dflt = (case b of None \<Rightarrow> dflt
     | Some i \<Rightarrow> if i < 0 then nat (max 0 (int n + i)) else min n (nat i))"

definition slice_list :: "int option \<Rightarrow> int option \<Rightarrow> nat option \<Rightarrow> 'a list \<Rightarrow> 'a list" where
  "slice_list start end step xs =
     (let n = length xs; sel = py_slice (slice_bound n start 0) (slice_bound n end n) xs in
      case step of None \<Rightarrow> sel | Some s \<Rightarrow> map hd (chunks_of s sel))"

definition map_cols :: "('a list \<Rightarrow> 'b list) \<Rightarrow> (string \<times> 'a list) list \<Rightarrow> (string \<times> 'b list) list" where
  "map_cols f cols = map (\<lambda>(k, v). (k, f v)) cols"

definition slice :: "'a data_proto \<Rightarrow> int option \<Rightarrow> int option \<Rightarrow> nat option \<Rightarrow> 'a data_proto result" where
  "slice d start end step =
     (if step = Some 0 then Inl ValueError else
      mk_proto (map_option (\<lambda>td. \<lparr>td_cols = map_cols (slice_list start end step) (td_cols td),
                                  td_bs = length (slice_list start end step [0..<td_bs td])\<rparr>) (dp_batch d))
        (map_cols (slice_list start end step) (dp_non_tensor d)) (dp_meta d))"

definition pop_keys :: "string list \<Rightarrow> (string \<times> 'v) list \<Rightarrow> ((string \<times> 'v) list \<times> (string \<times> 'v) list) result" where
  "pop_keys ks cols =
     fold_r (\<lambda>k (popped, cols). case map_of cols k of
               None \<Rightarrow> Inl AssertionError
             | Some v \<Rightarrow> Inr (AList.update k v popped, AList.delete k cols)) ks ([], cols)"

definition pop ::
  "'a data_proto \<Rightarrow> string list \<Rightarrow> string list \<Rightarrow> string list \<Rightarrow> ('a data_proto \<times> 'a data_proto) result" where
  "pop d batch_keys non_tensor_keys meta_keys =
     rbind (case dp_batch d of
              None \<Rightarrow> if batch_keys = [] then Inr ([], None) else Inl AttributeError
            | Some td \<Rightarrow> rbind (pop_keys batch_keys (td_cols td)) (\<lambda>(p, r). Inr (p, Some (td\<lparr>td_cols := r\<rparr>)))) (\<lambda>(tensors, b).
     rbind (pop_keys non_tensor_keys (dp_non_tensor d)) (\<lambda>(non_tensors, nt).
     rbind (pop_keys meta_keys (dp_meta d)) (\<lambda>(mi, rest_meta).
     rbind (from_dict tensors non_tensors mi False) (\<lambda>popped.
     Inr (popped, \<lparr>dp_batch = b, dp_non_tensor = nt, dp_meta = rest_meta\<rparr>)))))"

section \<open>Union\<close>

definition union_tensor_dict :: "'a tensor_dict option \<Rightarrow> 'a tensor_dict option \<Rightarrow> 'a tensor_dict option result" where
  "union_tensor_dict t1 t2 = (case (t1, t2) of
       (Some a, Some b) \<Rightarrow>
         rbind (assert_r (td_bs a = td_bs b) AssertionError) (\<lambda>_.
         rbind (fold_r (\<lambda>(k, v) cols. case map_of cols k of
                  None \<Rightarrow> Inr (AList.update k v cols)
                | Some w \<Rightarrow> if w = v then Inr cols else Inl AssertionError) (td_cols b) (td_cols a)) (\<lambda>cols.
         Inr (Some (a\<lparr>td_cols := cols\<rparr>))))
     | _ \<Rightarrow> Inl AttributeError)"

definition union_dict :: "(string \<times> 'v) list \<Rightarrow> (string \<times> 'v) list \<Rightarrow> (string \<times> 'v) list result" where
  "union_dict d1 d2 = fold_r (\<lambda>(k, v) d. case map_of d k of
       None \<Rightarrow> Inr (AList.update k v d)
     | Some w \<Rightarrow> if w = v then Inr (AList.update k v d) else Inl AssertionError) d2 d1"

definition union_proto :: "'a data_proto \<Rightarrow> 'a data_proto \<Rightarrow> 'a data_proto result" where
  "union_proto self other =
     rbind (union_tensor_dict (dp_batch self) (dp_batch other)) (\<lambda>b.
     rbind (union_dict (dp_non_tensor self) (dp_non_tensor other)) (\<lambda>nt.
     rbind (union_dict (dp_meta self) (dp_meta other)) (\<lambda>mi.
     Inr \<lparr>dp_batch = b, dp_non_tensor = nt, dp_meta = mi\<rparr>)))"

section \<open>Chunks and concatenation\<close>

definition is_padding_enabled :: "bool \<Rightarrow> 'a data_proto \<Rightarrow> bool" where
  "is_padding_enabled auto_padding d =
     (map_of (dp_meta d) auto_padding_key = Some (MBool True) \<or> auto_padding)"

text \<open>
  \<open>torch.chunk\<close> cuts pieces of \<open>ceil(n / chunks)\<close> rows and may return fewer than asked;
  \<open>np.array_split\<close> with a number gives the first \<open>n mod chunks\<close> pieces one row more.
\<close>

definition torch_chunk :: "nat \<Rightarrow> 'a list \<Rightarrow> 'a list list" where
  "torch_chunk chunks xs = chunks_of ((length xs + chunks - 1) div chunks) xs"

fun split_sizes :: "nat list \<Rightarrow> 'a list \<Rightarrow> 'a list list" where
  "split_sizes [] xs = []"
| "split_sizes (n # ns) xs = take n xs # split_sizes ns (drop n xs)"

definition array_split :: "nat \<Rightarrow> 'a list \<Rightarrow> 'a list list" where
  "array_split chunks xs =
     split_sizes (map (\<lambda>i. length xs div chunks + (if i < length xs mod chunks then 1 else 0)) [0..<chunks]) xs"

text \<open>The two list computations of \<open>chunk\<close>, for the batch and for the object columns.\<close>

definition chunk_batches :: "'a data_proto \<Rightarrow> nat \<Rightarrow> 'a tensor_dict option list" where
  "chunk_batches d k = (case dp_batch d of
      Some td \<Rightarrow> map (\<lambda>rows. Some \<lparr>td_cols = map_cols (\<lambda>v. map ((!) v) rows) (td_cols td), td_bs = length rows\<rparr>)
                   (torch_chunk k [0..<td_bs td])
    | None \<Rightarrow> replicate k None)"

definition chunk_arrays :: "'a data_proto \<Rightarrow> nat \<Rightarrow> 'a list \<Rightarrow> 'a list list" where
  "chunk_arrays d k v = (case dp_batch d of
      Some td \<Rightarrow> split_sizes (map length (torch_chunk k [0..<td_bs td])) v
    | None \<Rightarrow> array_split k v)"

definition chunk :: "bool \<Rightarrow> 'a data_proto \<Rightarrow> nat \<Rightarrow> 'a data_proto list result" where
  "chunk auto_padding d chunks =
     (if chunks = 0 then Inl ZeroDivisionError else
      rbind (assert_r (is_padding_enabled auto_padding d \<or> proto_len d mod chunks = 0) AssertionError) (\<lambda>_.
      rbind (assert_r (list_all (\<lambda>(_, v). length (chunk_arrays d chunks v) = chunks) (dp_non_tensor d)) AssertionError) (\<lambda>_.
      map_r (\<lambda>i. rbind (py_nth (chunk_batches d chunks) i) (\<lambda>b.
                 mk_proto b (map_cols (\<lambda>v. chunk_arrays d chunks v ! i) (dp_non_tensor d)) (dp_meta d))) [0..<chunks])))"

definition split :: "'a data_proto \<Rightarrow> nat \<Rightarrow> 'a data_proto list result" where
  "split d split_size =
     (if split_size = 0 then Inl ValueError else
      map_r (\<lambda>i. slice d (Some (int (i * split_size))) (Some (int (i * split_size + split_size))) None)
        [0..<(proto_len d + split_size - 1) div split_size])"

definition list_of_dict_to_dict_of_list :: "(string \<times> 'v) list list \<Rightarrow> (string \<times> 'v list) list result" where
  "list_of_dict_to_dict_of_list ds = (case ds of
       [] \<Rightarrow> Inr []
     | d # _ \<Rightarrow>
         fold_r (fold_r (\<lambda>(k, item) out. case map_of out k of
                   None \<Rightarrow> Inl AssertionError
                 | Some xs \<Rightarrow> Inr (AList.update k (xs @ [item]) out))) ds (map (\<lambda>(k, _). (k, [])) d))"

definition metric_dict :: "meta \<Rightarrow> (string \<times> meta) list result" where
  "metric_dict m = (case m of MDict d \<Rightarrow> Inr d | _ \<Rightarrow> Inl AttributeError)"

record meta_merge =
  mm_merged :: "(string \<times> meta) list"
  mm_metrics :: "meta list"
  mm_reward_keys :: "meta list"

definition merge_meta_entry :: "string \<times> meta \<Rightarrow> meta_merge \<Rightarrow> meta_merge result" where
  "merge_meta_entry kv st = (case kv of (k, v) \<Rightarrow>
     if k = ''metrics'' then
       Inr (case v of MNone \<Rightarrow> st
            | MList l \<Rightarrow> st\<lparr>mm_metrics := mm_metrics st @ l\<rparr>
            | _ \<Rightarrow> st\<lparr>mm_metrics := mm_metrics st @ [v]\<rparr>)
     else if k = ''reward_extra_keys'' then Inr (st\<lparr>mm_reward_keys := mm_reward_keys st @ [v]\<rparr>)
     else (case map_of (mm_merged st) k of
             None \<Rightarrow> Inr (st\<lparr>mm_merged := AList.update k v (mm_merged st)\<rparr>)
           | Some w \<Rightarrow> if w = v then Inr st else Inl AssertionError))"

definition meta_keys :: "meta \<Rightarrow> meta list" where
  "meta_keys m = (case m of MList l \<Rightarrow> l | _ \<Rightarrow> [])"

definition merge_meta :: "(string \<times> meta) list list \<Rightarrow> string list \<Rightarrow> (string \<times> meta) list result" where
  "merge_meta metas columns =
     rbind (fold_r merge_meta_entry (concat metas) \<lparr>mm_merged = [], mm_metrics = [], mm_reward_keys = []\<rparr>) (\<lambda>st.
     let merged = (case mm_reward_keys st of
           [] \<Rightarrow> mm_merged st
         | r # _ \<Rightarrow> AList.update ''reward_extra_keys''
             (MList (filter (\<lambda>k. list_all (\<lambda>l. k \<in> set (meta_keys l)) (mm_reward_keys st) \<and> k \<in> MStr ` set columns)
                       (meta_keys r))) (mm_merged st)) in
     if mm_metrics st = [] then Inr merged
     else rbind (map_r metric_dict (mm_metrics st)) (\<lambda>dicts.
          rbind (list_of_dict_to_dict_of_list dicts) (\<lambda>ms.
          Inr (AList.update ''metrics'' (MDict (map (\<lambda>(k, xs). (k, MList xs)) ms)) merged))))"

definition td_cat :: "'a tensor_dict list \<Rightarrow> 'a tensor_dict result" where
  "td_cat tds =
     (if list_all (\<lambda>td. fst ` set (td_cols td) = fst ` set (td_cols (hd tds))) tds
      then Inr \<lparr>td_cols = map (\<lambda>(k, _). (k, concat (map (\<lambda>td. dict_get (td_cols td) k []) tds))) (td_cols (hd tds)),
                td_bs = sum_list (map td_bs tds)\<rparr>
      else Inl RuntimeError)"

definition concat_proto :: "'a data_proto list \<Rightarrow> 'a data_proto result" where
  "concat_proto data = (case data of
       [] \<Rightarrow> Inl IndexError
     | d # _ \<Rightarrow>
         rbind (case dp_batch d of
                  None \<Rightarrow> Inr None
                | Some _ \<Rightarrow> if list_all (\<lambda>x. dp_batch x \<noteq> None) data
                            then rbind (td_cat (map (the \<circ> dp_batch) data)) (\<lambda>td. Inr (Some td))
                            else Inl TypeError) (\<lambda>new_batch.
         let shared = filter (\<lambda>k. list_all (\<lambda>x. k \<in> fst ` set (dp_non_tensor x)) data) (map fst (dp_non_tensor d));
             nt = map (\<lambda>k. (k, concat (map (\<lambda>x. dict_get (dp_non_tensor x) k []) data))) shared in
         rbind (merge_meta (map dp_meta data) shared) (\<lambda>mi. mk_proto new_batch nt mi)))"

section \<open>Repeating, reordering, padding\<close>

definition reorder :: "'a data_proto \<Rightarrow> int list \<Rightarrow> 'a data_proto result" where
  "reorder d indices = (case dp_batch d of
       None \<Rightarrow> Inl TypeError
     | Some td \<Rightarrow>
         rbind (map_cols_r (index_column (Idx indices)) (td_cols td)) (\<lambda>cols.
         rbind (map_cols_r (index_column (Idx indices)) (dp_non_tensor d)) (\<lambda>nt.
         Inr \<lparr>dp_batch = Some \<lparr>td_cols = cols, td_bs = length indices\<rparr>, dp_non_tensor = nt, dp_meta = dp_meta d\<rparr>)))"

definition repeat_rows :: "nat \<Rightarrow> bool \<Rightarrow> 'a list \<Rightarrow> 'a list" where
  "repeat_rows repeat_times interleave xs =
     (if interleave then concat (map (replicate repeat_times) xs) else concat (replicate repeat_times xs))"

definition repeat :: "'a data_proto \<Rightarrow> nat \<Rightarrow> bool \<Rightarrow> 'a data_proto result" where
  "repeat d repeat_times interleave =
     rbind (case dp_batch d of
              None \<Rightarrow> Inr None
            | Some td \<Rightarrow> rbind (td_make (map_cols (repeat_rows repeat_times interleave) (td_cols td)) (td_bs td * repeat_times))
                           (\<lambda>td'. Inr (Some td'))) (\<lambda>b.
     mk_proto b (map_cols (repeat_rows repeat_times interleave) (dp_non_tensor d)) (dp_meta d))"

definition repeat_each :: "nat list \<Rightarrow> 'a list \<Rightarrow> 'a list result" where
  "repeat_each reps xs =
     (if length reps = length xs then Inr (concat (map (\<lambda>(n, x). replicate n x) (zip reps xs)))
      else case reps of [n] \<Rightarrow> Inr (concat (map (replicate n) xs)) | _ \<Rightarrow> Inl RuntimeError)"

definition sample_level_repeat :: "'a data_proto \<Rightarrow> nat list \<Rightarrow> 'a data_proto result" where
  "sample_level_repeat d repeat_times =
     rbind (case dp_batch d of
              None \<Rightarrow> Inr None
            | Some td \<Rightarrow> rbind (map_cols_r (repeat_each repeat_times) (td_cols td)) (\<lambda>cols.
                         rbind (td_make cols (sum_list repeat_times)) (\<lambda>td'. Inr (Some td')))) (\<lambda>b.
     rbind (map_cols_r (repeat_each repeat_times) (dp_non_tensor d)) (\<lambda>nt. mk_proto b nt (dp_meta d)))"

definition padding :: "'a data_proto \<Rightarrow> nat \<Rightarrow> string \<Rightarrow> 'a data_proto result" where
  "padding d padding_size padding_candidate =
     (if padding_size = 0 then Inr d else
      rbind (select_idxs d (Idx [if padding_candidate = ''first'' then 0 else int (proto_len d) - 1])) (\<lambda>cand.
      rbind (repeat cand padding_size True) (\<lambda>part.
      rbind (concat_proto [d, part]) (\<lambda>padded.
      Inr (d\<lparr>dp_batch := dp_batch padded, dp_non_tensor := dp_non_tensor padded\<rparr>)))))"

text \<open>
  The \<open>while\<close> loop of \<open>pad_dataproto_to_divisor\<close>.  It is only entered with rows, so each round takes
  at least one of them off \<open>remaining_pad\<close>; without rows the loop would not make progress.
\<close>

function padding_protos :: "'a data_proto \<Rightarrow> nat \<Rightarrow> 'a data_proto list result" where
  "padding_protos d remaining_pad =
     (if remaining_pad = 0 \<or> proto_len d = 0 then Inr [] else
      (let take_size = min remaining_pad (proto_len d) in
       rbind (slice d None (Some (int take_size)) None) (\<lambda>p.
       rbind (padding_protos d (remaining_pad - take_size)) (\<lambda>ps. Inr (p # ps)))))"
  by pat_completeness auto
termination
  by (relation "measure snd") auto

declare padding_protos.simps [simp del]

definition pad_dataproto_to_divisor :: "'a data_proto \<Rightarrow> nat \<Rightarrow> ('a data_proto \<times> nat) result" where
  "pad_dataproto_to_divisor d size_divisor =
     (if size_divisor = 0 then Inl ZeroDivisionError
      else if proto_len d mod size_divisor \<noteq> 0 then
        (let pad_size = size_divisor - proto_len d mod size_divisor in
         rbind (padding_protos d pad_size) (\<lambda>ps.
         rbind (concat_proto (d # ps)) (\<lambda>padded. Inr (padded, pad_size))))
      else Inr (d, 0))"

definition unpad_dataproto :: "'a data_proto \<Rightarrow> nat \<Rightarrow> 'a data_proto result" where
  "unpad_dataproto d pad_size = (if pad_size \<noteq> 0 then slice d None (Some (- int pad_size)) None else Inr d)"

section \<open>Well-formed batches\<close>

definition cols_wf :: "nat \<Rightarrow> (string \<times> 'a list) list \<Rightarrow> bool" where
  "cols_wf n cols \<longleftrightarrow> distinct (map fst cols) \<and> (\<forall>(k, v)\<in>set cols. length v = n)"

definition proto_wf :: "'a data_proto \<Rightarrow> bool" where
  "proto_wf d \<longleftrightarrow> (\<forall>td. dp_batch d = Some td \<longrightarrow> cols_wf (td_bs td) (td_cols td))
     \<and> cols_wf (proto_len d) (dp_non_tensor d)"

text \<open>The batch with every column rewritten by \<open>f\<close>, of which it then has \<open>n\<close> rows.\<close>

definition rows_map :: "('a list \<Rightarrow> 'a list) \<Rightarrow> nat \<Rightarrow> 'a data_proto \<Rightarrow> 'a data_proto" where
  "rows_map f n d = \<lparr>dp_batch = map_option (\<lambda>td. \<lparr>td_cols = map_cols f (td_cols td), td_bs = n\<rparr>) (dp_batch d),
     dp_non_tensor = map_cols f (dp_non_tensor d), dp_meta = dp_meta d\<rparr>"

lemma map_cols_simps [simp]:
  "map_cols f [] = []" "map_cols f ((k, v) # cols) = (k, f v) # map_cols f cols"
  "map fst (map_cols f cols) = map fst cols"
  by (auto simp: map_cols_def)

lemma map_cols_Nil_iff [simp]: "map_cols f cols = [] \<longleftrightarrow> cols = []"
  by (simp add: map_cols_def)

lemma fst_set_map_cols [simp]: "fst ` set (map_cols f cols) = fst ` set cols"
  by (force simp: map_cols_def)

lemma map_of_map_cols: "map_of (map_cols f cols) k = map_option f (map_of cols k)"
  by (induction cols) (auto simp: map_cols_def)

lemma map_cols_id: "(\<And>v. v \<in> snd ` set cols \<Longrightarrow> f v = v) \<Longrightarrow> map_cols f cols = cols"
  by (induction cols) (auto simp: map_cols_def)

lemma map_cols_cong: "(\<And>v. v \<in> snd ` set cols \<Longrightarrow> f v = g v) \<Longrightarrow> map_cols f cols = map_cols g cols"
  by (induction cols) (auto simp: map_cols_def)

lemma cols_wf_map_cols:
  "cols_wf n cols \<Longrightarrow> (\<And>v. length v = n \<Longrightarrow> length (f v) = m) \<Longrightarrow> cols_wf m (map_cols f cols)"
  unfolding cols_wf_def by (simp, force simp: map_cols_def)

lemma dict_get_map_cols:
  "cols_wf n cols \<Longrightarrow> (k, v) \<in> set cols \<Longrightarrow> dict_get (map_cols f cols) k [] = f v"
  by (simp add: dict_get_def map_of_map_cols cols_wf_def)

lemma td_make_ok: "cols_wf n cols \<Longrightarrow> td_make cols n = Inr \<lparr>td_cols = cols, td_bs = n\<rparr>"
  by (auto simp: td_make_def cols_wf_def list_all_iff)

lemma proto_wf_lens:
  assumes "proto_wf d"
  shows "\<forall>td. dp_batch d = Some td \<longrightarrow> td_bs td = proto_len d \<and> cols_wf (proto_len d) (td_cols td)"
    and "cols_wf (proto_len d) (dp_non_tensor d)"
  using assms by (auto simp: proto_wf_def proto_len_def)

lemma proto_len_rows_map:
  assumes "proto_wf d" "\<And>v. length v = proto_len d \<Longrightarrow> length (f v) = n"
    "dp_batch d \<noteq> None \<or> dp_non_tensor d \<noteq> []"
  shows "proto_len (rows_map f n d) = n"
proof (cases "dp_batch d")
  case None
  then obtain k v rest where nt: "dp_non_tensor d = (k, v) # rest"
    using assms(3) by (metis list.exhaust surj_pair)
  then have "length v = proto_len d" using None by (simp add: proto_len_def)
  then have "length (f v) = n" by (rule assms(2))
  with None nt show ?thesis by (simp add: rows_map_def proto_len_def)
next
  case (Some td)
  then show ?thesis by (simp add: rows_map_def proto_len_def)
qed

lemma mk_rows_map:
  assumes "proto_wf d" "\<And>v. length v = proto_len d \<Longrightarrow> length (f v) = n"
  shows "mk_proto (dp_batch (rows_map f n d)) (dp_non_tensor (rows_map f n d)) (dp_meta d) = Inr (rows_map f n d)"
proof -
  have "cols_wf n (map_cols f (dp_non_tensor d))"
    by (rule cols_wf_map_cols [OF proto_wf_lens(2) [OF assms(1)] assms(2)])
  then show ?thesis
    by (cases "dp_batch d") (auto simp: mk_proto_def check_consistency_def rows_map_def list_all_iff cols_wf_def Let_def)
qed

lemma proto_wf_rows_map:
  assumes "proto_wf d" "\<And>v. length v = proto_len d \<Longrightarrow> length (f v) = n"
  shows "proto_wf (rows_map f n d)"
proof -
  have "cols_wf n (map_cols f (dp_non_tensor d))"
    by (rule cols_wf_map_cols [OF proto_wf_lens(2) [OF assms(1)] assms(2)])
  moreover have "cols_wf n (map_cols f (td_cols td))" if "dp_batch d = Some td" for td
  proof (rule cols_wf_map_cols [OF _ assms(2)])
    show "cols_wf (proto_len d) (td_cols td)" using proto_wf_lens(1) [OF assms(1)] that by simp
  qed
  then have "\<forall>td. dp_batch (rows_map f n d) = Some td \<longrightarrow> cols_wf (td_bs td) (td_cols td)"
    by (auto simp: rows_map_def)
  moreover have "cols_wf (proto_len (rows_map f n d)) (map_cols f (dp_non_tensor d))"
  proof (cases "dp_batch d \<noteq> None \<or> dp_non_tensor d \<noteq> []")
    case True
    with calculation(1) proto_len_rows_map [OF assms True] show ?thesis by simp
  next
    case False
    then show ?thesis by (simp add: cols_wf_def)
  qed
  ultimately show ?thesis by (simp add: proto_wf_def) (simp add: rows_map_def)
qed

lemma rows_map_cong:
  assumes "proto_wf d" "\<And>v. length v = proto_len d \<Longrightarrow> f v = g v" "n = m"
  shows "rows_map f n d = rows_map g m d"
proof -
  have nt: "map_cols f (dp_non_tensor d) = map_cols g (dp_non_tensor d)"
    using proto_wf_lens(2) [OF assms(1)] assms(2) by (intro map_cols_cong) (auto simp: cols_wf_def)
  have "map_cols f (td_cols td) = map_cols g (td_cols td)" if "dp_batch d = Some td" for td
    using proto_wf_lens(1) [OF assms(1)] that assms(2) by (intro map_cols_cong) (auto simp: cols_wf_def)
  with nt assms(3) show ?thesis by (cases "dp_batch d") (simp_all add: rows_map_def)
qed

lemma rows_map_id:
  assumes "proto_wf d" "\<And>v. length v = proto_len d \<Longrightarrow> f v = v"
  shows "rows_map f (proto_len d) d = d"
proof -
  have nt: "map_cols f (dp_non_tensor d) = dp_non_tensor d"
    using proto_wf_lens(2) [OF assms(1)] assms(2) by (intro map_cols_id) (auto simp: cols_wf_def)
  have "map_cols f (td_cols td) = td_cols td" "td_bs td = proto_len d" if "dp_batch d = Some td" for td
    using proto_wf_lens(1) [OF assms(1)] that assms(2) by (auto intro!: map_cols_id simp: cols_wf_def)
  with nt show ?thesis by (cases "dp_batch d") (simp_all add: rows_map_def)
qed

lemma map_cols_comp [simp]: "map_cols f (map_cols g cols) = map_cols (f \<circ> g) cols"
  by (induction cols) (auto simp: map_cols_def)

lemma rows_map_comp: "rows_map f n (rows_map g m d) = rows_map (f \<circ> g) n d"
  by (cases "dp_batch d") (simp_all add: rows_map_def)

section \<open>Slices\<close>

lemma length_slice_list: "length xs = length ys \<Longrightarrow> length (slice_list a b None xs) = length (slice_list a b None ys)"
  by (simp add: slice_list_def py_slice_def Let_def)

lemma slice_ok:
  assumes "proto_wf d"
  shows "slice d a b None
    = Inr (rows_map (slice_list a b None) (length (slice_list a b None [0..<proto_len d])) d)"
proof -
  let ?n = "length (slice_list a b None [0..<proto_len d])"
  have len: "length (slice_list a b None v) = ?n" if "length v = proto_len d" for v :: "'a list"
    using that by (intro length_slice_list) simp
  have "map_option (\<lambda>td. \<lparr>td_cols = map_cols (slice_list a b None) (td_cols td),
      td_bs = length (slice_list a b None [0..<td_bs td])\<rparr>) (dp_batch d)
    = dp_batch (rows_map (slice_list a b None) ?n d)"
    using proto_wf_lens(1) [OF assms] by (cases "dp_batch d") (auto simp: rows_map_def)
  with mk_rows_map [OF assms len] show ?thesis by (simp add: slice_def rows_map_def)
qed

lemma slice_take_ok:
  assumes "proto_wf d" "n \<le> proto_len d"
  shows "slice d None (Some (int n)) None = Inr (rows_map (take n) n d)"
  using slice_ok [OF assms(1)] assms(2)
  by (auto intro!: rows_map_cong [OF assms(1)] simp: slice_list_def slice_bound_def py_slice_def)

lemma slice_drop_last_ok:
  assumes "proto_wf d" "0 < n" "n \<le> proto_len d"
  shows "slice d None (Some (- int n)) None = Inr (rows_map (take (proto_len d - n)) (proto_len d - n) d)"
proof -
  have "nat (max 0 (int (proto_len d) + - int n)) = proto_len d - n" using assms(3) by linarith
  with slice_ok [OF assms(1), of None "Some (- int n)"] assms show ?thesis
    by (auto intro!: rows_map_cong [OF assms(1)] simp: slice_list_def slice_bound_def py_slice_def)
qed

section \<open>Concatenation\<close>

text \<open>Meta dicts without the two keys that \<open>concat\<close> treats specially.\<close>

definition plain_meta :: "(string \<times> meta) list \<Rightarrow> bool" where
  "plain_meta mi \<longleftrightarrow> distinct (map fst mi) \<and> ''metrics'' \<notin> fst ` set mi \<and> ''reward_extra_keys'' \<notin> fst ` set mi"

lemma merge_meta_new:
  assumes "\<forall>kv\<in>set mi. fst kv \<noteq> ''metrics'' \<and> fst kv \<noteq> ''reward_extra_keys''"
    and "distinct (map fst (mm_merged st @ mi))"
  shows "fold_r merge_meta_entry mi st = Inr (st\<lparr>mm_merged := mm_merged st @ mi\<rparr>)"
  using assms
proof (induction mi arbitrary: st)
  case (Cons kv mi)
  obtain k v where kv: "kv = (k, v)" by (cases kv)
  have fresh: "map_of (mm_merged st) k = None" using Cons.prems(2) by (auto simp: kv map_of_eq_None_iff)
  have upd: "AList.update k v al = al @ [(k, v)]" if "map_of al k = None" for al :: "(string \<times> meta) list"
    using that by (induction al) (auto split: if_splits)
  have "merge_meta_entry kv st = Inr (st\<lparr>mm_merged := mm_merged st @ [(k, v)]\<rparr>)"
    using Cons.prems(1) fresh upd [OF fresh] by (simp add: merge_meta_entry_def kv)
  moreover have "fold_r merge_meta_entry mi (st\<lparr>mm_merged := mm_merged st @ [(k, v)]\<rparr>)
      = Inr (st\<lparr>mm_merged := (mm_merged st @ [(k, v)]) @ mi\<rparr>)"
    using Cons.IH [of "st\<lparr>mm_merged := mm_merged st @ [(k, v)]\<rparr>"] Cons.prems by (simp add: kv)
  ultimately show ?case by (simp add: kv)
qed simp

lemma merge_meta_known:
  assumes "\<forall>kv\<in>set mi. fst kv \<noteq> ''metrics'' \<and> fst kv \<noteq> ''reward_extra_keys''
      \<and> map_of (mm_merged st) (fst kv) = Some (snd kv)"
  shows "fold_r merge_meta_entry mi st = Inr st"
  using assms by (induction mi) (auto simp: merge_meta_entry_def)

lemma merge_meta_same:
  assumes "plain_meta mi" "0 < n"
  shows "merge_meta (replicate n mi) cols = Inr mi"
proof -
  obtain m where n: "n = Suc m" using assms(2) by (cases n) auto
  let ?st = "\<lparr>mm_merged = mi, mm_metrics = [], mm_reward_keys = []\<rparr>"
  have plain: "\<forall>kv\<in>set mi. fst kv \<noteq> ''metrics'' \<and> fst kv \<noteq> ''reward_extra_keys''"
    using assms(1) by (force simp: plain_meta_def)
  have "fold_r merge_meta_entry mi \<lparr>mm_merged = [], mm_metrics = [], mm_reward_keys = []\<rparr> = Inr ?st"
    using merge_meta_new [OF plain, of "\<lparr>mm_merged = [], mm_metrics = [], mm_reward_keys = []\<rparr>"] assms(1)
    by (simp add: plain_meta_def)
  moreover have "fold_r merge_meta_entry mi ?st = Inr ?st"
    using plain assms(1) by (intro merge_meta_known) (auto simp: plain_meta_def)
  then have "fold_r merge_meta_entry (concat (replicate m mi)) ?st = Inr ?st"
    by (induction m) (simp_all add: fold_r_append)
  ultimately show ?thesis by (simp add: merge_meta_def n fold_r_append)
qed

text \<open>
  What merging copies of one meta dict gives: the entries themselves, except that each metric becomes the list of its copies and
  \<open>reward_extra_keys\<close> keeps the names that are columns.
\<close>

definition usual_meta :: "(string \<times> meta) list \<Rightarrow> bool" where
  "usual_meta mi \<longleftrightarrow> distinct (map fst mi)
     \<and> (case map_of mi ''metrics'' of None \<Rightarrow> True | Some MNone \<Rightarrow> True | Some (MDict m) \<Rightarrow> distinct (map fst m) | _ \<Rightarrow> False)"

definition copied_meta :: "nat \<Rightarrow> string list \<Rightarrow> (string \<times> meta) list \<Rightarrow> string \<Rightarrow> meta option" where
  "copied_meta n columns mi key =
     (if key = ''metrics'' then (case map_of mi key of Some (MDict m) \<Rightarrow> Some (MDict (map (\<lambda>(k, v). (k, MList (replicate n v))) m)) | _ \<Rightarrow> None)
      else if key = ''reward_extra_keys'' then map_option (\<lambda>r. MList (filter (\<lambda>k. k \<in> MStr ` set columns) (meta_keys r))) (map_of mi key)
      else map_of mi key)"

definition metric_parts :: "string \<times> meta \<Rightarrow> meta list" where
  "metric_parts kv = (if fst kv = ''metrics'' then (case snd kv of MNone \<Rightarrow> [] | MList l \<Rightarrow> l | v \<Rightarrow> [v]) else [])"

definition special :: "string \<Rightarrow> bool" where
  "special k \<longleftrightarrow> k = ''metrics'' \<or> k = ''reward_extra_keys''"

lemma merge_entries:
  assumes "\<forall>(k, v)\<in>set es. \<not> special k \<longrightarrow> M k = Some v" "\<forall>k. map_of (mm_merged st) k \<noteq> None \<longrightarrow> map_of (mm_merged st) k = M k"
  shows "\<exists>mg. fold_r merge_meta_entry es st = Inr (st\<lparr>mm_merged := mg, mm_metrics := mm_metrics st @ concat (map metric_parts es),
        mm_reward_keys := mm_reward_keys st @ map snd (filter (\<lambda>kv. fst kv = ''reward_extra_keys'') es)\<rparr>)
    \<and> (\<forall>k. map_of mg k = (if \<not> special k \<and> k \<in> fst ` set es then M k else map_of (mm_merged st) k))"
  using assms
proof (induction es arbitrary: st)
  case (Cons kv es)
  obtain k v where kv: "kv = (k, v)" by (cases kv)
  define st' where "st' = st\<lparr>mm_metrics := mm_metrics st @ metric_parts kv,
      mm_reward_keys := mm_reward_keys st @ (if k = ''reward_extra_keys'' then [v] else []),
      mm_merged := (if special k \<or> map_of (mm_merged st) k \<noteq> None then mm_merged st else AList.update k v (mm_merged st))\<rparr>"
  have e1: "merge_meta_entry kv st = Inr st'"
    using Cons.prems by (auto simp: merge_meta_entry_def kv st'_def special_def metric_parts_def split: option.splits meta.splits)
  have e2: "\<forall>k. map_of (mm_merged st') k \<noteq> None \<longrightarrow> map_of (mm_merged st') k = M k"
    "map_of (mm_merged st') j = (if \<not> special j \<and> j = k then M k else map_of (mm_merged st) j)" for j
    using Cons.prems by (auto simp: kv st'_def update_conv')
  have "\<forall>(k, v)\<in>set es. \<not> special k \<longrightarrow> M k = Some v" using Cons.prems(1) by simp
  from Cons.IH [OF this e2(1)] obtain mg where mg: "fold_r merge_meta_entry es st' = Inr (st'\<lparr>mm_merged := mg,
        mm_metrics := mm_metrics st' @ concat (map metric_parts es),
        mm_reward_keys := mm_reward_keys st' @ map snd (filter (\<lambda>kv. fst kv = ''reward_extra_keys'') es)\<rparr>)"
    "\<forall>j. map_of mg j = (if \<not> special j \<and> j \<in> fst ` set es then M j else map_of (mm_merged st') j)"
    by blast
  have "fold_r merge_meta_entry (kv # es) st = Inr (st\<lparr>mm_merged := mg, mm_metrics := mm_metrics st @ concat (map metric_parts (kv # es)),
        mm_reward_keys := mm_reward_keys st @ map snd (filter (\<lambda>kv. fst kv = ''reward_extra_keys'') (kv # es))\<rparr>)"
    by (simp add: e1 mg(1)) (simp add: st'_def kv)
  moreover have "map_of mg j = (if \<not> special j \<and> j \<in> fst ` set (kv # es) then M j else map_of (mm_merged st) j)" for j
    using mg(2) e2(2) by (auto simp: kv)
  ultimately show ?case by blast
next
  case Nil
  show ?case by (rule exI [of _ "mm_merged st"]) simp
qed

lemma alist_update_append: "k \<notin> fst ` set xs \<Longrightarrow> AList.update k v (xs @ ys) = xs @ AList.update k v ys"
  by (induction xs) auto

lemma dict_copies_pass:
  assumes "distinct (map fst (m1 @ m2))"
  shows "fold_r (\<lambda>(k, item) out. case map_of out k of None \<Rightarrow> Inl AssertionError | Some xs \<Rightarrow> Inr (AList.update k (xs @ [item]) out)) m2
      (map (\<lambda>(k, v). (k, replicate (Suc n) v)) m1 @ map (\<lambda>(k, v). (k, replicate n v)) m2)
    = Inr (map (\<lambda>(k, v). (k, replicate (Suc n) v)) (m1 @ m2))"
  using assms
proof (induction m2 arbitrary: m1)
  case (Cons kv m2)
  obtain k v where kv: "kv = (k, v)" by (cases kv)
  have "k \<notin> fst ` set (map (\<lambda>(k, v). (k, replicate (Suc n) v)) m1)" using Cons.prems by (force simp: kv)
  note u = alist_update_append [OF this]
  have "map_of (map (\<lambda>(k, v). (k, replicate (Suc n) v)) m1) k = None"
    using \<open>k \<notin> fst ` set (map (\<lambda>(k, v). (k, replicate (Suc n) v)) m1)\<close> by (simp only: map_of_eq_None_iff) simp
  then have m: "map_of (map (\<lambda>(k, v). (k, replicate (Suc n) v)) m1 @ (k, replicate n v) # map (\<lambda>(k, v). (k, replicate n v)) m2) k = Some (replicate n v)"
    by (simp add: map_add_def)
  show ?case using Cons.IH [of "m1 @ [(k, v)]"] Cons.prems by (simp add: kv m [simplified] u [simplified] replicate_append_same)
qed simp

lemma list_of_dict_copies:
  assumes "distinct (map fst m)"
  shows "list_of_dict_to_dict_of_list (replicate n m) = Inr (if n = 0 then [] else map (\<lambda>(k, v). (k, replicate n v)) m)"
proof -
  have "fold_r (fold_r (\<lambda>(k, item) out. case map_of out k of None \<Rightarrow> Inl AssertionError | Some xs \<Rightarrow> Inr (AList.update k (xs @ [item]) out)))
      (replicate i m) (map (\<lambda>(k, v). (k, replicate j v)) m) = Inr (map (\<lambda>(k, v). (k, replicate (j + i) v)) m)" for i j
  proof (induction i arbitrary: j)
    case (Suc i)
    show ?case using Suc.IH [of "Suc j"] dict_copies_pass [of "[]" m j] assms by simp
  qed simp
  from this [of n 0] show ?thesis by (cases n) (simp_all add: list_of_dict_to_dict_of_list_def)
qed

lemma filter_key_map_of: "distinct (map fst es) \<Longrightarrow> filter (\<lambda>kv. fst kv = k) es = (case map_of es k of None \<Rightarrow> [] | Some v \<Rightarrow> [(k, v)])"
proof (induction es)
  case (Cons kv es)
  show ?case
  proof (cases "fst kv = k")
    case True
    then have "map_of es k = None" using Cons.prems by (auto simp: map_of_eq_None_iff)
    then show ?thesis using Cons True by (cases kv) simp
  qed (use Cons in \<open>cases kv, simp\<close>)
qed simp

lemma merge_meta_copies:
  assumes "usual_meta mi" "0 < n"
  shows "\<exists>mi'. merge_meta (replicate n mi) cols = Inr mi' \<and> (\<forall>k. map_of mi' k = copied_meta n cols mi k)"
proof -
  let ?es = "concat (replicate n mi)" and ?st = "\<lparr>mm_merged = [], mm_metrics = [], mm_reward_keys = []\<rparr>"
  have d: "distinct (map fst mi)" using assms(1) by (simp add: usual_meta_def)
  have set: "set ?es = set mi" using assms(2) by auto
  obtain mg where mg: "fold_r merge_meta_entry ?es ?st = Inr \<lparr>mm_merged = mg, mm_metrics = concat (map metric_parts ?es),
        mm_reward_keys = map snd (filter (\<lambda>kv. fst kv = ''reward_extra_keys'') ?es)\<rparr>"
    "\<forall>k. map_of mg k = (if \<not> special k then map_of mi k else None)"
  proof -
    have "\<forall>(k, v)\<in>set ?es. \<not> special k \<longrightarrow> map_of mi k = Some v" unfolding set using d by auto
    from merge_entries [OF this, of ?st] obtain mg where "fold_r merge_meta_entry ?es ?st = Inr \<lparr>mm_merged = mg, mm_metrics = concat (map metric_parts ?es),
        mm_reward_keys = map snd (filter (\<lambda>kv. fst kv = ''reward_extra_keys'') ?es)\<rparr>"
      "\<forall>k. map_of mg k = (if \<not> special k \<and> k \<in> fst ` set mi then map_of mi k else None)" unfolding set by auto
    moreover have "(if \<not> special k \<and> k \<in> fst ` set mi then map_of mi k else None) = (if \<not> special k then map_of mi k else None)" for k
      by (auto simp: map_of_eq_None_iff [symmetric])
    ultimately show ?thesis using that by simp
  qed
  have copies: "concat (map g ?es) = concat (replicate n (concat (map g mi)))" "filter P ?es = concat (replicate n (filter P mi))" for g :: "string \<times> meta \<Rightarrow> 'b list" and P
    by (induction n) simp_all
  have mp: "concat (map metric_parts mi) = concat (map metric_parts (filter (\<lambda>kv. fst kv = ''metrics'') mi))"
    by (induction mi) (auto simp: metric_parts_def)
  have met: "concat (map metric_parts mi) = (case map_of mi ''metrics'' of Some (MDict m) \<Rightarrow> [MDict m] | _ \<Rightarrow> [])"
  proof (cases "map_of mi ''metrics''")
    case None
    then show ?thesis unfolding mp by (simp add: filter_key_map_of [OF d])
  next
    case (Some v)
    then show ?thesis using assms(1) unfolding mp
      by (cases v) (simp_all add: filter_key_map_of [OF d] usual_meta_def metric_parts_def)
  qed
  have rew: "filter (\<lambda>kv. fst kv = ''reward_extra_keys'') mi = (case map_of mi ''reward_extra_keys'' of None \<Rightarrow> [] | Some v \<Rightarrow> [(''reward_extra_keys'', v)])"
    by (rule filter_key_map_of [OF d])
  define keys where "keys = (case map_of mi ''reward_extra_keys'' of None \<Rightarrow> mg
      | Some r \<Rightarrow> AList.update ''reward_extra_keys'' (MList (filter (\<lambda>k. k \<in> MStr ` set cols) (meta_keys r))) mg)"
  obtain j where n: "n = Suc j" using assms(2) by (cases n) auto
  have keys: "(case mm_reward_keys st of [] \<Rightarrow> mm_merged st | r # _ \<Rightarrow> AList.update ''reward_extra_keys''
      (MList (filter (\<lambda>k. list_all (\<lambda>l. k \<in> set (meta_keys l)) (mm_reward_keys st) \<and> k \<in> MStr ` set cols) (meta_keys r))) (mm_merged st)) = keys"
    if "st = \<lparr>mm_merged = mg, mm_metrics = a, mm_reward_keys = map snd (filter (\<lambda>kv. fst kv = ''reward_extra_keys'') ?es)\<rparr>" for st a
  proof (cases "map_of mi ''reward_extra_keys''")
    case None
    then show ?thesis by (simp add: that copies rew keys_def)
  next
    case (Some r)
    have "concat (replicate n [(''reward_extra_keys'', r)]) = replicate n (''reward_extra_keys'', r)" by (induction n) simp_all
    then have k: "map snd (filter (\<lambda>kv. fst kv = ''reward_extra_keys'') ?es) = r # replicate j r"
      by (simp add: copies rew Some) (simp add: n)
    have "filter (\<lambda>k. list_all (\<lambda>l. k \<in> set (meta_keys l)) (r # replicate j r) \<and> k \<in> MStr ` set cols) (meta_keys r)
        = filter (\<lambda>k. k \<in> MStr ` set cols) (meta_keys r)" by (rule filter_cong) (simp_all add: list_all_iff)
    then show ?thesis by (simp only: that k keys_def Some meta_merge.simps list.case option.case)
  qed
  show ?thesis
  proof (cases "\<exists>m. map_of mi ''metrics'' = Some (MDict m)")
    case True
    then obtain m where m: "map_of mi ''metrics'' = Some (MDict m)" by blast
    then have dm: "distinct (map fst m)" using assms(1) by (simp add: usual_meta_def)
    have "map_r metric_dict (replicate n (MDict m)) = Inr (replicate n m)" by (induction n) (simp_all add: metric_dict_def)
    moreover have "concat (replicate n [MDict m]) = replicate n (MDict m)" by (induction n) simp_all
    ultimately have "merge_meta (replicate n mi) cols = Inr (AList.update ''metrics'' (MDict (map (\<lambda>(k, v). (k, MList (replicate n v))) m)) keys)"
      unfolding merge_meta_def mg(1) rbind_Inr Let_def keys [OF refl] using list_of_dict_copies [OF dm, of n] assms(2)
      by (simp add: copies met m case_prod_unfold comp_def)
    then show ?thesis using m mg(2) by (auto simp: update_conv' keys_def copied_meta_def special_def split: option.split)
  next
    case False
    then have "concat (map metric_parts mi) = []" unfolding met by (auto split: option.split meta.split)
    then have "merge_meta (replicate n mi) cols = Inr keys" unfolding merge_meta_def mg(1) rbind_Inr Let_def keys [OF refl] by (simp add: copies)
    then show ?thesis using False mg(2) by (auto simp: update_conv' keys_def copied_meta_def special_def split: option.split meta.split)
  qed
qed

lemma cat_cols:
  assumes "cols_wf n cols"
  shows "map (\<lambda>(k, _). (k, concat (map (\<lambda>f. dict_get (map_cols f cols) k []) fs))) (map_cols g cols)
    = map_cols (\<lambda>v. concat (map (\<lambda>f. f v) fs)) cols"
proof -
  have "(k, concat (map (\<lambda>f. dict_get (map_cols f cols) k []) fs)) = (k, concat (map (\<lambda>f. f v) fs))"
    if "(k, v) \<in> set cols" for k v
    by (simp add: dict_get_map_cols [OF assms that])
  then show ?thesis unfolding map_cols_def [of g] map_cols_def [of "\<lambda>v. concat (map (\<lambda>f. f v) fs)"] by auto
qed

lemma cat_keys:
  assumes "cols_wf n cols"
  shows "map (\<lambda>k. (k, concat (map (\<lambda>f. dict_get (map_cols f cols) k []) fs))) (map fst cols)
    = map_cols (\<lambda>v. concat (map (\<lambda>f. f v) fs)) cols"
proof -
  have "map h (map fst cols) = map (\<lambda>(k, _). h k) cols" for h :: "string \<Rightarrow> string \<times> 'b list"
    by (induction cols) auto
  note keys = this
  have "map_cols id cols = cols" by (rule map_cols_id) simp
  then show ?thesis using cat_cols [OF assms, of fs id] by (simp only: keys)
qed

text \<open>Concatenating row-wise images of one batch is the row-wise image under the concatenation.\<close>

lemma mk_proto_meta: "mk_proto b nt mi = Inr d \<Longrightarrow> mk_proto b nt mi' = Inr (d\<lparr>dp_meta := mi'\<rparr>)"
  by (cases b) (auto simp: mk_proto_def Let_def check_consistency_def rbind_eq_Inr_iff)

lemma concat_rows_map_meta:
  assumes wf: "proto_wf d" and fs: "fs \<noteq> []" and meta: "merge_meta (replicate (length fs) (dp_meta d)) (map fst (dp_non_tensor d)) = Inr mi"
    and len: "\<And>v f n. (f, n) \<in> set fs \<Longrightarrow> length v = proto_len d \<Longrightarrow> length (f v) = n"
  shows "concat_proto (map (\<lambda>x. rows_map (fst x) (snd x) d) fs)
    = Inr (rows_map (\<lambda>v. concat (map (\<lambda>x. fst x v) fs)) (sum_list (map snd fs)) d\<lparr>dp_meta := mi\<rparr>)"
proof -
  let ?ds = "map (\<lambda>x. rows_map (fst x) (snd x) d) fs"
  let ?F = "\<lambda>v. concat (map (\<lambda>x. fst x v) fs)" and ?N = "sum_list (map snd fs)"
  let ?R = "rows_map ?F ?N d"
  obtain f0 n0 fs' where fs0: "fs = (f0, n0) # fs'" using fs by (metis list.exhaust surj_pair)
  have cc: "concat (map (\<lambda>x. dict_get (dp_non_tensor x) k []) ?ds)
      = concat (map (\<lambda>f. dict_get (map_cols f (dp_non_tensor d)) k []) (map fst fs))" for k
    by (simp add: rows_map_def comp_def)
  have batch: "(case dp_batch (rows_map f0 n0 d) of None \<Rightarrow> Inr None
      | Some _ \<Rightarrow> if list_all (\<lambda>x. dp_batch x \<noteq> None) ?ds
                  then rbind (td_cat (map (the \<circ> dp_batch) ?ds)) (\<lambda>td. Inr (Some td)) else Inl TypeError)
    = Inr (dp_batch ?R)"
  proof (cases "dp_batch d")
    case None
    then show ?thesis by (simp add: rows_map_def)
  next
    case (Some td)
    have tds: "map (the \<circ> dp_batch) ?ds = map (\<lambda>x. \<lparr>td_cols = map_cols (fst x) (td_cols td), td_bs = snd x\<rparr>) fs"
      by (simp add: rows_map_def Some comp_def)
    have "cols_wf (proto_len d) (td_cols td)" using proto_wf_lens(1) [OF wf] Some by simp
    from cat_cols [OF this, of "map fst fs" f0]
    have "td_cat (map (\<lambda>x. \<lparr>td_cols = map_cols (fst x) (td_cols td), td_bs = snd x\<rparr>) fs)
        = Inr \<lparr>td_cols = map_cols ?F (td_cols td), td_bs = ?N\<rparr>"
      by (simp add: td_cat_def fs0 list_all_iff comp_def)
    moreover have "list_all (\<lambda>x. dp_batch x \<noteq> None) ?ds" by (auto simp: list_all_iff rows_map_def Some)
    moreover have "dp_batch (rows_map f0 n0 d) \<noteq> None" "dp_batch ?R = Some \<lparr>td_cols = map_cols ?F (td_cols td), td_bs = ?N\<rparr>"
      by (simp_all add: rows_map_def Some)
    ultimately show ?thesis by (auto simp only: tds if_True rbind_Inr option.case split: option.split)
  qed
  have shared: "filter (\<lambda>k. list_all (\<lambda>x. k \<in> fst ` set (dp_non_tensor x)) ?ds)
      (map fst (dp_non_tensor (rows_map f0 n0 d))) = map fst (dp_non_tensor d)" (is "?sh = _")
    by (auto simp: rows_map_def list_all_iff filter_id_conv)
  have nt: "map (\<lambda>k. (k, concat (map (\<lambda>x. dict_get (dp_non_tensor x) k []) ?ds))) (map fst (dp_non_tensor d))
      = dp_non_tensor ?R"
    using cat_keys [OF proto_wf_lens(2) [OF wf], of "map fst fs"]
    by (simp only: cc) (simp add: rows_map_def comp_def)
  have "map dp_meta ?ds = replicate (length fs) (dp_meta d)"
    by (simp add: rows_map_def split_def comp_def map_replicate_const)
  then have mi: "merge_meta (map dp_meta ?ds) (map fst (dp_non_tensor d)) = Inr mi" using meta by simp
  have "mk_proto (dp_batch ?R) (dp_non_tensor ?R) (dp_meta d) = Inr ?R"
  proof (rule mk_rows_map [OF wf])
    fix v :: "'a list" assume "length v = proto_len d"
    then have "map (\<lambda>x. length (fst x v)) fs = map snd fs" using len by auto
    then show "length (?F v) = ?N" by (simp add: length_concat comp_def del: map_eq_conv)
  qed
  then have mk: "mk_proto (dp_batch ?R) (dp_non_tensor ?R) mi = Inr (?R\<lparr>dp_meta := mi\<rparr>)"
    using mk_proto_meta by fastforce
  show ?thesis
    unfolding concat_proto_def using batch shared nt mi mk
    by (simp only: fs0 list.map list.case fst_conv snd_conv Let_def rbind_Inr)
qed

lemma concat_rows_map:
  assumes wf: "proto_wf d" and fs: "fs \<noteq> []" and meta: "plain_meta (dp_meta d)"
    and len: "\<And>v f n. (f, n) \<in> set fs \<Longrightarrow> length v = proto_len d \<Longrightarrow> length (f v) = n"
  shows "concat_proto (map (\<lambda>x. rows_map (fst x) (snd x) d) fs)
    = Inr (rows_map (\<lambda>v. concat (map (\<lambda>x. fst x v) fs)) (sum_list (map snd fs)) d)"
proof -
  have "merge_meta (replicate (length fs) (dp_meta d)) (map fst (dp_non_tensor d)) = Inr (dp_meta d)"
    using merge_meta_same [OF meta] fs by simp
  from concat_rows_map_meta [OF wf fs this] len show ?thesis by (simp add: rows_map_def)
qed

section \<open>Chunks\<close>

lemma chunks_of_map: "chunks_of n (map f xs) = map (map f) (chunks_of n xs)"
proof (induction n xs rule: chunks_of.induct)
  case (1 n xs)
  then show ?case by (cases "n = 0 \<or> xs = []") (auto simp: chunks_of_step take_map drop_map)
qed

lemma split_sizes_uniform: "0 < c \<Longrightarrow> length v = k * c \<Longrightarrow> split_sizes (replicate k c) v = chunks_of c v"
proof (induction k arbitrary: v)
  case (Suc k)
  then have "v \<noteq> []" by auto
  with Suc show ?case by (simp add: chunks_of_step)
qed simp

lemma chunks_of_upt_lengths:
  assumes "0 < k" "k dvd n" "0 < n"
  shows "map length (chunks_of (n div k) [0..<n]) = replicate k (n div k)"
proof (rule replicate_eqI)
  have c: "0 < n div k" "n div k dvd n" using assms by (auto simp: div_greater_zero_iff dvd_imp_le elim!: dvdE)
  have "n div (n div k) = k" using assms by (auto elim!: dvdE)
  then show "length (map length (chunks_of (n div k) [0..<n])) = k"
    using c by (simp add: length_chunks_of)
  show "y = n div k" if "y \<in> set (map length (chunks_of (n div k) [0..<n]))" for y
    using that c chunks_of_length_exact [of "n div k" "[0..<n]"] by auto
qed

lemma ceil_div_dvd: "0 < k \<Longrightarrow> k dvd n \<Longrightarrow> (n + k - Suc 0) div k = n div (k::nat)"
proof (elim dvdE)
  fix c assume k: "0 < k" and n: "n = k * c"
  have "n + k - Suc 0 = (k - 1) + k * c" using k n by simp
  also have "\<dots> div k = c + (k - 1) div k" using k by (intro div_mult_self2) simp
  finally show ?thesis using k n by simp
qed

lemma chunk_size:
  fixes k n :: nat
  assumes "0 < k" "k dvd n" "0 < n"
  shows "0 < n div k" "k * (n div k) = n"
proof -
  show "k * (n div k) = n" using assms(2) by simp
  then show "0 < n div k" using assms(3) by (cases "n div k") simp_all
qed

lemma length_chunks_div:
  assumes "0 < k" "k dvd n" "0 < n" "length v = n"
  shows "length (chunks_of (n div k) v) = k"
proof -
  have "n div k dvd length v" using chunk_size [OF assms(1-3)] assms(4) by (metis dvd_triv_right)
  with chunk_size [OF assms(1-3)] show ?thesis
    by (metis assms(4) length_chunks_of nonzero_mult_div_cancel_right not_gr_zero)
qed

lemma length_chunk_div_nth:
  assumes "0 < k" "k dvd n" "0 < n" "length v = n" "i < k"
  shows "length (chunks_of (n div k) v ! i) = n div k"
proof (rule chunks_of_length_exact)
  show "n div k dvd length v" using chunk_size [OF assms(1-3)] assms(4) by (metis dvd_triv_right)
  show "chunks_of (n div k) v ! i \<in> set (chunks_of (n div k) v)"
    using assms(5) length_chunks_div [OF assms(1-4)] by simp
qed

lemma chunk_rows_nth:
  assumes "0 < k" "k dvd n" "0 < n" "length v = n" "i < k"
  shows "map ((!) v) (chunks_of (n div k) [0..<n] ! i) = chunks_of (n div k) v ! i"
proof -
  have "chunks_of (n div k) v = map (map ((!) v)) (chunks_of (n div k) [0..<n])"
    using chunks_of_map [of "n div k" "(!) v" "[0..<n]"] assms(4) by (metis map_nth)
  moreover have "i < length (chunks_of (n div k) [0..<n])"
    using length_chunks_div [OF assms(1-3), of "[0..<n]"] assms(5) by simp
  ultimately show ?thesis by simp
qed

lemma chunk_batches_nth:
  assumes wf: "proto_wf d" and k: "0 < k" "k dvd proto_len d" "0 < proto_len d" and i: "i < k"
  shows "py_nth (chunk_batches d k) i
    = Inr (dp_batch (rows_map (\<lambda>v. chunks_of (proto_len d div k) v ! i) (proto_len d div k) d))"
proof (cases "dp_batch d")
  case None
  then show ?thesis using i by (simp add: py_nth_def rows_map_def chunk_batches_def)
next
  case (Some td)
  let ?n = "proto_len d" and ?c = "proto_len d div k"
  have td: "td_bs td = ?n" "cols_wf ?n (td_cols td)" using proto_wf_lens(1) [OF wf] Some by simp_all
  have "map_cols (\<lambda>v. map ((!) v) (chunks_of ?c [0..<?n] ! i)) (td_cols td) = map_cols (\<lambda>v. chunks_of ?c v ! i) (td_cols td)"
    using td(2) by (intro map_cols_cong) (auto simp: cols_wf_def chunk_rows_nth [OF k _ i])
  moreover have "i < length (chunks_of ?c [0..<?n])" "length (chunks_of ?c [0..<?n] ! i) = ?c"
    using length_chunks_div [OF k, of "[0..<?n]"] length_chunk_div_nth [OF k _ i, of "[0..<?n]"] i by simp_all
  moreover have "torch_chunk k [0..<?n] = chunks_of ?c [0..<?n]" using k by (simp add: torch_chunk_def ceil_div_dvd)
  ultimately show ?thesis using Some td(1) by (simp add: py_nth_def rows_map_def chunk_batches_def)
qed

lemma chunk_arrays_eq:
  assumes wf: "proto_wf d" and k: "0 < k" "k dvd proto_len d" "0 < proto_len d" and v: "length v = proto_len d"
  shows "chunk_arrays d k v = chunks_of (proto_len d div k) v"
proof (cases "dp_batch d")
  case None
  have "map (\<lambda>i. length v div k + (if i < length v mod k then 1 else 0)) [0..<k] = replicate k (proto_len d div k)"
    using v k by (intro replicate_eqI) auto
  with None v chunk_size [OF k] show ?thesis by (simp add: chunk_arrays_def array_split_def split_sizes_uniform)
next
  case (Some td)
  then have "td_bs td = proto_len d" using proto_wf_lens(1) [OF wf] by simp
  with Some v k chunk_size [OF k] show ?thesis
    by (simp add: chunk_arrays_def torch_chunk_def ceil_div_dvd chunks_of_upt_lengths split_sizes_uniform)
qed

lemma chunk_ok:
  assumes wf: "proto_wf d" and k: "0 < k" "k dvd proto_len d" "0 < proto_len d"
  shows "chunk ap d k = Inr (map (\<lambda>i. rows_map (\<lambda>v. chunks_of (proto_len d div k) v ! i) (proto_len d div k) d) [0..<k])"
proof -
  let ?c = "proto_len d div k"
  have nts: "length v = proto_len d" if "(key, v) \<in> set (dp_non_tensor d)" for key v
    using that proto_wf_lens(2) [OF wf] by (auto simp: cols_wf_def)
  have mk: "rbind (py_nth (chunk_batches d k) i) (\<lambda>b. mk_proto b (map_cols (\<lambda>v. chunk_arrays d k v ! i) (dp_non_tensor d)) (dp_meta d))
      = Inr (rows_map (\<lambda>v. chunks_of ?c v ! i) ?c d)" if i: "i < k" for i
  proof -
    have "map_cols (\<lambda>v. chunk_arrays d k v ! i) (dp_non_tensor d) = dp_non_tensor (rows_map (\<lambda>v. chunks_of ?c v ! i) ?c d)"
      using chunk_arrays_eq [OF wf k] nts by (auto simp: rows_map_def intro!: map_cols_cong)
    then show ?thesis
      using chunk_batches_nth [OF wf k i] mk_rows_map [OF wf length_chunk_div_nth [OF k _ i]] by simp
  qed
  have "map_r (\<lambda>i. rbind (py_nth (chunk_batches d k) i)
        (\<lambda>b. mk_proto b (map_cols (\<lambda>v. chunk_arrays d k v ! i) (dp_non_tensor d)) (dp_meta d))) [0..<k]
      = Inr (map (\<lambda>i. rows_map (\<lambda>v. chunks_of ?c v ! i) ?c d) [0..<k])"
    by (rule map_r_Inr) (use mk in simp)
  moreover have "list_all (\<lambda>(_, v). length (chunk_arrays d k v) = k) (dp_non_tensor d)"
    using chunk_arrays_eq [OF wf k] nts by (auto simp: list_all_iff length_chunks_div [OF k])
  ultimately show ?thesis using k
    by (simp add: chunk_def dvd_eq_mod_eq_0)
qed

lemma concat_chunks_nth: "length (chunks_of c v) = k \<Longrightarrow> 0 < c \<Longrightarrow> concat (map (\<lambda>i. chunks_of c v ! i) [0..<k]) = v"
  by (metis concat_chunks_of map_nth neq0_conv)

lemma proto_nonempty_columns: "0 < proto_len d \<Longrightarrow> dp_batch d \<noteq> None \<or> dp_non_tensor d \<noteq> []"
  by (auto simp: proto_len_def)

lemma chunk_concat_meta:
  assumes wf: "proto_wf d" and meta: "merge_meta (replicate k (dp_meta d)) (map fst (dp_non_tensor d)) = Inr mi"
    and k: "0 < k" "k dvd proto_len d" "0 < proto_len d"
  shows "\<exists>ds. chunk ap d k = Inr ds \<and> length ds = k
    \<and> (\<forall>x\<in>set ds. proto_wf x \<and> proto_len x = proto_len d div k \<and> dp_meta x = dp_meta d) \<and> concat_proto ds = Inr (d\<lparr>dp_meta := mi\<rparr>)"
proof -
  let ?c = "proto_len d div k"
  let ?ds = "map (\<lambda>i. rows_map (\<lambda>v. chunks_of ?c v ! i) ?c d) [0..<k]"
  let ?fs = "map (\<lambda>i. (\<lambda>v :: 'a list. chunks_of ?c v ! i, ?c)) [0..<k]"
  have eq: "?ds = map (\<lambda>x. rows_map (fst x) (snd x) d) ?fs" by simp
  have cat: "concat_proto (map (\<lambda>x. rows_map (fst x) (snd x) d) ?fs)
      = Inr (rows_map (\<lambda>v. concat (map (\<lambda>x. fst x v) ?fs)) (sum_list (map snd ?fs)) d\<lparr>dp_meta := mi\<rparr>)"
    using k length_chunk_div_nth [OF k] meta by (intro concat_rows_map_meta [OF wf]) auto
  have whole: "rows_map (\<lambda>v. concat (map (\<lambda>x. fst x v) ?fs)) (sum_list (map snd ?fs)) d = d"
  proof -
    have "sum_list (map snd ?fs) = proto_len d"
      using chunk_size(2) [OF k] by (simp add: comp_def sum_list_triv)
    moreover have "concat (map (\<lambda>x. fst x v) ?fs) = v" if "length v = proto_len d" for v :: "'a list"
      using concat_chunks_nth [OF length_chunks_div [OF k that]] chunk_size [OF k] by (simp add: comp_def)
    ultimately show ?thesis using rows_map_id [OF wf, of "\<lambda>v. concat (map (\<lambda>x. fst x v) ?fs)"] by simp
  qed
  have "proto_wf x \<and> proto_len x = ?c \<and> dp_meta x = dp_meta d" if "x \<in> set ?ds" for x
  proof -
    from that obtain i where i: "i < k" "x = rows_map (\<lambda>v. chunks_of ?c v ! i) ?c d" by auto
    note len = length_chunk_div_nth [OF k _ i(1)]
    have "proto_wf x" unfolding i(2) by (rule proto_wf_rows_map [OF wf len])
    moreover have "proto_len x = ?c"
      unfolding i(2) by (rule proto_len_rows_map [OF wf len proto_nonempty_columns [OF k(3)]])
    moreover have "dp_meta x = dp_meta d" by (simp add: i(2) rows_map_def)
    ultimately show ?thesis by simp
  qed
  moreover have "concat_proto ?ds = Inr (d\<lparr>dp_meta := mi\<rparr>)" unfolding eq cat whole ..
  moreover have "length ?ds = k" by simp
  ultimately show ?thesis using chunk_ok [OF wf k, of ap] by blast
qed

lemma chunk_concat_ok:
  assumes wf: "proto_wf d" and meta: "plain_meta (dp_meta d)"
    and k: "0 < k" "k dvd proto_len d" "0 < proto_len d"
  shows "\<exists>ds. chunk ap d k = Inr ds \<and> length ds = k
    \<and> (\<forall>x\<in>set ds. proto_wf x \<and> proto_len x = proto_len d div k \<and> dp_meta x = dp_meta d) \<and> concat_proto ds = Inr d"
  using chunk_concat_meta [OF wf merge_meta_same [OF meta k(1)] k, of ap] by simp


definition demo_proto :: "int data_proto" where
  "demo_proto = \<lparr>dp_batch = Some \<lparr>td_cols = [(''ids'', [10, 11, 12]), (''mask'', [1, 1, 0])], td_bs = 3\<rparr>,
     dp_non_tensor = [(''uid'', [7, 7, 8])], dp_meta = [(''step'', MInt 4)]\<rparr>"

lemma demo_proto_ok: "proto_wf demo_proto" "plain_meta (dp_meta demo_proto)" "proto_len demo_proto = 3"
  by (simp_all add: demo_proto_def proto_wf_def cols_wf_def plain_meta_def proto_len_def)


section \<open>Padding\<close>

lemma padding_protos_ok:
  assumes "proto_wf d" "0 < proto_len d"
  shows "\<exists>ts. padding_protos d r = Inr (map (\<lambda>t. rows_map (take t) t d) ts)
    \<and> sum_list ts = r \<and> (\<forall>t\<in>set ts. t \<le> proto_len d)"
proof (induction r rule: less_induct)
  case (less r)
  show ?case
  proof (cases "r = 0")
    case True
    then show ?thesis by (intro exI [of _ "[]"]) (simp add: padding_protos.simps [of d 0])
  next
    case False
    let ?t = "min r (proto_len d)"
    have "r - ?t < r" using False assms(2) by simp
    from less.IH [OF this] obtain ts where ts: "padding_protos d (r - ?t) = Inr (map (\<lambda>t. rows_map (take t) t d) ts)"
      "sum_list ts = r - ?t" "\<forall>t\<in>set ts. t \<le> proto_len d" by blast
    have "padding_protos d r = Inr (map (\<lambda>t. rows_map (take t) t d) (?t # ts))"
      using False assms(2) ts(1) slice_take_ok [OF assms(1), of ?t]
      by (subst padding_protos.simps) (simp add: Let_def)
    with ts show ?thesis by (intro exI [of _ "?t # ts"]) simp
  qed
qed

lemma pad_ok:
  assumes wf: "proto_wf d" and meta: "plain_meta (dp_meta d)" and ne: "0 < proto_len d"
    and ts: "\<forall>t\<in>set ts. t \<le> proto_len d"
  shows "concat_proto (d # map (\<lambda>t. rows_map (take t) t d) ts)
    = Inr (rows_map (\<lambda>v. v @ concat (map (\<lambda>t. take t v) ts)) (proto_len d + sum_list ts) d)"
proof -
  let ?fs = "(\<lambda>v :: 'a list. v, proto_len d) # map (\<lambda>t. (take t, t)) ts"
  have "d = rows_map (\<lambda>v. v) (proto_len d) d" using rows_map_id [OF wf, of "\<lambda>v. v"] by simp
  then have eq: "d # map (\<lambda>t. rows_map (take t) t d) ts = map (\<lambda>x. rows_map (fst x) (snd x) d) ?fs" by simp
  have "concat_proto (map (\<lambda>x. rows_map (fst x) (snd x) d) ?fs)
      = Inr (rows_map (\<lambda>v. concat (map (\<lambda>x. fst x v) ?fs)) (sum_list (map snd ?fs)) d)"
    by (rule concat_rows_map [OF wf _ meta]) (use ts in auto)
  then show ?thesis unfolding eq by (simp add: comp_def)
qed

text \<open>
  C16. \<open>pad_dataproto_to_divisor\<close> returns a consistent batch whose length is the next multiple of
  the divisor, fewer than \<open>k\<close> rows longer, however few rows there are to copy from (the padding loop
  ends), and \<open>unpad_dataproto\<close> with the returned pad size gives back exactly the original batch.
\<close>

theorem pad_unpad_roundtrip:
  assumes "proto_wf d" "plain_meta (dp_meta d)" "0 < k"
  shows "\<exists>padded p. pad_dataproto_to_divisor d k = Inr (padded, p) \<and> proto_wf padded
    \<and> proto_len padded = proto_len d + p \<and> k dvd proto_len padded \<and> p < k \<and> unpad_dataproto padded p = Inr d"
proof (cases "proto_len d mod k = 0")
  case True
  with assms show ?thesis
    by (intro exI [of _ d] exI [of _ 0]) (auto simp: pad_dataproto_to_divisor_def unpad_dataproto_def)
next
  case False
  let ?n = "proto_len d"
  let ?p = "k - ?n mod k"
  have ne: "0 < ?n" using False by (cases ?n) auto
  have md: "?n = k * (?n div k) + ?n mod k" "?n mod k < k" using assms(3) by simp_all
  then have "?n + ?p = k * (?n div k) + k" by linarith
  then have dvd: "k dvd ?n + ?p" by (metis dvd_add_right_iff dvd_refl dvd_triv_left)
  have p: "0 < ?p" "?p < k" using md(2) False by simp_all
  obtain ts where ts: "padding_protos d ?p = Inr (map (\<lambda>t. rows_map (take t) t d) ts)"
    "sum_list ts = ?p" "\<forall>t\<in>set ts. t \<le> ?n" using padding_protos_ok [OF assms(1) ne] by blast
  let ?f = "\<lambda>v :: 'a list. v @ concat (map (\<lambda>t. take t v) ts)"
  let ?P = "rows_map ?f (?n + ?p) d"
  have run: "pad_dataproto_to_divisor d k = Inr (?P, ?p)"
    using False assms(3) ts(1) pad_ok [OF assms(1,2) ne ts(3)] by (simp add: pad_dataproto_to_divisor_def Let_def ts(2))
  have len: "length (?f v) = ?n + ?p" if "length v = ?n" for v
  proof -
    have "map (\<lambda>t. length (take t v)) ts = ts" using ts(3) that by (intro map_idI) simp
    then show ?thesis using that ts(2) by (simp add: length_concat comp_def)
  qed
  have wf: "proto_wf ?P" by (rule proto_wf_rows_map [OF assms(1) len])
  have plen: "proto_len ?P = ?n + ?p" by (rule proto_len_rows_map [OF assms(1) len proto_nonempty_columns [OF ne]])
  have "unpad_dataproto ?P ?p = slice ?P None (Some (- int ?p)) None" using p(1) by (simp add: unpad_dataproto_def)
  also have "\<dots> = Inr (rows_map (take (?n + ?p - ?p)) (?n + ?p - ?p) ?P)"
    using slice_drop_last_ok [OF wf p(1)] plen by simp
  also have "rows_map (take (?n + ?p - ?p)) (?n + ?p - ?p) ?P = rows_map (take ?n \<circ> ?f) ?n d"
    by (simp only: rows_map_comp diff_add_inverse2)
  also have "\<dots> = d" by (rule rows_map_id [OF assms(1)]) simp
  finally show ?thesis using run wf plen p dvd by metis
qed

theorem pad_unpad_roundtrip_witness:
  "\<exists>padded p. pad_dataproto_to_divisor demo_proto 8 = Inr (padded, p) \<and> proto_wf padded
    \<and> proto_len padded = proto_len demo_proto + p \<and> 8 dvd proto_len padded \<and> p < 8
    \<and> unpad_dataproto padded p = Inr demo_proto"
  by (rule pad_unpad_roundtrip [OF demo_proto_ok(1,2)]) simp

section \<open>Repetition and union\<close>

lemma repeat_ok:
  assumes "proto_wf d"
  shows "repeat d r b = Inr (rows_map (repeat_rows r b) (proto_len d * r) d)"
proof -
  have len: "length (repeat_rows r b v) = proto_len d * r" if "length v = proto_len d" for v :: "'a list"
    using that by (simp add: repeat_rows_def length_concat comp_def sum_list_triv sum_list_replicate)
  have "(case dp_batch d of None \<Rightarrow> Inr None | Some td \<Rightarrow>
      rbind (td_make (map_cols (repeat_rows r b) (td_cols td)) (td_bs td * r)) (\<lambda>td'. Inr (Some td')))
    = Inr (dp_batch (rows_map (repeat_rows r b) (proto_len d * r) d))"
  proof (cases "dp_batch d")
    case (Some td)
    then have "td_bs td = proto_len d" "cols_wf (proto_len d) (td_cols td)" using proto_wf_lens(1) [OF assms] by simp_all
    moreover from cols_wf_map_cols [OF this(2) len]
    have "td_make (map_cols (repeat_rows r b) (td_cols td)) (proto_len d * r)
        = Inr \<lparr>td_cols = map_cols (repeat_rows r b) (td_cols td), td_bs = proto_len d * r\<rparr>" by (rule td_make_ok)
    ultimately show ?thesis by (simp add: Some rows_map_def)
  qed (simp add: rows_map_def)
  then show ?thesis using mk_rows_map [OF assms len] by (simp add: repeat_def) (simp add: rows_map_def)
qed

lemma nth_interleave: "i < length xs * r \<Longrightarrow> repeat_rows r True xs ! i = xs ! (i div r)"
proof (induction xs arbitrary: i)
  case (Cons x xs)
  have r: "0 < r" using Cons.prems by (cases r) auto
  show ?case
  proof (cases "i < r")
    case True
    then show ?thesis by (simp add: repeat_rows_def nth_append)
  next
    case False
    then have "repeat_rows r True (x # xs) ! i = repeat_rows r True xs ! (i - r)"
      by (simp add: repeat_rows_def nth_append)
    also have "\<dots> = xs ! ((i - r) div r)" using Cons.prems False by (intro Cons.IH) simp
    also have "\<dots> = (x # xs) ! (i div r)" using False r by (simp add: le_div_geq)
    finally show ?thesis .
  qed
qed simp

lemma nth_tile: "i < length xs * r \<Longrightarrow> repeat_rows r False xs ! i = xs ! (i mod length xs)"
proof (induction r arbitrary: i)
  case (Suc r)
  show ?case
  proof (cases "i < length xs")
    case True
    then show ?thesis by (simp add: repeat_rows_def nth_append)
  next
    case False
    then have "repeat_rows (Suc r) False xs ! i = repeat_rows r False xs ! (i - length xs)"
      by (simp add: repeat_rows_def nth_append)
    also have "\<dots> = xs ! ((i - length xs) mod length xs)" using Suc.prems False by (intro Suc.IH) simp
    also have "(i - length xs) mod length xs = i mod length xs" using False by (simp add: le_mod_geq)
    finally show ?thesis .
  qed
qed simp

text \<open>
  \<open>repeat\<close> of a consistent batch never fails, multiplies its length, keeps the columns and the
  meta dict, and places the copies as documented: interleaved, row \<open>i\<close> of the result is row
  \<open>i div r\<close> (the copies of a prompt are adjacent); stacked, it is row \<open>i mod n\<close>.
\<close>

lemma repeat_rows_placed:
  assumes "proto_wf d"
  shows "\<exists>d'. repeat d r interleave = Inr d' \<and> proto_wf d' \<and> dp_meta d' = dp_meta d
    \<and> map fst (dp_non_tensor d') = map fst (dp_non_tensor d)
    \<and> (\<forall>td. dp_batch d = Some td \<longrightarrow> (\<exists>td'. dp_batch d' = Some td' \<and> td_bs td' = td_bs td * r
         \<and> map fst (td_cols td') = map fst (td_cols td)))
    \<and> (\<forall>c<length (dp_non_tensor d). \<forall>i<proto_len d * r.
         snd (dp_non_tensor d' ! c) ! i
           = snd (dp_non_tensor d ! c) ! (if interleave then i div r else i mod proto_len d))
    \<and> (\<forall>td td'. dp_batch d = Some td \<and> dp_batch d' = Some td' \<longrightarrow>
         (\<forall>c<length (td_cols td). \<forall>i<proto_len d * r.
            snd (td_cols td' ! c) ! i = snd (td_cols td ! c) ! (if interleave then i div r else i mod proto_len d)))"
proof -
  let ?d = "rows_map (repeat_rows r interleave) (proto_len d * r) d"
  have len: "length (repeat_rows r interleave v) = proto_len d * r" if "length v = proto_len d" for v :: "'a list"
    using that by (simp add: repeat_rows_def length_concat comp_def sum_list_triv sum_list_replicate)
  have col: "snd (map_cols (repeat_rows r interleave) cols ! c) ! i
      = snd (cols ! c) ! (if interleave then i div r else i mod proto_len d)"
    if "cols_wf (proto_len d) cols" "c < length cols" "i < proto_len d * r" for cols :: "(string \<times> 'a list) list" and c i
  proof -
    have l: "length (snd (cols ! c)) = proto_len d" using that(1,2) by (auto simp: cols_wf_def dest!: nth_mem)
    have "snd (map_cols (repeat_rows r interleave) cols ! c) = repeat_rows r interleave (snd (cols ! c))"
      using that(2) by (cases "cols ! c") (simp add: map_cols_def)
    then show ?thesis using that(3) l by (cases interleave) (simp_all add: nth_interleave nth_tile)
  qed
  have "proto_wf ?d" by (rule proto_wf_rows_map [OF assms len])
  moreover have "\<forall>td. dp_batch d = Some td \<longrightarrow> td_bs td = proto_len d \<and> cols_wf (proto_len d) (td_cols td)"
    by (rule proto_wf_lens(1) [OF assms])
  ultimately show ?thesis using repeat_ok [OF assms] col proto_wf_lens(2) [OF assms]
    by (intro exI [of _ ?d]) (auto simp: rows_map_def)
qed

definition dict_agree :: "('k \<times> 'v) list \<Rightarrow> ('k \<times> 'v) list \<Rightarrow> bool" where
  "dict_agree d1 d2 \<longleftrightarrow> (\<forall>(k, w)\<in>set d2. \<forall>v. map_of d1 k = Some v \<longrightarrow> v = w)"

lemma union_fold:
  assumes step: "\<And>k v d. F (k, v) d = (case map_of d k of None \<Rightarrow> Inr (AList.update k v d)
      | Some w \<Rightarrow> if w = v then Inr (G k v d) else Inl AssertionError)"
    and keep: "\<And>k v d. map_of d k = Some v \<Longrightarrow> map_of (G k v d) = map_of d"
    and "distinct (map fst d2)"
  shows "if dict_agree d1 d2 then (\<exists>u. fold_r F d2 d1 = Inr u \<and> map_of u = map_of d1 ++ map_of d2)
    else fold_r F d2 d1 = Inl AssertionError"
  using assms(3)
proof (induction d2 arbitrary: d1)
  case Nil
  then show ?case by (simp add: dict_agree_def)
next
  case (Cons kv d2)
  obtain k v where kv: "kv = (k, v)" by (cases kv)
  have dist: "k \<notin> fst ` set d2" "distinct (map fst d2)" using Cons.prems by (auto simp: kv)
  show ?case
  proof (cases "\<exists>w. map_of d1 k = Some w \<and> w \<noteq> v")
    case True
    then show ?thesis by (auto simp: kv step dict_agree_def)
  next
    case False
    define d where "d = (case map_of d1 k of None \<Rightarrow> AList.update k v d1 | Some _ \<Rightarrow> G k v d1)"
    have F: "F kv d1 = Inr d" using False by (auto simp: kv step d_def split: option.split)
    have upd: "map_of d = (map_of d1)(k \<mapsto> v)"
      using False keep by (auto simp: d_def update_conv' fun_upd_idem split: option.split)
    have agree: "dict_agree d1 (kv # d2) \<longleftrightarrow> dict_agree d d2"
    proof -
      have "map_of d k' = map_of d1 k'" if "(k', w) \<in> set d2" for k' w
        using that dist(1) by (force simp: upd)
      then have "dict_agree d d2 \<longleftrightarrow> dict_agree d1 d2" unfolding dict_agree_def by (intro ball_cong) auto
      then show ?thesis using False by (auto simp: dict_agree_def kv)
    qed
    have maps: "map_of d1 ++ map_of (kv # d2) = map_of d ++ map_of d2"
    proof -
      have "map_of d2 k = None" using dist(1) by (simp add: map_of_eq_None_iff)
      then show ?thesis by (auto simp: kv upd map_add_def fun_eq_iff split: option.split)
    qed
    show ?thesis using Cons.IH [OF dist(2), of d] unfolding agree maps by (simp add: F)
  qed
qed

lemma union_dict_ok:
  assumes "distinct (map fst d2)"
  shows "if dict_agree d1 d2 then (\<exists>u. union_dict d1 d2 = Inr u \<and> map_of u = map_of d1 ++ map_of d2)
    else union_dict d1 d2 = Inl AssertionError"
  unfolding union_dict_def
  by (rule union_fold [where G = AList.update, OF _ _ assms]) (auto simp: update_conv' fun_upd_idem)

lemma union_tensor_dict_ok:
  assumes "distinct (map fst (td_cols b))" "td_bs a = td_bs b"
  shows "if dict_agree (td_cols a) (td_cols b)
    then (\<exists>td. union_tensor_dict (Some a) (Some b) = Inr (Some td) \<and> td_bs td = td_bs a
            \<and> map_of (td_cols td) = map_of (td_cols a) ++ map_of (td_cols b))
    else union_tensor_dict (Some a) (Some b) = Inl AssertionError"
proof -
  let ?F = "\<lambda>(k, v) cols. case map_of cols k of None \<Rightarrow> Inr (AList.update k v cols)
      | Some w \<Rightarrow> if w = v then Inr cols else Inl AssertionError"
  have "if dict_agree (td_cols a) (td_cols b)
    then (\<exists>u. fold_r ?F (td_cols b) (td_cols a) = Inr u \<and> map_of u = map_of (td_cols a) ++ map_of (td_cols b))
    else fold_r ?F (td_cols b) (td_cols a) = Inl AssertionError"
    by (rule union_fold [where G = "\<lambda>k v d. d", OF _ _ assms(1)]) auto
  then show ?thesis using assms(2) by (auto simp: union_tensor_dict_def split: if_splits)
qed

text \<open>
  \<open>union\<close> of two batches with tensors succeeds exactly when the batch sizes are equal and every
  key the two share, in the tensors, the object columns and the meta dict, has equal values; the
  result then maps each key to the value either of them has.  Any disagreement is an
  \<open>AssertionError\<close>, so no value is overwritten silently.
\<close>

lemma union_exact:
  assumes "dp_batch d1 = Some a" "dp_batch d2 = Some b" "distinct (map fst (td_cols b))"
    and "distinct (map fst (dp_non_tensor d2))" "distinct (map fst (dp_meta d2))"
  shows "if td_bs a = td_bs b \<and> dict_agree (td_cols a) (td_cols b)
        \<and> dict_agree (dp_non_tensor d1) (dp_non_tensor d2) \<and> dict_agree (dp_meta d1) (dp_meta d2)
    then (\<exists>u td. union_proto d1 d2 = Inr u \<and> dp_batch u = Some td \<and> td_bs td = td_bs a
            \<and> map_of (td_cols td) = map_of (td_cols a) ++ map_of (td_cols b)
            \<and> map_of (dp_non_tensor u) = map_of (dp_non_tensor d1) ++ map_of (dp_non_tensor d2)
            \<and> map_of (dp_meta u) = map_of (dp_meta d1) ++ map_of (dp_meta d2))
    else union_proto d1 d2 = Inl AssertionError"
proof (cases "td_bs a = td_bs b")
  case False
  then show ?thesis by (simp add: union_proto_def union_tensor_dict_def assms(1,2))
next
  case True
  show ?thesis
    using union_tensor_dict_ok [OF assms(3) True] union_dict_ok [OF assms(4), of "dp_non_tensor d1"]
      union_dict_ok [OF assms(5), of "dp_meta d1"] True
    by (auto simp: union_proto_def assms(1,2) split: if_splits)
qed

definition demo_scores :: "int data_proto" where
  "demo_scores = \<lparr>dp_batch = Some \<lparr>td_cols = [(''lp'', [0, 0, 1])], td_bs = 3\<rparr>,
     dp_non_tensor = [(''uid'', [7, 7, 8])], dp_meta = [(''step'', MInt 4)]\<rparr>"

end
