(* ===== verification/Opd_Trainer.thy ===== *)
theory Opd_Trainer
  imports Teacher_Worker Template_Prompt Data_Proto
begin

text \<open>
  \<open>verl/trainer/ppo/opd_trainer_mixin.py\<close>: the hooks of the PPO trainer for on-policy distillation:
  which \<open>K\<close> to extract from the student, the check for strictly on-policy updates, the installation of
  the teacher reward as the token-level score, and the metrics of both.  The call of the teacher
  worker group is an argument; \<open>Teacher_Worker\<close> models what runs behind it.
\<close>

section \<open>Configuration\<close>

record opd_settings =
  os_use_teacher :: bool
  os_log_prob_top_k :: "int option"
  os_metric_top_k :: "int option"
  os_ppo_epochs :: int
  os_mini_batch_size :: int
  os_train_batch_size :: int

text \<open>\<open>distillation\<close>, its \<open>fsdp_teacher\<close> and \<open>enabled\<close> may each be absent; the same for \<open>template\<close>.\<close>

definition opd_teacher_enabled :: "bool option option option \<Rightarrow> bool" where
  "opd_teacher_enabled distillation = (case distillation of
       None \<Rightarrow> False
     | Some None \<Rightarrow> False
     | Some (Some e) \<Rightarrow> (case e of None \<Rightarrow> False | Some b \<Rightarrow> b))"

definition template_enabled :: "bool option option \<Rightarrow> bool" where
  "template_enabled template = (case template of None \<Rightarrow> False | Some e \<Rightarrow> (case e of None \<Rightarrow> False | Some b \<Rightarrow> b))"

definition int_or_zero :: "int option \<Rightarrow> int" where
  "int_or_zero x = (case x of None \<Rightarrow> 0 | Some n \<Rightarrow> n)"

definition opd_student_top_k :: "opd_settings \<Rightarrow> int" where
  "opd_student_top_k c =
     (if \<not> os_use_teacher c then 0
      else if int_or_zero (os_log_prob_top_k c) > 0 then int_or_zero (os_log_prob_top_k c)
      else int_or_zero (os_metric_top_k c))"

definition opd_top_k_is_reward :: "opd_settings \<Rightarrow> bool" where
  "opd_top_k_is_reward c \<longleftrightarrow> os_use_teacher c \<and> int_or_zero (os_log_prob_top_k c) > 0"

definition validate_opd_top_k_config :: "opd_settings \<Rightarrow> unit result" where
  "validate_opd_top_k_config c =
     (if \<not> opd_top_k_is_reward c then Inr ()
      else if os_ppo_epochs c \<noteq> 1 \<or> os_mini_batch_size c \<noteq> os_train_batch_size c then Inl ValueError
      else Inr ())"

section \<open>The teacher reward\<close>

datatype worker_metric = WScalar fl | WList "fl option list"

definition mean_metric :: "worker_metric option \<Rightarrow> fl option" where
  "mean_metric v = (case v of
       None \<Rightarrow> None
     | Some (WScalar x) \<Rightarrow> Some x
     | Some (WList xs) \<Rightarrow>
         (let nums = map the (filter (\<lambda>x. x \<noteq> None) xs) in
          if nums = [] then None else Some (fl_div (sum_list nums) (of_nat (max (length nums) 1)))))"

record teacher_reply =
  tr_rm_scores :: scores
  tr_teacher_log_probs :: "fl list list"
  tr_teachers :: "string list option"
  tr_metrics :: "(string \<times> worker_metric) list option"

record opd_batch =
  ob_scores :: "scores option"
  ob_true_scores :: "scores option"
  ob_teacher_log_probs :: "fl list list option"
  ob_response_mask :: "real list list option"
  ob_top_k_is_reward :: "bool option"

type_synonym trainer_metrics = "(string \<times> fl) list"

definition masked_total :: "scores \<Rightarrow> real list list \<Rightarrow> fl" where
  "masked_total s m = (case s of
       Token_scores x \<Rightarrow> sum_list (concat (apply_mask (Some m) x))
     | Candidate_scores x \<Rightarrow> sum_list (concat (concat (apply_mask3 (Some m) x))))"

definition put_metric :: "string \<Rightarrow> fl option \<Rightarrow> trainer_metrics \<Rightarrow> trainer_metrics" where
  "put_metric key v ms = (case v of None \<Rightarrow> ms | Some x \<Rightarrow> AList.update key x ms)"

definition routing_counts :: "string list \<Rightarrow> (string \<times> nat) list" where
  "routing_counts ts = map (\<lambda>n. (n, count_list ts n)) (sort (remdups ts))"

definition routing_metrics :: "string list option \<Rightarrow> trainer_metrics \<Rightarrow> trainer_metrics" where
  "routing_metrics routed ms = (case routed of None \<Rightarrow> ms
     | Some ts \<Rightarrow> fold (\<lambda>(n, c). AList.update (''mopd/routed/'' @ n) (Fin (of_nat c))) (routing_counts ts) ms)"

definition overlap_metrics :: "opd_settings \<Rightarrow> (string \<times> worker_metric) list \<Rightarrow> trainer_metrics \<Rightarrow> trainer_metrics" where
  "overlap_metrics c wm ms =
     (let ms1 = (case mean_metric (map_of wm ''top_k_overlap_ratio'') of None \<Rightarrow> ms
          | Some o' \<Rightarrow> AList.update ''opd/top_k_mode'' (if opd_top_k_is_reward c then 1 else 0)
                        (AList.update ''opd/top_k_overlap_ratio'' o' ms)) in
      fold (\<lambda>key. put_metric (''opd/'' @ key) (mean_metric (map_of wm key)))
        [''top_k_student_mass'', ''top_k_teacher_mass'', ''top_k_reward_mean''] ms1)"

definition compute_opd_token_reward ::
  "opd_settings \<Rightarrow> (opd_batch \<Rightarrow> teacher_reply result) \<Rightarrow> opd_batch \<Rightarrow> trainer_metrics \<Rightarrow> (opd_batch \<times> trainer_metrics) result" where
  "compute_opd_token_reward c compute_rm batch metrics =
     (let b0 = batch\<lparr>ob_top_k_is_reward := Some (opd_top_k_is_reward c)\<rparr> in
      rbind (compute_rm b0) (\<lambda>out.
      let b1 = (case ob_scores b0 of None \<Rightarrow> b0 | Some s \<Rightarrow> b0\<lparr>ob_true_scores := Some s\<rparr>) in
      case ob_response_mask b1 of
        None \<Rightarrow> Inl KeyError
      | Some m \<Rightarrow>
          (let b2 = b1\<lparr>ob_scores := Some (tr_rm_scores out), ob_teacher_log_probs := Some (tr_teacher_log_probs out)\<rparr>;
               n_tokens = max (of_int \<lfloor>sum_list (concat m)\<rfloor>) 1;
               ms1 = AList.update ''opd/token_reward_mean'' (fl_div (masked_total (tr_rm_scores out) m) n_tokens) metrics;
               ms2 = AList.update ''opd/teacher_logp_mean''
                       (fl_div (sum_list (concat (apply_mask (Some m) (tr_teacher_log_probs out)))) n_tokens) ms1;
               ms3 = routing_metrics (tr_teachers out) ms2 in
           Inr (b2, overlap_metrics c (case tr_metrics out of None \<Rightarrow> [] | Some wm \<Rightarrow> wm) ms3))))"

section \<open>The teacher group behind the hook\<close>

text \<open>
  \<open>opd_teacher_wg.compute_rm_score\<close>: \<open>DP_COMPUTE_PROTO\<close> cuts the batch into equal parts, one for each of the \<open>R\<close> ranks (a batch
  that needs no padding; \<open>Dispatch\<close> has the padding), every rank runs \<open>compute_rm_score\<close>, and the replies are concatenated.  The
  response mask and the reward mode are the ones in the hook's batch.
\<close>

definition shards_of :: "nat \<Rightarrow> 'i rm_data \<Rightarrow> 'i rm_data list" where
  "shards_of R d = (let k = length (rd_rows d) div R in
     map (\<lambda>r. let part = \<lambda>xs. take k (drop (r * k) xs); part' = \<lambda>xs. take k (drop (r * k) xs) in
       d\<lparr>rd_rows := take k (drop (r * k) (rd_rows d)), rd_ability := map_option part (rd_ability d),
         rd_response_mask := map_option part' (rd_response_mask d)\<rparr>) [0..<R])"

definition cat_scores :: "scores list \<Rightarrow> scores result" where
  "cat_scores xs =
     (if list_all (\<lambda>x. case x of Token_scores _ \<Rightarrow> True | _ \<Rightarrow> False) xs
      then Inr (Token_scores (concat (map (\<lambda>x. case x of Token_scores t \<Rightarrow> t | _ \<Rightarrow> []) xs)))
      else if list_all (\<lambda>x. case x of Candidate_scores _ \<Rightarrow> True | _ \<Rightarrow> False) xs
      then Inr (Candidate_scores (concat (map (\<lambda>x. case x of Candidate_scores t \<Rightarrow> t | _ \<Rightarrow> []) xs)))
      else Inl RuntimeError)"

definition rank_metrics :: "rm_output \<Rightarrow> (string \<times> fl) list" where
  "rank_metrics out = (case ro_top_k_metrics out of None \<Rightarrow> []
     | Some t \<Rightarrow> [(''top_k_overlap_ratio'', Fin (tm_overlap_ratio t)), (''top_k_student_mass'', tm_student_mass t),
                  (''top_k_teacher_mass'', tm_teacher_mass t), (''top_k_reward_mean'', tm_reward_mean t)])"

definition reply_of :: "rm_output list \<Rightarrow> teacher_reply result" where
  "reply_of outs =
     rbind (cat_scores (map ro_rm_scores outs)) (\<lambda>sc.
     rbind (list_of_dict_to_dict_of_list (map rank_metrics outs)) (\<lambda>ms.
     Inr \<lparr>tr_rm_scores = sc, tr_teacher_log_probs = concat (map ro_teacher_log_probs outs),
          tr_teachers = Some (concat (map ro_mopd_teacher outs)), tr_metrics = Some (map (\<lambda>(k, xs). (k, WList (map Some xs))) ms)\<rparr>))"

definition teacher_group ::
  "('i, 'm) teacher_env \<Rightarrow> fsdp_teacher_config \<Rightarrow> nat \<Rightarrow> 'i rm_data \<Rightarrow> opd_batch \<Rightarrow> teacher_reply result" where
  "teacher_group env cfg R data b =
     rbind (cluster_scores env cfg (shards_of R (data\<lparr>rd_response_mask := ob_response_mask b,
              rd_top_k_is_reward := (ob_top_k_is_reward b = Some True)\<rparr>))) reply_of"

section \<open>Template metrics\<close>

text \<open>An exception in the monitoring leaves the metrics unchanged.\<close>

definition log_template_metrics ::
  "unicode \<Rightarrow> nat \<Rightarrow> codes \<Rightarrow> codes list result \<Rightarrow> (string \<times> real) list \<Rightarrow> (string \<times> real) list" where
  "log_template_metrics u min_char_length task decoded ms = (case decoded of
       Inl _ \<Rightarrow> ms
     | Inr texts \<Rightarrow>
         (let r = filter_valid_texts u (map Some texts) min_char_length task in
          fold (\<lambda>(reason, n). AList.update (''template/reject_'' @ reason) (of_nat n)) (fr_reasons r)
            (AList.update ''template/rejected_count'' (of_nat (fr_rejected r))
              (AList.update ''template/valid_count'' (of_nat (fr_valid r))
                (AList.update ''template/valid_ratio'' (valid_ratio r) ms)))))"

section \<open>Shards\<close>

lemma concat_blocks: "concat (map (\<lambda>r. map (\<lambda>i. G (r * k + i)) [0..<k]) [0..<R]) = map G [0..<R * k]"
proof (induction R)
  case (Suc R)
  have "map G [R * k..<R * k + k] = map (\<lambda>i. G (R * k + i)) [0..<k]" by (rule nth_equalityI) auto
  moreover have "[0..<Suc R * k] = [0..<R * k] @ [R * k..<R * k + k]" by (metis add.commute le0 mult_Suc upt_add_eq_append)
  ultimately show ?case using Suc.IH by simp
qed simp

lemma shard_nth:
  assumes "r < R" "i < k" "R * k = n" "n \<le> length xs"
  shows "take k (drop (r * k) xs) ! i = xs ! (r * k + i)" "r * k + i < n" "length (take k (drop (r * k) xs)) = k"
proof -
  have "Suc r * k \<le> R * k" using assms(1) by (intro mult_le_mono1) simp
  then have "r * k + k \<le> n" using assms(3) by simp
  then show "take k (drop (r * k) xs) ! i = xs ! (r * k + i)" "r * k + i < n" "length (take k (drop (r * k) xs)) = k"
    using assms(2,4) by simp_all
qed

lemma route_spec_shard:
  assumes "routable ab n a2t strict" "r < R" "i < k" "R * k = n"
  shows "route_spec (map_option (\<lambda>xs. take k (drop (r * k) xs)) ab) a2t d i = route_spec ab a2t d (r * k + i)"
proof (cases "a2t = []")
  case False
  show ?thesis
  proof (cases ab)
    case (Some abl)
    with assms(1) False have "n \<le> length abl" by (simp add: routable_def)
    from shard_nth(1) [OF assms(2-4) this] show ?thesis by (simp only: Some route_spec_def option.map option.case)
  qed (simp add: route_spec_def)
qed (simp add: route_spec_def split: option.split)

lemma routable_shard:
  assumes "routable ab n a2t strict" "r < R" "0 < k" "R * k = n"
  shows "routable (map_option (\<lambda>xs. take k (drop (r * k) xs)) ab) k a2t strict"
proof (cases ab)
  case (Some abl)
  show ?thesis
  proof (cases "a2t = []")
    case False
    then have n: "n \<le> length abl" "strict \<Longrightarrow> \<forall>i<n. map_of a2t (abl ! i) \<noteq> None" using assms(1) by (auto simp: routable_def Some)
    have "map_of a2t (take k (drop (r * k) abl) ! i) \<noteq> None" if "strict" "i < k" for i
      using shard_nth [OF assms(2) that(2) assms(4) n(1)] n(2) that(1) by metis
    then show ?thesis using shard_nth(3) [OF assms(2,3,4) n(1)] by (auto simp: routable_def Some)
  qed (simp add: routable_def)
qed (use assms(1) in \<open>auto simp: routable_def\<close>)

text \<open>The kind of reward a rank returns.\<close>

lemma compute_rm_score_mode:
  assumes "compute_rm_score env cfg modules data = Inr out"
  shows "if 0 < effective_top_k cfg data \<and> rd_top_k_is_reward data then \<exists>x. ro_rm_scores out = Candidate_scores x
    else ro_rm_scores out = Token_scores (apply_mask (rd_response_mask data)
           (zip_with reverse_kl (map rr_old_log_probs (rd_rows data)) (ro_teacher_log_probs out)))"
    "(ro_top_k_metrics out = None) = (effective_top_k cfg data = 0)"
proof -
  let ?rows = "rd_rows data" and ?k = "effective_top_k cfg data"
  define base where "base = (\<lambda>routes (st :: rm_state). \<lparr>ro_rm_scores = Token_scores (apply_mask (rd_response_mask data)
        (zip_with reverse_kl (map rr_old_log_probs ?rows) (st_teacher_log_probs st))), ro_teacher_log_probs = st_teacher_log_probs st,
      ro_top_k_reward = None, ro_mopd_teacher = routes, ro_teacher_counts = map (\<lambda>(k, v). (k, length v)) (sort_key fst (group_rows_by_teacher routes)),
      ro_top_k_metrics = None, ro_issued = st_issued st\<rparr>)"
  let ?final = "\<lambda>routes st. if ?k = 0 then Inr (base routes st) else (case st_top_k_parts st of
      None \<Rightarrow> Inl KeyError
    | Some parts \<Rightarrow> rbind (top_k_rewards cfg ?rows parts) (\<lambda>reward.
        let reward = apply_mask3 (rd_response_mask data) reward;
            out = base routes st\<lparr>ro_top_k_metrics := Some (top_k_report ?rows (rd_response_mask data) parts reward)\<rparr> in
        Inr (if rd_top_k_is_reward data then out\<lparr>ro_rm_scores := Candidate_scores reward\<rparr> else out\<lparr>ro_top_k_reward := Some reward\<rparr>)))"
  have k: "(\<not> (nat (if log_prob_top_k cfg \<noteq> 0 then log_prob_top_k cfg else metric_top_k cfg) > 0
      \<and> rd_has_top_k_ids data \<and> rd_has_top_k_log_probs data)) = (?k = 0)" by (auto simp: effective_top_k_def)
  have "\<exists>routes st. ?final routes st = Inr out"
    using assms unfolding compute_rm_score_def Let_def k rbind_eq_Inr_iff base_def by (elim exE conjE) (intro exI)
  then obtain routes st where f: "?final routes st = Inr out" by blast
  have r: "if ?k = 0 then out = base routes st else
      (\<exists>reward t. out = (if rd_top_k_is_reward data then base routes st\<lparr>ro_top_k_metrics := Some t, ro_rm_scores := Candidate_scores reward\<rparr>
        else base routes st\<lparr>ro_top_k_metrics := Some t, ro_top_k_reward := Some reward\<rparr>))"
  proof (cases "?k = 0")
    case False
    then obtain parts reward where "st_top_k_parts st = Some parts" "top_k_rewards cfg ?rows parts = Inr reward"
      using f by (cases "st_top_k_parts st"; cases "top_k_rewards cfg ?rows (the (st_top_k_parts st))") (simp_all add: rbind_def)
    with f False show ?thesis unfolding if_not_P [OF False]
      by (intro exI [of _ "apply_mask3 (rd_response_mask data) reward"] exI [of _ "top_k_report ?rows (rd_response_mask data) parts
            (apply_mask3 (rd_response_mask data) reward)"]) (simp add: rbind_def Let_def)
  qed (use f in simp)
  then show "if 0 < ?k \<and> rd_top_k_is_reward data then \<exists>x. ro_rm_scores out = Candidate_scores x
    else ro_rm_scores out = Token_scores (apply_mask (rd_response_mask data)
           (zip_with reverse_kl (map rr_old_log_probs (rd_rows data)) (ro_teacher_log_probs out)))" "(ro_top_k_metrics out = None) = (?k = 0)"
    by (auto simp: base_def split: if_splits)
qed

lemma post_init_top_k:
  assumes "post_init cfg0 = Inr cfg"
  shows "log_prob_top_k cfg = log_prob_top_k cfg0" "metric_top_k cfg = metric_top_k cfg0" "enabled cfg0 \<Longrightarrow> 0 \<le> log_prob_top_k cfg"
  using assms by (auto simp: post_init_def Let_def split: if_splits option.splits)

section \<open>Metrics\<close>

lemma put_items_ok:
  assumes "fst ` set d \<subseteq> fst ` set out"
  shows "\<exists>out'. fold_r (\<lambda>(k, item) out. case map_of out k of None \<Rightarrow> Inl AssertionError | Some xs \<Rightarrow> Inr (AList.update k (xs @ [item]) out)) d out
      = Inr out' \<and> fst ` set out' = fst ` set out"
  using assms
proof (induction d arbitrary: out)
  case (Cons kv d)
  obtain k v where kv: "kv = (k, v)" by (cases kv)
  with Cons.prems obtain xs where xs: "map_of out k = Some xs" by (metis domIff dom_map_of_conv_image_fst fst_conv image_eqI insert_subset list.simps(15) image_insert not_None_eq)
  have "fst ` set (AList.update k (xs @ [v]) out) = fst ` set out" using Cons.prems by (simp add: dom_update kv insert_absorb)
  with Cons.IH [of "AList.update k (xs @ [v]) out"] Cons.prems show ?case by (simp add: kv xs rbind_def)
qed simp

lemma list_of_dict_ok:
  assumes "\<forall>d \<in> set ds. map fst d = ks"
  shows "\<exists>ms. list_of_dict_to_dict_of_list ds = Inr ms"
proof (cases ds)
  case (Cons d rest)
  have f: "fst ` set d = set ks" if "d \<in> set ds" for d using assms that by (metis set_map)
  have "\<exists>ms. fold_r (fold_r (\<lambda>(k, item) out. case map_of out k of None \<Rightarrow> Inl AssertionError | Some xs \<Rightarrow> Inr (AList.update k (xs @ [item]) out))) ds' out
      = Inr ms" if "set ds' \<subseteq> set ds" "fst ` set out = set ks" for ds' out
    using that
  proof (induction ds' arbitrary: out)
    case (Cons d ds')
    then have "fst ` set d \<subseteq> fst ` set out" using f by simp
    from put_items_ok [OF this] Cons.IH Cons.prems show ?case by (fastforce simp: rbind_def)
  qed simp
  moreover have "fst ` set (map (\<lambda>(k, _). (k, [])) d) = set ks" using f [of d] by (force simp: Cons)
  ultimately show ?thesis unfolding list_of_dict_to_dict_of_list_def Cons list.case by blast
qed (simp add: list_of_dict_to_dict_of_list_def)

lemma map_of_routing:
  "map_of (routing_metrics (Some ts) ms) (''mopd/routed/'' @ n) = (if n \<in> set ts then Some (Fin (of_nat (count_list ts n))) else map_of ms (''mopd/routed/'' @ n))"
proof -
  have "map_of (fold (\<lambda>(n, c). AList.update (''mopd/routed/'' @ n) (Fin (of_nat c))) (map (\<lambda>n. (n, f n)) ns) ms) (''mopd/routed/'' @ n)
      = (if n \<in> set ns then Some (Fin (of_nat (f n))) else map_of ms (''mopd/routed/'' @ n))" for f :: "string \<Rightarrow> nat" and ns
    by (induction ns arbitrary: ms) (auto simp: update_conv')
  from this [of "count_list ts" "sort (remdups ts)"] show ?thesis by (simp add: routing_metrics_def routing_counts_def)
qed

lemma map_of_update_opd: "hd k \<noteq> CHR ''o'' \<Longrightarrow> map_of (AList.update (CHR ''o'' # x) v ms) k = map_of ms k"
  by (auto simp: update_conv')

lemma map_of_overlap: "hd k \<noteq> CHR ''o'' \<Longrightarrow> map_of (overlap_metrics c wm ms) k = map_of ms k"
  by (simp add: overlap_metrics_def put_metric_def Let_def map_of_update_opd split: option.split)


section \<open>Properties\<close>

text \<open>The configuration as the trainer reads it.\<close>

definition settings_of :: "fsdp_teacher_config \<Rightarrow> int \<Rightarrow> int \<Rightarrow> int \<Rightarrow> opd_settings" where
  "settings_of cfg epochs mini train = \<lparr>os_use_teacher = True, os_log_prob_top_k = Some (log_prob_top_k cfg),
     os_metric_top_k = Some (metric_top_k cfg), os_ppo_epochs = epochs, os_mini_batch_size = mini, os_train_batch_size = train\<rparr>"

text \<open>What the hook should install: the teacher of a row, its log-probabilities of the row's tokens, and the masked reverse KL.\<close>

definition routed_teacher :: "fsdp_teacher_config \<Rightarrow> 'i rm_data \<Rightarrow> nat \<Rightarrow> string" where
  "routed_teacher cfg data i = route_spec (rd_ability data) (ability_to_teacher cfg) (route_default cfg) i"

definition routed_log_probs ::
  "('i, 'm) teacher_env \<Rightarrow> fsdp_teacher_config \<Rightarrow> ('m \<Rightarrow> 'i \<Rightarrow> fl list list) \<Rightarrow> 'i rm_data \<Rightarrow> nat \<Rightarrow> fl list" where
  "routed_log_probs env cfg lg data i =
     teacher_row_log_probs cfg lg (the (map_of (init_model env cfg) (routed_teacher cfg data i))) (rd_rows data ! i)"

definition row_reward ::
  "('i, 'm) teacher_env \<Rightarrow> fsdp_teacher_config \<Rightarrow> ('m \<Rightarrow> 'i \<Rightarrow> fl list list) \<Rightarrow> 'i rm_data \<Rightarrow> real list list \<Rightarrow> nat \<Rightarrow> fl list" where
  "row_reward env cfg lg data m i =
     zip_with (\<lambda>v w. v * Fin w) (reverse_kl (rr_old_log_probs (rd_rows data ! i)) (routed_log_probs env cfg lg data i)) (m ! i)"

lemma masked_reward_nth:
  assumes "length rows = length lps" "length m = length lps"
  shows "apply_mask (Some m) (zip_with reverse_kl (map rr_old_log_probs rows) lps)
    = map (\<lambda>i. zip_with (\<lambda>v w. v * Fin w) (reverse_kl (rr_old_log_probs (rows ! i)) (lps ! i)) (m ! i)) [0..<length lps]"
  using assms by (intro nth_equalityI) (simp_all add: apply_mask_def)

text \<open>One rank's reply, in the positions of the whole batch.\<close>

lemma group_parts:
  assumes "served_config cfg" "0 < micro_batch_size_per_gpu cfg" "env_ok env lg" "rank_ready cfg lg V (init_model env cfg) data"
    and "R * k = length (rd_rows data)" "rd_response_mask data = Some m" "length m = length (rd_rows data)"
  shows "\<exists>outs. cluster_scores env cfg (shards_of R data) = Inr outs \<and> length outs = R
    \<and> (\<forall>r<R. ro_mopd_teacher (outs ! r) = map (\<lambda>i. routed_teacher cfg data (r * k + i)) [0..<k]
        \<and> ro_teacher_log_probs (outs ! r) = map (\<lambda>i. routed_log_probs env cfg lg data (r * k + i)) [0..<k]
        \<and> ((ro_top_k_metrics (outs ! r) = None) = (effective_top_k cfg data = 0))
        \<and> (if 0 < effective_top_k cfg data \<and> rd_top_k_is_reward data then \<exists>x. ro_rm_scores (outs ! r) = Candidate_scores x
           else ro_rm_scores (outs ! r) = Token_scores (map (\<lambda>i. row_reward env cfg lg data m (r * k + i)) [0..<k])))"
proof -
  let ?rows = "rd_rows data" and ?ms = "init_model env cfg"
  have R: "0 < R" "0 < k" using assms(4,5) by (auto simp: rank_ready_def intro: Nat.gr0I)
  have kd: "length ?rows div R = k" using assms(5) R by (metis nonzero_mult_div_cancel_left not_gr0)
  let ?sh = "\<lambda>r. data\<lparr>rd_rows := take k (drop (r * k) ?rows), rd_ability := map_option (\<lambda>xs. take k (drop (r * k) xs)) (rd_ability data),
      rd_response_mask := Some (take k (drop (r * k) m))\<rparr>"
  have sh: "shards_of R data = map ?sh [0..<R]" using assms(6) by (simp add: shards_of_def kd)
  have e: "effective_top_k cfg (?sh r) = effective_top_k cfg data" for r by (simp add: effective_top_k_def)
  have ready: "\<forall>d\<in>set (shards_of R data). rank_ready cfg lg V ?ms d"
  proof
    fix d assume "d \<in> set (shards_of R data)"
    then obtain r where r: "r < R" "d = ?sh r" by (auto simp: sh)
    have l: "length (take k (drop (r * k) ?rows)) = k" by (rule shard_nth(3) [OF r(1) R(2) assms(5)]) simp
    then have ne: "take k (drop (r * k) ?rows) \<noteq> []" and sub: "set (take k (drop (r * k) ?rows)) \<subseteq> set ?rows"
      using R(2) by (auto dest: in_set_takeD in_set_dropD)
    have "\<forall>(_, m')\<in>set ?ms. \<forall>row\<in>set (take k (drop (r * k) ?rows)). row_wf lg V (effective_top_k cfg data) m' row"
      using assms(4) sub unfolding rank_ready_def by blast
    then show "rank_ready cfg lg V ?ms d"
      using assms(4) routable_shard [OF _ r(1) R(2) assms(5)] l ne unfolding rank_ready_def r(2) e by simp
  qed
  obtain outs n where o: "cluster_scores env cfg (shards_of R data) = Inr outs" "length outs = R"
    "\<forall>r<R. rank_scored cfg lg ?ms n (?sh r) (outs ! r)"
    using cluster_ok [OF assms(3,1,2) ready] by (auto simp: sh)
  have part: "ro_mopd_teacher (outs ! r) = map (\<lambda>i. routed_teacher cfg data (r * k + i)) [0..<k]
        \<and> ro_teacher_log_probs (outs ! r) = map (\<lambda>i. routed_log_probs env cfg lg data (r * k + i)) [0..<k]
        \<and> ((ro_top_k_metrics (outs ! r) = None) = (effective_top_k cfg data = 0))
        \<and> (if 0 < effective_top_k cfg data \<and> rd_top_k_is_reward data then \<exists>x. ro_rm_scores (outs ! r) = Candidate_scores x
           else ro_rm_scores (outs ! r) = Token_scores (map (\<lambda>i. row_reward env cfg lg data m (r * k + i)) [0..<k]))" if r: "r < R" for r
  proof -
    have l: "length (take k (drop (r * k) ?rows)) = k" "length (take k (drop (r * k) m)) = k"
      using shard_nth(3) [OF r R(2) assms(5), of ?rows] shard_nth(3) [OF r R(2) assms(5), of m] assms(7) by (simp_all del: length_take length_drop)
    have rt: "routable (rd_ability data) (length ?rows) (ability_to_teacher cfg) (strict_routing cfg)" using assms(4) by (simp add: rank_ready_def)
    have sc: "ro_mopd_teacher (outs ! r) = map (route_spec (map_option (\<lambda>xs. take k (drop (r * k) xs)) (rd_ability data))
        (ability_to_teacher cfg) (route_default cfg)) [0..<k]"
      "ro_teacher_log_probs (outs ! r) = map (\<lambda>i. teacher_row_log_probs cfg lg (the (map_of ?ms (ro_mopd_teacher (outs ! r) ! i)))
        (take k (drop (r * k) ?rows) ! i)) [0..<k]"
      using o(3) r by (simp_all del: length_take length_drop nth_take add: rank_scored_def Let_def l(1))
    have rs: "ro_mopd_teacher (outs ! r) = map (\<lambda>i. routed_teacher cfg data (r * k + i)) [0..<k]"
      using route_spec_shard [OF rt r _ assms(5)] by (simp add: sc(1) routed_teacher_def)
    have lp: "ro_teacher_log_probs (outs ! r) = map (\<lambda>i. routed_log_probs env cfg lg data (r * k + i)) [0..<k]"
      unfolding sc(2) using rs shard_nth(1) [OF r _ assms(5), of _ ?rows] by (simp add: routed_log_probs_def del: nth_take nth_drop)
    obtain env' where mr: "map_r (compute_rm_score env' cfg ?ms) (map ?sh [0..<R]) = Inr outs"
      using o(1) unfolding sh cluster_scores_def Let_def rbind_eq_Inr_iff by blast
    have "compute_rm_score env' cfg ?ms (?sh r) = Inr (outs ! r)" using map_r_nth [OF mr, of r] r by simp
    note md = compute_rm_score_mode [OF this, unfolded e]
    have nth: "take k (drop (r * k) ?rows) ! i = ?rows ! (r * k + i)" "take k (drop (r * k) m) ! i = m ! (r * k + i)" if "i < k" for i
      using shard_nth(1) [OF r that assms(5), of ?rows] shard_nth(1) [OF r that assms(5), of m] assms(7) by (simp_all del: nth_take nth_drop)
    have "apply_mask (Some (take k (drop (r * k) m))) (zip_with reverse_kl (map rr_old_log_probs (take k (drop (r * k) ?rows)))
        (ro_teacher_log_probs (outs ! r))) = map (\<lambda>i. row_reward env cfg lg data m (r * k + i)) [0..<k]"
      by (subst masked_reward_nth) (simp_all add: l lp row_reward_def nth del: nth_take nth_drop length_take length_drop)
    with md rs lp show ?thesis by simp
  qed
  with o(1,2) show ?thesis by blast
qed

lemma cat_candidates: "xs \<noteq> [] \<Longrightarrow> \<forall>x \<in> set xs. \<exists>t. x = Candidate_scores t \<Longrightarrow> \<exists>t. cat_scores xs = Inr (Candidate_scores t)"
  by (cases xs) (auto simp: cat_scores_def list_all_iff)

lemma cat_tokens: "\<forall>x \<in> set xs. \<exists>t. x = Token_scores t \<Longrightarrow>
    cat_scores xs = Inr (Token_scores (concat (map (\<lambda>x. case x of Token_scores t \<Rightarrow> t | _ \<Rightarrow> []) xs)))"
  by (auto simp: cat_scores_def list_all_iff)

text \<open>The concatenated reply of the group.\<close>

lemma group_reply:
  assumes "served_config cfg" "0 < micro_batch_size_per_gpu cfg" "env_ok env lg" "rank_ready cfg lg V (init_model env cfg) data"
    and "R dvd length (rd_rows data)" "rd_response_mask data = Some m" "length m = length (rd_rows data)"
    and "rd_top_k_is_reward data \<Longrightarrow> 0 < effective_top_k cfg data"
  shows "\<exists>outs sc wm. cluster_scores env cfg (shards_of R data) = Inr outs
    \<and> reply_of outs = Inr \<lparr>tr_rm_scores = sc, tr_teacher_log_probs = map (routed_log_probs env cfg lg data) [0..<length (rd_rows data)],
        tr_teachers = Some (map (routed_teacher cfg data) [0..<length (rd_rows data)]), tr_metrics = Some wm\<rparr>
    \<and> (if rd_top_k_is_reward data then \<exists>x. sc = Candidate_scores x
       else sc = Token_scores (map (row_reward env cfg lg data m) [0..<length (rd_rows data)]))"
proof -
  let ?n = "length (rd_rows data)" and ?f = "rd_top_k_is_reward data"
  obtain kk where kk: "R * kk = ?n" using assms(5) by (metis dvd_def)
  have ff: "(0 < effective_top_k cfg data \<and> ?f) = ?f" using assms(8) by blast
  obtain outs where o: "cluster_scores env cfg (shards_of R data) = Inr outs" "length outs = R"
    "\<forall>r<R. ro_mopd_teacher (outs ! r) = map (\<lambda>i. routed_teacher cfg data (r * kk + i)) [0..<kk]
        \<and> ro_teacher_log_probs (outs ! r) = map (\<lambda>i. routed_log_probs env cfg lg data (r * kk + i)) [0..<kk]
        \<and> ((ro_top_k_metrics (outs ! r) = None) = (effective_top_k cfg data = 0))
        \<and> (if ?f then \<exists>x. ro_rm_scores (outs ! r) = Candidate_scores x
           else ro_rm_scores (outs ! r) = Token_scores (map (\<lambda>i. row_reward env cfg lg data m (r * kk + i)) [0..<kk]))"
    using group_parts [OF assms(1-4) kk assms(6,7), unfolded ff] by blast
  have cat: "concat (map g outs) = map G [0..<?n]" if "\<forall>r<R. g (outs ! r) = map (\<lambda>i. G (r * kk + i)) [0..<kk]" for g G
  proof -
    have "map g outs = map (\<lambda>r. map (\<lambda>i. G (r * kk + i)) [0..<kk]) [0..<R]" using that o(2) by (intro nth_equalityI) simp_all
    then show ?thesis by (simp add: concat_blocks kk)
  qed
  have all: "\<forall>o' \<in> set outs. P o'" if "\<And>r. r < R \<Longrightarrow> P (outs ! r)" for P using that o(2) by (metis in_set_conv_nth)
  obtain sc where sc: "cat_scores (map ro_rm_scores outs) = Inr sc"
    "if ?f then \<exists>x. sc = Candidate_scores x else sc = Token_scores (map (row_reward env cfg lg data m) [0..<?n])"
  proof (cases ?f)
    case True
    then have "\<forall>o' \<in> set outs. \<exists>x. ro_rm_scores o' = Candidate_scores x" using o(3) by (intro all) auto
    moreover have "outs \<noteq> []" using o(2) kk assms(4) by (auto simp: rank_ready_def)
    ultimately show ?thesis using True that cat_candidates [of "map ro_rm_scores outs"] by auto
  next
    case False
    let ?g = "\<lambda>o'. case ro_rm_scores o' of Token_scores t \<Rightarrow> t | _ \<Rightarrow> []"
    have "\<forall>r<R. ?g (outs ! r) = map (\<lambda>i. row_reward env cfg lg data m (r * kk + i)) [0..<kk]" using o(3) False by simp
    from cat [OF this] have "concat (map ?g outs) = map (row_reward env cfg lg data m) [0..<?n]" .
    moreover have "\<forall>o' \<in> set outs. \<exists>x. ro_rm_scores o' = Token_scores x" using o(3) False by (intro all) auto
    ultimately show ?thesis using False that cat_tokens [of "map ro_rm_scores outs"] by (simp add: comp_def)
  qed
  have "\<forall>o' \<in> set outs. map fst (rank_metrics o') = (if effective_top_k cfg data = 0 then []
      else [''top_k_overlap_ratio'', ''top_k_student_mass'', ''top_k_teacher_mass'', ''top_k_reward_mean''])"
    using o(3) by (intro all) (auto simp: rank_metrics_def split: option.split)
  then obtain wm where "list_of_dict_to_dict_of_list (map rank_metrics outs) = Inr wm" using list_of_dict_ok [of "map rank_metrics outs"] by fastforce
  then show ?thesis using o sc by (intro exI [of _ outs] exI [of _ sc]) (simp add: reply_of_def cat)
qed

lemma routed_count:
  "count_list (map (routed_teacher cfg data) [0..<n]) t = card {j. j < n \<and> routed_teacher cfg data j = t}"
  by (simp add: count_list_eq_length_filter filter_map comp_def distinct_length_filter) (rule arg_cong [where f = card], auto)


definition demo_opd_batch :: opd_batch where
  "demo_opd_batch = \<lparr>ob_scores = Some (Token_scores [[Fin 1], [Fin 0]]), ob_true_scores = None, ob_teacher_log_probs = None,
     ob_response_mask = Some [[1], [0]], ob_top_k_is_reward = None\<rparr>"

definition demo_opd_data :: "nat rm_data" where
  "demo_opd_data = demo_shards ! 1"


end
