(* ===== verification/Dispatch.thy ===== *)
theory Dispatch
  imports Data_Proto
begin

text \<open>
  \<open>verl/single_controller/base/decorator.py\<close> and the call path of
  \<open>verl/single_controller/ray/base.py\<close>: how the arguments of a registered method are split over the
  workers of a group, how the outputs are collected, the automatic padding and its removal, the
  n-dimensional dispatch with replicated ranks, and the registry of dispatch modes.  Splitting
  and concatenation go through \<open>BatchData\<close>; they are the arguments \<open>ch\<close> and \<open>cat\<close>, used
  with \<open>DataProto.chunk\<close> and \<open>DataProto.concat\<close>.  A worker is a function of its share of the
  arguments; remote execution and \<open>ray.put\<close> hand values over unchanged.
\<close>

section \<open>Splitting arguments\<close>

definition chunk_checked :: "('d \<Rightarrow> nat \<Rightarrow> 'd list result) \<Rightarrow> nat \<Rightarrow> 'd \<Rightarrow> 'd list result" where
  "chunk_checked ch chunks arg =
     rbind (ch arg chunks) (\<lambda>cs. rbind (assert_r (length cs = chunks) AssertionError) (\<lambda>_. Inr cs))"

definition split_args_kwargs_data_proto ::
  "('d \<Rightarrow> nat \<Rightarrow> 'd list result) \<Rightarrow> nat \<Rightarrow> 'd list \<Rightarrow> (string \<times> 'd) list
   \<Rightarrow> ('d list list \<times> (string \<times> 'd list) list) result" where
  "split_args_kwargs_data_proto ch chunks args kwargs =
     rbind (map_r (chunk_checked ch chunks) args) (\<lambda>splitted_args.
     rbind (map_r (\<lambda>(k, v). rbind (chunk_checked ch chunks v) (\<lambda>cs. Inr (k, cs))) kwargs) (\<lambda>splitted_kwargs.
     Inr (splitted_args, splitted_kwargs)))"

type_synonym pad_state = "(nat \<times> nat) option"

text \<open>
  \<open>obj.padding\<close> replaces the tensors of the caller's batch, so the batches live in a store and the arguments are addresses
  in it; the same batch may be passed twice.
\<close>

definition padding_and_split_data ::
  "bool \<Rightarrow> nat \<Rightarrow> nat \<Rightarrow> 'a data_proto list \<times> pad_state \<Rightarrow> ('a data_proto list \<times> 'a data_proto list \<times> pad_state) result" where
  "padding_and_split_data ap chunks addr s =
     (let (store, st) = s; obj = store ! addr in
      if is_padding_enabled ap obj then
        (if st = None \<and> chunks = 0 then Inl ZeroDivisionError else
         rbind (case st of
                  None \<Rightarrow> Inr (proto_len obj,
                     if proto_len obj mod chunks > 0 then chunks - proto_len obj mod chunks else 0)
                | Some (data_proto_len, padding_size) \<Rightarrow>
                    rbind (assert_r (data_proto_len = proto_len obj) AssertionError) (\<lambda>_.
                    Inr (data_proto_len, padding_size))) (\<lambda>(data_proto_len, padding_size).
         rbind (padding obj padding_size []) (\<lambda>padded.
         rbind (chunk ap padded chunks) (\<lambda>cs. Inr (cs, store[addr := padded], Some (data_proto_len, padding_size))))))
      else rbind (chunk ap obj chunks) (\<lambda>cs. Inr (cs, store, st)))"

definition split_args_kwargs_with_auto_padding ::
  "bool \<Rightarrow> nat \<Rightarrow> 'a data_proto list \<Rightarrow> nat list \<Rightarrow> (string \<times> nat) list
   \<Rightarrow> ('a data_proto list list \<times> (string \<times> 'a data_proto list) list \<times> nat option \<times> 'a data_proto list) result" where
  "split_args_kwargs_with_auto_padding ap chunks store args kwargs =
     rbind (fold_r (\<lambda>arg (acc, s). rbind (padding_and_split_data ap chunks arg s) (\<lambda>(cs, s').
              Inr (acc @ [cs], s'))) args ([], store, None)) (\<lambda>(splitted_args, s).
     rbind (fold_r (\<lambda>(k, v) (acc, s). rbind (padding_and_split_data ap chunks v s) (\<lambda>(cs, s').
              Inr (acc @ [(k, cs)], s'))) kwargs ([], s)) (\<lambda>(splitted_kwargs, store', st').
     Inr (splitted_args, splitted_kwargs, map_option snd st', store')))"

section \<open>Dispatch and collect functions\<close>

definition dispatch_one_to_all ::
  "nat \<Rightarrow> 'd list \<Rightarrow> (string \<times> 'd) list \<Rightarrow> 'd list list \<times> (string \<times> 'd list) list" where
  "dispatch_one_to_all world args kwargs =
     (map (replicate world) args, map (\<lambda>(k, v). (k, replicate world v)) kwargs)"

definition dispatch_dp_compute ::
  "nat \<Rightarrow> 'd list list \<Rightarrow> (string \<times> 'd list) list \<Rightarrow> ('d list list \<times> (string \<times> 'd list) list) result" where
  "dispatch_dp_compute world args kwargs =
     rbind (assert_r (list_all (\<lambda>arg. length arg = world) args) AssertionError) (\<lambda>_.
     rbind (assert_r (list_all (\<lambda>(_, v). length v = world) kwargs) AssertionError) (\<lambda>_.
     Inr (args, kwargs)))"

definition collect_dp_compute :: "nat \<Rightarrow> 'o list \<Rightarrow> 'o list result" where
  "collect_dp_compute world output = rbind (assert_r (length output = world) AssertionError) (\<lambda>_. Inr output)"

definition concat_batch_data :: "('o list \<Rightarrow> 'o result) \<Rightarrow> 'o list \<Rightarrow> 'o result" where
  "concat_batch_data cat output = (if output = [] then Inl ValueError else cat output)"

definition collect_dp_compute_data_proto :: "('o list \<Rightarrow> 'o result) \<Rightarrow> nat \<Rightarrow> 'o list \<Rightarrow> 'o result" where
  "collect_dp_compute_data_proto cat world output =
     rbind (assert_r (output \<noteq> []) AssertionError) (\<lambda>_.
     rbind (collect_dp_compute world output) (concat_batch_data cat))"

definition dispatch_dp_compute_data_proto_with_func ::
  "('d \<Rightarrow> nat \<Rightarrow> 'd list result) \<Rightarrow> nat \<Rightarrow> 'f \<Rightarrow> 'd list \<Rightarrow> (string \<times> 'd) list
   \<Rightarrow> ('f list \<times> 'd list list \<times> (string \<times> 'd list) list) result" where
  "dispatch_dp_compute_data_proto_with_func ch world func args kwargs =
     rbind (split_args_kwargs_data_proto ch world args kwargs) (\<lambda>(sa, sk). Inr (replicate world func, sa, sk))"

definition select_dp_rank :: "nat list \<Rightarrow> nat \<Rightarrow> nat \<Rightarrow> 'd list \<Rightarrow> 'd list result" where
  "select_dp_rank dp_rank_mapping dp_size world arg =
     rbind (assert_r (length arg = dp_size) AssertionError) (\<lambda>_.
     map_r (\<lambda>i. rbind (py_nth dp_rank_mapping i) (py_nth arg)) [0..<world])"

definition dispatch_nd_compute ::
  "nat list \<Rightarrow> nat \<Rightarrow> nat \<Rightarrow> 'd list list \<Rightarrow> (string \<times> 'd list) list
   \<Rightarrow> ('d list list \<times> (string \<times> 'd list) list) result" where
  "dispatch_nd_compute dp_rank_mapping dp_size world args kwargs =
     (if args = [] then Inl IndexError else
      rbind (map_r (select_dp_rank dp_rank_mapping dp_size world) args) (\<lambda>all_args.
      rbind (map_r (\<lambda>(k, v). rbind (select_dp_rank dp_rank_mapping dp_size world v) (\<lambda>w. Inr (k, w))) kwargs) (\<lambda>all_kwargs.
      Inr (all_args, all_kwargs))))"

definition collect_nd_compute :: "bool list \<Rightarrow> nat \<Rightarrow> 'o list \<Rightarrow> 'o list result" where
  "collect_nd_compute collect_mask world output =
     rbind (assert_r (length output = world) AssertionError) (\<lambda>_.
     rbind (map_r (py_nth collect_mask) [0..<world]) (\<lambda>mask.
     Inr (map snd (filter fst (zip mask output)))))"

definition dispatch_nd_compute_dataproto ::
  "('d \<Rightarrow> nat \<Rightarrow> 'd list result) \<Rightarrow> nat list \<Rightarrow> nat \<Rightarrow> nat \<Rightarrow> 'd list \<Rightarrow> (string \<times> 'd) list
   \<Rightarrow> ('d list list \<times> (string \<times> 'd list) list) result" where
  "dispatch_nd_compute_dataproto ch dp_rank_mapping dp_size world args kwargs =
     rbind (split_args_kwargs_data_proto ch dp_size args kwargs) (\<lambda>(sa, sk).
     dispatch_nd_compute dp_rank_mapping dp_size world sa sk)"

definition collect_nd_compute_dataproto :: "('o list \<Rightarrow> 'o result) \<Rightarrow> bool list \<Rightarrow> nat \<Rightarrow> 'o list \<Rightarrow> 'o result" where
  "collect_nd_compute_dataproto cat collect_mask world output =
     rbind (collect_nd_compute collect_mask world output) (\<lambda>out.
     rbind (assert_r (out \<noteq> []) AssertionError) (\<lambda>_. concat_batch_data cat out))"

section \<open>Lazily queried meshes\<close>

record worker_group =
  wg_world_size :: nat
  wg_dispatch_info :: "(string \<times> nat list) list"
  wg_collect_info :: "(string \<times> bool list) list"
  wg_query_dispatch_info :: "string \<Rightarrow> nat list"
  wg_query_collect_info :: "string \<Rightarrow> bool list"

definition dispatch_info :: "string \<Rightarrow> worker_group \<Rightarrow> (nat list \<times> worker_group) result" where
  "dispatch_info mesh_name wg = (case map_of (wg_dispatch_info wg) mesh_name of
       Some m \<Rightarrow> Inr (m, wg)
     | None \<Rightarrow> (let m = wg_query_dispatch_info wg mesh_name in
         rbind (assert_r (length m = wg_world_size wg) AssertionError) (\<lambda>_.
         Inr (m, wg\<lparr>wg_dispatch_info := AList.update mesh_name m (wg_dispatch_info wg)\<rparr>))))"

definition collect_info :: "string \<Rightarrow> worker_group \<Rightarrow> (bool list \<times> worker_group) result" where
  "collect_info mesh_name wg = (case map_of (wg_collect_info wg) mesh_name of
       Some m \<Rightarrow> Inr (m, wg)
     | None \<Rightarrow> (let m = wg_query_collect_info wg mesh_name in
         rbind (assert_r (length m = wg_world_size wg) AssertionError) (\<lambda>_.
         Inr (m, wg\<lparr>wg_collect_info := AList.update mesh_name m (wg_collect_info wg)\<rparr>))))"

definition dispatch_lazy_compute_data_proto ::
  "('d \<Rightarrow> nat \<Rightarrow> 'd list result) \<Rightarrow> string \<Rightarrow> worker_group \<Rightarrow> 'd list \<Rightarrow> (string \<times> 'd) list
   \<Rightarrow> (('d list list \<times> (string \<times> 'd list) list) \<times> worker_group) result" where
  "dispatch_lazy_compute_data_proto ch mesh_name wg args kwargs =
     rbind (dispatch_info mesh_name wg) (\<lambda>(dp_rank_mapping, wg').
     if dp_rank_mapping = [] then Inl ValueError else
     rbind (dispatch_nd_compute_dataproto ch dp_rank_mapping (fold max dp_rank_mapping 0 + 1) (wg_world_size wg') args kwargs)
       (\<lambda>r. Inr (r, wg')))"

definition collect_lazy_compute_data_proto ::
  "('o list \<Rightarrow> 'o result) \<Rightarrow> string \<Rightarrow> worker_group \<Rightarrow> 'o list \<Rightarrow> ('o \<times> worker_group) result" where
  "collect_lazy_compute_data_proto cat mesh_name wg output =
     rbind (assert_r (map_of (wg_dispatch_info wg) mesh_name \<noteq> None) AssertionError) (\<lambda>_.
     rbind (collect_info mesh_name wg) (\<lambda>(collect_mask, wg').
     rbind (collect_nd_compute_dataproto cat collect_mask (wg_world_size wg') output) (\<lambda>o'. Inr (o', wg'))))"

section \<open>Calling a method of the group\<close>

text \<open>
  \<open>execute_all_async\<close>: when every argument is a list with one entry per worker, worker \<open>i\<close> gets
  the \<open>i\<close>-th entries; otherwise every worker gets the lists themselves.
\<close>

datatype 'd payload = Share 'd | Whole "'d list"

definition execute_all ::
  "('d payload list \<Rightarrow> (string \<times> 'd payload) list \<Rightarrow> 'o result) \<Rightarrow> nat
   \<Rightarrow> 'd list list \<Rightarrow> (string \<times> 'd list) list \<Rightarrow> 'o list result" where
  "execute_all w world args kwargs =
     (if list_all (\<lambda>arg. length arg = world) args \<and> list_all (\<lambda>(_, v). length v = world) kwargs
      then map_r (\<lambda>i. w (map (\<lambda>arg. Share (arg ! i)) args) (map (\<lambda>(k, v). (k, Share (v ! i))) kwargs)) [0..<world]
      else map_r (\<lambda>_. w (map Whole args) (map (\<lambda>(k, v). (k, Whole v)) kwargs)) [0..<world])"

definition dp_compute_proto_call ::
  "bool \<Rightarrow> nat \<Rightarrow> ('a data_proto payload list \<Rightarrow> (string \<times> 'a data_proto payload) list \<Rightarrow> 'b data_proto result)
   \<Rightarrow> 'a data_proto list \<Rightarrow> nat list \<Rightarrow> (string \<times> nat) list \<Rightarrow> ('b data_proto \<times> 'a data_proto list) result" where
  "dp_compute_proto_call ap world w store args kwargs =
     rbind (split_args_kwargs_with_auto_padding ap world store args kwargs) (\<lambda>(sa, sk, padding_size, store').
     rbind (execute_all w world sa sk) (\<lambda>output.
     rbind (collect_dp_compute_data_proto concat_proto world output) (\<lambda>out.
     let padding_count = (case padding_size of None \<Rightarrow> 0 | Some p \<Rightarrow> p) in
     rbind (if padding_count > 0
            then select_idxs out (Idx (map int (py_drop_last padding_count [0..<proto_len out])))
            else Inr out) (\<lambda>out'. Inr (out', store')))))"

definition dp_compute_metric_call ::
  "bool \<Rightarrow> nat \<Rightarrow> ('a data_proto payload list \<Rightarrow> (string \<times> 'a data_proto payload) list \<Rightarrow> 'o result)
   \<Rightarrow> 'a data_proto list \<Rightarrow> nat list \<Rightarrow> (string \<times> nat) list \<Rightarrow> ('o list \<times> 'a data_proto list) result" where
  "dp_compute_metric_call ap world w store args kwargs =
     rbind (split_args_kwargs_with_auto_padding ap world store args kwargs) (\<lambda>(sa, sk, padding_size, store').
     rbind (execute_all w world sa sk) (\<lambda>output.
     rbind (collect_dp_compute world output) (\<lambda>out.
     let padding_count = (case padding_size of None \<Rightarrow> 0 | Some p \<Rightarrow> p) in
     Inr (if padding_count > 0 then py_drop_last padding_count out else out, store'))))"

section \<open>The registry of dispatch modes\<close>

datatype dispatch_fn = One_to_all | All_to_all | Dp_compute | Dp_compute_proto | Dp_compute_proto_with_func
  | Dummy_direct_rollout | User_fn string

datatype collect_fn = Collect_all_to_all | Collect_dp_compute | Collect_dp_compute_proto | Collect_dummy | User_collect string

record registry =
  rg_modes :: "(string \<times> nat) list"
  rg_next_value :: nat
  rg_fns :: "(string \<times> dispatch_fn \<times> collect_fn) list"

definition upper_char :: "char \<Rightarrow> char" where
  "upper_char c = (if CHR ''a'' \<le> c \<and> c \<le> CHR ''z'' then char_of (of_char c - 32 :: nat) else c)"

definition dynamic_enum_register :: "string \<Rightarrow> registry \<Rightarrow> (string \<times> registry) result" where
  "dynamic_enum_register name rg =
     (let key = map upper_char name in
      if map_of (rg_modes rg) key \<noteq> None then Inl ValueError
      else Inr (key, rg\<lparr>rg_modes := AList.update key (rg_next_value rg) (rg_modes rg), rg_next_value := rg_next_value rg + 1\<rparr>))"

definition register_dispatch_mode :: "string \<Rightarrow> dispatch_fn \<Rightarrow> collect_fn \<Rightarrow> registry \<Rightarrow> registry result" where
  "register_dispatch_mode name d c rg =
     rbind (dynamic_enum_register name rg) (\<lambda>(mode, rg').
     rbind (assert_r (map_of (rg_fns rg') mode = None) AssertionError) (\<lambda>_.
     Inr (rg'\<lparr>rg_fns := AList.update mode (d, c) (rg_fns rg')\<rparr>)))"

definition update_dispatch_mode :: "string \<Rightarrow> dispatch_fn \<Rightarrow> collect_fn \<Rightarrow> registry \<Rightarrow> registry result" where
  "update_dispatch_mode mode d c rg =
     rbind (assert_r (map_of (rg_fns rg) mode \<noteq> None) AssertionError) (\<lambda>_.
     Inr (rg\<lparr>rg_fns := AList.update mode (d, c) (rg_fns rg)\<rparr>))"

definition get_predefined_dispatch_fn :: "string \<Rightarrow> registry \<Rightarrow> (dispatch_fn \<times> collect_fn) result" where
  "get_predefined_dispatch_fn mode rg = (case map_of (rg_fns rg) mode of None \<Rightarrow> Inl KeyError | Some x \<Rightarrow> Inr x)"

definition initial_registry :: registry where
  "initial_registry = \<lparr>
     rg_modes = zip [''RANK_ZERO'', ''ONE_TO_ALL'', ''ALL_TO_ALL'', ''DP_COMPUTE'', ''DP_COMPUTE_PROTO'',
       ''DP_COMPUTE_PROTO_WITH_FUNC'', ''DP_COMPUTE_METRIC'', ''DIRECT_ROLLOUT_METHOD''] [0..<8],
     rg_next_value = 8,
     rg_fns = [(''ONE_TO_ALL'', One_to_all, Collect_all_to_all), (''ALL_TO_ALL'', All_to_all, Collect_all_to_all),
       (''DP_COMPUTE'', Dp_compute, Collect_dp_compute), (''DP_COMPUTE_PROTO'', Dp_compute_proto, Collect_dp_compute_proto),
       (''DP_COMPUTE_PROTO_WITH_FUNC'', Dp_compute_proto_with_func, Collect_dp_compute_proto),
       (''DP_COMPUTE_METRIC'', Dp_compute_proto, Collect_dp_compute),
       (''DIRECT_ROLLOUT_METHOD'', Dummy_direct_rollout, Collect_dummy)]\<rparr>"

section \<open>The batch interface\<close>

text \<open>
  What dispatch needs of a batch type: a batch whose length is a multiple of \<open>k\<close> splits into \<open>k\<close>
  valid batches, and concatenating them gives it back.
\<close>

locale batch_protocol =
  fixes ch :: "'d \<Rightarrow> nat \<Rightarrow> 'd list result"
    and cat :: "'d list \<Rightarrow> 'd result"
    and len :: "'d \<Rightarrow> nat"
    and ok :: "'d \<Rightarrow> bool"
  assumes chunk_cat: "ok d \<Longrightarrow> 0 < k \<Longrightarrow> k dvd len d \<Longrightarrow> 0 < len d \<Longrightarrow>
    \<exists>ds. ch d k = Inr ds \<and> length ds = k \<and> (\<forall>x\<in>set ds. ok x \<and> len x = len d div k) \<and> cat ds = Inr d"
begin

lemma split_one:
  assumes "ok d" "0 < k" "k dvd len d" "0 < len d"
  shows "\<exists>ds. split_args_kwargs_data_proto ch k [d] [] = Inr ([ds], []) \<and> length ds = k
    \<and> (\<forall>x\<in>set ds. ok x \<and> len x = len d div k) \<and> cat ds = Inr d"
  using chunk_cat [OF assms] by (auto simp: split_args_kwargs_data_proto_def chunk_checked_def)

lemma nd_roundtrip:
  assumes d: "ok d" "0 < dp_size" "dp_size dvd len d" "0 < len d"
    and mapping: "length mapping = world" "\<forall>r\<in>set mapping. r < dp_size"
    and cmask: "length cmask = world" "map ((!) mapping) (filter ((!) cmask) [0..<world]) = [0..<dp_size]"
    and hom: "\<And>ds. ds \<noteq> [] \<Longrightarrow> \<forall>x\<in>set ds. ok x \<Longrightarrow> cat ds = Inr d \<Longrightarrow> cat' (map w ds) = Inr (w d)"
  shows "rbind (dispatch_nd_compute_dataproto ch mapping dp_size world [d] [])
      (\<lambda>(args, _). collect_nd_compute_dataproto cat' cmask world (map w (hd args))) = Inr (w d)"
proof -
  obtain ds where ds: "split_args_kwargs_data_proto ch dp_size [d] [] = Inr ([ds], [])" "length ds = dp_size"
    "\<forall>x\<in>set ds. ok x \<and> len x = len d div dp_size" "cat ds = Inr d" using split_one [OF d] by blast
  have sel: "select_dp_rank mapping dp_size world ds = Inr (map (\<lambda>i. ds ! (mapping ! i)) [0..<world])"
  proof -
    have "map_r (\<lambda>i. rbind (py_nth mapping i) (py_nth ds)) [0..<world] = Inr (map (\<lambda>i. ds ! (mapping ! i)) [0..<world])"
      by (rule map_r_Inr) (use mapping ds(2) in \<open>auto simp: py_nth_def\<close>)
    then show ?thesis using ds(2) by (simp add: select_dp_rank_def)
  qed
  let ?out = "map w (map (\<lambda>i. ds ! (mapping ! i)) [0..<world])"
  have "map_r (py_nth cmask) [0..<world] = Inr (map ((!) cmask) [0..<world])"
    by (rule map_r_Inr) (use cmask(1) in \<open>auto simp: py_nth_def\<close>)
  moreover have "zip (map ((!) cmask) [0..<world]) ?out = map (\<lambda>i. (cmask ! i, w (ds ! (mapping ! i)))) [0..<world]"
    by (intro nth_equalityI) simp_all
  moreover have "map snd (filter fst (map (\<lambda>i. (cmask ! i, w (ds ! (mapping ! i)))) is))
      = map (\<lambda>r. w (ds ! r)) (map ((!) mapping) (filter ((!) cmask) is))" for "is"
    by (induction "is") simp_all
  moreover have "map (\<lambda>r. w (ds ! r)) [0..<dp_size] = map w ds"
    using ds(2) by (intro nth_equalityI) simp_all
  ultimately have "collect_nd_compute cmask world ?out = Inr (map w ds)"
    by (simp only: collect_nd_compute_def cmask(2) length_map length_upt minus_nat.diff_0 assert_r_True rbind_Inr simp_thms)
  moreover have "ds \<noteq> []" using ds(2) d(2) by auto
  ultimately show ?thesis using ds hom [of ds]
    by (simp add: dispatch_nd_compute_dataproto_def dispatch_nd_compute_def sel collect_nd_compute_dataproto_def
        concat_batch_data_def comp_def)
qed

end

definition dispatchable :: "'a data_proto \<Rightarrow> bool" where
  "dispatchable d \<longleftrightarrow> proto_wf d \<and> plain_meta (dp_meta d)"

interpretation dp: batch_protocol "chunk ap" concat_proto proto_len dispatchable for ap
proof (unfold_locales, goal_cases)
  case (1 d k)
  then have "proto_wf d" "plain_meta (dp_meta d)" by (simp_all add: dispatchable_def)
  with 1 chunk_concat_ok [of d k ap] show ?case by (metis dispatchable_def)
qed

text \<open>
  N-dimensional dispatch: the ranks of a mesh hold a data-parallel index each (replicas share
  one), and the collect cmask picks one rank per index in order.  For a batch whose length is a
  multiple of the data-parallel size and a row-wise worker, dispatching, running every rank and
  collecting gives the worker's result on the whole batch: replicas neither duplicate nor drop
  rows.
\<close>

lemma nd_dispatch_collect:
  assumes "proto_wf d" "plain_meta (dp_meta d)" "0 < dp_size" "dp_size dvd proto_len d" "0 < proto_len d"
    and "length mapping = world" "\<forall>r\<in>set mapping. r < dp_size"
    and "length cmask = world" "map ((!) mapping) (filter ((!) cmask) [0..<world]) = [0..<dp_size]"
    and "\<And>ds. ds \<noteq> [] \<Longrightarrow> concat_proto ds = Inr d \<Longrightarrow> concat_proto (map w ds) = Inr (w d)"
  shows "rbind (dispatch_nd_compute_dataproto (chunk ap) mapping dp_size world [d] [])
      (\<lambda>(args, _). collect_nd_compute_dataproto concat_proto cmask world (map w (hd args))) = Inr (w d)"
  by (rule dp.nd_roundtrip) (use assms in \<open>auto simp: dispatchable_def\<close>)

section \<open>Calls with automatic padding\<close>

lemma map_cols_r_ok:
  assumes "cols_wf n cols" "\<And>v. length v = n \<Longrightarrow> f v = Inr (g v)"
  shows "map_cols_r f cols = Inr (map_cols g cols)"
  unfolding map_cols_r_def map_cols_def
  by (rule map_r_Inr) (use assms in \<open>auto simp: cols_wf_def\<close>)

lemma select_idxs_ok:
  assumes "proto_wf d" "\<forall>i\<in>set is. i < proto_len d"
  shows "select_idxs d (Idx (map int is)) = Inr (rows_map (\<lambda>v. map ((!) v) is) (length is) d)"
proof -
  have col: "index_column (Idx (map int is)) v = Inr (map ((!) v) is)" if "length v = proto_len d" for v :: "'a list"
  proof -
    have "map_r (py_index (length v)) (map int is) = Inr (map nat (map int is))"
      by (rule map_r_Inr) (use assms(2) that in \<open>auto simp: py_index_def\<close>)
    moreover have "map nat (map int is) = is" by (simp add: comp_def)
    moreover have "gather v is = Inr (map ((!) v) is)" by (rule gather_Inr) (use assms(2) that in auto)
    ultimately show ?thesis by (simp add: index_column_def del: map_map)
  qed
  have len: "length (map ((!) v) is) = length is" if "length v = proto_len d" for v :: "'a list" by simp
  have nt: "map_cols_r (index_column (Idx (map int is))) (dp_non_tensor d) = Inr (map_cols (\<lambda>v. map ((!) v) is) (dp_non_tensor d))"
    by (rule map_cols_r_ok [OF proto_wf_lens(2) [OF assms(1)] col])
  have "(case dp_batch d of None \<Rightarrow> Inr None
      | Some td \<Rightarrow> rbind (map_cols_r (index_column (Idx (map int is))) (td_cols td)) (\<lambda>cols.
                   rbind (td_make cols (index_count (Idx (map int is)))) (\<lambda>td'. Inr (Some td'))))
    = Inr (dp_batch (rows_map (\<lambda>v. map ((!) v) is) (length is) d))"
  proof (cases "dp_batch d")
    case (Some td)
    then have wf: "cols_wf (proto_len d) (td_cols td)" using proto_wf_lens(1) [OF assms(1)] by simp
    have "map_cols_r (index_column (Idx (map int is))) (td_cols td) = Inr (map_cols (\<lambda>v. map ((!) v) is) (td_cols td))"
      by (rule map_cols_r_ok [OF wf col])
    moreover have "td_make (map_cols (\<lambda>v. map ((!) v) is) (td_cols td)) (length is)
        = Inr \<lparr>td_cols = map_cols (\<lambda>v. map ((!) v) is) (td_cols td), td_bs = length is\<rparr>"
      by (rule td_make_ok, rule cols_wf_map_cols [OF wf len])
    ultimately show ?thesis by (simp add: Some rows_map_def index_count_def)
  qed (simp add: rows_map_def)
  then show ?thesis using nt mk_rows_map [OF assms(1) len] by (simp add: select_idxs_def rows_map_def)
qed

lemma padding_ok:
  assumes wf: "proto_wf d" and meta: "plain_meta (dp_meta d)" and ne: "0 < proto_len d"
  shows "padding d p [] = Inr (rows_map (\<lambda>v. v @ replicate p (last v)) (proto_len d + p) d)"
proof (cases "p = 0")
  case True
  then show ?thesis using rows_map_id [OF wf, of "\<lambda>v. v"] by (simp add: padding_def)
next
  case False
  let ?n = "proto_len d"
  let ?cand = "rows_map (\<lambda>v. map ((!) v) [?n - 1]) 1 d"
  let ?fs = "[(\<lambda>v :: 'a list. v, ?n), (\<lambda>v. replicate p (v ! (?n - 1)), p)]"
  have "int ?n - 1 = int (?n - 1)" using ne by simp
  then have cand: "select_idxs d (Idx [int ?n - 1]) = Inr ?cand"
    using select_idxs_ok [OF wf, of "[?n - 1]"] ne by simp
  have len1: "length (map ((!) v) [?n - 1]) = 1" if "length v = ?n" for v :: "'a list" by simp
  have "repeat ?cand p True = Inr (rows_map (repeat_rows p True) (proto_len ?cand * p) ?cand)"
    by (rule repeat_ok [OF proto_wf_rows_map [OF wf len1]])
  also have "proto_len ?cand = 1" by (rule proto_len_rows_map [OF wf len1 proto_nonempty_columns [OF ne]])
  also have "rows_map (repeat_rows p True) (1 * p) ?cand = rows_map (\<lambda>v. replicate p (v ! (?n - 1))) p d"
    by (simp add: rows_map_comp repeat_rows_def comp_def)
  finally have rep: "repeat ?cand p True = Inr (rows_map (\<lambda>v. replicate p (v ! (?n - 1))) p d)" .
  have "d = rows_map (\<lambda>v. v) ?n d" using rows_map_id [OF wf, of "\<lambda>v. v"] by simp
  then have eq: "[d, rows_map (\<lambda>v. replicate p (v ! (?n - 1))) p d] = map (\<lambda>x. rows_map (fst x) (snd x) d) ?fs" by simp
  have "concat_proto (map (\<lambda>x. rows_map (fst x) (snd x) d) ?fs)
      = Inr (rows_map (\<lambda>v. concat (map (\<lambda>x. fst x v) ?fs)) (sum_list (map snd ?fs)) d)"
    by (rule concat_rows_map [OF wf _ meta]) auto
  also have "rows_map (\<lambda>v. concat (map (\<lambda>x. fst x v) ?fs)) (sum_list (map snd ?fs)) d
      = rows_map (\<lambda>v. v @ replicate p (last v)) (?n + p) d"
  proof (rule rows_map_cong [OF wf])
    fix v :: "'a list" assume "length v = ?n"
    then have "v ! (?n - 1) = last v" using ne by (subst last_conv_nth) auto
    then show "concat (map (\<lambda>x. fst x v) ?fs) = v @ replicate p (last v)" by simp
  qed simp
  finally have cat: "concat_proto [d, rows_map (\<lambda>v. replicate p (v ! (?n - 1))) p d]
      = Inr (rows_map (\<lambda>v. v @ replicate p (last v)) (?n + p) d)" unfolding eq .
  have "padding d p [] = rbind (select_idxs d (Idx [int ?n - 1])) (\<lambda>cand. rbind (repeat cand p True) (\<lambda>part.
      rbind (concat_proto [d, part]) (\<lambda>padded. Inr (d\<lparr>dp_batch := dp_batch padded, dp_non_tensor := dp_non_tensor padded\<rparr>))))"
    using False by (simp add: padding_def)
  then show ?thesis unfolding cand rbind_Inr rep cat by (simp add: rows_map_def)
qed

text \<open>
  Batches cut alike: each of the argument batches \<open>xs ! j\<close> is the concatenation of \<open>world\<close> parts, all of the length \<open>m\<close>.  A worker of
  several batches is row-wise when it commutes with cutting alike and with taking the first rows, and keeps the length.
\<close>

definition cut_alike :: "nat \<Rightarrow> nat \<Rightarrow> 'a data_proto list list \<Rightarrow> 'a data_proto list \<Rightarrow> bool" where
  "cut_alike world m parts xs \<longleftrightarrow> length parts = length xs
     \<and> (\<forall>j<length xs. length (parts ! j) = world \<and> (\<forall>x\<in>set (parts ! j). dispatchable x \<and> proto_len x = m)
          \<and> concat_proto (parts ! j) = Inr (xs ! j))"

definition rowwise :: "('a data_proto list \<Rightarrow> 'b data_proto) \<Rightarrow> bool" where
  "rowwise w \<longleftrightarrow>
     (\<forall>world m parts xs. 0 < world \<and> xs \<noteq> [] \<and> cut_alike world m parts xs \<longrightarrow>
        concat_proto (map (\<lambda>i. w (map (\<lambda>p. p ! i) parts)) [0..<world]) = Inr (w xs))
     \<and> (\<forall>xs n m. xs \<noteq> [] \<and> (\<forall>x\<in>set xs. dispatchable x \<and> proto_len x = m) \<and> n \<le> m \<longrightarrow>
          w (map (rows_map (take n) n) xs) = rows_map (take n) n (w xs))
     \<and> (\<forall>xs m. xs \<noteq> [] \<and> (\<forall>x\<in>set xs. dispatchable x \<and> proto_len x = m) \<longrightarrow> dispatchable (w xs) \<and> proto_len (w xs) = m)"

definition payload_of :: "'d payload \<Rightarrow> 'd result" where
  "payload_of x = (case x of Share d \<Rightarrow> Inr d | Whole _ \<Rightarrow> Inl TypeError)"

definition batch_worker :: "('a data_proto list \<Rightarrow> 'o) \<Rightarrow> 'a data_proto payload list \<Rightarrow> (string \<times> 'a data_proto payload) list \<Rightarrow> 'o result" where
  "batch_worker w args kwargs = (if kwargs \<noteq> [] then Inl TypeError else rbind (map_r payload_of args) (\<lambda>xs. Inr (w xs)))"

lemma execute_all_batches:
  assumes "\<forall>ds\<in>set dss. length ds = world"
  shows "execute_all (batch_worker w) world dss [] = Inr (map (\<lambda>i. w (map (\<lambda>ds. ds ! i) dss)) [0..<world])"
proof -
  have "map_r payload_of (map (\<lambda>ds. Share (ds ! i)) dss) = Inr (map (\<lambda>ds. ds ! i) dss)" for i
    by (induction dss) (simp_all add: payload_of_def)
  then have "batch_worker w (map (\<lambda>ds. Share (ds ! i)) dss) [] = Inr (w (map (\<lambda>ds. ds ! i) dss))" for i
    by (simp add: batch_worker_def)
  then have "map_r (\<lambda>i. batch_worker w (map (\<lambda>ds. Share (ds ! i)) dss) []) [0..<world] = Inr (map (\<lambda>i. w (map (\<lambda>ds. ds ! i) dss)) [0..<world])"
    by (intro map_r_Inr) simp
  then show ?thesis using assms by (simp add: execute_all_def list_all_iff)
qed

text \<open>The padding the dispatcher adds for \<open>world\<close> workers.\<close>

definition pad_count :: "nat \<Rightarrow> nat \<Rightarrow> nat" where
  "pad_count world n = (if n mod world > 0 then world - n mod world else 0)"

definition padded :: "nat \<Rightarrow> 'a data_proto \<Rightarrow> 'a data_proto" where
  "padded world d = rows_map (\<lambda>v. v @ replicate (pad_count world (proto_len d)) (last v)) (proto_len d + pad_count world (proto_len d)) d"

lemma pad_count_dvd: "0 < world \<Longrightarrow> world dvd n + pad_count world n"
proof -
  assume "0 < world"
  then have "n = world * (n div world) + n mod world" "n mod world < world" by simp_all
  then have "n + pad_count world n = world * (n div world) + (if n mod world > 0 then world else 0)"
    unfolding pad_count_def by (simp only: split: if_split) linarith
  then show ?thesis by (metis dvd_add dvd_0_right dvd_refl dvd_triv_left)
qed

lemma padded_ok:
  assumes "dispatchable d" "0 < proto_len d"
  shows "proto_wf (padded world d)" "proto_len (padded world d) = proto_len d + pad_count world (proto_len d)"
    "dp_meta (padded world d) = dp_meta d" "dispatchable (padded world d)" "rows_map (take (proto_len d)) (proto_len d) (padded world d) = d"
proof -
  let ?p = "pad_count world (proto_len d)"
  have wf: "proto_wf d" "plain_meta (dp_meta d)" using assms(1) by (simp_all add: dispatchable_def)
  have len: "length (v @ replicate ?p (last v)) = proto_len d + ?p" if "length v = proto_len d" for v :: "'a list"
    using that by simp
  show P: "proto_wf (padded world d)" "proto_len (padded world d) = proto_len d + ?p" "dp_meta (padded world d) = dp_meta d"
    unfolding padded_def using proto_wf_rows_map [OF wf(1) len] proto_len_rows_map [OF wf(1) len proto_nonempty_columns [OF assms(2)]]
    by (auto simp: rows_map_def)
  then show "dispatchable (padded world d)" using wf(2) by (simp add: dispatchable_def)
  show "rows_map (take (proto_len d)) (proto_len d) (padded world d) = d"
    unfolding padded_def rows_map_comp by (rule rows_map_id [OF wf(1)]) simp
qed

text \<open>One argument: its parts, and the batch left in the store.\<close>

lemma padding_and_split_ok:
  assumes d: "dispatchable (store ! a)" "0 < proto_len (store ! a)" and world: "0 < world" and pad: "is_padding_enabled ap (store ! a)"
    and st: "st = None \<or> st = Some (proto_len (store ! a), pad_count world (proto_len (store ! a)))"
  shows "\<exists>ds. padding_and_split_data ap world a (store, st) = Inr (ds, store[a := padded world (store ! a)],
      Some (proto_len (store ! a), pad_count world (proto_len (store ! a))))
    \<and> length ds = world \<and> (\<forall>x\<in>set ds. dispatchable x \<and> proto_len x = proto_len (padded world (store ! a)) div world)
    \<and> concat_proto ds = Inr (padded world (store ! a))"
proof -
  let ?d = "store ! a" and ?p = "pad_count world (proto_len (store ! a))"
  note P = padded_ok [OF d, of world]
  have "world dvd proto_len (padded world ?d)" unfolding P(2) by (rule pad_count_dvd [OF world])
  moreover have "plain_meta (dp_meta (padded world ?d))" "0 < proto_len (padded world ?d)" using P d by (simp_all add: dispatchable_def)
  ultimately obtain ds where ds: "chunk ap (padded world ?d) world = Inr ds" "length ds = world"
    "\<forall>x\<in>set ds. proto_wf x \<and> proto_len x = proto_len (padded world ?d) div world \<and> dp_meta x = dp_meta (padded world ?d)"
    "concat_proto ds = Inr (padded world ?d)"
    using chunk_concat_ok [OF P(1) _ world] by blast
  have "padding ?d ?p [] = Inr (padded world ?d)" unfolding padded_def by (rule padding_ok) (use d in \<open>simp_all add: dispatchable_def\<close>)
  then have "padding_and_split_data ap world a (store, st) = Inr (ds, store[a := padded world ?d], Some (proto_len ?d, ?p))"
    using pad world ds(1) st by (auto simp: padding_and_split_data_def pad_count_def Let_def)
  moreover have "\<forall>x\<in>set ds. dispatchable x \<and> proto_len x = proto_len (padded world ?d) div world"
    using ds(3) P(3) d(1) by (simp add: dispatchable_def)
  ultimately show ?thesis using ds(2,4) by blast
qed

definition pad_all :: "nat \<Rightarrow> nat list \<Rightarrow> 'a data_proto list \<Rightarrow> 'a data_proto list" where
  "pad_all world args store = map (\<lambda>a. if a \<in> set args then padded world (store ! a) else store ! a) [0..<length store]"

lemma pad_all_Cons: "a < length store \<Longrightarrow> a \<notin> set args \<Longrightarrow> pad_all world args (store[a := padded world (store ! a)]) = pad_all world (a # args) store"
  by (auto simp: pad_all_def nth_list_update)

lemma split_args_ok:
  assumes "distinct args" "\<forall>a\<in>set args. a < length store \<and> dispatchable (store ! a) \<and> proto_len (store ! a) = n \<and> is_padding_enabled ap (store ! a)"
    and "0 < n" "0 < world" "st = None \<or> st = Some (n, pad_count world n)"
  shows "\<exists>dss. fold_r (\<lambda>arg (acc, s). rbind (padding_and_split_data ap world arg s) (\<lambda>(cs, s'). Inr (acc @ [cs], s'))) args (acc, store, st)
      = Inr (acc @ dss, pad_all world args store, if args = [] then st else Some (n, pad_count world n))
    \<and> cut_alike world ((n + pad_count world n) div world) dss (map (\<lambda>a. padded world (store ! a)) args)"
  using assms(1,2,5)
proof (induction args arbitrary: acc store st)
  case Nil
  then show ?case by (auto simp: pad_all_def cut_alike_def map_nth)
next
  case (Cons a args)
  let ?store = "store[a := padded world (store ! a)]" and ?f = "\<lambda>arg (acc, s). rbind (padding_and_split_data ap world arg s) (\<lambda>(cs, s'). Inr (acc @ [cs], s'))"
  have a: "a < length store" "dispatchable (store ! a)" "proto_len (store ! a) = n" "is_padding_enabled ap (store ! a)" "a \<notin> set args" "distinct args"
    using Cons.prems by simp_all
  obtain ds where ds: "padding_and_split_data ap world a (store, st) = Inr (ds, ?store, Some (n, pad_count world n))"
    "length ds = world" "\<forall>x\<in>set ds. dispatchable x \<and> proto_len x = (n + pad_count world n) div world" "concat_proto ds = Inr (padded world (store ! a))"
    using padding_and_split_ok [OF a(2) _ assms(4) a(4), of st, unfolded a(3), OF assms(3) Cons.prems(3)]
    unfolding padded_ok(2) [OF a(2), unfolded a(3), OF assms(3)] by blast
  have "\<forall>b\<in>set args. b < length ?store \<and> dispatchable (?store ! b) \<and> proto_len (?store ! b) = n \<and> is_padding_enabled ap (?store ! b)"
    using Cons.prems(2) a(5) by (auto simp: nth_list_update)
  from Cons.IH [OF a(6) this, of "Some (n, pad_count world n)" "acc @ [ds]"] obtain dss where dss:
    "fold_r ?f args (acc @ [ds], ?store, Some (n, pad_count world n)) = Inr (acc @ ds # dss, pad_all world args ?store, Some (n, pad_count world n))"
    "cut_alike world ((n + pad_count world n) div world) dss (map (\<lambda>b. padded world (?store ! b)) args)" by auto
  have "map (\<lambda>b. padded world (?store ! b)) args = map (\<lambda>b. padded world (store ! b)) args"
    using a(5) by (intro map_cong refl) (metis nth_list_update_neq)
  then have "cut_alike world ((n + pad_count world n) div world) (ds # dss) (map (\<lambda>b. padded world (store ! b)) (a # args))"
    using dss(2) ds(2-4) by (auto simp: cut_alike_def nth_Cons split: nat.split)
  then show ?case using dss(1) ds(1) pad_all_Cons [OF a(1,5)] by (intro exI [of _ "ds # dss"]) simp
qed


lemma rowwise_hd: "rowwise (hd :: 'a data_proto list \<Rightarrow> 'a data_proto)"
proof -
  have parts0: "map (\<lambda>i. hd (map (\<lambda>p. p ! i) parts)) [0..<world] = parts ! 0" if "xs \<noteq> []" "cut_alike world m parts xs" for world m and parts :: "'a data_proto list list" and xs
  proof -
    have "length (parts ! 0) = world" "parts \<noteq> []" using that by (auto simp: cut_alike_def)
    then obtain q qs where p: "parts = q # qs" "length q = world" by (cases parts) auto
    then show ?thesis by (auto intro: nth_equalityI)
  qed
  have "concat_proto (map (\<lambda>i. hd (map (\<lambda>p. p ! i) parts)) [0..<world]) = Inr (hd xs)"
    if "xs \<noteq> []" "cut_alike world m parts xs" for world m and parts :: "'a data_proto list list" and xs
    unfolding parts0 [OF that] using that by (cases xs) (auto simp: cut_alike_def)
  then show ?thesis unfolding rowwise_def by (auto simp: hd_map)
qed


text \<open>Passing a batch twice fails when it needs padding: the first pass has changed its length.\<close>

lemma same_batch_twice:
  assumes "a < length store" "dispatchable (store ! a)" "0 < proto_len (store ! a)" "0 < world" "is_padding_enabled ap (store ! a)"
    and "\<not> world dvd proto_len (store ! a)"
  shows "split_args_kwargs_with_auto_padding ap world store [a, a] [] = Inl AssertionError"
proof -
  let ?d = "store ! a" and ?p = "pad_count world (proto_len (store ! a))"
  obtain ds where ds: "padding_and_split_data ap world a (store, None) = Inr (ds, store[a := padded world ?d], Some (proto_len ?d, ?p))"
    using padding_and_split_ok [of store a world ap None] assms by blast
  have "0 < ?p" using assms(4,6) by (simp add: pad_count_def mod_greater_zero_iff_not_dvd)
  then have "padding_and_split_data ap world a (store[a := padded world ?d], Some (proto_len ?d, ?p)) = Inl AssertionError"
    using padded_ok(2,3) [OF assms(2,3), of world] assms(1,5) by (simp add: padding_and_split_data_def is_padding_enabled_def Let_def)
  then show ?thesis using ds by (simp add: split_args_kwargs_with_auto_padding_def)
qed

text \<open>
  A method with dispatch mode \<open>DP_COMPUTE_METRIC\<close> returns one metric per worker, and the
  removal of the padding is applied to that list: when the batch was padded by \<open>p\<close> rows, the
  metrics of the last \<open>p\<close> workers are lost, although each of those workers that has a real row
  has computed a metric over it.
\<close>

lemma metric_call_drops_workers:
  assumes "a < length store" "dispatchable (store ! a)" "0 < proto_len (store ! a)" "0 < world" "is_padding_enabled ap (store ! a)"
  shows "\<exists>ds. length ds = world \<and> concat_proto ds = Inr (padded world (store ! a))
    \<and> dp_compute_metric_call ap world (batch_worker (\<lambda>xs. w (hd xs))) store [a] []
        = Inr (take (world - pad_count world (proto_len (store ! a))) (map w ds), store[a := padded world (store ! a)])"
proof -
  obtain ds where ds: "padding_and_split_data ap world a (store, None) = Inr (ds, store[a := padded world (store ! a)],
      Some (proto_len (store ! a), pad_count world (proto_len (store ! a))))" "length ds = world" "concat_proto ds = Inr (padded world (store ! a))"
    using padding_and_split_ok [of store a world ap None] assms by blast
  have "map (\<lambda>i. w (ds ! i)) [0..<world] = map w ds" using ds(2) by (intro nth_equalityI) simp_all
  then show ?thesis
    using ds execute_all_batches [of "[ds]" world "\<lambda>xs. w (hd xs)"]
    by (intro exI [of _ ds]) (simp add: dp_compute_metric_call_def split_args_kwargs_with_auto_padding_def collect_dp_compute_def py_drop_last_def Let_def)
qed

end
