(* ===== verification/Proto_Items.thy ===== *)
theory Proto_Items
  imports Data_Proto
begin

text \<open>
  \<open>verl/protocol.py\<close>, the rows of a batch: \<open>__getitem__\<close>, \<open>DataProtoItem\<close>, \<open>collate_fn\<close> and
  \<open>make_iterator\<close>, and the type of batches: every \<open>DataProto\<close> the operations of \<open>protocol.py\<close> can
  build from well-formed dicts is well formed.  The order in which the \<open>DataLoader\<close> visits the
  rows in an epoch is a parameter.
\<close>

section \<open>Items\<close>

record 'a data_item =
  it_batch :: "(string \<times> 'a) list option"
  it_non_tensor :: "(string \<times> 'a) list"
  it_meta :: "(string \<times> meta) list"

definition row_at :: "int \<Rightarrow> (string \<times> 'a list) list \<Rightarrow> (string \<times> 'a) list result" where
  "row_at i cols = map_r (\<lambda>(k, v). rbind (py_index (length v) i) (\<lambda>j. Inr (k, v ! j))) cols"

definition data_proto_item :: "'a data_proto \<Rightarrow> int \<Rightarrow> 'a data_item result" where
  "data_proto_item d i =
     rbind (case dp_batch d of
              None \<Rightarrow> Inr None
            | Some td \<Rightarrow> rbind (row_at i (td_cols td)) (\<lambda>r. Inr (Some r))) (\<lambda>b.
     rbind (row_at i (dp_non_tensor d)) (\<lambda>nt.
     Inr \<lparr>it_batch = b, it_non_tensor = nt, it_meta = dp_meta d\<rparr>))"

datatype item_key = KSlice "int option" "int option" "nat option" | KIdxs idxs | KInt int | KOther

datatype 'a getitem_result = GProto "'a data_proto" | GItem "'a data_item"

definition getitem :: "'a data_proto \<Rightarrow> item_key \<Rightarrow> 'a getitem_result result" where
  "getitem d item = (case item of
       KSlice start stop step \<Rightarrow> rbind (slice d start stop step) (\<lambda>r. Inr (GProto r))
     | KIdxs ix \<Rightarrow> rbind (select_idxs d ix) (\<lambda>r. Inr (GProto r))
     | KInt i \<Rightarrow> rbind (data_proto_item d i) (\<lambda>r. Inr (GItem r))
     | KOther \<Rightarrow> Inl TypeError)"

text \<open>\<open>torch.stack\<close> of row dicts: it refuses an empty list and rows with different keys.\<close>

definition td_stack :: "(string \<times> 'a) list list \<Rightarrow> 'a tensor_dict result" where
  "td_stack rows = (case rows of
       [] \<Rightarrow> Inl RuntimeError
     | r # _ \<Rightarrow>
         if list_all (\<lambda>x. fst ` set x = fst ` set r) rows
         then Inr \<lparr>td_cols = map (\<lambda>(k, _). (k, map (\<lambda>x. the (map_of x k)) rows)) r, td_bs = length rows\<rparr>
         else Inl RuntimeError)"

definition collate_fn :: "'a data_item list \<Rightarrow> 'a data_proto result" where
  "collate_fn x =
     rbind (if list_all (\<lambda>it. it_batch it \<noteq> None) x then td_stack (map (the \<circ> it_batch) x) else Inl TypeError) (\<lambda>batch.
     rbind (list_of_dict_to_dict_of_list (map it_non_tensor x)) (\<lambda>non_tensor_batch.
     mk_proto (Some batch) non_tensor_batch []))"

text \<open>
  The batches \<open>make_iterator\<close> yields, in order; \<open>order e\<close> are the rows as the sampler of the
  \<open>DataLoader\<close> draws them in epoch \<open>e\<close>, grouped by its batch size.
\<close>

definition make_iterator :: "(nat \<Rightarrow> nat list) \<Rightarrow> 'a data_proto \<Rightarrow> nat \<Rightarrow> nat \<Rightarrow> 'a data_proto list result" where
  "make_iterator order d mini_batch_size epochs = (case dp_batch d of
       None \<Rightarrow> Inl AttributeError
     | Some td \<Rightarrow>
         if mini_batch_size = 0 then Inl ZeroDivisionError else
         rbind (assert_r (td_bs td mod mini_batch_size = 0) AssertionError) (\<lambda>_.
         map_r (\<lambda>rows. rbind (map_r (\<lambda>i. data_proto_item d (int i)) rows) (\<lambda>items.
                        rbind (collate_fn items) (\<lambda>b. Inr (b\<lparr>dp_meta := dp_meta d\<rparr>))))
           (concat (map (\<lambda>e. chunks_of mini_batch_size (order e)) [0..<epochs]))))"

section \<open>Collating items\<close>

lemma row_at_ok:
  assumes "cols_wf n cols" "i < n"
  shows "row_at (int i) cols = Inr (map (\<lambda>(k, v). (k, v ! i)) cols)"
  unfolding row_at_def by (rule map_r_Inr) (use assms in \<open>auto simp: cols_wf_def py_index_def\<close>)

lemma update_middle: "k \<notin> fst ` set xs \<Longrightarrow> AList.update k y (xs @ (k, x) # zs) = xs @ (k, y) # zs"
  by (induction xs) auto

lemma map_of_middle: "k \<notin> fst ` set xs \<Longrightarrow> map_of (xs @ (k, x) # zs) k = Some x"
  by (induction xs) auto

lemma append_row:
  assumes "distinct (map fst (pre @ map (\<lambda>(k, v). (k, g v)) cols))"
  shows "fold_r (\<lambda>(k, item) out. case map_of out k of
             None \<Rightarrow> Inl AssertionError
           | Some xs \<Rightarrow> Inr (AList.update k (xs @ [item]) out))
           (map (\<lambda>(k, v). (k, h v)) cols) (pre @ map (\<lambda>(k, v). (k, g v)) cols)
       = Inr (pre @ map (\<lambda>(k, v). (k, g v @ [h v])) cols)"
  using assms
proof (induction cols arbitrary: pre)
  case (Cons c cols)
  obtain k v where c: "c = (k, v)" by (cases c)
  have k: "k \<notin> fst ` set pre" using Cons.prems by (auto simp: c)
  have "distinct (map fst ((pre @ [(k, g v @ [h v])]) @ map (\<lambda>(k, v). (k, g v)) cols))"
    using Cons.prems by (auto simp: c)
  from Cons.IH [OF this] show ?case
    by (simp add: c map_of_middle [OF k] update_middle [OF k] del: map_of_append)
qed simp

lemma collect_rows:
  assumes "distinct (map fst cols)"
  shows "fold_r (fold_r (\<lambda>(k, item) out. case map_of out k of
             None \<Rightarrow> Inl AssertionError
           | Some xs \<Rightarrow> Inr (AList.update k (xs @ [item]) out)))
           (map (\<lambda>i. map (\<lambda>(k, v). (k, v ! i)) cols) is) (map (\<lambda>(k, v). (k, g v)) cols)
       = Inr (map (\<lambda>(k, v). (k, g v @ map ((!) v) is)) cols)"
proof (induction "is" arbitrary: g)
  case (Cons i "is")
  have keys: "map (fst \<circ> (\<lambda>(k, v). (k, g v))) cols = map fst cols" by (simp add: case_prod_beta comp_def)
  have "distinct (map fst ([] @ map (\<lambda>(k, v). (k, g v)) cols))" using assms by (simp add: keys)
  from append_row [OF this, of "\<lambda>v. v ! i"] Cons.IH [of "\<lambda>v. g v @ [v ! i]"] show ?case by simp
qed simp

lemma list_of_rows:
  fixes cols :: "(string \<times> 'a list) list"
  assumes "distinct (map fst cols)" "is \<noteq> []"
  shows "list_of_dict_to_dict_of_list (map (\<lambda>i. map (\<lambda>(k, v). (k, v ! i)) cols) is)
    = Inr (map_cols (\<lambda>v. map ((!) v) is) cols)"
proof -
  obtain i is' where i: "is = i # is'" using assms(2) by (cases "is") auto
  have "map (\<lambda>(k, _). (k, [])) (map (\<lambda>(k, v). (k, v ! i)) cols) = map (\<lambda>(k, v). (k, [] :: 'a list)) cols"
    by (simp add: case_prod_beta comp_def)
  with collect_rows [OF assms(1), of "is" "\<lambda>_. []"] show ?thesis
    unfolding list_of_dict_to_dict_of_list_def map_cols_def i list.map list.case by (simp only: append_Nil)
qed

lemma stack_rows:
  assumes "distinct (map fst cols)" "is \<noteq> []"
  shows "td_stack (map (\<lambda>i. map (\<lambda>(k, v). (k, v ! i)) cols) is)
    = Inr \<lparr>td_cols = map_cols (\<lambda>v. map ((!) v) is) cols, td_bs = length is\<rparr>"
proof -
  have row: "map_of (map (\<lambda>(k, v). (k, v ! i)) cols) k = Some (v ! i)" if "(k, v) \<in> set cols" for k v i
    using that assms(1) by (simp add: map_of_map comp_def)
  have keys: "fst ` set (map (\<lambda>(k, v). (k, v ! i)) cols) = fst ` set cols" for i by force
  obtain i is' where i: "is = i # is'" using assms(2) by (cases "is") auto
  have "map (\<lambda>(k, _). (k, map (\<lambda>x. the (map_of x k)) (map (\<lambda>i. map (\<lambda>(k, v). (k, v ! i)) cols) is)))
      (map (\<lambda>(k, v). (k, v ! i)) cols) = map_cols (\<lambda>v. map ((!) v) is) cols"
    unfolding map_cols_def map_map by (rule map_cong [OF refl]) (auto simp: row)
  moreover have "list_all (\<lambda>x. fst ` set x = fst ` set (map (\<lambda>(k, v). (k, v ! i)) cols))
      (map (\<lambda>i. map (\<lambda>(k, v). (k, v ! i)) cols) is)"
    unfolding list_all_iff using keys by (metis (no_types, lifting) imageE set_map)
  ultimately show ?thesis by (simp add: td_stack_def i del: set_map)
qed

lemma collate_items:
  assumes wf: "proto_wf d" and b: "dp_batch d = Some td" and ne: "is \<noteq> []" and rng: "\<forall>i\<in>set is. i < proto_len d"
  shows "rbind (map_r (\<lambda>i. data_proto_item d (int i)) is) (\<lambda>items.
      rbind (collate_fn items) (\<lambda>b. Inr (b\<lparr>dp_meta := dp_meta d\<rparr>)))
    = Inr (rows_map (\<lambda>v. map ((!) v) is) (length is) d)"
proof -
  let ?row = "\<lambda>i. map (\<lambda>(k, v). (k, v ! i))"
  have td: "cols_wf (proto_len d) (td_cols td)" and nt: "cols_wf (proto_len d) (dp_non_tensor d)"
    using proto_wf_lens [OF wf] b by auto
  then have dist: "distinct (map fst (td_cols td))" "distinct (map fst (dp_non_tensor d))"
    by (auto simp: cols_wf_def)
  let ?item = "\<lambda>i. \<lparr>it_batch = Some (?row i (td_cols td)), it_non_tensor = ?row i (dp_non_tensor d), it_meta = dp_meta d\<rparr>"
  have items: "map_r (\<lambda>i. data_proto_item d (int i)) is = Inr (map ?item is)"
    by (rule map_r_Inr) (use rng in \<open>simp add: data_proto_item_def b row_at_ok [OF td] row_at_ok [OF nt]\<close>)
  have st: "td_stack (map (the \<circ> it_batch) (map ?item is)) = Inr (the (dp_batch (rows_map (\<lambda>v. map ((!) v) is) (length is) d)))"
    using stack_rows [OF dist(1) ne] by (simp add: comp_def rows_map_def b)
  have ls: "list_of_dict_to_dict_of_list (map it_non_tensor (map ?item is))
      = Inr (dp_non_tensor (rows_map (\<lambda>v. map ((!) v) is) (length is) d))"
    using list_of_rows [OF dist(2) ne] by (simp add: comp_def rows_map_def)
  have mk: "mk_proto (Some (the (dp_batch (rows_map (\<lambda>v. map ((!) v) is) (length is) d))))
        (dp_non_tensor (rows_map (\<lambda>v. map ((!) v) is) (length is) d)) []
      = Inr ((rows_map (\<lambda>v. map ((!) v) is) (length is) d)\<lparr>dp_meta := []\<rparr>)"
  proof -
    have "list_all (\<lambda>(_, v). length v = length is) (map_cols (\<lambda>v. map ((!) v) is) (dp_non_tensor d))"
      by (auto simp: list_all_iff map_cols_def)
    then show ?thesis by (simp add: mk_proto_def check_consistency_def rows_map_def b)
  qed
  have "list_all (\<lambda>it. it_batch it \<noteq> None) (map ?item is)" by (simp add: list_all_iff)
  then have "collate_fn (map ?item is) = Inr ((rows_map (\<lambda>v. map ((!) v) is) (length is) d)\<lparr>dp_meta := []\<rparr>)"
    unfolding collate_fn_def st ls by (simp only: if_True rbind_Inr mk)
  then show ?thesis unfolding items by (simp add: rows_map_def)
qed

lemma chunks_of_rows:
  assumes "c \<in> set (chunks_of n xs)" "n \<noteq> 0" "n dvd length xs"
  shows "length c = n" "set c \<subseteq> set xs"
proof -
  show "set c \<subseteq> set xs" using assms(1,2) concat_chunks_of [OF assms(2), of xs] by (metis UN_upper set_concat)
  from assms show "length c = n"
  proof (induction n xs rule: chunks_of.induct)
    case (1 n xs)
    then have ne: "xs \<noteq> []" by auto
    with 1(4) have le: "n \<le> length xs" by (simp add: dvd_imp_le)
    consider "c = take n xs" | "c \<in> set (chunks_of n (drop n xs))"
      using 1(2,3) ne by (auto simp: chunks_of_step)
    then show ?case
    proof cases
      case 2
      moreover have "n dvd length (drop n xs)" using 1(4) le by simp
      ultimately show ?thesis using 1(1) 1(3) ne by blast
    qed (simp add: le)
  qed
qed

text \<open>
  \<open>make_iterator\<close> goes over the whole batch in every epoch: when the sampler draws the rows in
  some order (a permutation of the row numbers), the mini-batches of an epoch are, in that order,
  the rows of the batch cut into pieces of \<open>mini_batch_size\<close>, so the pieces together hold every row of every
  column exactly once, and each carries the meta information of the batch.
\<close>

lemma make_iterator_epochs:
  assumes "proto_wf d" "dp_batch d \<noteq> None" "0 < m" "m dvd proto_len d"
    and perm: "\<forall>e<epochs. mset (order e) = mset [0..<proto_len d]"
  shows "make_iterator order d m epochs
      = Inr (concat (map (\<lambda>e. map (\<lambda>rows. rows_map (\<lambda>v. map ((!) v) rows) m d) (chunks_of m (order e))) [0..<epochs]))
    \<and> (\<forall>e<epochs. \<forall>v. length v = proto_len d \<longrightarrow> mset (concat (map (\<lambda>rows. map ((!) v) rows) (chunks_of m (order e)))) = mset v)"
proof -
  obtain td where b: "dp_batch d = Some td" using assms(2) by auto
  let ?f = "\<lambda>rows. rows_map (\<lambda>v. map ((!) v) rows) m d"
  let ?rows = "concat (map (\<lambda>e. chunks_of m (order e)) [0..<epochs])"
  have "map_r (\<lambda>rows. rbind (map_r (\<lambda>i. data_proto_item d (int i)) rows) (\<lambda>items.
      rbind (collate_fn items) (\<lambda>b. Inr (b\<lparr>dp_meta := dp_meta d\<rparr>)))) ?rows = Inr (map ?f ?rows)"
  proof (rule map_r_Inr)
    fix rows assume "rows \<in> set ?rows"
    then obtain e where e: "e < epochs" "rows \<in> set (chunks_of m (order e))" by auto
    have "mset (order e) = mset [0..<proto_len d]" using perm e(1) by blast
    from mset_eq_length [OF this] mset_eq_setD [OF this]
    have o: "length (order e) = proto_len d" "set (order e) = {0..<proto_len d}" by simp_all
    have rows: "length rows = m" "set rows \<subseteq> {0..<proto_len d}"
      using chunks_of_rows [OF e(2)] assms(3,4) by (simp_all add: o)
    then have "rows \<noteq> []" "\<forall>i\<in>set rows. i < proto_len d" using assms(3) by auto
    from collate_items [OF assms(1) b this] rows(1)
    show "rbind (map_r (\<lambda>i. data_proto_item d (int i)) rows) (\<lambda>items.
      rbind (collate_fn items) (\<lambda>b. Inr (b\<lparr>dp_meta := dp_meta d\<rparr>))) = Inr (?f rows)" by simp
  qed
  moreover have "td_bs td = proto_len d" using b by (simp add: proto_len_def)
  ultimately have it: "make_iterator order d m epochs
      = Inr (concat (map (\<lambda>e. map ?f (chunks_of m (order e))) [0..<epochs]))"
    using assms(3,4) by (simp add: make_iterator_def b map_concat comp_def)
  have "mset (concat (map (\<lambda>rows. map ((!) v) rows) (chunks_of m (order e)))) = mset v"
    if e: "e < epochs" and v: "length v = proto_len d" for e and v :: "'b list"
  proof -
    have "concat (map (\<lambda>rows. map ((!) v) rows) (chunks_of m (order e))) = map ((!) v) (order e)"
      using concat_chunks_of [of m "order e"] assms(3) by (metis map_concat not_gr_zero)
    also have "mset \<dots> = image_mset ((!) v) (mset [0..<length v])" using perm e v by (simp del: mset_upt)
    also have "\<dots> = mset v" by (metis map_nth mset_map)
    finally show ?thesis .
  qed
  with it show ?thesis by blast
qed

section \<open>The type of batches\<close>

text \<open>
  The batches a program can obtain: from dicts (keys are unique; object columns of a dict without tensors, which
  the constructor does not check, have to agree in length) and by the operations.
\<close>

inductive proto_value :: "'a data_proto \<Rightarrow> bool" where
  From_dict: "from_dict ts nts mi pad = Inr d \<Longrightarrow> distinct (map fst ts) \<Longrightarrow> distinct (map fst nts)
    \<Longrightarrow> (ts = [] \<Longrightarrow> list_all (\<lambda>(_, v). length v = n) nts) \<Longrightarrow> proto_value d"
| From_single: "from_single_dict data mi pad = Inr d \<Longrightarrow> (k, RTensor v) \<in> set data \<Longrightarrow> proto_value d"
| Select: "proto_value d \<Longrightarrow> select d bk nk mk = Inr d' \<Longrightarrow> proto_value d'"
| Getitem: "proto_value d \<Longrightarrow> getitem d key = Inr (GProto d') \<Longrightarrow> proto_value d'"
| Popped: "proto_value d \<Longrightarrow> pop d bk nk mk = Inr (d', d'') \<Longrightarrow> proto_value d'"
| Pop_rest: "proto_value d \<Longrightarrow> pop d bk nk mk = Inr (d', d'') \<Longrightarrow> proto_value d''"
| Union: "proto_value d \<Longrightarrow> proto_value e \<Longrightarrow> union_proto d e = Inr d' \<Longrightarrow> proto_value d'"
| Chunk: "proto_value d \<Longrightarrow> chunk pad d k = Inr ds \<Longrightarrow> d' \<in> set ds \<Longrightarrow> proto_value d'"
| Split: "proto_value d \<Longrightarrow> split d k = Inr ds \<Longrightarrow> d' \<in> set ds \<Longrightarrow> proto_value d'"
| Concat: "(\<And>d. d \<in> set ds \<Longrightarrow> proto_value d) \<Longrightarrow> concat_proto ds = Inr d' \<Longrightarrow> proto_value d'"
| Reorder: "proto_value d \<Longrightarrow> reorder d is = Inr d' \<Longrightarrow> proto_value d'"
| Repeat: "proto_value d \<Longrightarrow> repeat d r il = Inr d' \<Longrightarrow> proto_value d'"
| Sample_repeat: "proto_value d \<Longrightarrow> sample_level_repeat d rs = Inr d' \<Longrightarrow> proto_value d'"
| Padding: "proto_value d \<Longrightarrow> padding d n cand = Inr d' \<Longrightarrow> proto_value d'"
| Pad: "proto_value d \<Longrightarrow> pad_dataproto_to_divisor d k = Inr (d', n) \<Longrightarrow> proto_value d'"
| Unpad: "proto_value d \<Longrightarrow> unpad_dataproto d n = Inr d' \<Longrightarrow> proto_value d'"

lemma mk_proto_wf:
  assumes "mk_proto b nt mi = Inr d" "\<And>td. b = Some td \<Longrightarrow> cols_wf (td_bs td) (td_cols td)"
    and "distinct (map fst nt)" "b = None \<Longrightarrow> cols_wf n nt"
  shows "proto_wf d"
proof -
  have d: "d = \<lparr>dp_batch = b, dp_non_tensor = nt, dp_meta = mi\<rparr>" "check_consistency d = Inr ()"
    using assms(1) by (auto simp: mk_proto_def Let_def rbind_eq_Inr_iff)
  show ?thesis
  proof (cases b)
    case None
    then have "cols_wf (proto_len d) nt" using assms(4)
      by (cases nt) (auto simp: d(1) proto_len_def cols_wf_def)
    then show ?thesis by (simp add: proto_wf_def d(1) None)
  next
    case (Some td)
    then show ?thesis using d(2) assms(2,3)
      by (auto simp: proto_wf_def d(1) proto_len_def cols_wf_def check_consistency_def list_all_iff)
  qed
qed

lemma cols_wf_filter: "cols_wf n cols \<Longrightarrow> cols_wf n (filter P cols)"
  by (auto simp: cols_wf_def distinct_map_filter)

lemma cols_wf_delete: "cols_wf n cols \<Longrightarrow> cols_wf n (AList.delete k cols)"
  by (auto simp: AList.delete_eq intro: cols_wf_filter)

lemma cols_wf_update: "cols_wf n cols \<Longrightarrow> length v = n \<Longrightarrow> cols_wf n (AList.update k v cols)"
proof -
  assume "cols_wf n cols" "length v = n"
  moreover have "set (AList.update k v cols) \<subseteq> insert (k, v) (set cols)" by (induction cols) auto
  ultimately show ?thesis unfolding cols_wf_def using distinct_update [of cols k v] by fastforce
qed

lemma map_cols_r_wf:
  assumes "map_cols_r f cols = Inr cols'" "cols_wf n cols"
    and "\<And>v w. length v = n \<Longrightarrow> f v = Inr w \<Longrightarrow> length w = m"
  shows "cols_wf m cols'"
proof -
  have *: "map fst cols' = map fst cols \<and> (\<forall>(k, w)\<in>set cols'. \<exists>v. (k, v) \<in> set cols \<and> f v = Inr w)"
    using assms(1)
  proof (induction cols arbitrary: cols')
    case (Cons c cols)
    obtain k v where c: "c = (k, v)" by (cases c)
    obtain w cs where w: "f v = Inr w" "map_cols_r f cols = Inr cs" "cols' = (k, w) # cs"
      using Cons.prems by (auto simp: c map_cols_r_def rbind_eq_Inr_iff)
    from Cons.IH [OF w(2)] w(1) show ?case by (auto simp: c w(3))
  qed (simp add: map_cols_r_def)
  have "length w = m" if kw: "(k, w) \<in> set cols'" for k w
  proof -
    obtain v where "(k, v) \<in> set cols" "f v = Inr w" using * kw by blast
    then show ?thesis using assms(2) assms(3) [of v w] by (auto simp: cols_wf_def)
  qed
  with * assms(2) show ?thesis by (auto simp: cols_wf_def)
qed

lemma td_make_wf: "td_make cols n = Inr td \<Longrightarrow> distinct (map fst cols) \<Longrightarrow> cols_wf (td_bs td) (td_cols td)"
  by (auto simp: td_make_def cols_wf_def list_all_iff split: if_splits)

lemma pop_keys_wf:
  assumes "pop_keys ks cols = Inr (popped, rest)" "cols_wf n cols"
  shows "cols_wf n popped \<and> cols_wf n rest"
proof -
  have "cols_wf n popped \<and> cols_wf n rest"
    if "fold_r (\<lambda>k (popped, cols). case map_of cols k of None \<Rightarrow> Inl AssertionError
          | Some v \<Rightarrow> Inr (AList.update k v popped, AList.delete k cols)) ks (acc, cols) = Inr (popped, rest)"
      "cols_wf n acc" "cols_wf n cols" for acc :: "(string \<times> 'a list) list" and cols
    using that
  proof (induction ks arbitrary: acc cols)
    case (Cons k ks)
    obtain v where v: "map_of cols k = Some v" using Cons.prems(1) by (cases "map_of cols k") auto
    then have "length v = n" using Cons.prems(3) by (auto simp: cols_wf_def dest: map_of_SomeD)
    with Cons v show ?case by (auto intro: cols_wf_update cols_wf_delete)
  qed simp
  from this [of "[]" cols] assms show ?thesis by (simp add: pop_keys_def cols_wf_def [of n "[]"])
qed

lemma rows_wf:
  assumes "proto_wf d"
  shows "\<And>td. dp_batch d = Some td \<Longrightarrow> cols_wf (proto_len d) (td_cols td)" "cols_wf (proto_len d) (dp_non_tensor d)"
  using proto_wf_lens [OF assms] by auto

lemma from_dict_wf:
  assumes "from_dict ts nts mi pad = Inr d" "distinct (map fst ts)" "distinct (map fst nts)"
    and "ts = [] \<Longrightarrow> list_all (\<lambda>(_, v). length v = n) nts"
  shows "proto_wf d"
proof (cases ts)
  case Nil
  then have "cols_wf n nts" using assms(3,4) by (auto simp: cols_wf_def list_all_iff)
  then show ?thesis using assms(1,3) Nil by (auto simp: from_dict_def Let_def intro: mk_proto_wf)
next
  case (Cons t rest)
  obtain k v where t: "t = (k, v)" by (cases t)
  obtain td mi' where "td_make ts (length v) = Inr td" "mk_proto (Some td) nts mi' = Inr d"
    using assms(1) by (auto simp: from_dict_def Let_def Cons t rbind_eq_Inr_iff)
  then show ?thesis using td_make_wf assms(2,3) by (auto intro: mk_proto_wf)
qed

lemma from_single_dict_wf:
  assumes "from_single_dict data mi pad = Inr d" "(k, RTensor v) \<in> set data"
  shows "proto_wf d"
proof -
  let ?f = "\<lambda>(key, val) (tensors, non_tensors).
      case val of RTensor v \<Rightarrow> Inr (AList.update key v tensors, non_tensors)
      | RArray v \<Rightarrow> Inr (tensors, AList.update key v non_tensors)
      | ROther \<Rightarrow> Inl ValueError"
  have keys: "distinct (map fst ts') \<and> distinct (map fst nts') \<and> (ts' = [] \<longrightarrow> ts = [] \<and> (\<forall>k v. (k, RTensor v) \<notin> set data))"
    if "fold_r ?f data (ts, nts) = Inr (ts', nts')" "distinct (map fst ts)" "distinct (map fst nts)"
    for ts nts ts' nts' :: "(string \<times> 'a list) list"
    using that
  proof (induction data arbitrary: ts nts)
    case (Cons e data)
    obtain key val where e: "e = (key, val)" by (cases e)
    show ?case
    proof (cases val)
      case (RTensor w)
      from Cons.IH [of "AList.update key w ts" nts] Cons.prems show ?thesis
        by (simp add: e RTensor distinct_update)
    next
      case (RArray w)
      from Cons.IH [of ts "AList.update key w nts"] Cons.prems show ?thesis
        by (simp add: e RArray distinct_update)
    next
      case ROther
      then show ?thesis using Cons.prems by (simp add: e)
    qed
  qed auto
  obtain ts nts where run: "fold_r ?f data ([], []) = Inr (ts, nts)" "from_dict ts nts mi pad = Inr d"
    using assms(1) by (auto simp: from_single_dict_def rbind_eq_Inr_iff)
  from keys [OF run(1)] assms(2) show ?thesis by (intro from_dict_wf [OF run(2)]) auto
qed

lemma select_wf:
  assumes "proto_wf d" "select d bk nk mk = Inr d'"
  shows "proto_wf d'"
proof -
  let ?nt = "case nk of None \<Rightarrow> dp_non_tensor d | Some ks \<Rightarrow> filter (\<lambda>(k, _). k \<in> set ks) (dp_non_tensor d)"
  obtain b mi where mk: "mk_proto b ?nt mi = Inr d'"
    and b: "(bk = None \<and> b = dp_batch d)
      \<or> (\<exists>td P. dp_batch d = Some td \<and> b = Some (td\<lparr>td_cols := filter P (td_cols td)\<rparr>))"
    using assms(2) unfolding select_def by (fastforce simp: rbind_eq_Inr_iff split: option.splits if_splits)
  have nt: "cols_wf (proto_len d) ?nt" using rows_wf(2) [OF assms(1)] by (auto intro: cols_wf_filter split: option.split)
  have "cols_wf (td_bs td) (td_cols td)" if "b = Some td" for td
    using b that assms(1) by (auto simp: proto_wf_def intro: cols_wf_filter)
  then show ?thesis using nt by (intro mk_proto_wf [OF mk]) (auto simp: cols_wf_def)
qed

lemma map_cols_r_proto_wf:
  assumes wf: "proto_wf d"
    and b: "(case dp_batch d of None \<Rightarrow> Inr None
            | Some td \<Rightarrow> rbind (map_cols_r f (td_cols td)) (\<lambda>cols. rbind (td_make cols n) (\<lambda>td'. Inr (Some td')))) = Inr b"
    and nt: "map_cols_r f (dp_non_tensor d) = Inr nt"
    and len: "\<And>v w. length v = proto_len d \<Longrightarrow> f v = Inr w \<Longrightarrow> length w = m"
    and mk: "mk_proto b nt mi = Inr d'"
  shows "proto_wf d'"
proof (rule mk_proto_wf [OF mk])
  have "cols_wf m nt" by (rule map_cols_r_wf [OF nt rows_wf(2) [OF wf] len])
  then show "distinct (map fst nt)" "cols_wf m nt" by (simp_all add: cols_wf_def)
  fix td' assume "b = Some td'"
  then obtain td cols where td: "dp_batch d = Some td" "map_cols_r f (td_cols td) = Inr cols" "td_make cols n = Inr td'"
    using b by (auto simp: rbind_eq_Inr_iff split: option.splits)
  from map_cols_r_wf [OF td(2) rows_wf(1) [OF wf td(1)] len] td_make_wf [OF td(3)]
  show "cols_wf (td_bs td') (td_cols td')" by (auto simp: cols_wf_def)
qed

lemma length_index_column:
  assumes "index_column ix v = Inr w"
  shows "length w = index_count ix"
proof (cases ix)
  case (Idx js)
  then show ?thesis using assms
    by (auto simp: index_column_def index_count_def gather_def rbind_eq_Inr_iff dest!: map_r_length)
next
  case (Mask ms)
  have "length (filter fst (zip ms v)) = length (filter id ms)" if "length ms = length v"
    using that by (induction ms v rule: list_induct2) auto
  then show ?thesis using Mask assms by (auto simp: index_column_def index_count_def split: if_splits)
qed

lemma select_idxs_wf: "proto_wf d \<Longrightarrow> select_idxs d ix = Inr d' \<Longrightarrow> proto_wf d'"
  unfolding select_idxs_def rbind_eq_Inr_iff
  by (elim exE conjE) (rule map_cols_r_proto_wf, assumption+, rule length_index_column, assumption+)

lemma sample_level_repeat_wf:
  assumes "proto_wf d" "sample_level_repeat d rs = Inr d'"
  shows "proto_wf d'"
proof -
  have len: "length w = (if length rs = proto_len d then sum_list rs else proto_len d * hd rs)"
    if "length v = proto_len d" "repeat_each rs v = Inr w" for v w :: "'a list"
  proof (cases "length rs = length v")
    case True
    then have "length (concat (map (\<lambda>(n, x). replicate n x) (zip rs v))) = sum_list rs"
      by (induction rs v rule: list_induct2) auto
    then show ?thesis using that True by (simp add: repeat_each_def)
  next
    case False
    then show ?thesis using that
      by (auto simp: repeat_each_def length_concat comp_def sum_list_triv split: list.splits if_splits)
  qed
  from assms(2) show ?thesis unfolding sample_level_repeat_def rbind_eq_Inr_iff
    by (elim exE conjE) (rule map_cols_r_proto_wf [OF assms(1) _ _ len], assumption+)
qed

lemma reorder_wf:
  assumes "proto_wf d" "reorder d js = Inr d'"
  shows "proto_wf d'"
proof -
  obtain td cols nt where r: "dp_batch d = Some td" "map_cols_r (index_column (Idx js)) (td_cols td) = Inr cols"
      "map_cols_r (index_column (Idx js)) (dp_non_tensor d) = Inr nt"
      "d' = \<lparr>dp_batch = Some \<lparr>td_cols = cols, td_bs = length js\<rparr>, dp_non_tensor = nt, dp_meta = dp_meta d\<rparr>"
    using assms(2) by (auto simp: reorder_def rbind_eq_Inr_iff split: option.splits)
  have len: "length w = length js" if "length v = proto_len d" "index_column (Idx js) v = Inr w" for v w :: "'a list"
    using length_index_column [OF that(2)] by (simp add: index_count_def)
  from map_cols_r_wf [OF r(2) rows_wf(1) [OF assms(1) r(1)] len] map_cols_r_wf [OF r(3) rows_wf(2) [OF assms(1)] len]
  show ?thesis by (simp add: proto_wf_def proto_len_def r(4))
qed

lemma map_cols_proto_wf:
  assumes wf: "proto_wf d" and len: "\<And>v. length v = proto_len d \<Longrightarrow> length (f v) = m"
    and b: "\<And>td'. b = Some td' \<Longrightarrow> \<exists>td. dp_batch d = Some td \<and> td_cols td' = map_cols f (td_cols td) \<and> td_bs td' = m"
    and mk: "mk_proto b (map_cols f (dp_non_tensor d)) mi = Inr d'"
  shows "proto_wf d'"
proof (rule mk_proto_wf [OF mk])
  show nt: "cols_wf m (map_cols f (dp_non_tensor d))" by (rule cols_wf_map_cols [OF rows_wf(2) [OF wf] len])
  then show "distinct (map fst (map_cols f (dp_non_tensor d)))" by (simp add: cols_wf_def)
  fix td' assume "b = Some td'"
  then obtain td where td: "dp_batch d = Some td" "td_cols td' = map_cols f (td_cols td)" "td_bs td' = m" using b by blast
  show "cols_wf (td_bs td') (td_cols td')" unfolding td(2,3)
    by (rule cols_wf_map_cols [OF rows_wf(1) [OF wf td(1)] len])
qed

lemma hd_chunks_of_map: "map hd (chunks_of s (map f xs)) = map f (map hd (chunks_of s xs))"
proof -
  have "\<forall>c\<in>set (chunks_of s xs). c \<noteq> []"
    by (induction s xs rule: chunks_of.induct) (subst chunks_of.simps, auto)
  then show ?thesis by (simp add: chunks_of_map hd_map)
qed

lemma slice_list_map: "slice_list a b s (map f xs) = map f (slice_list a b s xs)"
  by (simp add: slice_list_def Let_def py_slice_def take_map drop_map hd_chunks_of_map split: option.split)

lemma length_slice_list_step: "length v = n \<Longrightarrow> length (slice_list a b s v) = length (slice_list a b s [0..<n])"
  by (metis length_map map_nth slice_list_map)

lemma slice_wf:
  assumes "proto_wf d" "slice d a b s = Inr d'"
  shows "proto_wf d'"
proof -
  have mk: "mk_proto (map_option (\<lambda>td. \<lparr>td_cols = map_cols (slice_list a b s) (td_cols td),
        td_bs = length (slice_list a b s [0..<td_bs td])\<rparr>) (dp_batch d))
      (map_cols (slice_list a b s) (dp_non_tensor d)) (dp_meta d) = Inr d'"
    using assms(2) by (simp add: slice_def split: if_splits)
  show ?thesis
    by (rule map_cols_proto_wf [OF assms(1) length_slice_list_step _ mk])
      (use proto_wf_lens(1) [OF assms(1)] in auto)
qed

lemma repeat_wf:
  assumes "proto_wf d" "repeat d r il = Inr d'"
  shows "proto_wf d'"
proof -
  obtain b where b: "(case dp_batch d of None \<Rightarrow> Inr None
      | Some td \<Rightarrow> rbind (td_make (map_cols (repeat_rows r il) (td_cols td)) (td_bs td * r)) (\<lambda>td'. Inr (Some td'))) = Inr b"
    and mk: "mk_proto b (map_cols (repeat_rows r il) (dp_non_tensor d)) (dp_meta d) = Inr d'"
    using assms(2) by (auto simp: repeat_def rbind_eq_Inr_iff)
  have len: "length (repeat_rows r il v) = proto_len d * r" if "length v = proto_len d" for v :: "'a list"
    using that by (simp add: repeat_rows_def length_concat comp_def sum_list_triv sum_list_replicate mult.commute)
  show ?thesis
    by (rule map_cols_proto_wf [OF assms(1) len _ mk])
      (use b proto_wf_lens(1) [OF assms(1)] in \<open>auto simp: td_make_def rbind_eq_Inr_iff split: option.splits if_splits\<close>)
qed

lemma split_wf:
  assumes "proto_wf d" "split d k = Inr ds" "d' \<in> set ds"
  shows "proto_wf d'"
proof -
  have run: "map_r (\<lambda>i. slice d (Some (int (i * k))) (Some (int (i * k + k))) None)
      [0..<(proto_len d + k - 1) div k] = Inr ds"
    using assms(2) by (auto simp: split_def split: if_splits)
  obtain i where i: "i < (proto_len d + k - 1) div k" "d' = ds ! i"
    using assms(3) map_r_length [OF run] by (auto simp: in_set_conv_nth)
  from map_r_nth [OF run, of i] i show ?thesis by (auto intro: slice_wf [OF assms(1)])
qed

lemma chunk_wf:
  assumes "proto_wf d" "chunk pad d k = Inr ds" "d' \<in> set ds"
  shows "proto_wf d'"
proof -
  have run: "map_r (\<lambda>i. rbind (py_nth (chunk_batches d k) i) (\<lambda>b.
      mk_proto b (map_cols (\<lambda>v. chunk_arrays d k v ! i) (dp_non_tensor d)) (dp_meta d))) [0..<k] = Inr ds"
    using assms(2) by (auto simp: chunk_def rbind_eq_Inr_iff split: if_splits)
  obtain i where i: "i < k" "d' = ds ! i" using assms(3) map_r_length [OF run] by (auto simp: in_set_conv_nth)
  from map_r_nth [OF run, of i] i obtain b where b: "py_nth (chunk_batches d k) i = Inr b"
    and mk: "mk_proto b (map_cols (\<lambda>v. chunk_arrays d k v ! i) (dp_non_tensor d)) (dp_meta d) = Inr d'"
    by (auto simp: rbind_eq_Inr_iff)
  have split_len: "map length (split_sizes ns v) = map length (split_sizes ns w)" if "length v = length w" for ns and v w :: "'a list"
    using that by (induction ns arbitrary: v w) auto
  show ?thesis
  proof (rule mk_proto_wf [OF mk])
    show "distinct (map fst (map_cols (\<lambda>v. chunk_arrays d k v ! i) (dp_non_tensor d)))"
      using rows_wf(2) [OF assms(1)] by (simp add: cols_wf_def)
    fix td' assume "b = Some td'"
    then obtain td rows where "dp_batch d = Some td" "td' = \<lparr>td_cols = map_cols (\<lambda>v. map ((!) v) rows) (td_cols td), td_bs = length rows\<rparr>"
      using b by (auto simp: py_nth_def chunk_batches_def split: option.splits if_splits)
    then show "cols_wf (td_bs td') (td_cols td')"
      using rows_wf(1) [OF assms(1)] by (auto intro: cols_wf_map_cols)
  next
    assume "b = None"
    then have none: "dp_batch d = None" using b by (auto simp: py_nth_def chunk_batches_def split: option.splits if_splits)
    define n where "n = length (array_split k (replicate (proto_len d) (undefined :: 'a)) ! i)"
    have "length (chunk_arrays d k v ! i) = n" if "length v = proto_len d" for v
    proof -
      have "map length (array_split k v) = map length (array_split k (replicate (proto_len d) (undefined :: 'a)))"
        unfolding array_split_def that length_replicate by (rule split_len) (simp add: that)
      moreover have "length (split_sizes ns w) = length ns" for ns and w :: "'a list" by (induction ns arbitrary: w) auto
      then have "i < length (array_split k v)" "i < length (array_split k (replicate (proto_len d) (undefined :: 'a)))"
        using i(1) by (simp_all add: array_split_def)
      ultimately show ?thesis unfolding n_def chunk_arrays_def none by (metis nth_map option.case(1))
    qed
    then show "cols_wf n (map_cols (\<lambda>v. chunk_arrays d k v ! i) (dp_non_tensor d))"
      by (rule cols_wf_map_cols [OF rows_wf(2) [OF assms(1)]])
  qed
qed

lemma pop_wf:
  assumes "proto_wf d" "pop d bk nk mk = Inr (d', d'')"
  shows "proto_wf d' \<and> proto_wf d''"
proof -
  obtain ts b nts nt mi rest where
    b: "(case dp_batch d of None \<Rightarrow> if bk = [] then Inr ([], None) else Inl AttributeError
         | Some td \<Rightarrow> rbind (pop_keys bk (td_cols td)) (\<lambda>(p, r). Inr (p, Some (td\<lparr>td_cols := r\<rparr>)))) = Inr (ts, b)"
    and nt: "pop_keys nk (dp_non_tensor d) = Inr (nts, nt)"
    and d': "from_dict ts nts mi False = Inr d'"
    and d'': "d'' = \<lparr>dp_batch = b, dp_non_tensor = nt, dp_meta = rest\<rparr>"
    using assms(2) by (auto simp: pop_def rbind_eq_Inr_iff)
  note ntw = pop_keys_wf [OF nt rows_wf(2) [OF assms(1)]]
  have tw: "cols_wf (proto_len d) ts \<and> (case b of None \<Rightarrow> dp_batch d = None
      | Some td' \<Rightarrow> td_bs td' = proto_len d \<and> cols_wf (proto_len d) (td_cols td'))"
  proof (cases "dp_batch d")
    case None
    then show ?thesis using b by (auto simp: cols_wf_def split: if_splits)
  next
    case (Some td)
    then obtain r where r: "pop_keys bk (td_cols td) = Inr (ts, r)" "b = Some (td\<lparr>td_cols := r\<rparr>)"
      using b by (auto simp: rbind_eq_Inr_iff)
    show ?thesis using pop_keys_wf [OF r(1) rows_wf(1) [OF assms(1) Some]] Some by (simp add: r(2) proto_len_def)
  qed
  have "proto_wf d'" by (rule from_dict_wf [OF d', of "proto_len d"]) (use tw ntw in \<open>auto simp: cols_wf_def list_all_iff\<close>)
  moreover have "mk_proto b nt rest = Inr d''"
    using tw ntw by (auto simp: mk_proto_def check_consistency_def d'' cols_wf_def list_all_iff rbind_def assert_r_def split: option.splits)
  then have "proto_wf d''"
    by (rule mk_proto_wf [where n = "proto_len d"]) (use tw ntw in \<open>auto simp: cols_wf_def\<close>)
  ultimately show ?thesis ..
qed

lemma fold_r_keeps:
  "fold_r f xs s = Inr s' \<Longrightarrow> P s \<Longrightarrow> (\<And>x s s'. x \<in> set xs \<Longrightarrow> P s \<Longrightarrow> f x s = Inr s' \<Longrightarrow> P s') \<Longrightarrow> P s'"
  by (induction xs arbitrary: s) (auto simp: rbind_eq_Inr_iff)

lemma union_wf:
  assumes "proto_wf d" "proto_wf e" "union_proto d e = Inr d'"
  shows "proto_wf d'"
proof -
  obtain b nt mi where u: "union_tensor_dict (dp_batch d) (dp_batch e) = Inr b" "union_dict (dp_non_tensor d) (dp_non_tensor e) = Inr nt"
      "d' = \<lparr>dp_batch = b, dp_non_tensor = nt, dp_meta = mi\<rparr>"
    using assms(3) by (auto simp: union_proto_def rbind_eq_Inr_iff)
  obtain x y cols where xy: "dp_batch d = Some x" "dp_batch e = Some y" "td_bs x = td_bs y" "b = Some (x\<lparr>td_cols := cols\<rparr>)"
    and cols: "fold_r (\<lambda>(k, v) cols. case map_of cols k of None \<Rightarrow> Inr (AList.update k v cols)
                | Some w \<Rightarrow> if w = v then Inr cols else Inl AssertionError) (td_cols y) (td_cols x) = Inr cols"
    using u(1) by (auto simp: union_tensor_dict_def rbind_eq_Inr_iff split: option.splits)
  have n: "proto_len d = td_bs x" "proto_len e = td_bs x" using xy by (simp_all add: proto_len_def)
  have "cols_wf (td_bs x) cols"
    by (rule fold_r_keeps [OF cols])
      (use rows_wf(1) [OF assms(1) xy(1)] rows_wf(1) [OF assms(2) xy(2)] in
        \<open>auto simp: n cols_wf_def [of _ "td_cols y"] split: option.splits if_splits intro!: cols_wf_update\<close>)
  moreover have "cols_wf (td_bs x) nt"
    by (rule fold_r_keeps [OF u(2) [unfolded union_dict_def]])
      (use rows_wf(2) [OF assms(1)] rows_wf(2) [OF assms(2)] in
        \<open>auto simp: n cols_wf_def [of _ "dp_non_tensor e"] split: option.splits if_splits intro!: cols_wf_update\<close>)
  ultimately show ?thesis by (simp add: proto_wf_def proto_len_def u(3) xy(4))
qed

lemma length_dict_get: "cols_wf n cols \<Longrightarrow> k \<in> fst ` set cols \<Longrightarrow> length (dict_get cols k []) = n"
  by (auto simp: dict_get_def cols_wf_def)

lemma td_cat_wf:
  assumes "td_cat tds = Inr td" "tds \<noteq> []" "\<forall>t\<in>set tds. cols_wf (td_bs t) (td_cols t)"
  shows "cols_wf (td_bs td) (td_cols td)"
proof -
  have keys: "\<forall>t\<in>set tds. fst ` set (td_cols t) = fst ` set (td_cols (hd tds))"
    and td: "td_bs td = sum_list (map td_bs tds)"
      "td_cols td = map (\<lambda>(k, _). (k, concat (map (\<lambda>t. dict_get (td_cols t) k []) tds))) (td_cols (hd tds))"
    using assms(1) by (auto simp: td_cat_def list_all_iff split: if_splits)
  have len: "length (concat (map (\<lambda>t. dict_get (td_cols t) k []) tds)) = td_bs td" if k: "k \<in> fst ` set (td_cols (hd tds))" for k
  proof -
    have "map (\<lambda>t. length (dict_get (td_cols t) k [])) tds = map td_bs tds"
      using keys assms(3) k by (intro map_cong refl length_dict_get) auto
    then show ?thesis by (simp add: td(1) length_concat comp_def del: map_eq_conv)
  qed
  have "map fst (td_cols td) = map fst (td_cols (hd tds))" by (simp add: td(2) case_prod_beta comp_def)
  moreover have "cols_wf (td_bs (hd tds)) (td_cols (hd tds))" using assms(2,3) by simp
  ultimately have "distinct (map fst (td_cols td))" by (simp add: cols_wf_def)
  moreover have "length v = td_bs td" if "(k, v) \<in> set (td_cols td)" for k v
  proof -
    have "k \<in> fst ` set (td_cols (hd tds))" "v = concat (map (\<lambda>t. dict_get (td_cols t) k []) tds)"
      using that by (force simp: td(2))+
    with len show ?thesis by simp
  qed
  ultimately show ?thesis by (auto simp: cols_wf_def)
qed

lemma concat_wf:
  assumes "\<forall>d\<in>set ds. proto_wf d" "concat_proto ds = Inr d'"
  shows "proto_wf d'"
proof -
  obtain d rest where ds: "ds = d # rest" using assms(2) by (cases ds) (auto simp: concat_proto_def)
  let ?sh = "filter (\<lambda>k. list_all (\<lambda>x. k \<in> fst ` set (dp_non_tensor x)) ds) (map fst (dp_non_tensor d))"
  let ?nt = "map (\<lambda>k. (k, concat (map (\<lambda>x. dict_get (dp_non_tensor x) k []) ds))) ?sh"
  obtain b mi where b: "(case dp_batch d of None \<Rightarrow> Inr None
      | Some _ \<Rightarrow> if list_all (\<lambda>x. dp_batch x \<noteq> None) ds
                  then rbind (td_cat (map (the \<circ> dp_batch) ds)) (\<lambda>td. Inr (Some td)) else Inl TypeError) = Inr b"
    and mk: "mk_proto b ?nt mi = Inr d'"
    using assms(2) unfolding concat_proto_def ds list.case rbind_eq_Inr_iff Let_def by blast
  have len: "length (concat (map (\<lambda>x. dict_get (dp_non_tensor x) k []) ds)) = sum_list (map proto_len ds)"
    if k: "k \<in> set ?sh" for k
  proof -
    have "map (\<lambda>x. length (dict_get (dp_non_tensor x) k [])) ds = map proto_len ds"
      using assms(1) k by (intro map_cong refl length_dict_get rows_wf(2)) (auto simp: list_all_iff)
    then show ?thesis by (simp add: length_concat comp_def del: map_eq_conv)
  qed
  have "distinct ?sh" using rows_wf(2) [of d] assms(1) by (simp add: cols_wf_def ds)
  then have nt: "cols_wf (sum_list (map proto_len ds)) ?nt"
    using len unfolding cols_wf_def by (auto simp: comp_def simp del: filter_map set_filter)
  show ?thesis
  proof (rule mk_proto_wf [OF mk])
    show "distinct (map fst ?nt)" "cols_wf (sum_list (map proto_len ds)) ?nt" using nt by (simp_all add: cols_wf_def)
    fix td assume "b = Some td"
    then have td: "td_cat (map (the \<circ> dp_batch) ds) = Inr td" "\<forall>x\<in>set ds. dp_batch x \<noteq> None"
      using b by (auto simp: list_all_iff rbind_eq_Inr_iff split: option.splits if_splits)
    have "cols_wf (td_bs t) (td_cols t)" if "t \<in> set (map (the \<circ> dp_batch) ds)" for t
      using that td(2) assms(1) by (force simp: proto_wf_def)
    then show "cols_wf (td_bs td) (td_cols td)" by (intro td_cat_wf [OF td(1)]) (simp_all add: ds)
  qed
qed

lemma padding_wf:
  assumes "proto_wf d" "padding d n cand = Inr d'"
  shows "proto_wf d'"
proof (cases "n = 0")
  case False
  then obtain c part padded where r: "select_idxs d (Idx [if cand = ''first'' then 0 else int (proto_len d) - 1]) = Inr c"
      "repeat c n True = Inr part" "concat_proto [d, part] = Inr padded"
      "d' = d\<lparr>dp_batch := dp_batch padded, dp_non_tensor := dp_non_tensor padded\<rparr>"
    using assms(2) by (auto simp: padding_def rbind_eq_Inr_iff)
  have "proto_wf padded"
    using concat_wf [OF _ r(3)] repeat_wf [OF select_idxs_wf [OF assms(1) r(1)] r(2)] assms(1) by simp
  moreover have "dp_batch d' = dp_batch padded" "dp_non_tensor d' = dp_non_tensor padded" by (simp_all add: r(4))
  ultimately show ?thesis by (simp only: proto_wf_def proto_len_def) simp
qed (use assms in \<open>simp add: padding_def\<close>)

lemma padding_protos_wf: "proto_wf d \<Longrightarrow> padding_protos d n = Inr ps \<Longrightarrow> \<forall>p\<in>set ps. proto_wf p"
proof (induction d n arbitrary: ps rule: padding_protos.induct)
  case (1 d n)
  show ?case
  proof (cases "n = 0 \<or> proto_len d = 0")
    case True
    then show ?thesis using 1(3) by (subst (asm) padding_protos.simps) auto
  next
    case False
    then obtain p qs where r: "slice d None (Some (int (min n (proto_len d)))) None = Inr p"
        "padding_protos d (n - min n (proto_len d)) = Inr qs" "ps = p # qs"
      using 1(3) by (subst (asm) padding_protos.simps) (auto simp: rbind_eq_Inr_iff Let_def)
    have "\<forall>q\<in>set qs. proto_wf q" using 1(1) [OF False refl] 1(2) r(1,2) by blast
    then show ?thesis using slice_wf [OF 1(2) r(1)] by (simp add: r(3))
  qed
qed

lemma pad_wf:
  assumes "proto_wf d" "pad_dataproto_to_divisor d k = Inr (d', n)"
  shows "proto_wf d'"
proof (cases "proto_len d mod k = 0")
  case False
  then obtain ps where ps: "padding_protos d (k - proto_len d mod k) = Inr ps" "concat_proto (d # ps) = Inr d'"
    using assms(2) by (auto simp: pad_dataproto_to_divisor_def rbind_eq_Inr_iff Let_def split: if_splits)
  show ?thesis by (rule concat_wf [OF _ ps(2)]) (use padding_protos_wf [OF assms(1) ps(1)] assms(1) in simp)
qed (use assms in \<open>simp add: pad_dataproto_to_divisor_def split: if_splits\<close>)

lemma getitem_wf: "proto_wf d \<Longrightarrow> getitem d key = Inr (GProto d') \<Longrightarrow> proto_wf d'"
  by (auto simp: getitem_def rbind_eq_Inr_iff split: item_key.splits intro: slice_wf select_idxs_wf)

text \<open>
  C17. Every batch a program can build from dicts by selecting, indexing, popping, uniting, chunking,
  splitting, concatenating, reordering, repeating and padding batches is well formed: each key occurs once, every tensor column has as many rows as the batch size says and every object
  column as many as \<open>len\<close> says, although \<open>union\<close>, \<open>pop\<close>, \<open>reorder\<close> and \<open>padding\<close> assign the
  fields without running the consistency check.  In particular \<open>check_consistency\<close> never fails.
\<close>

theorem proto_value_wf:
  assumes "proto_value d"
  shows "proto_wf d \<and> check_consistency d = Inr ()"
proof -
  have "proto_wf d" using assms
  proof induction
    case From_dict then show ?case by (rule from_dict_wf)
  next
    case From_single then show ?case by (rule from_single_dict_wf)
  next
    case Popped then show ?case by (blast dest: pop_wf)
  next
    case Pop_rest then show ?case by (blast dest: pop_wf)
  next
    case (Concat ds d') show ?case by (rule concat_wf [OF _ Concat.hyps(2)]) (use Concat.IH in blast)
  next
    case (Unpad d n d') then show ?case by (auto simp: unpad_dataproto_def split: if_splits intro: slice_wf)
  qed (rule select_wf getitem_wf union_wf chunk_wf split_wf reorder_wf repeat_wf
      sample_level_repeat_wf padding_wf pad_wf, assumption+)+
  then show ?thesis
    by (auto simp: check_consistency_def proto_wf_def proto_len_def cols_wf_def list_all_iff split: option.split)
qed

theorem proto_value_wf_witness:
  "proto_wf (rows_map (\<lambda>v. [v ! 2, v ! 0]) 2 demo_proto) \<and> check_consistency (rows_map (\<lambda>v. [v ! 2, v ! 0]) 2 demo_proto) = Inr ()"
proof -
  have "proto_value demo_proto"
  proof (rule From_dict)
    show "from_dict [(''ids'', [10, 11, 12]), (''mask'', [1, 1, 0])] [(''uid'', [7, 7, 8])] [(''step'', MInt 4)] False
        = Inr demo_proto" by code_simp
  qed simp_all
  moreover have "getitem demo_proto (KIdxs (Idx [-1, 0])) = Inr (GProto (rows_map (\<lambda>v. [v ! 2, v ! 0]) 2 demo_proto))"
    by code_simp
  ultimately have "proto_value (rows_map (\<lambda>v. [v ! 2, v ! 0]) 2 demo_proto)" by (rule Getitem)
  then show ?thesis by (rule proto_value_wf)
qed

end
