(* ===== verification/Transition.thy ===== *)
theory Transition
  imports Prelude
begin

text \<open>
  Runs of labelled transition systems, shared by the components that are state machines: the
  message queue, the token bucket and the replay buffer.  An invariant may speak of the whole
  history of events; the locale \<open>history_invariant\<close> turns its two laws into a fact about every run.
\<close>

inductive run :: "('s \<Rightarrow> 'e \<Rightarrow> 's \<Rightarrow> bool) \<Rightarrow> 's \<Rightarrow> 'e list \<Rightarrow> 's \<Rightarrow> bool" for step where
  run_Nil: "run step s [] s"
| run_snoc: "run step s es s' \<Longrightarrow> step s' e s'' \<Longrightarrow> run step s (es @ [e]) s''"

lemma run_single: "step s e s' \<Longrightarrow> run step s [e] s'"
  using run_snoc [OF run_Nil, of step s e s'] by simp

lemma run_append:
  assumes "run step s' fs s''" "run step s es s'"
  shows "run step s (es @ fs) s''"
  using assms by (induction rule: run.induct) (auto simp: append_assoc [symmetric] simp del: append_assoc intro: run_snoc)

lemma run_snocD: "run step s (es @ [e]) s' \<Longrightarrow> \<exists>s1. run step s es s1 \<and> step s1 e s'"
  by (auto elim: run.cases)

lemma run_Cons: "step s e s' \<Longrightarrow> run step s' es s'' \<Longrightarrow> run step s (e # es) s''"
  using run_append [of step s' es s'' s "[e]"] run_single [of step s e s'] by simp

locale history_invariant =
  fixes init :: "'s \<Rightarrow> bool"
    and step :: "'s \<Rightarrow> 'e \<Rightarrow> 's \<Rightarrow> bool"
    and inv :: "'e list \<Rightarrow> 's \<Rightarrow> bool"
  assumes inv_init: "init s \<Longrightarrow> inv [] s"
    and inv_step: "inv es s \<Longrightarrow> step s e s' \<Longrightarrow> inv (es @ [e]) s'"
begin

lemma inv_run_from:
  assumes "run step s es s'" "inv hs s"
  shows "inv (hs @ es) s'"
  using assms by (induction rule: run.induct) (auto simp: append_assoc [symmetric] simp del: append_assoc intro: inv_step)

lemma inv_run: "init s \<Longrightarrow> run step s es s' \<Longrightarrow> inv es s'"
  using inv_run_from [of s es s' "[]"] inv_init [of s] by simp

end

text \<open>
  A step-by-step simulation of a concrete system by an abstract one with the same events, under an
  invariant of the concrete states, carries every run over.
\<close>

locale simulation =
  fixes cstep :: "'s \<Rightarrow> 'e \<Rightarrow> 's \<Rightarrow> bool"
    and astep :: "'t \<Rightarrow> 'e \<Rightarrow> 't \<Rightarrow> bool"
    and abst :: "'s \<Rightarrow> 't"
    and inv :: "'s \<Rightarrow> bool"
  assumes keeps: "inv s \<Longrightarrow> cstep s e s' \<Longrightarrow> inv s'"
    and simulates: "inv s \<Longrightarrow> cstep s e s' \<Longrightarrow> astep (abst s) e (abst s')"
begin

lemma run_simulates:
  assumes "run cstep s es s'" "inv s"
  shows "run astep (abst s) es (abst s') \<and> inv s'"
  using assms by (induction rule: run.induct) (auto intro: run_Nil run_snoc keeps simulates)

end

end
