(* ===== verification/Message_Queue.thy ===== *)
theory Message_Queue
  imports Transition "HOL-Library.Sublist"
begin

text \<open>
  \<open>verl/experimental/fully_async_policy/message_queue.py\<close>: the bounded queue between the rollouter
  and the trainer.  Every operation runs under the lock of the actor, so it is one atomic step;
  the only point where \<open>get_sample\<close> gives the lock up is the wait on the condition.  A consumer is
  therefore in \<open>mq_waiters\<close> (blocked on the condition) or in \<open>mq_ready\<close> (notified, it will take the
  lock and test the loop condition again).  Waking is a step of its own, so producers, other
  consumers, \<open>clear_queue\<close> and \<open>shutdown\<close> may run in between.
\<close>

section \<open>The actor\<close>

record 'a message_queue =
  mq_max :: nat
  mq_queue :: "'a list"
  mq_val_queue :: "'a list"
  mq_running :: bool
  mq_waiters :: "nat list"
  mq_ready :: "nat list"
  mq_produced :: nat
  mq_consumed :: nat
  mq_dropped :: nat

text \<open>\<open>deque(maxlen=n)\<close> refuses a negative bound.\<close>

definition init_queue :: "int option \<Rightarrow> 'a message_queue result" where
  "init_queue max_queue_size = (case max_queue_size of
       None \<Rightarrow> Inl ValueError
     | Some n \<Rightarrow> if n < 0 then Inl ValueError else
         Inr \<lparr>mq_max = nat n, mq_queue = [], mq_val_queue = [], mq_running = True, mq_waiters = [], mq_ready = [],
              mq_produced = 0, mq_consumed = 0, mq_dropped = 0\<rparr>)"

definition notify_all :: "'a message_queue \<Rightarrow> 'a message_queue" where
  "notify_all s = s\<lparr>mq_waiters := [], mq_ready := mq_ready s @ mq_waiters s\<rparr>"

text \<open>\<open>popleft\<close> raises on an empty queue, which is where a bound of 0 ends.\<close>

definition put_sample :: "'a \<Rightarrow> 'a message_queue \<Rightarrow> (bool \<times> 'a message_queue) result" where
  "put_sample x s =
     (if length (mq_queue s) \<ge> mq_max s then
        (case mq_queue s of
           [] \<Rightarrow> Inl IndexError
         | _ # q \<Rightarrow> Inr (False, notify_all (s\<lparr>mq_queue := q @ [x], mq_produced := mq_produced s + 1,
                                            mq_dropped := mq_dropped s + 1\<rparr>)))
      else Inr (True, notify_all (s\<lparr>mq_queue := mq_queue s @ [x], mq_produced := mq_produced s + 1\<rparr>)))"

datatype 'a outcome = Waits | Closed | Got 'a nat

text \<open>The body of \<open>get_sample\<close> from the test of the loop on, for consumer \<open>i\<close> holding the lock.\<close>

definition try_get :: "nat \<Rightarrow> 'a message_queue \<Rightarrow> 'a outcome \<times> 'a message_queue" where
  "try_get i s = (case mq_queue s of
       [] \<Rightarrow> if mq_running s then (Waits, s\<lparr>mq_waiters := mq_waiters s @ [i]\<rparr>) else (Closed, s)
     | x # q \<Rightarrow> (Got x (length q), s\<lparr>mq_queue := q, mq_consumed := mq_consumed s + 1\<rparr>))"

definition get_sample :: "nat \<Rightarrow> 'a message_queue \<Rightarrow> 'a outcome \<times> 'a message_queue" where
  "get_sample i s = try_get i s"

definition wake_consumer :: "nat \<Rightarrow> 'a message_queue \<Rightarrow> 'a outcome \<times> 'a message_queue" where
  "wake_consumer i s = try_get i (s\<lparr>mq_ready := remove1 i (mq_ready s)\<rparr>)"

definition get_queue_size :: "'a message_queue \<Rightarrow> nat" where
  "get_queue_size s = length (mq_queue s)"

definition get_statistics :: "'a message_queue \<Rightarrow> (string \<times> nat) list" where
  "get_statistics s = [(''queue_size'', length (mq_queue s)), (''total_produced'', mq_produced s),
     (''total_consumed'', mq_consumed s), (''dropped_samples'', mq_dropped s), (''max_queue_size'', mq_max s)]"

definition clear_queue :: "'a message_queue \<Rightarrow> 'a message_queue" where
  "clear_queue s = s\<lparr>mq_queue := []\<rparr>"

definition shutdown :: "'a message_queue \<Rightarrow> 'a message_queue" where
  "shutdown s = notify_all (s\<lparr>mq_running := False\<rparr>)"

text \<open>
  What the memory estimate reads of a sample: its \<open>getsizeof\<close> (\<open>None\<close> when an access raises), the
  number of entries of a non-empty \<open>original_batch_dict\<close>'s batch, and whether it has an
  \<open>agent_loop_output\<close>.
\<close>

record sample_view =
  sv_size :: "nat option"
  sv_batch_entries :: "nat option"
  sv_agent_loop :: bool

definition sample_size :: "sample_view \<Rightarrow> nat option" where
  "sample_size v = (case sv_size v of None \<Rightarrow> None
     | Some n \<Rightarrow> Some (n + (case sv_batch_entries v of None \<Rightarrow> 0 | Some k \<Rightarrow> k * 1000)
                      + (if sv_agent_loop v then 5000 else 0)))"

definition get_memory_usage :: "('a \<Rightarrow> sample_view) \<Rightarrow> 'a message_queue \<Rightarrow> nat \<times> nat \<times> rat" where
  "get_memory_usage view s =
     (let n = length (mq_queue s);
          total = (case mq_queue s of
              [] \<Rightarrow> 0
            | x # _ \<Rightarrow> (case sample_size (view x) of Some k \<Rightarrow> k * n | None \<Rightarrow> n * 15000)) in
      (n, total, of_nat total / (1024 * 1024)))"

definition put_validate :: "'a \<Rightarrow> 'a message_queue \<Rightarrow> 'a message_queue" where
  "put_validate d s = s\<lparr>mq_val_queue := mq_val_queue s @ [d]\<rparr>"

definition get_validate :: "'a message_queue \<Rightarrow> 'a option \<times> 'a message_queue" where
  "get_validate s = (case mq_val_queue s of
       [] \<Rightarrow> (None, s)
     | x # q \<Rightarrow> (Some x, s\<lparr>mq_val_queue := q\<rparr>))"

section \<open>Interleavings\<close>

datatype 'a mq_event = Put 'a bool | Get nat "'a outcome" | Wake nat "'a outcome" | Clear | Shutdown
  | PutVal 'a | GetVal "'a option"

inductive mq_step :: "'a message_queue \<Rightarrow> 'a mq_event \<Rightarrow> 'a message_queue \<Rightarrow> bool" where
  Put: "put_sample x s = Inr (b, s') \<Longrightarrow> mq_step s (Put x b) s'"
| Get: "get_sample i s = (out, s') \<Longrightarrow> i \<notin> set (mq_waiters s) \<union> set (mq_ready s) \<Longrightarrow> mq_step s (Get i out) s'"
| Wake: "i \<in> set (mq_ready s) \<Longrightarrow> wake_consumer i s = (out, s') \<Longrightarrow> mq_step s (Wake i out) s'"
| Clear: "mq_step s Clear (clear_queue s)"
| Shutdown: "mq_step s Shutdown (shutdown s)"
| PutVal: "mq_step s (PutVal d) (put_validate d s)"
| GetVal: "get_validate s = (r, s') \<Longrightarrow> mq_step s (GetVal r) s'"

inductive_cases mq_stepE: "mq_step s e s'"

text \<open>The samples put, and the samples handed to consumers, in the order of the events.\<close>

fun puts_of :: "'a mq_event list \<Rightarrow> 'a list" where
  "puts_of [] = []"
| "puts_of (Put x _ # es) = x # puts_of es"
| "puts_of (_ # es) = puts_of es"

fun gets_of :: "'a mq_event list \<Rightarrow> 'a list" where
  "gets_of [] = []"
| "gets_of (Get _ (Got x _) # es) = x # gets_of es"
| "gets_of (Wake _ (Got x _) # es) = x # gets_of es"
| "gets_of (_ # es) = gets_of es"

fun drops_of :: "'a mq_event list \<Rightarrow> nat" where
  "drops_of [] = 0"
| "drops_of (Put _ False # es) = Suc (drops_of es)"
| "drops_of (_ # es) = drops_of es"

fun val_puts_of :: "'a mq_event list \<Rightarrow> 'a list" where
  "val_puts_of [] = []"
| "val_puts_of (PutVal x # es) = x # val_puts_of es"
| "val_puts_of (_ # es) = val_puts_of es"

fun val_gets_of :: "'a mq_event list \<Rightarrow> 'a list" where
  "val_gets_of [] = []"
| "val_gets_of (GetVal (Some x) # es) = x # val_gets_of es"
| "val_gets_of (_ # es) = val_gets_of es"

lemma puts_of_append [simp]: "puts_of (es @ fs) = puts_of es @ puts_of fs"
  by (induction es rule: puts_of.induct) simp_all

lemma gets_of_append [simp]: "gets_of (es @ fs) = gets_of es @ gets_of fs"
  by (induction es rule: gets_of.induct) simp_all

lemma drops_of_append [simp]: "drops_of (es @ fs) = drops_of es + drops_of fs"
  by (induction es rule: drops_of.induct) simp_all

lemma val_puts_of_append [simp]: "val_puts_of (es @ fs) = val_puts_of es @ val_puts_of fs"
  by (induction es rule: val_puts_of.induct) simp_all

lemma val_gets_of_append [simp]: "val_gets_of (es @ fs) = val_gets_of es @ val_gets_of fs"
  by (induction es rule: val_gets_of.induct) simp_all

section \<open>Invariants of every interleaving\<close>

definition mq_bounded :: "'a mq_event list \<Rightarrow> 'a message_queue \<Rightarrow> bool" where
  "mq_bounded es s \<longleftrightarrow> length (mq_queue s) \<le> mq_max s
     \<and> (mq_waiters s \<noteq> [] \<longrightarrow> mq_queue s = [] \<and> mq_running s)
     \<and> distinct (mq_waiters s @ mq_ready s)"

definition mq_counts :: "'a mq_event list \<Rightarrow> 'a message_queue \<Rightarrow> bool" where
  "mq_counts es s \<longleftrightarrow> mq_produced s = length (puts_of es) \<and> mq_consumed s = length (gets_of es)
     \<and> mq_dropped s = drops_of es
     \<and> val_puts_of es = val_gets_of es @ mq_val_queue s
     \<and> (Clear \<notin> set es \<longrightarrow> length (puts_of es) = length (gets_of es) + drops_of es + length (mq_queue s))"

definition mq_fifo :: "'a mq_event list \<Rightarrow> 'a message_queue \<Rightarrow> bool" where
  "mq_fifo es s \<longleftrightarrow> (\<exists>gone. puts_of es = gone @ mq_queue s \<and> subseq (gets_of es) gone)"

definition mq_init :: "'a message_queue \<Rightarrow> bool" where
  "mq_init s \<longleftrightarrow> (\<exists>n. init_queue (Some n) = Inr s)"

lemma mq_init_fields:
  assumes "mq_init s"
  shows "mq_queue s = []" "mq_waiters s = []" "mq_ready s = []" "mq_val_queue s = []" "mq_running s"
    "mq_produced s = 0" "mq_consumed s = 0" "mq_dropped s = 0"
  using assms by (auto simp: mq_init_def init_queue_def split: if_splits)

lemmas mq_ops = get_sample_def wake_consumer_def try_get_def clear_queue_def shutdown_def notify_all_def
  put_validate_def get_validate_def

lemma put_sampleE:
  assumes "put_sample x s = Inr (b, s')"
  obtains "b = False" "mq_queue s \<noteq> []" "length (mq_queue s) \<ge> mq_max s"
      "s' = notify_all (s\<lparr>mq_queue := tl (mq_queue s) @ [x], mq_produced := mq_produced s + 1, mq_dropped := mq_dropped s + 1\<rparr>)"
    | "b = True" "length (mq_queue s) < mq_max s"
      "s' = notify_all (s\<lparr>mq_queue := mq_queue s @ [x], mq_produced := mq_produced s + 1\<rparr>)"
  using assms by (auto simp: put_sample_def split: if_splits list.splits)

lemma try_getE:
  assumes "try_get i s = (out, s')"
  obtains "out = Waits" "mq_queue s = []" "mq_running s" "s' = s\<lparr>mq_waiters := mq_waiters s @ [i]\<rparr>"
    | "out = Closed" "mq_queue s = []" "\<not> mq_running s" "s' = s"
    | x q where "out = Got x (length q)" "mq_queue s = x # q" "s' = s\<lparr>mq_queue := q, mq_consumed := mq_consumed s + 1\<rparr>"
  using assms by (auto simp: try_get_def split: if_splits list.splits)

lemma bounded_step:
  assumes "mq_bounded es s" "mq_step s e s'"
  shows "mq_bounded (es @ [e]) s'"
  using assms(2)
proof cases
  case (Put x b)
  from Put(2) show ?thesis
    by (cases rule: put_sampleE) (use assms(1) in \<open>auto simp: mq_bounded_def notify_all_def neq_Nil_conv\<close>)
next
  case (Get i out)
  from Get(2) have "try_get i s = (out, s')" by (simp add: get_sample_def)
  then show ?thesis
    by (cases rule: try_getE) (use assms(1) Get(3) in \<open>auto simp: mq_bounded_def\<close>)
next
  case (Wake i out)
  from Wake(3) have "try_get i (s\<lparr>mq_ready := remove1 i (mq_ready s)\<rparr>) = (out, s')" by (simp add: wake_consumer_def)
  then show ?thesis
    by (cases rule: try_getE) (use assms(1) Wake(2) in \<open>auto simp: mq_bounded_def\<close>)
qed (use assms(1) in \<open>auto simp: mq_bounded_def mq_ops split: list.splits\<close>)

lemma counts_step:
  assumes "mq_counts es s" "mq_step s e s'"
  shows "mq_counts (es @ [e]) s'"
  using assms(2)
proof cases
  case (Put x b)
  from Put(2) show ?thesis
    by (cases rule: put_sampleE) (use assms(1) Put(1) in \<open>auto simp: mq_counts_def notify_all_def neq_Nil_conv\<close>)
next
  case (Get i out)
  from Get(2) have "try_get i s = (out, s')" by (simp add: get_sample_def)
  then show ?thesis
    by (cases rule: try_getE) (use assms(1) Get(1) in \<open>auto simp: mq_counts_def\<close>)
next
  case (Wake i out)
  from Wake(3) have "try_get i (s\<lparr>mq_ready := remove1 i (mq_ready s)\<rparr>) = (out, s')" by (simp add: wake_consumer_def)
  then show ?thesis
    by (cases rule: try_getE) (use assms(1) Wake(1) in \<open>auto simp: mq_counts_def\<close>)
qed (use assms(1) in \<open>auto simp: mq_counts_def mq_ops split: list.splits\<close>)

lemma fifo_pop:
  assumes "puts_of es = gone @ x # q" "subseq (gets_of es) gone"
  shows "\<exists>gone'. puts_of es = gone' @ q \<and> subseq (gets_of es @ [x]) gone'"
  using assms by (intro exI [of _ "gone @ [x]"]) (auto intro: list_emb_append_mono)

lemma fifo_drop:
  assumes "puts_of es = gone @ q0" "subseq (gets_of es) gone" "q0 = pre @ q"
  shows "\<exists>gone'. puts_of es @ ys = gone' @ q @ ys \<and> subseq (gets_of es) gone'"
  using assms by (intro exI [of _ "gone @ pre"]) (auto intro: list_emb_append2)

lemma fifo_step:
  assumes "mq_fifo es s" "mq_step s e s'"
  shows "mq_fifo (es @ [e]) s'"
proof -
  obtain gone where g: "puts_of es = gone @ mq_queue s" "subseq (gets_of es) gone"
    using assms(1) by (auto simp: mq_fifo_def)
  from assms(2) show ?thesis
  proof cases
    case (Put x b)
    from Put(2) show ?thesis
    proof (cases rule: put_sampleE)
      case 1
      then have "mq_queue s = [hd (mq_queue s)] @ tl (mq_queue s)" by simp
      from fifo_drop [OF g this, of "[x]"] show ?thesis using 1 Put(1) by (auto simp: mq_fifo_def notify_all_def)
    next
      case 2
      from fifo_drop [OF g, of "[]" "mq_queue s" "[x]"] show ?thesis
        using 2 Put(1) by (auto simp: mq_fifo_def notify_all_def)
    qed
  next
    case (Get i out)
    from Get(2) have "try_get i s = (out, s')" by (simp add: get_sample_def)
    then show ?thesis
      by (cases rule: try_getE) (use g Get(1) fifo_pop [of es gone] in \<open>auto simp: mq_fifo_def\<close>)
  next
    case (Wake i out)
    from Wake(3) have "try_get i (s\<lparr>mq_ready := remove1 i (mq_ready s)\<rparr>) = (out, s')" by (simp add: wake_consumer_def)
    then show ?thesis
      by (cases rule: try_getE) (use g Wake(1) fifo_pop [of es gone] in \<open>auto simp: mq_fifo_def\<close>)
  next
    case Clear
    from fifo_drop [OF g, of "mq_queue s" "[]" "[]"] show ?thesis using Clear by (auto simp: mq_fifo_def clear_queue_def)
  qed (use g in \<open>auto simp: mq_fifo_def mq_ops split: list.splits\<close>)
qed

interpretation mqb: history_invariant mq_init mq_step mq_bounded
proof (unfold_locales, goal_cases)
  case (1 s)
  then show ?case by (simp add: mq_bounded_def mq_init_fields)
next
  case (2 es s e s')
  then show ?case by (rule bounded_step)
qed

interpretation mqc: history_invariant mq_init mq_step mq_counts
proof (unfold_locales, goal_cases)
  case (1 s)
  then show ?case by (simp add: mq_counts_def mq_init_fields)
next
  case (2 es s e s')
  then show ?case by (rule counts_step)
qed

interpretation mqf: history_invariant mq_init mq_step mq_fifo
proof (unfold_locales, goal_cases)
  case (1 s)
  then show ?case by (simp add: mq_fifo_def mq_init_fields)
next
  case (2 es s e s')
  then show ?case by (rule fifo_step)
qed

section \<open>Properties\<close>

text \<open>
  C20. In every interleaving of producers, consumers, clears and shutdowns the queue stays within its
  bound, and it is first-in first-out: the samples put so far are those that have left the queue,
  in order, followed by the queued ones, and the samples delivered to consumers are a
  subsequence of the former, so no sample is delivered twice or out of order.  The statistics
  count exactly the events, and without a clear every produced sample is consumed, dropped or
  still queued.  Validation data is neither lost nor reordered.
\<close>

theorem queue_fifo_conserves:
  assumes "init_queue (Some n) = Inr s\<^sub>0" "run mq_step s\<^sub>0 es s"
  shows "length (mq_queue s) \<le> mq_max s
    \<and> (\<exists>gone. puts_of es = gone @ mq_queue s \<and> subseq (gets_of es) gone)
    \<and> mq_produced s = length (puts_of es) \<and> mq_consumed s = length (gets_of es) \<and> mq_dropped s = drops_of es
    \<and> (Clear \<notin> set es \<longrightarrow> mq_produced s = mq_consumed s + mq_dropped s + length (mq_queue s))
    \<and> val_puts_of es = val_gets_of es @ mq_val_queue s"
proof -
  have i: "mq_init s\<^sub>0" using assms(1) by (auto simp: mq_init_def)
  show ?thesis
    using mqb.inv_run [OF i assms(2)] mqc.inv_run [OF i assms(2)] mqf.inv_run [OF i assms(2)]
    by (auto simp: mq_bounded_def mq_counts_def mq_fifo_def)
qed

definition demo_queue :: "int message_queue" where
  "demo_queue = \<lparr>mq_max = 1, mq_queue = [], mq_val_queue = [], mq_running = True, mq_waiters = [], mq_ready = [],
     mq_produced = 0, mq_consumed = 0, mq_dropped = 0\<rparr>"

lemma demo_queue_init: "init_queue (Some 1) = Inr demo_queue"
  by (simp add: init_queue_def demo_queue_def)

text \<open>A consumer waits, two samples arrive and the first is dropped, the consumer is woken.\<close>

lemma demo_queue_run:
  "run mq_step demo_queue [Get 7 Waits, Put 10 True, Put 11 False, Wake 7 (Got 11 0)]
     (demo_queue\<lparr>mq_produced := 2, mq_consumed := 1, mq_dropped := 1\<rparr>)"
proof -
  have "mq_step demo_queue (Get 7 Waits) (demo_queue\<lparr>mq_waiters := [7]\<rparr>)"
    by (rule Get) (simp_all add: demo_queue_def get_sample_def try_get_def)
  moreover have "mq_step (demo_queue\<lparr>mq_waiters := [7]\<rparr>) (Put 10 True) (demo_queue\<lparr>mq_queue := [10], mq_ready := [7], mq_produced := 1\<rparr>)"
    by (rule Put) (simp add: demo_queue_def put_sample_def notify_all_def)
  moreover have "mq_step (demo_queue\<lparr>mq_queue := [10], mq_ready := [7], mq_produced := 1\<rparr>) (Put 11 False)
      (demo_queue\<lparr>mq_queue := [11], mq_ready := [7], mq_produced := 2, mq_dropped := 1\<rparr>)"
    by (rule Put) (simp add: demo_queue_def put_sample_def notify_all_def)
  moreover have "mq_step (demo_queue\<lparr>mq_queue := [11], mq_ready := [7], mq_produced := 2, mq_dropped := 1\<rparr>) (Wake 7 (Got 11 0))
      (demo_queue\<lparr>mq_produced := 2, mq_consumed := 1, mq_dropped := 1\<rparr>)"
    by (rule Wake) (simp_all add: demo_queue_def wake_consumer_def try_get_def)
  ultimately show ?thesis by (blast intro: run_Cons run_Nil)
qed

theorem queue_fifo_conserves_witness:
  "\<exists>gone. puts_of [Get 7 Waits, Put (10::int) True, Put 11 False, Wake 7 (Got 11 0)] = gone
     \<and> subseq [11] gone \<and> (2::nat) = 1 + 1 + 0"
  using queue_fifo_conserves [OF demo_queue_init demo_queue_run] by (simp add: demo_queue_def)

text \<open>
  No wake-up is lost: in every reachable state a consumer blocked on the condition means that
  the queue is empty and running, and the next put wakes it; if it is the first to take the
  lock it gets exactly that sample.
\<close>

lemma queue_no_lost_wakeup:
  assumes "init_queue (Some n) = Inr s\<^sub>0" "run mq_step s\<^sub>0 es s" "i \<in> set (mq_waiters s)" "put_sample x s = Inr (b, s')"
  shows "mq_queue s = [] \<and> mq_running s \<and> mq_waiters s' = [] \<and> i \<in> set (mq_ready s')
    \<and> fst (wake_consumer i s') = Got x 0 \<and> i \<notin> set (mq_ready (snd (wake_consumer i s')))"
proof -
  have "mq_init s\<^sub>0" using assms(1) by (auto simp: mq_init_def)
  from mqb.inv_run [OF this assms(2)]
  have s: "mq_queue s = []" "mq_running s" "distinct (mq_ready s @ mq_waiters s)"
    using assms(3) by (auto simp: mq_bounded_def)
  from assms(4) s(1) have s': "s' = notify_all (s\<lparr>mq_queue := [x], mq_produced := mq_produced s + 1\<rparr>)"
    by (auto simp: put_sample_def split: if_splits)
  have "i \<notin> set (remove1 i (mq_ready s @ mq_waiters s))" using s(3) by simp
  then show ?thesis using s(1,2) assms(3) by (simp add: s' notify_all_def wake_consumer_def try_get_def)
qed

text \<open>All notified consumers take the lock one after the other.\<close>

fun wake_all :: "nat list \<Rightarrow> 'a message_queue \<Rightarrow> 'a outcome list \<times> 'a message_queue" where
  "wake_all [] s = ([], s)"
| "wake_all (i # is) s = (let (out, s') = wake_consumer i s; (outs, s'') = wake_all is s' in (out # outs, s''))"

fun sample_of :: "'a outcome \<Rightarrow> 'a option" where
  "sample_of (Got x _) = Some x"
| "sample_of _ = None"

lemma wake_all_closed:
  assumes "\<not> mq_running s" "mset is = mset (mq_ready s)" "wake_all is s = (outs, s')"
  shows "Waits \<notin> set outs \<and> mq_ready s' = [] \<and> mq_waiters s' = mq_waiters s
    \<and> map sample_of outs = map Some (take (length is) (mq_queue s)) @ replicate (length is - length (mq_queue s)) None
    \<and> mq_queue s' = drop (length is) (mq_queue s)"
  using assms
proof (induction "is" arbitrary: s outs)
  case Nil
  then show ?case by simp
next
  case (Cons i "is")
  obtain out s1 where w: "wake_consumer i s = (out, s1)" by fastforce
  obtain os where os: "wake_all is s1 = (os, s')" "outs = out # os" using Cons.prems(3) w by (auto split: prod.splits)
  have m: "mset is = mset (remove1 i (mq_ready s))" using Cons.prems(2) [symmetric] by simp
  from w have t: "try_get i (s\<lparr>mq_ready := remove1 i (mq_ready s)\<rparr>) = (out, s1)" by (simp add: wake_consumer_def)
  have s1: "\<not> mq_running s1 \<and> mq_ready s1 = remove1 i (mq_ready s) \<and> mq_waiters s1 = mq_waiters s \<and> mq_queue s1 = tl (mq_queue s)
      \<and> out \<noteq> Waits \<and> sample_of out = (case mq_queue s of [] \<Rightarrow> None | x # _ \<Rightarrow> Some x)"
    using t by (cases rule: try_getE) (use Cons.prems(1) in auto)
  with Cons.IH [of s1 os] m os(1) have ih: "Waits \<notin> set os \<and> mq_ready s' = [] \<and> mq_waiters s' = mq_waiters s
    \<and> map sample_of os = map Some (take (length is) (tl (mq_queue s))) @ replicate (length is - length (tl (mq_queue s))) None
    \<and> mq_queue s' = drop (length is) (tl (mq_queue s))" by simp
  show ?case using s1 ih os(2) by (cases "mq_queue s") auto
qed

text \<open>
  C22. Shutdown releases every consumer: from any reachable state, after \<open>shutdown\<close> nobody is blocked
  on the condition, and when the notified consumers take the lock, in whatever order, each returns:
  the first ones with the remaining samples in order, the others with \<open>None\<close>.
\<close>

theorem queue_shutdown_releases:
  assumes "init_queue (Some n) = Inr s\<^sub>0" "run mq_step s\<^sub>0 es s"
    and "mset is = mset (mq_ready (shutdown s))" "wake_all is (shutdown s) = (outs, s')"
  shows "set (mq_waiters s) \<union> set (mq_ready s) = set is \<and> length outs = length is \<and> Waits \<notin> set outs
    \<and> mq_ready s' = [] \<and> mq_waiters s' = []
    \<and> map sample_of outs = map Some (take (length is) (mq_queue s)) @ replicate (length is - length (mq_queue s)) None"
proof -
  have "\<not> mq_running (shutdown s)" by (simp add: shutdown_def notify_all_def)
  from wake_all_closed [OF this assms(3,4)]
  have w: "Waits \<notin> set outs" "mq_ready s' = []" "mq_waiters s' = []"
    "map sample_of outs = map Some (take (length is) (mq_queue s)) @ replicate (length is - length (mq_queue s)) None"
    by (simp_all add: shutdown_def notify_all_def)
  have "set is = set (mq_ready (shutdown s))" using assms(3) by (rule mset_eq_setD)
  moreover have "length outs = length is" using arg_cong [OF w(4), of length] by simp
  ultimately show ?thesis using w by (auto simp: shutdown_def notify_all_def)
qed

theorem queue_shutdown_releases_witness:
  "fst (wake_all [7] (shutdown (demo_queue\<lparr>mq_waiters := [7]\<rparr>))) = [Closed]
    \<and> map sample_of [Closed :: int outcome] = [None]"
proof -
  have r: "run mq_step demo_queue [Get 7 Waits] (demo_queue\<lparr>mq_waiters := [7]\<rparr>)"
    by (rule run_single, rule Get) (simp_all add: demo_queue_def get_sample_def try_get_def)
  have w: "wake_all [7] (shutdown (demo_queue\<lparr>mq_waiters := [7]\<rparr>)) = ([Closed], shutdown demo_queue)"
    by (simp add: demo_queue_def shutdown_def notify_all_def wake_consumer_def try_get_def)
  show ?thesis using queue_shutdown_releases [OF demo_queue_init r _ w] w
    by (simp add: shutdown_def notify_all_def demo_queue_def)
qed

text \<open>
  What \<open>put_sample\<close> reports: with a positive bound it always puts the sample at the end of the
  queue; its result \<open>False\<close> means that an older sample was dropped, not that this one was refused.
  A queue of size 0 raises \<open>IndexError\<close> instead.
\<close>

lemma put_sample_result:
  "(if mq_max s = 0 \<and> mq_queue s = [] then put_sample x s = Inl IndexError
    else \<exists>s'. put_sample x s = Inr (length (mq_queue s) < mq_max s, s') \<and> last (mq_queue s') = x
      \<and> mq_queue s' = (if length (mq_queue s) < mq_max s then mq_queue s else tl (mq_queue s)) @ [x])"
  by (auto simp: put_sample_def notify_all_def split: list.splits)

section \<open>The channel the queue implements\<close>

text \<open>
  The abstract specification: a channel of capacity \<open>cap\<close> that a producer never waits for, because a
  full channel gives up its oldest sample, and an unbounded one for validation data.  A state is the
  samples, the validation data and whether the channel is open; there are no waiting lists and no counters.
\<close>

type_synonym 'a channel = "'a list \<times> 'a list \<times> bool"

inductive channel_step :: "nat \<Rightarrow> 'a channel \<Rightarrow> 'a mq_event \<Rightarrow> 'a channel \<Rightarrow> bool" for cap where
  Send: "length q < cap \<Longrightarrow> channel_step cap (q, v, op) (Put x True) (q @ [x], v, op)"
| Send_full: "Suc (length q) = cap \<Longrightarrow> channel_step cap (y # q, v, op) (Put x False) (q @ [x], v, op)"
| Receive: "e \<in> {Get i (Got x (length q)), Wake i (Got x (length q))} \<Longrightarrow> channel_step cap (x # q, v, op) e (q, v, op)"
| Block: "e \<in> {Get i Waits, Wake i Waits} \<Longrightarrow> channel_step cap ([], v, True) e ([], v, True)"
| End: "e \<in> {Get i Closed, Wake i Closed} \<Longrightarrow> channel_step cap ([], v, False) e ([], v, False)"
| Flush: "channel_step cap (q, v, op) Clear ([], v, op)"
| Close: "channel_step cap (q, v, op) Shutdown (q, v, False)"
| Send_val: "channel_step cap (q, v, op) (PutVal x) (q, v @ [x], op)"
| Receive_val: "channel_step cap (q, x # v, op) (GetVal (Some x)) (q, v, op)"
| No_val: "channel_step cap (q, [], op) (GetVal None) (q, [], op)"

definition channel_of :: "'a message_queue \<Rightarrow> 'a channel" where
  "channel_of s = (mq_queue s, mq_val_queue s, mq_running s)"

lemma channel_try_get:
  assumes "try_get i s = (out, s')" "e \<in> {Get i out, Wake i out}"
  shows "channel_step cap (channel_of s) e (channel_of s')"
  using assms by (cases "mq_queue s"; cases "mq_running s")
    (auto simp: try_get_def channel_of_def intro: channel_step.intros)

lemma channel_simulates:
  assumes "length (mq_queue s) \<le> mq_max s \<and> mq_max s = cap" "mq_step s e s'"
  shows "channel_step cap (channel_of s) e (channel_of s')"
  using assms(2)
proof cases
  case (Put x b)
  then show ?thesis using assms(1) Send [of "mq_queue s" cap "mq_val_queue s" "mq_running s" x]
    by (cases "mq_queue s") (auto simp: put_sample_def channel_of_def notify_all_def split: if_splits intro: Send_full)
next
  case (Get i out)
  then show ?thesis using channel_try_get [of i s out s'] by (simp add: get_sample_def)
next
  case (Wake i out)
  then show ?thesis using channel_try_get [of i "s\<lparr>mq_ready := remove1 i (mq_ready s)\<rparr>" out s' e cap]
    by (simp add: wake_consumer_def channel_of_def)
next
  case (GetVal r)
  then show ?thesis by (cases "mq_val_queue s") (auto simp: get_validate_def channel_of_def intro: channel_step.intros)
qed (auto simp: clear_queue_def shutdown_def notify_all_def put_validate_def channel_of_def intro: channel_step.intros)

lemma mq_max_step:
  assumes "length (mq_queue s) \<le> mq_max s \<and> mq_max s = cap" "mq_step s e s'"
  shows "length (mq_queue s') \<le> mq_max s' \<and> mq_max s' = cap"
  using assms(2,1)
  by cases (auto simp: mq_ops put_sample_def put_validate_def get_validate_def split: list.splits if_splits)

interpretation chan: simulation mq_step "channel_step cap" channel_of
  "\<lambda>s. length (mq_queue s) \<le> mq_max s \<and> mq_max s = cap" for cap
  by unfold_locales (fact mq_max_step, fact channel_simulates)

text \<open>
  C21. The queue implements the channel: every interleaving of producers, consumers, notifications,
  \<open>clear_queue\<close> and \<open>shutdown\<close>, with every value returned to a caller, is a run of the abstract channel
  of capacity \<open>max_queue_size\<close>; the waiting lists, wake-ups and counters of the actor are invisible.
\<close>

theorem queue_refines_channel:
  assumes "init_queue (Some n) = Inr s\<^sub>0" "run mq_step s\<^sub>0 es s"
  shows "run (channel_step (nat n)) ([], [], True) es (channel_of s)"
proof -
  have "mq_queue s\<^sub>0 = []" "mq_max s\<^sub>0 = nat n" "channel_of s\<^sub>0 = ([], [], True)"
    using assms(1) by (auto simp: init_queue_def channel_of_def split: if_splits)
  with chan.run_simulates [OF assms(2), of "nat n"] show ?thesis by simp
qed

theorem queue_refines_channel_witness:
  "run (channel_step 1) ([], [], True) [Get 7 Waits, Put (10::int) True, Put 11 False, Wake 7 (Got 11 0)] ([], [], True)"
  using queue_refines_channel [OF demo_queue_init demo_queue_run] by (simp add: demo_queue_def channel_of_def)

end
