(* ===== verification/Rate_Limit.thy ===== *)
theory Rate_Limit
  imports Transition Complex_Main
begin

text \<open>
  \<open>verl/experimental/reward_loop/reward_manager/limited.py\<close>: the asynchronous token bucket that
  limits the calls of a reward service, the class-level limiters of the rate-limited reward
  manager, and the reward it derives from the outcome of a call.  Times and token counts are real
  numbers (the code has floats).  The section under the lock is one step; the sleep after it is
  outside of the lock, so other requests run in between.
\<close>

section \<open>AsyncTokenBucket\<close>

record token_bucket =
  tb_rate :: real
  tb_max :: real
  tb_tokens :: real
  tb_last :: "real option"

text \<open>\<open>max_tokens or rate_limit\<close>: a capacity of 0 counts as not given.\<close>

definition init_bucket :: "real \<Rightarrow> real option \<Rightarrow> token_bucket" where
  "init_bucket rate_limit max_tokens =
     (let m = (case max_tokens of None \<Rightarrow> rate_limit | Some m \<Rightarrow> if m = 0 then rate_limit else m) in
      \<lparr>tb_rate = rate_limit, tb_max = m, tb_tokens = m, tb_last = None\<rparr>)"

definition last_update :: "real \<Rightarrow> token_bucket \<Rightarrow> real" where
  "last_update now b = (case tb_last b of None \<Rightarrow> now | Some t \<Rightarrow> t)"

definition refill :: "real \<Rightarrow> token_bucket \<Rightarrow> token_bucket" where
  "refill now b = b\<lparr>tb_last := Some (last_update now b),
     tb_tokens := min (tb_max b) (tb_tokens b + (now - last_update now b) * tb_rate b)\<rparr>"

text \<open>
  A request above the capacity: the tokens are taken at once, into debt if need be, and the time
  to sleep is returned.  The division may raise, before the tokens are taken.
\<close>

definition acquire_large :: "real \<Rightarrow> real \<Rightarrow> token_bucket \<Rightarrow> real result \<times> token_bucket" where
  "acquire_large num_tokens now b =
     (let b' = refill now b; tokens_needed = num_tokens - tb_tokens b' in
      if tokens_needed > 0 \<and> tb_rate b = 0 then (Inl ZeroDivisionError, b')
      else (Inr (if tokens_needed > 0 then tokens_needed / tb_rate b else 0),
            b'\<lparr>tb_tokens := tb_tokens b' - num_tokens, tb_last := Some now\<rparr>))"

datatype attempt = Granted | Retry real

text \<open>One iteration of the loop for a request within the capacity.\<close>

definition acquire_try :: "real \<Rightarrow> real \<Rightarrow> token_bucket \<Rightarrow> attempt result \<times> token_bucket" where
  "acquire_try num_tokens now b =
     (let b' = (refill now b)\<lparr>tb_last := Some now\<rparr> in
      if tb_tokens b' \<ge> num_tokens then (Inr Granted, b'\<lparr>tb_tokens := tb_tokens b' - num_tokens\<rparr>)
      else if tb_rate b = 0 then (Inl ZeroDivisionError, b')
      else (Inr (Retry ((num_tokens - tb_tokens b') / tb_rate b)), b'))"

text \<open>
  The whole call for a request that is alone: \<open>late k\<close> is by how much the \<open>k\<close>-th sleep takes longer
  than asked.  The result is the time of return; \<open>None\<close> means that the fuel does not suffice.
\<close>

fun acquire_loop :: "nat \<Rightarrow> (nat \<Rightarrow> real) \<Rightarrow> real \<Rightarrow> real \<Rightarrow> token_bucket \<Rightarrow> (real result \<times> token_bucket) option" where
  "acquire_loop 0 late num_tokens now b = None"
| "acquire_loop (Suc k) late num_tokens now b = (case acquire_try num_tokens now b of
       (Inl e, b') \<Rightarrow> Some (Inl e, b')
     | (Inr Granted, b') \<Rightarrow> Some (Inr now, b')
     | (Inr (Retry w), b') \<Rightarrow> acquire_loop k late num_tokens (if w > 0 then now + w + late k else now) b')"

definition acquire :: "nat \<Rightarrow> (nat \<Rightarrow> real) \<Rightarrow> real \<Rightarrow> real \<Rightarrow> token_bucket \<Rightarrow> (real result \<times> token_bucket) option" where
  "acquire fuel late num_tokens now b =
     (if num_tokens > tb_max b then Some (case acquire_large num_tokens now b of
          (Inl e, b') \<Rightarrow> (Inl e, b')
        | (Inr w, b') \<Rightarrow> (Inr (if w > 0 then now + w + late 0 else now), b'))
      else acquire_loop fuel late num_tokens now b)"

section \<open>Interleaved requests\<close>

text \<open>
  \<open>Serve n now ret\<close>: a request of \<open>n\<close> tokens is charged at time \<open>now\<close> and returns at \<open>ret\<close>.
  \<open>Sleep n now w\<close>: a request finds too few tokens and goes to sleep.
\<close>

datatype tb_event = Serve real real real | Sleep real real real

inductive tb_step :: "token_bucket \<times> real \<Rightarrow> tb_event \<Rightarrow> token_bucket \<times> real \<Rightarrow> bool" where
  large: "clock \<le> now \<Longrightarrow> n > tb_max b \<Longrightarrow> acquire_large n now b = (Inr w, b') \<Longrightarrow> now + w \<le> ret
    \<Longrightarrow> tb_step (b, clock) (Serve n now ret) (b', now)"
| granted: "clock \<le> now \<Longrightarrow> n \<le> tb_max b \<Longrightarrow> acquire_try n now b = (Inr Granted, b')
    \<Longrightarrow> tb_step (b, clock) (Serve n now now) (b', now)"
| retry: "clock \<le> now \<Longrightarrow> n \<le> tb_max b \<Longrightarrow> acquire_try n now b = (Inr (Retry w), b')
    \<Longrightarrow> tb_step (b, clock) (Sleep n now w) (b', now)"

fun served :: "tb_event list \<Rightarrow> real" where
  "served [] = 0"
| "served (Serve n _ _ # es) = n + served es"
| "served (Sleep _ _ _ # es) = served es"

fun event_time :: "tb_event \<Rightarrow> real" where
  "event_time (Serve _ now _) = now"
| "event_time (Sleep _ now _) = now"

section \<open>The limiters of the reward manager\<close>

record limiter_config =
  lc_max_concurrent :: "nat option"
  lc_max_rpm :: "real option"
  lc_max_tpm :: "real option"
  lc_estimated_tokens :: "real option"

record limiter_class =
  cl_initialized :: bool
  cl_semaphore :: nat
  cl_max_rpm :: "real option"
  cl_rpm_limiter :: "token_bucket option"
  cl_max_tpm :: "real option"
  cl_tpm_limiter :: "token_bucket option"
  cl_estimated_tokens :: real

definition per_minute_bucket :: "real \<Rightarrow> token_bucket" where
  "per_minute_bucket m = init_bucket (m / 60) (Some (m / 60))"

definition init_class :: "limiter_config \<Rightarrow> limiter_class \<Rightarrow> limiter_class" where
  "init_class cfg c =
     (if cl_initialized c then c else
      \<lparr>cl_initialized = True,
       cl_semaphore = (case lc_max_concurrent cfg of None \<Rightarrow> 1 | Some n \<Rightarrow> n),
       cl_max_rpm = lc_max_rpm cfg, cl_rpm_limiter = map_option per_minute_bucket (lc_max_rpm cfg),
       cl_max_tpm = lc_max_tpm cfg, cl_tpm_limiter = map_option per_minute_bucket (lc_max_tpm cfg),
       cl_estimated_tokens = (case lc_estimated_tokens cfg of None \<Rightarrow> 2000 | Some t \<Rightarrow> t)\<rparr>)"

text \<open>Whether the second initialisation warns that its limits are ignored.\<close>

definition warns_ignored :: "limiter_config \<Rightarrow> limiter_class \<Rightarrow> bool" where
  "warns_ignored cfg c \<longleftrightarrow> cl_initialized c \<and> (lc_max_rpm cfg \<noteq> cl_max_rpm c \<or> lc_max_tpm cfg \<noteq> cl_max_tpm c)
     \<and> (lc_max_rpm cfg \<noteq> None \<or> lc_max_tpm cfg \<noteq> None \<or> cl_max_rpm c \<noteq> None \<or> cl_max_tpm c \<noteq> None)"

datatype info = INum real | IStr string | IBool bool

datatype call_outcome = ScoreDict "(string \<times> info) list" | Score real | TimedOut | Raised string

text \<open>The part of \<open>run_single\<close> after the limiters: the reward and the extra information.\<close>

definition reward_result :: "call_outcome \<Rightarrow> info \<times> (string \<times> info) list" where
  "reward_result r = (case r of
       ScoreDict d \<Rightarrow> (case map_of d ''score'' of
           Some s \<Rightarrow> (s, AList.updates (map fst d) (map snd d) [])
         | None \<Rightarrow> (INum 0, [(''error'', IStr (CHR 39 # ''score'' @ [CHR 39])), (''acc'', INum 0)]))
     | Score x \<Rightarrow> (INum x, [(''acc'', INum x)])
     | TimedOut \<Rightarrow> (INum 0, [(''timeout'', IBool True), (''acc'', INum 0)])
     | Raised msg \<Rightarrow> (INum 0, [(''error'', IStr msg), (''acc'', INum 0)]))"

section \<open>Properties\<close>

lemma served_append [simp]: "served (es @ fs) = served es + served fs"
  by (induction es rule: served.induct) simp_all

lemma refill_fields [simp]:
  "tb_rate (refill now b) = tb_rate b" "tb_max (refill now b) = tb_max b" "tb_last (refill now b) = Some (last_update now b)"
  by (simp_all add: refill_def)

lemma refill_le:
  "tb_tokens (refill now b) \<le> tb_max b"
  "tb_tokens (refill now b) \<le> tb_tokens b + (now - last_update now b) * tb_rate b"
  by (simp_all add: refill_def)

lemma acquire_largeE:
  assumes "acquire_large n now b = (Inr w, b')"
  obtains "w = (if n - tb_tokens (refill now b) > 0 then (n - tb_tokens (refill now b)) / tb_rate b else 0)"
    "b' = (refill now b)\<lparr>tb_tokens := tb_tokens (refill now b) - n, tb_last := Some now\<rparr>"
  using assms by (auto simp: acquire_large_def Let_def split: if_splits)

lemma acquire_tryE:
  assumes "acquire_try n now b = (Inr a, b')"
  obtains "a = Granted" "tb_tokens (refill now b) \<ge> n"
      "b' = (refill now b)\<lparr>tb_last := Some now, tb_tokens := tb_tokens (refill now b) - n\<rparr>"
    | "tb_tokens (refill now b) < n" "tb_rate b \<noteq> 0" "a = Retry ((n - tb_tokens (refill now b)) / tb_rate b)"
      "b' = (refill now b)\<lparr>tb_last := Some now\<rparr>"
  using assms by (auto simp: acquire_try_def Let_def not_le split: if_splits)

text \<open>
  The charged tokens together with those in the bucket never exceed the capacity and what the rate
  has delivered since the first request.
\<close>

definition tb_account :: "real \<Rightarrow> real \<Rightarrow> tb_event list \<Rightarrow> token_bucket \<times> real \<Rightarrow> bool" where
  "tb_account rate cap es s = (case s of (b, clock) \<Rightarrow> tb_rate b = rate \<and> tb_max b = cap
     \<and> (if es = [] then tb_last b = None \<and> tb_tokens b \<le> cap
        else tb_last b = Some clock \<and> served es + tb_tokens b \<le> cap + rate * (clock - event_time (hd es))))"

lemma account_refill:
  assumes "tb_account rate cap es (b, clock)"
  shows "served es + tb_tokens (refill now b) \<le> cap + rate * (now - (if es = [] then now else event_time (hd es)))"
proof (cases "es = []")
  case True
  then show ?thesis using assms refill_le(1) [of now b] by (simp add: tb_account_def)
next
  case False
  then have "tb_last b = Some clock" "served es + tb_tokens b \<le> cap + rate * (clock - event_time (hd es))" "tb_rate b = rate"
    using assms by (simp_all add: tb_account_def)
  moreover have "tb_tokens (refill now b) \<le> tb_tokens b + (now - clock) * rate"
    using refill_le(2) [of now b] calculation by (simp add: last_update_def)
  ultimately show ?thesis using False by (simp add: algebra_simps)
qed

lemma account_event:
  assumes "tb_account rate cap es (b, clock)" "event_time e = now"
    and "tb_rate b' = tb_rate b" "tb_max b' = tb_max b" "tb_last b' = Some now"
    and "served [e] + tb_tokens b' \<le> tb_tokens (refill now b)"
  shows "tb_account rate cap (es @ [e]) (b', now)"
  using account_refill [OF assms(1), of now] assms by (cases "es = []") (auto simp: tb_account_def)

lemma account_step:
  assumes "tb_account rate cap es s" "tb_step s e s'"
  shows "tb_account rate cap (es @ [e]) s'"
  using assms(2)
proof cases
  case (large clock now n b w b' ret)
  from large(6) show ?thesis by (cases rule: acquire_largeE) (use assms(1) large in \<open>auto intro!: account_event [of _ _ _ b clock]\<close>)
next
  case (granted clock now n b b')
  from granted(6) show ?thesis by (cases rule: acquire_tryE) (use assms(1) granted in \<open>auto intro!: account_event [of _ _ _ b clock]\<close>)
next
  case (retry clock now n b w b')
  from retry(6) show ?thesis by (cases rule: acquire_tryE) (use assms(1) retry in \<open>auto intro!: account_event [of _ _ _ b clock]\<close>)
qed

interpretation tbi: history_invariant "\<lambda>s. tb_account rate cap [] s" tb_step "tb_account rate cap" for rate cap
  by unfold_locales (auto intro: account_step)

lemma init_account: "tb_account rate (tb_max (init_bucket rate m)) [] (init_bucket rate m, clock)"
  by (simp add: tb_account_def init_bucket_def Let_def)

text \<open>
  C23. The rate limit holds in every interleaving: whenever a request returns, the tokens granted to
  it and to all requests charged before it are at most the capacity plus the rate times the time
  since the first request.  Requests above the capacity are included: they go into debt at once but
  return only when the debt has been paid.
\<close>

theorem token_bucket_rate_bound:
  assumes "0 < rate" "run tb_step (init_bucket rate m, start) (es @ [Serve n now ret]) s"
  shows "served (es @ [Serve n now ret])
    \<le> tb_max (init_bucket rate m) + rate * (ret - event_time (hd (es @ [Serve n now ret])))"
proof -
  let ?cap = "tb_max (init_bucket rate m)" and ?t0 = "event_time (hd (es @ [Serve n now ret]))"
  from assms(2) obtain b clock where r: "run tb_step (init_bucket rate m, start) es (b, clock)"
    and st: "tb_step (b, clock) (Serve n now ret) s" using run_snocD [of tb_step "(init_bucket rate m, start)" es "Serve n now ret" s] by auto
  have acc: "tb_account rate ?cap es (b, clock)" by (rule tbi.inv_run [OF init_account r])
  then have rate: "tb_rate b = rate" by (simp add: tb_account_def)
  have le: "served es + tb_tokens (refill now b) \<le> ?cap + rate * (now - ?t0)"
    using account_refill [OF acc, of now] by (cases "es = []") simp_all
  from st show ?thesis
  proof cases
    case (large w b')
    from large(4) have w: "w = (if n - tb_tokens (refill now b) > 0 then (n - tb_tokens (refill now b)) / rate else 0)"
      by (cases rule: acquire_largeE) (simp add: rate)
    have "n - tb_tokens (refill now b) \<le> rate * w" using assms(1) by (simp add: w)
    also have "\<dots> \<le> rate * (ret - now)" using assms(1) large(5) by (intro mult_left_mono) auto
    finally show ?thesis using le by (simp add: algebra_simps)
  next
    case (granted b')
    from granted(5) have "n \<le> tb_tokens (refill now b)" by (cases rule: acquire_tryE) simp_all
    then show ?thesis using le granted by simp
  qed
qed

text \<open>
  C24. An undisturbed request returns: with a positive rate two iterations of the loop suffice, since
  after the computed sleep, or a longer one, the bucket holds enough tokens.  A request above the
  capacity returns after one sleep.
\<close>

theorem acquire_returns:
  assumes "0 < tb_rate b" "\<And>k. 0 \<le> late k"
  shows "\<exists>t b'. acquire 2 late n now b = Some (Inr t, b') \<and> now \<le> t"
proof (cases "n > tb_max b")
  case True
  then show ?thesis using assms by (auto simp: acquire_def acquire_large_def Let_def add_increasing2)
next
  case False
  obtain a b1 where a: "acquire_try n now b = (Inr a, b1)"
    using assms(1) by (cases "n \<le> tb_tokens (refill now b)") (auto simp: acquire_try_def Let_def)
  from a show ?thesis
  proof (cases rule: acquire_tryE)
    case 1
    then show ?thesis using False a by (simp add: acquire_def numeral_2_eq_2)
  next
    case 2
    let ?w = "(n - tb_tokens (refill now b)) / tb_rate b" and ?t = "tb_tokens (refill now b)"
    have w: "0 < ?w" using 2 assms(1) by simp
    have "n = ?t + ?w * tb_rate b" using assms(1) by simp
    moreover have "?w * tb_rate b \<le> (?w + late 1) * tb_rate b" using assms(1) assms(2) [of 1] by (intro mult_right_mono) auto
    ultimately have "n \<le> ?t + (?w + late 1) * tb_rate b" by linarith
    then have ok: "n \<le> tb_tokens (refill (now + ?w + late 1) b1)"
      using False 2(4) by (simp add: refill_def last_update_def)
    then have "acquire_try n (now + ?w + late 1) b1
        = (Inr Granted, (refill (now + ?w + late 1) b1)\<lparr>tb_last := Some (now + ?w + late 1),
             tb_tokens := tb_tokens (refill (now + ?w + late 1) b1) - n\<rparr>)"
      by (simp add: acquire_try_def Let_def)
    then show ?thesis using False a 2(3) w assms(2) [of 1] by (simp add: acquire_def numeral_2_eq_2)
  qed
qed

theorem token_bucket_rate_bound_witness:
  "served [Serve 3 0 1] \<le> tb_max (init_bucket 2 (Some 1)) + 2 * ((1::real) - 0)"
proof -
  have "tb_step (init_bucket 2 (Some 1), 0) (Serve 3 0 1)
      ((init_bucket 2 (Some 1))\<lparr>tb_last := Some 0, tb_tokens := -2\<rparr>, 0)"
    by (rule large [where w = 1]) (simp_all add: init_bucket_def acquire_large_def refill_def last_update_def)
  from run_single [of tb_step, OF this] have "run tb_step (init_bucket 2 (Some 1), 0) ([] @ [Serve 3 0 1])
      ((init_bucket 2 (Some 1))\<lparr>tb_last := Some 0, tb_tokens := -2\<rparr>, 0)" by simp
  from token_bucket_rate_bound [OF _ this] show ?thesis by simp
qed

theorem acquire_returns_witness:
  "\<exists>t b'. acquire 2 (\<lambda>_. 0) 1 0 \<lparr>tb_rate = 1 / 2, tb_max = 2, tb_tokens = 0, tb_last = None\<rparr> = Some (Inr t, b') \<and> 0 \<le> t"
  by (rule acquire_returns) simp_all

text \<open>
  A limit of 0 requests per minute is not a limit: the bucket then has rate 0, and the first
  request raises \<open>ZeroDivisionError\<close> instead of waiting, although \<open>acquire\<close> documents that it
  never raises.
\<close>

lemma zero_rate_raises:
  "acquire fuel late 1 now (per_minute_bucket 0)
     = Some (Inl ZeroDivisionError, (per_minute_bucket 0)\<lparr>tb_last := Some now\<rparr>)"
  by (simp add: acquire_def acquire_large_def per_minute_bucket_def init_bucket_def refill_def last_update_def)

end
