(* ===== verification/Replay_Buffer.thy ===== *)
theory Replay_Buffer
  imports Transition "HOL-Library.Sublist" Complex_Main
begin

text \<open>
  \<open>verl/trainer/ppo/v1/replay_buffer.py\<close>: the buffer the trainer samples trajectories from, in the
  synchronous and the asynchronous version, with the eviction of stale, failed and DAPO-filtered
  prompt groups and the refill of replacements.

  The TransferQueue store is not part of the repository.  A call of \<open>sample\<close> sees it through a
  sequence of polls: poll \<open>k\<close> gives what \<open>kv_list\<close> returns and what \<open>kv_batch_get\<close> returns for a
  trajectory key (its \<open>reward_extra_info\<close>).  The theorems hold for every sequence, so for every
  behaviour of the store and of the rollout workers in between.  The effects of a call
  (\<open>kv_clear\<close>, \<open>refill_fn\<close>, sleeping) are a list of actions.  Python sets are lists without
  repetition; the order in which \<open>sorted\<close> sees them is the argument \<open>so\<close>.  Metrics are real numbers.
\<close>

section \<open>State\<close>

record tag =
  tg_is_prompt :: bool
  tg_global_steps :: "int option"
  tg_status :: "string option"

record buffer_config =
  bc_threshold :: int
  bc_strategy :: string
  bc_has_refill :: bool
  bc_metric :: "string option"
  bc_train_batch_size :: "nat option"
  bc_gen_batch_size :: "nat option"
  bc_max_inflight :: int
  bc_refill_failed :: bool

record replay_buffer =
  rb_partitions :: "string \<Rightarrow> (string \<times> tag) list"
  rb_pending :: "string \<Rightarrow> string list"
  rb_running :: "string \<Rightarrow> string list"
  rb_finished :: "string \<Rightarrow> string list"
  rb_failure :: "string \<Rightarrow> string list"
  rb_steps :: "string \<Rightarrow> (string \<times> int) list"
  rb_cache :: "string \<Rightarrow> (string \<times> real option) list"

definition empty_buffer :: replay_buffer where
  "empty_buffer = \<lparr>rb_partitions = (\<lambda>_. []), rb_pending = (\<lambda>_. []), rb_running = (\<lambda>_. []), rb_finished = (\<lambda>_. []),
     rb_failure = (\<lambda>_. []), rb_steps = (\<lambda>_. []), rb_cache = (\<lambda>_. [])\<rparr>"

definition validate_mode_config :: "bool \<Rightarrow> buffer_config \<Rightarrow> unit result" where
  "validate_mode_config is_async c =
     (if is_async then Inr ()
      else if bc_metric c \<noteq> None \<and> bc_max_inflight c \<le> 0 then Inl ValueError
      else if bc_refill_failed c \<and> bc_gen_batch_size c \<noteq> Some 1 then Inl ValueError
      else Inr ())"

definition init_buffer :: "bool \<Rightarrow> buffer_config \<Rightarrow> replay_buffer result" where
  "init_buffer is_async c =
     rbind (assert_r (bc_threshold c > 0) AssertionError) (\<lambda>_.
     rbind (assert_r (bc_strategy c \<in> {''drop'', ''wait''}) AssertionError) (\<lambda>_.
     if bc_metric c \<noteq> None \<and> \<not> bc_has_refill c then Inl ValueError
     else if bc_refill_failed c \<and> \<not> bc_has_refill c then Inl ValueError
     else rbind (validate_mode_config is_async c) (\<lambda>_. Inr empty_buffer)))"

section \<open>Snapshots\<close>

type_synonym snapshot = "(string \<times> (string \<times> tag) list) list"

definition add_key :: "string \<Rightarrow> string \<Rightarrow> (string \<Rightarrow> string list) \<Rightarrow> string \<Rightarrow> string list" where
  "add_key p key m = m(p := List.insert key (m p))"

definition sync_item :: "string \<Rightarrow> string \<times> tag \<Rightarrow> replay_buffer \<Rightarrow> replay_buffer result" where
  "sync_item p kt b = (case kt of (key, tag) \<Rightarrow>
     if tg_is_prompt tag then
       (case tg_global_steps tag of
          None \<Rightarrow> Inl KeyError
        | Some g \<Rightarrow>
            (let b' = b\<lparr>rb_steps := (rb_steps b)(p := AList.update key g (rb_steps b p))\<rparr> in
             case tg_status tag of
               None \<Rightarrow> Inl KeyError
             | Some st \<Rightarrow>
                 if st = ''pending'' then Inr (b'\<lparr>rb_pending := add_key p key (rb_pending b')\<rparr>)
                 else if st = ''running'' then Inr (b'\<lparr>rb_running := add_key p key (rb_running b')\<rparr>)
                 else if st = ''finished'' then Inr (b'\<lparr>rb_finished := add_key p key (rb_finished b')\<rparr>)
                 else if st = ''failure'' then Inr (b'\<lparr>rb_failure := add_key p key (rb_failure b')\<rparr>)
                 else Inl ValueError))
     else Inr (b\<lparr>rb_partitions := (rb_partitions b)(p := AList.update key tag (rb_partitions b p))\<rparr>))"

text \<open>\<open>_sync_metadata_from_transfer_queue\<close>: everything but the classification cache is rebuilt.\<close>

definition sync_metadata :: "snapshot option \<Rightarrow> replay_buffer \<Rightarrow> replay_buffer result" where
  "sync_metadata data b = (case data of
       None \<Rightarrow> Inr (empty_buffer\<lparr>rb_cache := rb_cache b\<rparr>)
     | Some d \<Rightarrow> fold_r (\<lambda>(p, items). fold_r (sync_item p) items) d (empty_buffer\<lparr>rb_cache := rb_cache b\<rparr>))"

definition metrics_prefix :: "string \<Rightarrow> string" where
  "metrics_prefix p = (if p = ''train'' then ''training'' else ''validation'')"

definition uid_of :: "string \<Rightarrow> string" where
  "uid_of key = takeWhile (\<lambda>c. c \<noteq> CHR ''_'') key"

text \<open>\<open>KvClear p uids keys\<close>: \<open>kv_clear\<close> of the prompt keys \<open>uids\<close> and the trajectory keys \<open>keys\<close>.\<close>

datatype action = KvClear string "string list" "string list" | Refill nat | SleepPoll

section \<open>Eviction\<close>

definition minus_keys :: "string list \<Rightarrow> string list \<Rightarrow> string list" where
  "minus_keys xs ys = filter (\<lambda>x. x \<notin> set ys) xs"

definition clear_groups :: "string \<Rightarrow> string list \<Rightarrow> replay_buffer \<Rightarrow> action list \<times> replay_buffer" where
  "clear_groups p uids b =
     (if uids = [] then ([], b) else
      (let trajectory_keys = filter (\<lambda>k. uid_of k \<in> set uids) (map fst (rb_partitions b p));
           drop_keys = (\<lambda>m. m(p := minus_keys (m p) uids)) in
       ([KvClear p uids trajectory_keys],
        b\<lparr>rb_partitions := (rb_partitions b)(p := filter (\<lambda>(k, _). uid_of k \<notin> set uids) (rb_partitions b p)),
          rb_pending := drop_keys (rb_pending b), rb_running := drop_keys (rb_running b),
          rb_finished := drop_keys (rb_finished b), rb_failure := drop_keys (rb_failure b),
          rb_steps := (rb_steps b)(p := filter (\<lambda>(u, _). u \<notin> set uids) (rb_steps b p)),
          rb_cache := (rb_cache b)(p := filter (\<lambda>(u, _). u \<notin> set uids) (rb_cache b p))\<rparr>)))"

text \<open>\<open>float(np.std(values)) == 0.0\<close>: the standard deviation is zero when the variance is.\<close>

definition variance :: "real list \<Rightarrow> real" where
  "variance vs = (let m = sum_list vs / of_nat (length vs) in sum_list (map (\<lambda>v. (v - m) * (v - m)) vs) / of_nat (length vs))"

definition classify :: "real list \<Rightarrow> real option" where
  "classify vs = (if length vs > 1 \<and> variance vs = 0 then Some (hd vs) else None)"

definition counter :: "real list \<Rightarrow> (real \<times> nat) list" where
  "counter vs = map (\<lambda>v. (v, count_list vs v)) (remdups vs)"

definition dapo_filtered_keys ::
  "buffer_config \<Rightarrow> (string \<Rightarrow> (string \<times> real) list) \<Rightarrow> string \<Rightarrow> replay_buffer
   \<Rightarrow> ((string list \<times> (real \<times> nat) list) \<times> replay_buffer) result" where
  "dapo_filtered_keys c rei p b =
     (case bc_metric c of
        None \<Rightarrow> Inr (([], []), b)
      | Some metric \<Rightarrow>
          if p = ''val'' then Inr (([], []), b) else
          (let finished = rb_finished b p;
               cache = filter (\<lambda>(u, _). u \<in> set finished) (rb_cache b p);
               new = minus_keys finished (map fst cache);
               traj = filter (\<lambda>k. uid_of k \<in> set new) (map fst (rb_partitions b p));
               missing = minus_keys new (map uid_of traj)
                         @ map uid_of (filter (\<lambda>k. map_of (rei k) metric = None) traj);
               vals = (\<lambda>u. map (\<lambda>k. the (map_of (rei k) metric)) (filter (\<lambda>k. uid_of k = u) traj)) in
           if missing \<noteq> [] then Inl RuntimeError else
           (let cache' = cache @ map (\<lambda>u. (u, classify (vals u))) new;
                filtered = filter (\<lambda>(_, r). r \<noteq> None) cache' in
            Inr ((map fst filtered, counter (map (the \<circ> snd) filtered)),
                 b\<lparr>rb_cache := (rb_cache b)(p := cache')\<rparr>))))"

type_synonym reasons = "string list \<times> string list \<times> string list \<times> (real \<times> nat) list"

definition span :: "int \<Rightarrow> (string \<times> int) list \<Rightarrow> string \<Rightarrow> int" where
  "span global_steps steps uid = global_steps - dict_get steps uid global_steps + 1"

definition stale_terminal_keys :: "buffer_config \<Rightarrow> int \<Rightarrow> string \<Rightarrow> replay_buffer \<Rightarrow> string list" where
  "stale_terminal_keys c global_steps p b =
     (if p = ''val'' \<or> bc_strategy c \<noteq> ''drop'' then []
      else filter (\<lambda>u. span global_steps (rb_steps b p) u > bc_threshold c) (rb_finished b p))"

definition terminal_eviction_reasons ::
  "buffer_config \<Rightarrow> (string \<Rightarrow> (string \<times> real) list) \<Rightarrow> string \<Rightarrow> replay_buffer \<Rightarrow> (reasons \<times> replay_buffer) result" where
  "terminal_eviction_reasons c rei p b =
     (if p = ''val'' then Inr (([], [], [], []), b) else
      rbind (dapo_filtered_keys c rei p b) (\<lambda>((dapo, counts), b').
      let failed = (if bc_refill_failed c
                    then minus_keys (rb_failure b' p) (map (uid_of \<circ> fst) (rb_partitions b' p)) else []) in
      Inr (([], dapo, failed, counts), b')))"

definition terminal_eviction_reasons_async ::
  "buffer_config \<Rightarrow> (string \<Rightarrow> (string \<times> real) list) \<Rightarrow> int \<Rightarrow> string \<Rightarrow> replay_buffer \<Rightarrow> (reasons \<times> replay_buffer) result" where
  "terminal_eviction_reasons_async c rei global_steps p b =
     (if p = ''val'' then Inr (([], [], [], []), b) else
      (let stale = stale_terminal_keys c global_steps p b in
       rbind (dapo_filtered_keys c rei p b) (\<lambda>((dapo, counts), b').
       Inr ((stale, dapo, rb_failure b' p, counts), b'))))"

definition evicted_uids :: "reasons \<Rightarrow> string list" where
  "evicted_uids r = (case r of (stale, dapo, failed, _) \<Rightarrow> remdups (stale @ dapo @ failed))"

definition sampleable_terminal_keys :: "string \<Rightarrow> reasons \<Rightarrow> replay_buffer \<Rightarrow> string list" where
  "sampleable_terminal_keys p r b = minus_keys (remdups (rb_finished b p @ rb_failure b p)) (evicted_uids r)"


section \<open>Metrics\<close>

datatype metric = MNum real | MCounts "(real \<times> nat) list"

type_synonym metrics = "(string \<times> metric) list"

definition reward_counts_key :: string where
  "reward_counts_key = ''_dapo_filtered_reward_counts''"

fun num_of :: "metric \<Rightarrow> real" where
  "num_of (MNum x) = x"
| "num_of (MCounts _) = 0"

fun counts_of :: "metric \<Rightarrow> (real \<times> nat) list" where
  "counts_of (MCounts c) = c"
| "counts_of (MNum _) = []"

definition ends_with :: "string \<Rightarrow> string \<Rightarrow> bool" where
  "ends_with key e = suffix e key"

definition get_num :: "metrics \<Rightarrow> string \<Rightarrow> real \<Rightarrow> real" where
  "get_num acc key dflt = (case map_of acc key of None \<Rightarrow> dflt | Some m \<Rightarrow> num_of m)"

definition merge_counts :: "(real \<times> nat) list \<Rightarrow> (real \<times> nat) list \<Rightarrow> (real \<times> nat) list" where
  "merge_counts acc new = fold (\<lambda>(v, n) a. AList.update v (dict_get a v 0 + n) a) new acc"

definition accumulate_entry :: "real \<Rightarrow> nat \<Rightarrow> string \<times> metric \<Rightarrow> metrics \<Rightarrow> metrics" where
  "accumulate_entry prev_stale_total stale_count kv acc = (case kv of (key, value) \<Rightarrow>
     if ends_with key ''/evicted_samples_staleness/mean'' then
       (let denom = prev_stale_total + of_nat stale_count in
        AList.update key (MNum (if denom \<noteq> 0
          then (get_num acc key 0 * prev_stale_total + num_of value * of_nat stale_count) / denom
          else num_of value)) acc)
     else if ends_with key ''/evicted_samples_staleness/max'' then
       AList.update key (MNum (max (get_num acc key (num_of value)) (num_of value))) acc
     else if ends_with key ''/evicted_samples_staleness/min'' then
       AList.update key (MNum (min (get_num acc key (num_of value)) (num_of value))) acc
     else if key = reward_counts_key then
       AList.update key (MCounts (merge_counts (case map_of acc key of None \<Rightarrow> [] | Some m \<Rightarrow> counts_of m) (counts_of value))) acc
     else AList.update key (MNum (get_num acc key 0 + num_of value)) acc)"

definition accumulate_eviction_metrics :: "metrics \<Rightarrow> metrics \<Rightarrow> nat \<Rightarrow> metrics" where
  "accumulate_eviction_metrics acc new stale_count =
     (let prev_stale_total = (case filter (\<lambda>(k, _). ends_with k ''/off_policy/evicted_samples'') new of
            [] \<Rightarrow> 0 | (k, _) # _ \<Rightarrow> get_num acc k 0) in
      fold (accumulate_entry prev_stale_total stale_count) new acc)"

definition eviction_metrics :: "int \<Rightarrow> string \<Rightarrow> reasons \<Rightarrow> (string \<times> int) list \<Rightarrow> metrics" where
  "eviction_metrics global_steps p r steps = (case r of (stale, dapo, failed, counts) \<Rightarrow>
     (let prefix = metrics_prefix p; spans = map (\<lambda>u. real_of_int (span global_steps steps u)) stale in
      (if stale = [] then [] else
         [(prefix @ ''/off_policy/evicted_samples'', MNum (of_nat (length stale))),
          (prefix @ ''/off_policy/evicted_samples_staleness/mean'', MNum (sum_list spans / of_nat (length spans))),
          (prefix @ ''/off_policy/evicted_samples_staleness/max'', MNum (fold max (tl spans) (hd spans))),
          (prefix @ ''/off_policy/evicted_samples_staleness/min'', MNum (fold min (tl spans) (hd spans)))])
      @ (if dapo = [] then [] else
         [(prefix @ ''/filter_groups/evicted_samples'', MNum (of_nat (length dapo))), (reward_counts_key, MCounts counts)])
      @ (if failed = [] then [] else [(prefix @ ''/rollout_failure/evicted_samples'', MNum (of_nat (length failed)))])))"

definition evict_terminal_groups ::
  "int \<Rightarrow> string \<Rightarrow> reasons \<Rightarrow> replay_buffer \<Rightarrow> (string list \<times> nat \<times> nat \<times> metrics) \<times> action list \<times> replay_buffer" where
  "evict_terminal_groups global_steps p r b = (case r of (stale, dapo, failed, counts) \<Rightarrow>
     if evicted_uids r = [] then (([], 0, 0, []), [], b)
     else (case clear_groups p (evicted_uids r) b of (acts, b') \<Rightarrow>
       ((evicted_uids r, length stale, length dapo, eviction_metrics global_steps p r (rb_steps b p)), acts, b')))"

section \<open>Selection\<close>

definition select_prompt_uids :: "(string list \<Rightarrow> string list) \<Rightarrow> string \<Rightarrow> string list \<Rightarrow> nat \<Rightarrow> replay_buffer \<Rightarrow> string list" where
  "select_prompt_uids so p sampleable batch_size b =
     take batch_size (sort_key (\<lambda>u. dict_get (rb_steps b p) u 0) (so sampleable))"

definition materialize_batch :: "string \<Rightarrow> string list \<Rightarrow> (string \<times> tag) list \<Rightarrow> action list \<times> (string \<times> tag) list" where
  "materialize_batch p selected snapshot =
     ([KvClear p selected []], filter (\<lambda>(k, _). uid_of k \<in> set selected) snapshot)"

section \<open>Synchronous sampling\<close>

record sample_state =
  ss_buffer :: replay_buffer
  ss_metrics :: metrics
  ss_credit :: nat
  ss_draining :: bool
  ss_actions :: "action list"

type_synonym poll = "snapshot option \<times> (string \<Rightarrow> (string \<times> real) list)"

datatype iteration = Again sample_state | Chosen "string list" "(string \<times> tag) list" sample_state

definition inflight_count :: "string \<Rightarrow> replay_buffer \<Rightarrow> nat" where
  "inflight_count p b = length (rb_pending b p) + length (rb_running b p)"

text \<open>\<open>refill_fn\<close> is called; without one the call or the assertion before it raises.\<close>

definition call_refill :: "py_error \<Rightarrow> buffer_config \<Rightarrow> nat \<Rightarrow> sample_state \<Rightarrow> sample_state result" where
  "call_refill e c n st = (if bc_has_refill c then Inr (st\<lparr>ss_actions := ss_actions st @ [Refill n]\<rparr>) else Inl e)"

text \<open>The selection at the end of an iteration; in DAPO mode the surplus is discarded.\<close>

definition choose_sync ::
  "buffer_config \<Rightarrow> (string list \<Rightarrow> string list) \<Rightarrow> bool \<Rightarrow> string \<Rightarrow> nat \<Rightarrow> string list \<Rightarrow> sample_state \<Rightarrow> iteration" where
  "choose_sync c so dapo_enabled p batch_size sampleable st =
     (let b = ss_buffer st;
          selected = select_prompt_uids so p sampleable batch_size b;
          surplus = minus_keys sampleable selected in
      if dapo_enabled \<and> surplus \<noteq> [] then
        (case clear_groups p surplus b of (acts, b') \<Rightarrow>
           (let key = metrics_prefix p @ ''/filter_groups/discarded_surplus_samples'' in
            Chosen selected (rb_partitions b p)
              (st\<lparr>ss_buffer := b', ss_actions := ss_actions st @ acts,
                 ss_metrics := AList.update key (MNum (get_num (ss_metrics st) key 0 + of_nat (length surplus))) (ss_metrics st)\<rparr>)))
      else Chosen selected (rb_partitions b p) st)"

text \<open>
  The DAPO bookkeeping of an iteration: how many prompts are dispatched (\<open>0\<close>: none), the remaining
  credit and whether the call drains.
\<close>

definition dapo_dispatch ::
  "buffer_config \<Rightarrow> nat \<Rightarrow> bool \<Rightarrow> nat \<Rightarrow> nat \<Rightarrow> nat \<Rightarrow> bool \<Rightarrow> nat \<Rightarrow> (nat \<times> nat \<times> bool) result" where
  "dapo_dispatch c max_inflight enough dapo_count failed_count inflight draining credit =
     (let draining' = (draining \<or> enough);
          credit' = (if enough then 0 else if draining then credit else credit + 2 * dapo_count + failed_count) in
      if \<not> draining' \<and> credit' > 0 then
        (let dispatch = min credit' (max_inflight - inflight) in
         case bc_gen_batch_size c of
           None \<Rightarrow> Inl AssertionError
         | Some g \<Rightarrow> if g = 0 then Inl ZeroDivisionError else
             (let d = dispatch - dispatch mod g in Inr (d, credit' - d, draining')))
      else Inr (0, credit', draining'))"

text \<open>What an iteration does after the eviction: refill and poll again, select, or sleep.\<close>

definition sync_decide ::
  "buffer_config \<Rightarrow> (string list \<Rightarrow> string list) \<Rightarrow> bool \<Rightarrow> string \<Rightarrow> nat \<Rightarrow> nat \<Rightarrow> nat \<Rightarrow> nat \<Rightarrow> string list \<Rightarrow> sample_state
   \<Rightarrow> iteration result" where
  "sync_decide c so dapo_enabled p batch_size max_inflight dapo_count failed_count sampleable st =
     (let enough = (batch_size \<le> length sampleable);
          inflight = inflight_count p (ss_buffer st) in
      if \<not> dapo_enabled \<and> failed_count > 0 \<and> \<not> enough then
        rbind (call_refill TypeError c failed_count st) (\<lambda>st2. Inr (Again st2))
      else
        rbind (if dapo_enabled
               then dapo_dispatch c max_inflight enough dapo_count failed_count inflight (ss_draining st) (ss_credit st)
               else Inr (0, ss_credit st, ss_draining st)) (\<lambda>(dispatch, credit, draining).
        let st2 = st\<lparr>ss_credit := credit, ss_draining := draining\<rparr> in
        if dispatch > 0 then rbind (call_refill AssertionError c dispatch st2) (\<lambda>st3. Inr (Again st3))
        else if enough \<and> (\<not> dapo_enabled \<or> inflight = 0) then Inr (choose_sync c so dapo_enabled p batch_size sampleable st2)
        else Inr (Again (st2\<lparr>ss_actions := ss_actions st2 @ [SleepPoll]\<rparr>))))"

definition sample_iteration ::
  "buffer_config \<Rightarrow> (string list \<Rightarrow> string list) \<Rightarrow> int \<Rightarrow> string \<Rightarrow> nat \<Rightarrow> nat \<Rightarrow> poll \<Rightarrow> sample_state \<Rightarrow> iteration result" where
  "sample_iteration c so global_steps p batch_size max_inflight pl st =
     rbind (sync_metadata (fst pl) (ss_buffer st)) (\<lambda>b1.
     rbind (terminal_eviction_reasons c (snd pl) p b1) (\<lambda>(r, b2).
     case evict_terminal_groups global_steps p r b2 of ((evicted, stale_count, dapo_count, ms), acts, b3) \<Rightarrow>
     sync_decide c so (p \<noteq> ''val'' \<and> bc_metric c \<noteq> None) p batch_size max_inflight dapo_count
       (length (fst (snd (snd r)))) (sampleable_terminal_keys p r b3)
       (st\<lparr>ss_buffer := b3, ss_actions := ss_actions st @ acts,
           ss_metrics := (if evicted = [] then ss_metrics st
                          else accumulate_eviction_metrics (ss_metrics st) ms stale_count)\<rparr>)))"

text \<open>The loop: poll \<open>k\<close> is the \<open>k\<close>-th; \<open>None\<close> when the polls given do not suffice.\<close>

fun sample_loop :: "(poll \<Rightarrow> sample_state \<Rightarrow> iteration result) \<Rightarrow> poll list \<Rightarrow> sample_state
   \<Rightarrow> (string list \<times> (string \<times> tag) list \<times> sample_state) result option" where
  "sample_loop it [] st = None"
| "sample_loop it (pl # pls) st = (case it pl st of
       Inl e \<Rightarrow> Some (Inl e)
     | Inr (Again st') \<Rightarrow> sample_loop it pls st'
     | Inr (Chosen sel snap st') \<Rightarrow> Some (Inr (sel, snap, st')))"

definition start_state :: "replay_buffer \<Rightarrow> sample_state" where
  "start_state b = \<lparr>ss_buffer = b, ss_metrics = [], ss_credit = 0, ss_draining = False, ss_actions = []\<rparr>"

definition finish_batch :: "string \<Rightarrow> string list \<Rightarrow> (string \<times> tag) list \<Rightarrow> sample_state \<Rightarrow> (string \<times> tag) list \<times> sample_state" where
  "finish_batch p selected snapshot st = (case materialize_batch p selected snapshot of (acts, batch) \<Rightarrow>
     (batch, st\<lparr>ss_actions := ss_actions st @ acts\<rparr>))"

definition sample ::
  "buffer_config \<Rightarrow> (string list \<Rightarrow> string list) \<Rightarrow> int \<Rightarrow> string \<Rightarrow> nat \<Rightarrow> poll list \<Rightarrow> replay_buffer
   \<Rightarrow> ((string \<times> tag) list \<times> sample_state) result option" where
  "sample c so global_steps p batch_size polls b =
     (case (if p \<noteq> ''val'' \<and> bc_metric c \<noteq> None
            then (case bc_train_batch_size c of None \<Rightarrow> Inl TypeError | Some t \<Rightarrow> Inr (nat (bc_max_inflight c) * t))
            else Inr 0) of
        Inl e \<Rightarrow> Some (Inl e)
      | Inr max_inflight \<Rightarrow>
          map_option (\<lambda>r. rbind r (\<lambda>(selected, snapshot, st).
            if p \<noteq> ''val'' \<and> \<not> list_ex (\<lambda>(k, _). uid_of k \<in> set selected) snapshot then Inl RuntimeError
            else Inr (finish_batch p selected snapshot st)))
          (sample_loop (sample_iteration c so global_steps p batch_size max_inflight) polls (start_state b)))"

section \<open>Asynchronous sampling\<close>

fun has_stale_inflight :: "int \<Rightarrow> int \<Rightarrow> (string \<times> int) list \<Rightarrow> string list \<Rightarrow> bool result" where
  "has_stale_inflight threshold global_steps steps [] = Inr False"
| "has_stale_inflight threshold global_steps steps (k # ks) = (case map_of steps k of
       None \<Rightarrow> Inl KeyError
     | Some g \<Rightarrow> if global_steps - g + 1 \<ge> threshold then Inr True
                 else has_stale_inflight threshold global_steps steps ks)"

definition has_enough_samples :: "buffer_config \<Rightarrow> int \<Rightarrow> string \<Rightarrow> nat \<Rightarrow> string list \<Rightarrow> replay_buffer \<Rightarrow> bool result" where
  "has_enough_samples c global_steps p batch_size sampleable b =
     rbind (if bc_strategy c = ''wait''
            then has_stale_inflight (bc_threshold c) global_steps (rb_steps b p) (remdups (rb_pending b p @ rb_running b p))
            else Inr False) (\<lambda>blocked. Inr (\<not> blocked \<and> batch_size \<le> length sampleable))"

definition sample_iteration_async ::
  "buffer_config \<Rightarrow> (string list \<Rightarrow> string list) \<Rightarrow> int \<Rightarrow> string \<Rightarrow> nat \<Rightarrow> poll \<Rightarrow> sample_state \<Rightarrow> iteration result" where
  "sample_iteration_async c so global_steps p batch_size pl st =
     rbind (sync_metadata (fst pl) (ss_buffer st)) (\<lambda>b1.
     rbind (terminal_eviction_reasons_async c (snd pl) global_steps p b1) (\<lambda>(r, b2).
     case evict_terminal_groups global_steps p r b2 of ((evicted, stale_count, dapo_count, ms), acts, b3) \<Rightarrow>
     if evicted \<noteq> [] then
       Inr (Again (st\<lparr>ss_buffer := b3,
          ss_actions := ss_actions st @ acts @ (if bc_has_refill c then [Refill (length evicted)] else []),
          ss_metrics := accumulate_eviction_metrics (ss_metrics st) ms stale_count\<rparr>))
     else
       (let st1 = st\<lparr>ss_buffer := b3\<rparr>; sampleable = sampleable_terminal_keys p r b3 in
        rbind (has_enough_samples c global_steps p batch_size sampleable b3) (\<lambda>enough.
        Inr (if enough then Chosen (select_prompt_uids so p sampleable batch_size b3) (rb_partitions b3 p) st1
             else Again (st1\<lparr>ss_actions := ss_actions st1 @ [SleepPoll]\<rparr>))))))"

definition sample_async ::
  "buffer_config \<Rightarrow> (string list \<Rightarrow> string list) \<Rightarrow> int \<Rightarrow> string \<Rightarrow> nat \<Rightarrow> poll list \<Rightarrow> replay_buffer
   \<Rightarrow> ((string \<times> tag) list \<times> sample_state) result option" where
  "sample_async c so global_steps p batch_size polls b =
     map_option (\<lambda>r. rbind r (\<lambda>(selected, snapshot, st).
       if p \<noteq> ''val'' \<and> bc_strategy c = ''drop''
          \<and> \<not> list_all (\<lambda>u. span global_steps (rb_steps (ss_buffer st) p) u \<le> bc_threshold c) selected
       then Inl AssertionError
       else Inr (finish_batch p selected snapshot st)))
     (sample_loop (sample_iteration_async c so global_steps p batch_size) polls (start_state b))"

section \<open>Group filtering\<close>

lemma variance_zero_iff:
  assumes "vs \<noteq> []"
  shows "variance vs = 0 \<longleftrightarrow> (\<forall>v\<in>set vs. v = hd vs)"
proof -
  let ?n = "real (length vs)" and ?m = "sum_list vs / real (length vs)"
  have n: "0 < ?n" using assms by simp
  have "variance vs = 0 \<longleftrightarrow> sum_list (map (\<lambda>v. (v - ?m) * (v - ?m)) vs) = 0"
    using n by (simp add: variance_def Let_def)
  also have "\<dots> \<longleftrightarrow> (\<forall>v\<in>set vs. v = ?m)"
    by (subst sum_list_nonneg_eq_0_iff) auto
  also have "\<dots> \<longleftrightarrow> (\<forall>v\<in>set vs. v = hd vs)"
  proof
    assume a: "\<forall>v\<in>set vs. v = ?m"
    moreover have "hd vs \<in> set vs" using assms by simp
    ultimately show "\<forall>v\<in>set vs. v = hd vs" by metis
  next
    assume a: "\<forall>v\<in>set vs. v = hd vs"
    then have "vs = replicate (length vs) (hd vs)" by (metis replicate_length_same)
    then have "sum_list vs = ?n * hd vs" by (metis sum_list_replicate)
    then have "?m = hd vs" using n by simp
    with a show "\<forall>v\<in>set vs. v = ?m" by simp
  qed
  finally show ?thesis .
qed

lemma classify_Some_iff: "classify vs = Some x \<longleftrightarrow> length vs > 1 \<and> (\<forall>v\<in>set vs. v = x)"
proof (cases "vs = []")
  case False
  then have h: "hd vs \<in> set vs" by simp
  have "classify vs = Some x \<longleftrightarrow> length vs > 1 \<and> (\<forall>v\<in>set vs. v = hd vs) \<and> hd vs = x"
    unfolding classify_def variance_zero_iff [OF False] by simp
  also have "\<dots> \<longleftrightarrow> length vs > 1 \<and> (\<forall>v\<in>set vs. v = x)" using h by metis
  finally show ?thesis .
qed (simp add: classify_def)

text \<open>The metric values of the trajectories of a group, and when its cached classification is current.\<close>

definition group_keys :: "replay_buffer \<Rightarrow> string \<Rightarrow> string \<Rightarrow> string list" where
  "group_keys b p u = filter (\<lambda>k. uid_of k = u) (map fst (rb_partitions b p))"

definition group_values :: "(string \<Rightarrow> (string \<times> real) list) \<Rightarrow> string \<Rightarrow> replay_buffer \<Rightarrow> string \<Rightarrow> string \<Rightarrow> real list" where
  "group_values rei metric b p u = map (\<lambda>k. the (map_of (rei k) metric)) (group_keys b p u)"

definition cache_current :: "(string \<Rightarrow> (string \<times> real) list) \<Rightarrow> string \<Rightarrow> replay_buffer \<Rightarrow> string \<Rightarrow> bool" where
  "cache_current rei metric b p \<longleftrightarrow> (\<forall>(u, r)\<in>set (rb_cache b p). u \<in> set (rb_finished b p) \<longrightarrow> r = classify (group_values rei metric b p u))"

lemma filter_group: "u \<in> set new \<Longrightarrow> filter (\<lambda>k. uid_of k = u) (filter (\<lambda>k. uid_of k \<in> set new) ks) = filter (\<lambda>k. uid_of k = u) ks"
  by (induction ks) auto

lemma dapo_step:
  assumes "bc_metric c = Some metric" "p \<noteq> ''val''" "dapo_filtered_keys c rei p b = Inr ((uids, counts), b')"
    "cache_current rei metric b p"
  shows "\<forall>(u, r)\<in>set (rb_cache b' p). u \<in> set (rb_finished b p) \<and> r = classify (group_values rei metric b p u)"
    and "fst ` set (rb_cache b' p) = set (rb_finished b p)"
    and "set uids = fst ` {(u, r) \<in> set (rb_cache b' p). r \<noteq> None}"
    and "b' = b\<lparr>rb_cache := rb_cache b'\<rparr>"
proof -
  let ?cache = "filter (\<lambda>(u, _). u \<in> set (rb_finished b p)) (rb_cache b p)"
  let ?new = "minus_keys (rb_finished b p) (map fst ?cache)"
  let ?traj = "filter (\<lambda>k. uid_of k \<in> set ?new) (map fst (rb_partitions b p))"
  let ?vals = "\<lambda>u. map (\<lambda>k. the (map_of (rei k) metric)) (filter (\<lambda>k. uid_of k = u) ?traj)"
  let ?cache' = "?cache @ map (\<lambda>u. (u, classify (?vals u))) ?new"
  have v: "?vals u = group_values rei metric b p u" if "u \<in> set ?new" for u
    unfolding group_values_def group_keys_def filter_group [OF that] ..
  have b': "rb_cache b' p = ?cache'" "uids = map fst (filter (\<lambda>(_, r). r \<noteq> None) ?cache')" "b' = b\<lparr>rb_cache := (rb_cache b)(p := ?cache')\<rparr>"
    using assms(1-3) by (auto simp: dapo_filtered_keys_def Let_def split: if_splits)
  show "\<forall>(u, r)\<in>set (rb_cache b' p). u \<in> set (rb_finished b p) \<and> r = classify (group_values rei metric b p u)"
    using assms(4) v unfolding b'(1) by (auto simp: cache_current_def minus_keys_def)
  show "fst ` set (rb_cache b' p) = set (rb_finished b p)"
    unfolding b'(1) set_append image_Un set_map image_image fst_conv by (auto simp: minus_keys_def)
  show "set uids = fst ` {(u, r) \<in> set (rb_cache b' p). r \<noteq> None}"
    unfolding b'(1,2) by (auto simp: image_iff)
  show "b' = b\<lparr>rb_cache := rb_cache b'\<rparr>" using b'(3) by simp
qed

lemma dapo_raises_iff:
  assumes "bc_metric c = Some metric" "p \<noteq> ''val''" "rb_cache b p = []"
  shows "dapo_filtered_keys c rei p b = Inl RuntimeError
    \<longleftrightarrow> (\<exists>u\<in>set (rb_finished b p). group_keys b p u = [] \<or> (\<exists>k\<in>set (group_keys b p u). map_of (rei k) metric = None))"
proof -
  let ?new = "rb_finished b p" and ?ks = "map fst (rb_partitions b p)"
  let ?traj = "filter (\<lambda>k. uid_of k \<in> set ?new) ?ks"
  let ?missing = "minus_keys ?new (map uid_of ?traj) @ map uid_of (filter (\<lambda>k. map_of (rei k) metric = None) ?traj)"
  have new: "minus_keys ?new (map fst (filter (\<lambda>(u, _). u \<in> set ?new) (rb_cache b p))) = ?new"
    by (simp add: assms(3) minus_keys_def)
  have "dapo_filtered_keys c rei p b = Inl RuntimeError \<longleftrightarrow> ?missing \<noteq> []"
    unfolding dapo_filtered_keys_def assms(1) option.case Let_def new using assms(2) by simp
  also have "\<dots> \<longleftrightarrow> (\<exists>u\<in>set ?new. u \<notin> set (map uid_of ?traj)) \<or> (\<exists>k\<in>set ?traj. map_of (rei k) metric = None)"
    by (simp add: minus_keys_def filter_empty_conv)
  also have "(\<exists>u\<in>set ?new. u \<notin> set (map uid_of ?traj)) \<longleftrightarrow> (\<exists>u\<in>set ?new. group_keys b p u = [])"
    by (rule bex_cong [OF refl]) (auto simp: group_keys_def filter_empty_conv)
  also have "(\<exists>k\<in>set ?traj. map_of (rei k) metric = None)
      \<longleftrightarrow> (\<exists>u\<in>set ?new. \<exists>k\<in>set (group_keys b p u). map_of (rei k) metric = None)"
    unfolding group_keys_def set_filter by blast
  finally show ?thesis by blast
qed

lemma dapo_cases: "dapo_filtered_keys c rei p b = Inl RuntimeError \<or> (\<exists>r. dapo_filtered_keys c rei p b = Inr r)"
  by (simp add: dapo_filtered_keys_def Let_def split: option.split)

lemma classified_set:
  assumes "\<forall>(u, r)\<in>C. u \<in> F \<and> r = f u" "fst ` C = F"
  shows "fst ` {(u, r) \<in> C. r \<noteq> None} = {u \<in> F. f u \<noteq> None}"
proof
  show "fst ` {(u, r) \<in> C. r \<noteq> None} \<subseteq> {u \<in> F. f u \<noteq> None}"
  proof
    fix u assume "u \<in> fst ` {(u, r) \<in> C. r \<noteq> None}"
    then obtain r where r: "(u, r) \<in> C" "r \<noteq> None" by auto
    from bspec [OF assms(1) r(1)] r(2) show "u \<in> {u \<in> F. f u \<noteq> None}" by simp
  qed
  show "{u \<in> F. f u \<noteq> None} \<subseteq> fst ` {(u, r) \<in> C. r \<noteq> None}"
  proof
    fix u assume u: "u \<in> {u \<in> F. f u \<noteq> None}"
    then obtain r where r: "(u, r) \<in> C" using assms(2) by force
    with assms(1) u have "r \<noteq> None" by auto
    with r show "u \<in> fst ` {(u, r) \<in> C. r \<noteq> None}" by force
  qed
qed

text \<open>
  DAPO filtering is exact: as long as the cached classifications of finished groups are current,
  the evicted groups are exactly the finished ones with at least two trajectories whose metric is the
  same in all of them, and the cache is current again afterwards.  From an empty cache the call
  raises \<open>RuntimeError\<close> exactly when some finished group has no trajectory or lacks the metric.
\<close>

lemma dapo_filter_exact:
  assumes "bc_metric c = Some metric" "p \<noteq> ''val''" "cache_current rei metric b p"
  shows "(\<forall>uids counts b'. dapo_filtered_keys c rei p b = Inr ((uids, counts), b') \<longrightarrow>
       set uids = {u \<in> set (rb_finished b p). length (group_keys b p u) > 1
                     \<and> (\<exists>x. \<forall>v\<in>set (group_values rei metric b p u). v = x)}
       \<and> cache_current rei metric b' p)
    \<and> (rb_cache b p = [] \<longrightarrow>
        (dapo_filtered_keys c rei p b = Inl RuntimeError
          \<longleftrightarrow> (\<exists>u\<in>set (rb_finished b p). group_keys b p u = [] \<or> (\<exists>k\<in>set (group_keys b p u). map_of (rei k) metric = None))))"
proof (intro conjI allI impI)
  fix uids counts b'
  assume d: "dapo_filtered_keys c rei p b = Inr ((uids, counts), b')"
  note s = dapo_step [OF assms(1,2) d assms(3)]
  have len: "length (group_values rei metric b p u) = length (group_keys b p u)" for u by (simp add: group_values_def)
  have "set uids = {u \<in> set (rb_finished b p). classify (group_values rei metric b p u) \<noteq> None}"
    unfolding s(3) by (rule classified_set [OF s(1,2)])
  also have "\<dots> = {u \<in> set (rb_finished b p). length (group_keys b p u) > 1 \<and> (\<exists>x. \<forall>v\<in>set (group_values rei metric b p u). v = x)}"
    unfolding not_None_eq classify_Some_iff len by simp
  finally show "set uids = {u \<in> set (rb_finished b p). length (group_keys b p u) > 1 \<and> (\<exists>x. \<forall>v\<in>set (group_values rei metric b p u). v = x)}" .
  have "rb_finished b' = rb_finished b" by (subst s(4)) simp
  moreover have "rb_partitions b' = rb_partitions b" by (subst s(4)) simp
  ultimately have "rb_finished b' = rb_finished b" "group_values rei metric b' p = group_values rei metric b p"
    by (simp_all add: group_values_def group_keys_def fun_eq_iff)
  then show "cache_current rei metric b' p" using s(1) by (auto simp: cache_current_def)
qed (use dapo_raises_iff [OF assms(1,2)] in blast)

definition demo_tag :: tag where
  "demo_tag = \<lparr>tg_is_prompt = False, tg_global_steps = None, tg_status = None\<rparr>"

definition demo_buffer :: replay_buffer where
  "demo_buffer = empty_buffer\<lparr>rb_finished := (\<lambda>_. [''a'', ''b'']),
     rb_partitions := (\<lambda>_. [(''a_0_0'', demo_tag), (''a_1_0'', demo_tag), (''b_0_0'', demo_tag), (''b_1_0'', demo_tag)])\<rparr>"

definition demo_config :: buffer_config where
  "demo_config = \<lparr>bc_threshold = 2, bc_strategy = ''drop'', bc_has_refill = True, bc_metric = Some ''acc'',
     bc_train_batch_size = Some 2, bc_gen_batch_size = Some 1, bc_max_inflight = 1, bc_refill_failed = False\<rparr>"

definition demo_info :: "string \<Rightarrow> (string \<times> real) list" where
  "demo_info k = [(''acc'', if k = ''b_1_0'' then 1 else 0)]"

lemma pick_first: "P x \<Longrightarrow> \<not> P y \<Longrightarrow> {u \<in> {x, y}. P u} = {x}"
  by auto

section \<open>The polling loop\<close>

text \<open>What every poll that does not end the call preserves holds at the poll that ends it.\<close>

locale polling =
  fixes it :: "poll \<Rightarrow> sample_state \<Rightarrow> iteration result"
    and I :: "sample_state \<Rightarrow> bool"
  assumes again: "I st \<Longrightarrow> it pl st = Inr (Again st') \<Longrightarrow> I st'"
begin

lemma loop_chosen:
  assumes "sample_loop it pls st = Some (Inr (sel, snap, st'))" "I st"
  shows "\<exists>pl\<in>set pls. \<exists>st0. I st0 \<and> it pl st0 = Inr (Chosen sel snap st')"
  using assms by (induction pls arbitrary: st) (auto split: sum.splits iteration.splits dest: again)

lemma loop_error:
  assumes "sample_loop it pls st = Some (Inl e)" "I st"
  shows "\<exists>pl\<in>set pls. \<exists>st0. I st0 \<and> it pl st0 = Inl e"
  using assms by (induction pls arbitrary: st) (auto split: sum.splits iteration.splits dest: again)

end

fun refilled :: "action list \<Rightarrow> nat" where
  "refilled [] = 0"
| "refilled (Refill n # as) = n + refilled as"
| "refilled (_ # as) = refilled as"

fun cleared_prompts :: "action list \<Rightarrow> nat" where
  "cleared_prompts [] = 0"
| "cleared_prompts (KvClear _ uids _ # as) = length uids + cleared_prompts as"
| "cleared_prompts (_ # as) = cleared_prompts as"

lemma refilled_append [simp]: "refilled (as @ bs) = refilled as + refilled bs"
  by (induction as rule: refilled.induct) simp_all

lemma cleared_prompts_append [simp]: "cleared_prompts (as @ bs) = cleared_prompts as + cleared_prompts bs"
  by (induction as rule: cleared_prompts.induct) simp_all

lemma rbind_InrE: "rbind r f = Inr y \<Longrightarrow> (\<And>x. r = Inr x \<Longrightarrow> f x = Inr y \<Longrightarrow> P) \<Longrightarrow> P"
  by (cases r) auto

lemma rbind_InlE: "rbind r f = Inl e \<Longrightarrow> (r = Inl e \<Longrightarrow> P) \<Longrightarrow> (\<And>x. r = Inr x \<Longrightarrow> f x = Inl e \<Longrightarrow> P) \<Longrightarrow> P"
  by (cases r) auto

lemma dapo_only_cache:
  assumes "dapo_filtered_keys c rei p b = Inr (x, b')"
  shows "b' = b\<lparr>rb_cache := rb_cache b'\<rparr>"
  using assms by (auto simp: dapo_filtered_keys_def Let_def split: option.splits if_splits)

lemma evict_acts:
  assumes "evict_terminal_groups gs p r b = ((evicted, sc, dc, ms), acts, b')"
  shows "evicted = evicted_uids r" "cleared_prompts acts = length evicted" "refilled acts = 0" "evicted = [] \<Longrightarrow> acts = [] \<and> b' = b"
  using assms by (auto simp: evict_terminal_groups_def clear_groups_def Let_def split: prod.splits if_splits)

lemma sync_errors: "sync_metadata d b = Inl e \<Longrightarrow> e = KeyError \<or> e = ValueError"
proof -
  have item: "sync_item p kt s = Inl e \<Longrightarrow> e = KeyError \<or> e = ValueError" for p kt s
    by (auto simp: sync_item_def Let_def split: prod.splits if_splits option.splits)
  have inner: "fold_r (sync_item p) items s = Inl e \<Longrightarrow> e = KeyError \<or> e = ValueError" for p items s
    by (induction items arbitrary: s) (auto elim!: rbind_InlE dest: item)
  have "fold_r (\<lambda>(p, items). fold_r (sync_item p) items) d' s = Inl e \<Longrightarrow> e = KeyError \<or> e = ValueError" for d' s
    by (induction d' arbitrary: s) (auto elim!: rbind_InlE dest: inner split: prod.splits)
  then show "sync_metadata d b = Inl e \<Longrightarrow> e = KeyError \<or> e = ValueError"
    by (auto simp: sync_metadata_def split: option.splits)
qed

lemma stale_inflight_False:
  "has_stale_inflight t gs steps ks = Inr False \<Longrightarrow> k \<in> set ks \<Longrightarrow> \<exists>g. map_of steps k = Some g \<and> gs - g + 1 < t"
  by (induction ks) (auto split: option.splits if_splits)

lemma stale_inflight_error: "has_stale_inflight t gs steps ks = Inl e \<Longrightarrow> e = KeyError"
  by (induction ks) (auto split: option.splits if_splits)

section \<open>Selection\<close>

lemma select_sound:
  assumes "mset (so xs) = mset xs" "distinct xs" "n \<le> length xs"
  shows "length (select_prompt_uids so p xs n b) = n" "distinct (select_prompt_uids so p xs n b)"
    "set (select_prompt_uids so p xs n b) \<subseteq> set xs"
    "\<forall>u\<in>set (select_prompt_uids so p xs n b). \<forall>v\<in>set xs - set (select_prompt_uids so p xs n b).
       dict_get (rb_steps b p) u 0 \<le> dict_get (rb_steps b p) v 0"
proof -
  let ?f = "\<lambda>u. dict_get (rb_steps b p) u 0"
  let ?ys = "sort_key ?f (so xs)"
  have m: "mset ?ys = mset xs" using assms(1) by simp
  have len: "length ?ys = length xs" and set: "set ?ys = set xs" and dist: "distinct ?ys"
    using m mset_eq_length mset_eq_setD mset_eq_imp_distinct_iff assms(2) by blast+
  show "length (select_prompt_uids so p xs n b) = n" using len assms(3) by (simp add: select_prompt_uids_def)
  show "distinct (select_prompt_uids so p xs n b)" using dist unfolding select_prompt_uids_def by (rule distinct_take)
  show "set (select_prompt_uids so p xs n b) \<subseteq> set xs" unfolding select_prompt_uids_def set [symmetric] by (rule set_take_subset)
  have "sorted (map ?f (take n ?ys @ drop n ?ys))" by simp
  then have le: "\<forall>u\<in>set (take n ?ys). \<forall>v\<in>set (drop n ?ys). ?f u \<le> ?f v" by (simp only: map_append sorted_append) auto
  have sub: "set xs - set (take n ?ys) \<subseteq> set (drop n ?ys)"
    unfolding set [symmetric] using set_append [of "take n ?ys" "drop n ?ys"] by auto
  show "\<forall>u\<in>set (select_prompt_uids so p xs n b). \<forall>v\<in>set xs - set (select_prompt_uids so p xs n b). ?f u \<le> ?f v"
    unfolding select_prompt_uids_def using le sub by blast
qed

lemma sampleable_distinct: "distinct (sampleable_terminal_keys p r b)"
  by (simp add: sampleable_terminal_keys_def minus_keys_def)

section \<open>Asynchronous sampling\<close>

lemma async_iteration_cases:
  assumes "sample_iteration_async c so gs p n pl st = Inr res"
  obtains b1 r b2 evicted sc dc ms acts b3 where
    "sync_metadata (fst pl) (ss_buffer st) = Inr b1" "terminal_eviction_reasons_async c (snd pl) gs p b1 = Inr (r, b2)"
    "evict_terminal_groups gs p r b2 = ((evicted, sc, dc, ms), acts, b3)"
    "evicted \<noteq> []" "res = Again (st\<lparr>ss_buffer := b3,
        ss_actions := ss_actions st @ acts @ (if bc_has_refill c then [Refill (length evicted)] else []),
        ss_metrics := accumulate_eviction_metrics (ss_metrics st) ms sc\<rparr>)"
  | b1 r b2 enough where
    "sync_metadata (fst pl) (ss_buffer st) = Inr b1" "terminal_eviction_reasons_async c (snd pl) gs p b1 = Inr (r, b2)"
    "evicted_uids r = []" "has_enough_samples c gs p n (sampleable_terminal_keys p r b2) b2 = Inr enough"
    "res = (if enough then Chosen (select_prompt_uids so p (sampleable_terminal_keys p r b2) n b2) (rb_partitions b2 p) (st\<lparr>ss_buffer := b2\<rparr>)
            else Again (st\<lparr>ss_buffer := b2, ss_actions := ss_actions st @ [SleepPoll]\<rparr>))"
proof -
  from assms obtain b1 where b1: "sync_metadata (fst pl) (ss_buffer st) = Inr b1"
    unfolding sample_iteration_async_def by (elim rbind_InrE)
  from assms obtain r b2 where r: "terminal_eviction_reasons_async c (snd pl) gs p b1 = Inr (r, b2)"
    unfolding sample_iteration_async_def b1 rbind_Inr by (elim rbind_InrE) auto
  obtain evicted sc dc ms acts b3 where e: "evict_terminal_groups gs p r b2 = ((evicted, sc, dc, ms), acts, b3)"
    by (metis prod.exhaust)
  note res = assms [unfolded sample_iteration_async_def b1 rbind_Inr r split e prod.case]
  show thesis
  proof (cases "evicted = []")
    case False
    from that(1) [OF b1 r e False] res False show thesis by simp
  next
    case True
    with evict_acts [OF e] have "b3 = b2" "evicted_uids r = []" by auto
    with res True obtain enough where "has_enough_samples c gs p n (sampleable_terminal_keys p r b2) b2 = Inr enough"
      "res = (if enough then Chosen (select_prompt_uids so p (sampleable_terminal_keys p r b2) n b2) (rb_partitions b2 p) (st\<lparr>ss_buffer := b2\<rparr>)
            else Again (st\<lparr>ss_buffer := b2, ss_actions := ss_actions st @ [SleepPoll]\<rparr>))"
      by (auto simp: Let_def elim!: rbind_InrE)
    with that(2) [OF b1 r \<open>evicted_uids r = []\<close>] show thesis by blast
  qed
qed

interpretation async: polling "sample_iteration_async c so gs p n"
  "\<lambda>st. bc_has_refill c \<longrightarrow> refilled (ss_actions st) = cleared_prompts (ss_actions st)" for c so gs p n
proof (unfold_locales, goal_cases)
  case (1 st pl st')
  from 1(2) show ?case
  proof (cases rule: async_iteration_cases)
    case (1 b1 r b2 evicted sc dc ms acts b3)
    with evict_acts [OF 1(3)] \<open>bc_has_refill c \<longrightarrow> refilled (ss_actions st) = cleared_prompts (ss_actions st)\<close> show ?thesis by auto
  next
    case (2 b1 r b2 enough)
    with \<open>bc_has_refill c \<longrightarrow> refilled (ss_actions st) = cleared_prompts (ss_actions st)\<close> show ?thesis by (auto split: if_splits)
  qed
qed

lemma async_reasons:
  assumes "terminal_eviction_reasons_async c rei gs p b1 = Inr (r, b2)" "evicted_uids r = []" "p \<noteq> ''val''"
  shows "rb_failure b2 p = []" "stale_terminal_keys c gs p b2 = []" "set (sampleable_terminal_keys p r b2) = set (rb_finished b2 p)"
proof -
  from assms(1,3) obtain dapo counts where d: "dapo_filtered_keys c rei p b1 = Inr ((dapo, counts), b2)"
    and r: "r = (stale_terminal_keys c gs p b1, dapo, rb_failure b2 p, counts)"
    unfolding terminal_eviction_reasons_async_def by (auto simp: Let_def elim!: rbind_InrE)
  have e: "stale_terminal_keys c gs p b1 = []" "dapo = []" and f: "rb_failure b2 p = []"
    using assms(2) by (auto simp: r evicted_uids_def)
  from f show "rb_failure b2 p = []" .
  have "stale_terminal_keys c gs p b2 = stale_terminal_keys c gs p b1"
    by (subst dapo_only_cache [OF d]) (simp add: stale_terminal_keys_def)
  then show "stale_terminal_keys c gs p b2 = []" using e by simp
  show "set (sampleable_terminal_keys p r b2) = set (rb_finished b2 p)"
    using assms(2) f by (simp add: sampleable_terminal_keys_def minus_keys_def)
qed

text \<open>
  A good selection of \<open>n\<close> groups from a buffer: distinct finished groups, the oldest ones, no failed
  group left; with \<open>drop\<close> none spans more versions than the threshold, with \<open>wait\<close> no pending or
  running prompt has reached it.
\<close>

definition async_selection :: "buffer_config \<Rightarrow> int \<Rightarrow> string \<Rightarrow> nat \<Rightarrow> replay_buffer \<Rightarrow> string list \<Rightarrow> bool" where
  "async_selection c gs p n b sel \<longleftrightarrow> length sel = n \<and> distinct sel \<and> set sel \<subseteq> set (rb_finished b p) \<and> rb_failure b p = []
    \<and> (\<forall>u\<in>set sel. \<forall>v\<in>set (rb_finished b p) - set sel. dict_get (rb_steps b p) u 0 \<le> dict_get (rb_steps b p) v 0)
    \<and> (bc_strategy c = ''drop'' \<longrightarrow> (\<forall>u\<in>set sel. span gs (rb_steps b p) u \<le> bc_threshold c))
    \<and> (bc_strategy c = ''wait'' \<longrightarrow> (\<forall>k\<in>set (rb_pending b p) \<union> set (rb_running b p).
         \<exists>g. map_of (rb_steps b p) k = Some g \<and> gs - g + 1 < bc_threshold c))"

lemma async_chosen:
  assumes "sample_iteration_async c so gs p n pl st = Inr (Chosen sel snap st')" "p \<noteq> ''val''" "\<And>xs. mset (so xs) = mset xs"
  shows "async_selection c gs p n (ss_buffer st') sel \<and> snap = rb_partitions (ss_buffer st') p \<and> ss_actions st' = ss_actions st"
  using assms(1)
proof (cases rule: async_iteration_cases)
  case (2 b1 r b2 enough)
  let ?s = "sampleable_terminal_keys p r b2"
  note R = async_reasons [OF 2(2,3) assms(2)]
  have en: "has_enough_samples c gs p n ?s b2 = Inr True" and res: "sel = select_prompt_uids so p ?s n b2" "snap = rb_partitions b2 p" "st' = st\<lparr>ss_buffer := b2\<rparr>"
    using 2(4,5) by (auto split: if_splits)
  have buf: "ss_buffer st' = b2" "ss_actions st' = ss_actions st" using res(3) by simp_all
  have n: "n \<le> length ?s" using en unfolding has_enough_samples_def by (elim rbind_InrE) simp
  note S = select_sound [of so ?s n p b2, OF assms(3) sampleable_distinct n, folded res(1)]
  have sub: "set sel \<subseteq> set (rb_finished b2 p)" using S(3) unfolding R(3) .
  have drop: "\<forall>u\<in>set sel. span gs (rb_steps b2 p) u \<le> bc_threshold c" if "bc_strategy c = ''drop''"
    using R(2) sub that assms(2) by (auto simp: stale_terminal_keys_def filter_empty_conv not_less)
  have wait: "\<exists>g. map_of (rb_steps b2 p) k = Some g \<and> gs - g + 1 < bc_threshold c"
    if "bc_strategy c = ''wait''" "k \<in> set (rb_pending b2 p) \<union> set (rb_running b2 p)" for k
  proof (rule stale_inflight_False)
    show "has_stale_inflight (bc_threshold c) gs (rb_steps b2 p) (remdups (rb_pending b2 p @ rb_running b2 p)) = Inr False"
      using en that(1) unfolding has_enough_samples_def by (elim rbind_InrE) simp
  qed (use that(2) in simp)
  show ?thesis unfolding buf async_selection_def using S(1,2) sub R(1) res(2) S(4) [unfolded R(3)] drop wait by blast
qed simp

lemma async_no_assertion: "sample_iteration_async c so gs p n pl st \<noteq> Inl AssertionError"
proof
  assume a: "sample_iteration_async c so gs p n pl st = Inl AssertionError"
  have d: "dapo_filtered_keys c rei p b \<noteq> Inl AssertionError" for rei b
    using dapo_cases [of c rei p b] by auto
  have r: "terminal_eviction_reasons_async c rei gs p b \<noteq> Inl AssertionError" for rei b
    unfolding terminal_eviction_reasons_async_def by (auto simp: Let_def d elim!: rbind_InlE)
  have h: "has_enough_samples c gs p n xs b \<noteq> Inl AssertionError" for xs b
    unfolding has_enough_samples_def by (auto split: if_splits elim!: rbind_InlE dest: stale_inflight_error)
  show False using a unfolding sample_iteration_async_def
    by (auto simp: Let_def h r split: prod.splits if_splits elim!: rbind_InlE dest: sync_errors)
qed

lemma loop_start: "bc_has_refill c \<longrightarrow> refilled (ss_actions (start_state b)) = cleared_prompts (ss_actions (start_state b))"
  by (simp add: start_state_def)

lemma async_returned:
  assumes "p \<noteq> ''val''" "\<And>xs. mset (so xs) = mset xs" "sample_async c so gs p n polls b = Some (Inr (batch, st))"
  shows "\<exists>sel acts. async_selection c gs p n (ss_buffer st) sel
      \<and> batch = filter (\<lambda>(k, _). uid_of k \<in> set sel) (rb_partitions (ss_buffer st) p)
      \<and> ss_actions st = acts @ [KvClear p sel []]
      \<and> (bc_has_refill c \<longrightarrow> refilled acts = cleared_prompts acts)"
proof -
  from assms(3) obtain sel snap st1 where l: "sample_loop (sample_iteration_async c so gs p n) polls (start_state b) = Some (Inr (sel, snap, st1))"
    and f: "finish_batch p sel snap st1 = (batch, st)"
    unfolding sample_async_def by (auto split: if_splits elim!: rbind_InrE)
  from f have f': "batch = filter (\<lambda>(k, _). uid_of k \<in> set sel) snap" "ss_buffer st = ss_buffer st1"
    "ss_actions st = ss_actions st1 @ [KvClear p sel []]"
    by (auto simp: finish_batch_def materialize_batch_def)
  obtain pl st0 where it: "sample_iteration_async c so gs p n pl st0 = Inr (Chosen sel snap st1)"
    and I: "bc_has_refill c \<longrightarrow> refilled (ss_actions st0) = cleared_prompts (ss_actions st0)"
    using async.loop_chosen [OF l loop_start] by blast
  from async_chosen [OF it assms(1,2)] I show ?thesis
    unfolding f' by (intro exI [of _ sel] exI [of _ "ss_actions st1"]) simp
qed

lemma async_never_asserts:
  assumes "p \<noteq> ''val''" "\<And>xs. mset (so xs) = mset xs"
  shows "sample_async c so gs p n polls b \<noteq> Some (Inl AssertionError)"
proof
  let ?f = "\<lambda>(selected, snapshot, st). if p \<noteq> ''val'' \<and> bc_strategy c = ''drop''
       \<and> \<not> list_all (\<lambda>u. span gs (rb_steps (ss_buffer st) p) u \<le> bc_threshold c) selected
       then Inl AssertionError else Inr (finish_batch p selected snapshot st)"
  assume "sample_async c so gs p n polls b = Some (Inl AssertionError)"
  then obtain res where l: "sample_loop (sample_iteration_async c so gs p n) polls (start_state b) = Some res"
    and bad: "rbind res ?f = Inl AssertionError"
    unfolding sample_async_def by auto
  from bad show False
  proof (elim rbind_InlE)
    assume e: "res = Inl AssertionError"
    show False using async.loop_error [OF l [unfolded e] loop_start] async_no_assertion by blast
  next
    fix x assume x: "res = Inr x" "?f x = Inl AssertionError"
    obtain sel snap st where y: "x = (sel, snap, st)" by (metis prod.exhaust)
    obtain pl st0 where "sample_iteration_async c so gs p n pl st0 = Inr (Chosen sel snap st)"
      using async.loop_chosen [OF l [unfolded x(1) y] loop_start] by blast
    from async_chosen [OF this assms] x(2) show False by (auto simp: y list_all_iff async_selection_def split: if_splits)
  qed
qed

text \<open>
  C18. Asynchronous sampling of training prompts, whatever the store and the rollout workers do between
  the polls: the assertion on stale prompts never fails, and a returned batch consists of all
  trajectories of exactly \<open>batch_size\<close> distinct finished groups, the oldest ones, at a moment with no
  failed group left.  With the strategy \<open>drop\<close> none of them spans more model versions than the
  threshold; with \<open>wait\<close> no pending or running prompt has reached it.
\<close>

theorem async_sample_policy:
  assumes "p \<noteq> ''val''" "\<And>xs. mset (so xs) = mset xs"
  shows "sample_async c so gs p n polls b \<noteq> Some (Inl AssertionError)
    \<and> (\<forall>batch st. sample_async c so gs p n polls b = Some (Inr (batch, st)) \<longrightarrow>
       (\<exists>sel. async_selection c gs p n (ss_buffer st) sel
          \<and> batch = filter (\<lambda>(k, _). uid_of k \<in> set sel) (rb_partitions (ss_buffer st) p)))"
  using async_never_asserts [OF assms] async_returned [OF assms] by blast

text \<open>
  Asynchronous sampling keeps the number of prompts in the system: with a \<open>refill_fn\<close>, the
  prompts submitted as replacements are exactly as many as the prompts evicted before the batch was
  taken (a prompt evicted for two reasons counts once), and the last action removes the
  \<open>batch_size\<close> selected prompts.
\<close>

lemma async_refills_evictions:
  assumes "p \<noteq> ''val''" "\<And>xs. mset (so xs) = mset xs" "bc_has_refill c"
    and "sample_async c so gs p n polls b = Some (Inr (batch, st))"
  shows "\<exists>acts sel. ss_actions st = acts @ [KvClear p sel []] \<and> length sel = n \<and> refilled acts = cleared_prompts acts"
  using async_returned [OF assms(1,2,4)] assms(3) by (auto simp: async_selection_def)

definition demo_prompt :: "int \<Rightarrow> string \<Rightarrow> tag" where
  "demo_prompt g s = \<lparr>tg_is_prompt = True, tg_global_steps = Some g, tg_status = Some s\<rparr>"

text \<open>First a stale group that is evicted, then its replacement arrives.\<close>

definition demo_polls :: "poll list" where
  "demo_polls =
     [(Some [(''train'', [(''a'', demo_prompt 1 ''finished''), (''a_0_0'', demo_tag), (''b'', demo_prompt 5 ''finished''), (''b_0_0'', demo_tag)])], demo_info),
      (Some [(''train'', [(''b'', demo_prompt 5 ''finished''), (''b_0_0'', demo_tag), (''c'', demo_prompt 4 ''finished''), (''c_0_0'', demo_tag)])], demo_info)]"

definition demo_async :: buffer_config where
  "demo_async = demo_config\<lparr>bc_metric := None\<rparr>"

lemma demo_async_sample:
  "(case sample_async demo_async (\<lambda>x. x) 5 ''train'' 1 demo_polls empty_buffer of
      Some (Inr (batch, st)) \<Rightarrow> Some (map fst batch, ss_actions st) | _ \<Rightarrow> None)
   = Some ([''c_0_0''], [KvClear ''train'' [''a''] [''a_0_0''], Refill 1, KvClear ''train'' [''c''] []])"
  by code_simp

lemma demo_async_returns:
  "\<exists>batch st. sample_async demo_async (\<lambda>x. x) 5 ''train'' 1 demo_polls empty_buffer = Some (Inr (batch, st))
     \<and> map fst batch = [''c_0_0'']"
  using demo_async_sample by (auto split: option.splits sum.splits prod.splits)

theorem async_sample_policy_witness:
  "\<exists>batch st sel. sample_async demo_async (\<lambda>x. x) 5 ''train'' 1 demo_polls empty_buffer = Some (Inr (batch, st))
     \<and> map fst batch = [''c_0_0''] \<and> async_selection demo_async 5 ''train'' 1 (ss_buffer st) sel"
proof -
  obtain batch st where b: "sample_async demo_async (\<lambda>x. x) 5 ''train'' 1 demo_polls empty_buffer = Some (Inr (batch, st))"
    "map fst batch = [''c_0_0'']" using demo_async_returns by (elim exE conjE)
  obtain sel where sel: "async_selection demo_async 5 ''train'' 1 (ss_buffer st) sel"
    using async_sample_policy [of "''train''" "\<lambda>x. x" demo_async 5 1 demo_polls empty_buffer] b(1) by auto
  show ?thesis by (intro exI conjI, rule b(1), rule b(2), rule sel)
qed

section \<open>Synchronous sampling\<close>

lemma sync_decide_chosen:
  assumes "sync_decide c so dapo p n mi dc fc xs st = Inr (Chosen sel snap st')"
  obtains st2 where "ss_buffer st2 = ss_buffer st" "n \<le> length xs" "dapo \<Longrightarrow> inflight_count p (ss_buffer st) = 0"
    "choose_sync c so dapo p n xs st2 = Chosen sel snap st'" "ss_actions st2 = ss_actions st"
proof -
  have "n \<le> length xs \<and> (dapo \<longrightarrow> inflight_count p (ss_buffer st) = 0)
      \<and> (\<exists>cr dr. choose_sync c so dapo p n xs (st\<lparr>ss_credit := cr, ss_draining := dr\<rparr>) = Chosen sel snap st')"
  proof (cases dapo)
    case True
    from assms obtain y where y: "dapo_dispatch c mi (n \<le> length xs) dc fc (inflight_count p (ss_buffer st)) (ss_draining st) (ss_credit st) = Inr y"
      unfolding sync_decide_def Let_def by (auto simp: True elim!: rbind_InrE)
    obtain d cr dr where "y = (d, cr, dr)" by (metis prod.exhaust)
    with assms y True have "n \<le> length xs \<and> inflight_count p (ss_buffer st) = 0
        \<and> choose_sync c so dapo p n xs (st\<lparr>ss_credit := cr, ss_draining := dr\<rparr>) = Chosen sel snap st'"
      by (simp add: sync_decide_def call_refill_def Let_def split: if_splits)
    then show ?thesis by blast
  next
    case False
    with assms have "n \<le> length xs \<and> choose_sync c so dapo p n xs (st\<lparr>ss_credit := ss_credit st, ss_draining := ss_draining st\<rparr>) = Chosen sel snap st'"
      by (simp add: sync_decide_def call_refill_def Let_def split: if_splits)
    then show ?thesis using False by blast
  qed
  then obtain cr dr where "n \<le> length xs" "dapo \<Longrightarrow> inflight_count p (ss_buffer st) = 0"
    "choose_sync c so dapo p n xs (st\<lparr>ss_credit := cr, ss_draining := dr\<rparr>) = Chosen sel snap st'" by blast
  then show thesis by (intro that [of "st\<lparr>ss_credit := cr, ss_draining := dr\<rparr>"]) simp_all
qed

lemma sync_chosen_cases:
  assumes "sample_iteration c so gs p n mi pl st = Inr (Chosen sel snap st')"
  obtains b1 r b2 x acts b3 st2 where
    "sync_metadata (fst pl) (ss_buffer st) = Inr b1" "terminal_eviction_reasons c (snd pl) p b1 = Inr (r, b2)"
    "evict_terminal_groups gs p r b2 = (x, acts, b3)"
    "ss_buffer st2 = b3" "n \<le> length (sampleable_terminal_keys p r b3)"
    "p \<noteq> ''val'' \<and> bc_metric c \<noteq> None \<Longrightarrow> inflight_count p b3 = 0"
    "choose_sync c so (p \<noteq> ''val'' \<and> bc_metric c \<noteq> None) p n (sampleable_terminal_keys p r b3) st2 = Chosen sel snap st'"
    "ss_actions st2 = ss_actions st @ acts"
proof -
  from assms obtain b1 where b1: "sync_metadata (fst pl) (ss_buffer st) = Inr b1"
    unfolding sample_iteration_def by (elim rbind_InrE)
  from assms obtain r b2 where r: "terminal_eviction_reasons c (snd pl) p b1 = Inr (r, b2)"
    unfolding sample_iteration_def b1 rbind_Inr by (elim rbind_InrE) auto
  obtain evicted sc dc ms acts b3 where e: "evict_terminal_groups gs p r b2 = ((evicted, sc, dc, ms), acts, b3)"
    by (metis prod.exhaust)
  from assms [unfolded sample_iteration_def b1 rbind_Inr r split e prod.case]
  obtain st2 where st2: "ss_buffer st2 = b3" "n \<le> length (sampleable_terminal_keys p r b3)"
    "p \<noteq> ''val'' \<and> bc_metric c \<noteq> None \<Longrightarrow> inflight_count p b3 = 0"
    "choose_sync c so (p \<noteq> ''val'' \<and> bc_metric c \<noteq> None) p n (sampleable_terminal_keys p r b3) st2 = Chosen sel snap st'"
    "ss_actions st2 = ss_actions st @ acts"
    by (rule sync_decide_chosen) simp
  show thesis by (rule that [OF b1 r e st2])
qed

text \<open>What eviction leaves behind: no evicted uid anywhere, the rest untouched.\<close>

lemma clear_groups_fields:
  assumes "clear_groups p uids b = (acts, b')"
  shows "set (rb_finished b' p) = set (rb_finished b p) - set uids" "set (rb_failure b' p) = set (rb_failure b p) - set uids"
    "set (rb_pending b' p) = set (rb_pending b p) - set uids" "set (rb_running b' p) = set (rb_running b p) - set uids"
    "rb_partitions b' p = filter (\<lambda>(k, _). uid_of k \<notin> set uids) (rb_partitions b p)"
    "rb_cache b' p = filter (\<lambda>(u, _). u \<notin> set uids) (rb_cache b p)"
    "inflight_count p b' \<le> inflight_count p b"
  using assms by (auto simp: clear_groups_def Let_def minus_keys_def inflight_count_def add_mono split: if_splits)

lemma evict_buffer:
  assumes "evict_terminal_groups gs p r b = (x, acts, b')"
  shows "set (rb_finished b' p) \<union> set (rb_failure b' p) = (set (rb_finished b p) \<union> set (rb_failure b p)) - set (evicted_uids r)"
    "rb_cache b' p = filter (\<lambda>(u, _). u \<notin> set (evicted_uids r)) (rb_cache b p)"
    "set (sampleable_terminal_keys p r b') = set (rb_finished b' p) \<union> set (rb_failure b' p)"
proof -
  have "\<exists>a. clear_groups p (evicted_uids r) b = (a, b')"
    using assms by (auto simp: evict_terminal_groups_def clear_groups_def split: prod.splits if_splits)
  then obtain a where c: "clear_groups p (evicted_uids r) b = (a, b')" ..
  note C = clear_groups_fields [OF c]
  show "set (rb_finished b' p) \<union> set (rb_failure b' p) = (set (rb_finished b p) \<union> set (rb_failure b p)) - set (evicted_uids r)"
    unfolding C(1,2) by blast
  show "rb_cache b' p = filter (\<lambda>(u, _). u \<notin> set (evicted_uids r)) (rb_cache b p)" by (rule C(6))
  show "set (sampleable_terminal_keys p r b') = set (rb_finished b' p) \<union> set (rb_failure b' p)"
    unfolding sampleable_terminal_keys_def minus_keys_def using C(1,2) by auto
qed

lemma sync_reasons_cache:
  assumes "terminal_eviction_reasons c rei p b1 = Inr (r, b2)" "p \<noteq> ''val''" "bc_metric c \<noteq> None" "(u, x) \<in> set (rb_cache b2 p)" "x \<noteq> None"
  shows "u \<in> set (evicted_uids r)"
proof -
  from assms(1,2) obtain dapo counts f where d: "dapo_filtered_keys c rei p b1 = Inr ((dapo, counts), b2)" and r: "r = ([], dapo, f, counts)"
    unfolding terminal_eviction_reasons_def by (auto simp: Let_def elim!: rbind_InrE)
  from assms(3) obtain m where "bc_metric c = Some m" by blast
  with d assms(2) have "dapo = map fst (filter (\<lambda>(_, r). r \<noteq> None) (rb_cache b2 p))"
    by (auto simp: dapo_filtered_keys_def Let_def split: if_splits)
  then have "u \<in> set dapo" using assms(4,5) by force
  then show ?thesis by (simp add: r evicted_uids_def)
qed

lemma choose_sync_result:
  assumes "choose_sync c so dapo p n xs st = Chosen sel snap st'" "mset (so xs) = mset xs" "distinct xs" "n \<le> length xs"
    "set xs = set (rb_finished (ss_buffer st) p) \<union> set (rb_failure (ss_buffer st) p)"
  shows "length sel = n" "distinct sel" "set sel \<subseteq> set (rb_finished (ss_buffer st') p) \<union> set (rb_failure (ss_buffer st') p)"
    "filter (\<lambda>(k, _). uid_of k \<in> set sel) snap = filter (\<lambda>(k, _). uid_of k \<in> set sel) (rb_partitions (ss_buffer st') p)"
    "dapo \<Longrightarrow> set (rb_finished (ss_buffer st') p) \<union> set (rb_failure (ss_buffer st') p) = set sel"
    "inflight_count p (ss_buffer st') \<le> inflight_count p (ss_buffer st)"
    "set (rb_cache (ss_buffer st') p) \<subseteq> set (rb_cache (ss_buffer st) p)"
proof -
  let ?sur = "minus_keys xs sel"
  have sel: "sel = select_prompt_uids so p xs n (ss_buffer st)" and snap: "snap = rb_partitions (ss_buffer st) p"
    using assms(1) by (auto simp: choose_sync_def Let_def split: prod.splits if_splits)
  note S = select_sound [of so xs n p "ss_buffer st", OF assms(2,3,4), folded sel]
  show "length sel = n" "distinct sel" using S by simp_all
  have sur: "set ?sur = set xs - set sel" by (auto simp: minus_keys_def)
  consider "dapo" "\<exists>a. clear_groups p ?sur (ss_buffer st) = (a, ss_buffer st')"
    | "\<not> dapo" "ss_buffer st' = ss_buffer st"
    using assms(1) by (auto simp: choose_sync_def Let_def sel clear_groups_def split: prod.splits if_splits)
  then have *: "set sel \<subseteq> set (rb_finished (ss_buffer st') p) \<union> set (rb_failure (ss_buffer st') p)
    \<and> filter (\<lambda>(k, _). uid_of k \<in> set sel) snap = filter (\<lambda>(k, _). uid_of k \<in> set sel) (rb_partitions (ss_buffer st') p)
    \<and> (dapo \<longrightarrow> set (rb_finished (ss_buffer st') p) \<union> set (rb_failure (ss_buffer st') p) = set sel)
    \<and> inflight_count p (ss_buffer st') \<le> inflight_count p (ss_buffer st)
    \<and> set (rb_cache (ss_buffer st') p) \<subseteq> set (rb_cache (ss_buffer st) p)"
  proof cases
    case 1
    from 1(2) obtain a where c: "clear_groups p ?sur (ss_buffer st) = (a, ss_buffer st')" ..
    note C = clear_groups_fields [OF c, unfolded sur]
    have "set (rb_finished (ss_buffer st') p) \<union> set (rb_failure (ss_buffer st') p) = set sel"
      unfolding C(1,2) using S(3) assms(5) by blast
    moreover have "filter (\<lambda>(k, _). uid_of k \<in> set sel) snap = filter (\<lambda>(k, _). uid_of k \<in> set sel) (rb_partitions (ss_buffer st') p)"
      unfolding C(5) snap filter_filter by (rule filter_cong) auto
    moreover have "set (rb_cache (ss_buffer st') p) \<subseteq> set (rb_cache (ss_buffer st) p)" unfolding C(6) by auto
    ultimately show ?thesis using C(7) by blast
  next
    case 2
    then show ?thesis using S(3) assms(5) snap by simp
  qed
  from * show "set sel \<subseteq> set (rb_finished (ss_buffer st') p) \<union> set (rb_failure (ss_buffer st') p)"
    "filter (\<lambda>(k, _). uid_of k \<in> set sel) snap = filter (\<lambda>(k, _). uid_of k \<in> set sel) (rb_partitions (ss_buffer st') p)"
    "dapo \<Longrightarrow> set (rb_finished (ss_buffer st') p) \<union> set (rb_failure (ss_buffer st') p) = set sel"
    "inflight_count p (ss_buffer st') \<le> inflight_count p (ss_buffer st)"
    "set (rb_cache (ss_buffer st') p) \<subseteq> set (rb_cache (ss_buffer st) p)" by blast+
qed

text \<open>
  What a poll shows of the prompts of a partition.  \<open>kv_list\<close> returns dicts, so a key has one tag.
\<close>

definition shown :: "string \<Rightarrow> string \<Rightarrow> snapshot option \<Rightarrow> string set" where
  "shown status p data = (case data of None \<Rightarrow> {} | Some d \<Rightarrow>
     {key. \<exists>items tag. (p, items) \<in> set d \<and> (key, tag) \<in> set items \<and> tg_is_prompt tag \<and> tg_status tag = Some status})"

definition in_flight_shown :: "string \<Rightarrow> snapshot option \<Rightarrow> string set" where
  "in_flight_shown p data = shown ''pending'' p data \<union> shown ''running'' p data"

definition one_tag :: "string \<Rightarrow> snapshot option \<Rightarrow> bool" where
  "one_tag p data \<longleftrightarrow> (\<forall>d items tag items' tag' key. data = Some d \<and> (p, items) \<in> set d \<and> (key, tag) \<in> set items
     \<and> (p, items') \<in> set d \<and> (key, tag') \<in> set items' \<longrightarrow> tag = tag')"

definition rb_view :: "string \<Rightarrow> replay_buffer \<Rightarrow> string \<Rightarrow> string list" where
  "rb_view status b = (if status = ''pending'' then rb_pending b else if status = ''running'' then rb_running b
     else if status = ''finished'' then rb_finished b else rb_failure b)"

definition statuses :: "string set" where
  "statuses = {''pending'', ''running'', ''finished'', ''failure''}"

lemma sync_item_cases:
  assumes "sync_item q (key, tag) b = Inr b'"
  obtains (trajectory) m where "\<not> tg_is_prompt tag" "b' = b\<lparr>rb_partitions := m\<rparr>"
    | (pending) m where "tg_is_prompt tag" "tg_status tag = Some ''pending''" "b' = b\<lparr>rb_steps := m, rb_pending := add_key q key (rb_pending b)\<rparr>"
    | (running) m where "tg_is_prompt tag" "tg_status tag = Some ''running''" "b' = b\<lparr>rb_steps := m, rb_running := add_key q key (rb_running b)\<rparr>"
    | (finished) m where "tg_is_prompt tag" "tg_status tag = Some ''finished''" "b' = b\<lparr>rb_steps := m, rb_finished := add_key q key (rb_finished b)\<rparr>"
    | (failure) m where "tg_is_prompt tag" "tg_status tag = Some ''failure''" "b' = b\<lparr>rb_steps := m, rb_failure := add_key q key (rb_failure b)\<rparr>"
proof (cases "tg_is_prompt tag")
  case True
  then obtain g s where "tg_global_steps tag = Some g" "tg_status tag = Some s"
    using assms by (auto simp: sync_item_def Let_def split: option.splits)
  then show thesis using assms True that(2-5) by (simp add: sync_item_def Let_def split: if_splits) (blast dest: sym)+
next
  case False
  then show thesis using assms that(1) [OF False] by (auto simp: sync_item_def)
qed

lemma set_add_key: "set (add_key q key m p) = set (m p) \<union> (if p = q then {key} else {})"
  "distinct (m p) \<Longrightarrow> distinct (add_key q key m p)"
  by (auto simp: add_key_def)

lemma sync_item_view:
  assumes "sync_item q (key, tag) b = Inr b'" "status \<in> statuses"
  shows "set (rb_view status b' p) = set (rb_view status b p) \<union> (if p = q \<and> tg_is_prompt tag \<and> tg_status tag = Some status then {key} else {})
    \<and> (distinct (rb_view status b p) \<longrightarrow> distinct (rb_view status b' p))"
  using assms(1)
proof (cases rule: sync_item_cases)
  case trajectory
  then show ?thesis by (simp add: rb_view_def)
next
  case pending
  then show ?thesis using assms(2) by (simp add: rb_view_def statuses_def set_add_key)
next
  case running
  then show ?thesis using assms(2) by (cases "status = ''pending''") (simp_all add: rb_view_def statuses_def set_add_key)
next
  case finished
  then show ?thesis using assms(2) by (cases "status = ''pending''"; cases "status = ''running''") (simp_all add: rb_view_def statuses_def set_add_key)
next
  case failure
  then show ?thesis using assms(2)
    by (cases "status = ''pending''"; cases "status = ''running''"; cases "status = ''finished''") (simp_all add: rb_view_def statuses_def set_add_key)
qed

lemma sync_items_view:
  assumes "fold_r (sync_item q) items b = Inr b'" "status \<in> statuses"
  shows "set (rb_view status b' p) = set (rb_view status b p)
      \<union> (if p = q then {key. \<exists>tag. (key, tag) \<in> set items \<and> tg_is_prompt tag \<and> tg_status tag = Some status} else {})"
    "distinct (rb_view status b p) \<Longrightarrow> distinct (rb_view status b' p)"
  using assms(1)
proof (induction items arbitrary: b)
  case (Cons kt items)
  obtain key tag where kt: "kt = (key, tag)" by (cases kt)
  {
    case 1
    then obtain b1 where b1: "sync_item q (key, tag) b = Inr b1" "fold_r (sync_item q) items b1 = Inr b'" by (auto simp: kt rbind_eq_Inr_iff)
    from Cons.IH(1) [OF b1(2)] sync_item_view [OF b1(1) assms(2), of p] show ?case by (auto simp: kt)
  next
    case 2
    then obtain b1 where b1: "sync_item q (key, tag) b = Inr b1" "fold_r (sync_item q) items b1 = Inr b'" by (auto simp: kt rbind_eq_Inr_iff)
    from Cons.IH(2) [OF _ b1(2)] sync_item_view [OF b1(1) assms(2), of p] 2(1) show ?case by blast
  }
qed auto

lemma sync_metadata_view:
  assumes "sync_metadata data b = Inr b'" "status \<in> statuses"
  shows "set (rb_view status b' p) = shown status p data" "distinct (rb_view status b' p)"
proof -
  have e: "rb_view status (empty_buffer\<lparr>rb_cache := rb_cache b\<rparr>) p = []" for p by (simp add: rb_view_def empty_buffer_def)
  have "set (rb_view status s' p) = set (rb_view status s p) \<union> shown status p (Some d) \<and> (distinct (rb_view status s p) \<longrightarrow> distinct (rb_view status s' p))"
    if "fold_r (\<lambda>(p, items). fold_r (sync_item p) items) d s = Inr s'" for d s s'
    using that
  proof (induction d arbitrary: s)
    case (Cons qi d)
    obtain q items where qi: "qi = (q, items)" by (cases qi)
    from Cons.prems obtain s1 where s1: "fold_r (sync_item q) items s = Inr s1" "fold_r (\<lambda>(p, items). fold_r (sync_item p) items) d s1 = Inr s'"
      by (auto simp: qi rbind_eq_Inr_iff)
    have sh: "shown status p (Some ((q, items) # d))
        = (if p = q then {key. \<exists>tag. (key, tag) \<in> set items \<and> tg_is_prompt tag \<and> tg_status tag = Some status} else {}) \<union> shown status p (Some d)"
      by (auto simp: shown_def)
    from Cons.IH [OF s1(2)] sync_items_view [OF s1(1) assms(2), of p] show ?case unfolding qi sh by auto
  qed (simp add: shown_def)
  then show "set (rb_view status b' p) = shown status p data" "distinct (rb_view status b' p)"
    using assms(1) e by (auto simp: sync_metadata_def shown_def split: option.splits)
qed

text \<open>Eviction only touches terminal groups, so the prompts in flight are the ones the poll shows.\<close>

lemma evicted_terminal:
  assumes "terminal_eviction_reasons c rei p b = Inr (r, b')"
  shows "set (evicted_uids r) \<subseteq> set (rb_finished b p) \<union> set (rb_failure b p)" "rb_pending b' = rb_pending b" "rb_running b' = rb_running b"
proof -
  have "set (evicted_uids r) \<subseteq> set (rb_finished b p) \<union> set (rb_failure b p) \<and> rb_pending b' = rb_pending b \<and> rb_running b' = rb_running b"
  proof (cases "p = ''val''")
    case False
    with assms obtain dapo counts where d: "dapo_filtered_keys c rei p b = Inr ((dapo, counts), b')"
      and r: "r = ([], dapo, if bc_refill_failed c then minus_keys (rb_failure b' p) (map (uid_of \<circ> fst) (rb_partitions b' p)) else [], counts)"
      by (auto simp: terminal_eviction_reasons_def Let_def rbind_eq_Inr_iff)
    have "set dapo \<subseteq> set (rb_finished b p)"
      using d by (auto simp: dapo_filtered_keys_def Let_def minus_keys_def split: option.splits if_splits)
    moreover obtain m where "b' = b\<lparr>rb_cache := m\<rparr>" using dapo_only_cache [OF d] by blast
    ultimately show ?thesis by (auto simp: r evicted_uids_def minus_keys_def)
  qed (use assms in \<open>auto simp: terminal_eviction_reasons_def evicted_uids_def\<close>)
  then show "set (evicted_uids r) \<subseteq> set (rb_finished b p) \<union> set (rb_failure b p)" "rb_pending b' = rb_pending b" "rb_running b' = rb_running b"
    by simp_all
qed

lemma inflight_is_shown:
  assumes "sync_metadata data b = Inr b1" "terminal_eviction_reasons c rei p b1 = Inr (r, b2)"
    "evict_terminal_groups gs p r b2 = (x, acts, b3)" "one_tag p data"
  shows "inflight_count p b3 = card (in_flight_shown p data)"
proof -
  note v = sync_metadata_view [OF assms(1), of _ p, unfolded statuses_def]
  have set: "set (rb_pending b1 p) = shown ''pending'' p data" "set (rb_running b1 p) = shown ''running'' p data"
    "set (rb_finished b1 p) = shown ''finished'' p data" "set (rb_failure b1 p) = shown ''failure'' p data"
    "distinct (rb_pending b1 p)" "distinct (rb_running b1 p)"
    using v(1) [of "''pending''"] v(1) [of "''running''"] v(1) [of "''finished''"] v(1) [of "''failure''"]
      v(2) [of "''pending''"] v(2) [of "''running''"] by (simp_all add: rb_view_def)
  have dis: "s \<noteq> s' \<Longrightarrow> shown s p data \<inter> shown s' p data = {}" for s s'
  proof (cases data)
    case (Some d)
    then have one: "tag = tag'" if "(p, items) \<in> set d" "(key, tag) \<in> set items" "(p, items') \<in> set d" "(key, tag') \<in> set items'" for items tag items' tag' key
      using assms(4) that unfolding one_tag_def by blast
    show "s \<noteq> s' \<Longrightarrow> shown s p data \<inter> shown s' p data = {}" using one by (fastforce simp: shown_def Some)
  qed (simp add: shown_def)
  note ev = evicted_terminal [OF assms(2)]
  have keep: "minus_keys (rb_pending b2 p) (evicted_uids r) = rb_pending b1 p" "minus_keys (rb_running b2 p) (evicted_uids r) = rb_running b1 p"
  proof -
    have "set (evicted_uids r) \<subseteq> shown ''finished'' p data \<union> shown ''failure'' p data" using ev(1) unfolding set(3,4) .
    then have "set (rb_pending b1 p) \<inter> set (evicted_uids r) = {}" "set (rb_running b1 p) \<inter> set (evicted_uids r) = {}"
      using dis [of "''pending''" "''finished''"] dis [of "''pending''" "''failure''"] dis [of "''running''" "''finished''"]
        dis [of "''running''" "''failure''"] unfolding set(1,2) by auto
    then show "minus_keys (rb_pending b2 p) (evicted_uids r) = rb_pending b1 p" "minus_keys (rb_running b2 p) (evicted_uids r) = rb_running b1 p"
      unfolding ev(2,3) minus_keys_def filter_id_conv by blast+
  qed
  have "rb_pending b3 p = rb_pending b1 p \<and> rb_running b3 p = rb_running b1 p"
    using assms(3) keep ev(2,3) by (auto simp: evict_terminal_groups_def clear_groups_def Let_def minus_keys_def split: prod.splits if_splits)
  then have "inflight_count p b3 = card (set (rb_pending b1 p)) + card (set (rb_running b1 p))"
    using set(5,6) by (simp add: inflight_count_def distinct_card)
  also have "\<dots> = card (set (rb_pending b1 p) \<union> set (rb_running b1 p))"
    using dis [of "''pending''" "''running''", folded set(1,2)] by (simp add: card_Un_disjoint)
  finally show ?thesis by (simp add: set(1,2) in_flight_shown_def)
qed

text \<open>
  In DAPO mode every dispatch is a whole number of generation batches and fits, together with the prompts the poll shows in
  flight, the in-flight bound.
\<close>

definition refills_bounded :: "buffer_config \<Rightarrow> nat \<Rightarrow> string \<Rightarrow> poll \<Rightarrow> action list \<Rightarrow> bool" where
  "refills_bounded c mi p pl acts \<longleftrightarrow> (\<forall>d. Refill d \<in> set acts \<longrightarrow>
     0 < d \<and> d + card (in_flight_shown p (fst pl)) \<le> mi \<and> (\<forall>g. bc_gen_batch_size c = Some g \<longrightarrow> g dvd d))"

text \<open>The actions of each poll of a call, in order.\<close>

fun poll_actions :: "(poll \<Rightarrow> sample_state \<Rightarrow> iteration result) \<Rightarrow> poll list \<Rightarrow> sample_state \<Rightarrow> action list list" where
  "poll_actions it [] st = []"
| "poll_actions it (pl # pls) st = (case it pl st of
       Inl _ \<Rightarrow> []
     | Inr (Again st') \<Rightarrow> drop (length (ss_actions st)) (ss_actions st') # poll_actions it pls st'
     | Inr (Chosen sel snap st') \<Rightarrow> [drop (length (ss_actions st)) (ss_actions st')])"

text \<open>A loop whose iterations append to the list of actions: the actions of a call are those of its polls.\<close>

locale logged_polling =
  fixes it :: "poll \<Rightarrow> sample_state \<Rightarrow> iteration result"
    and B :: "poll \<Rightarrow> action list \<Rightarrow> bool"
  assumes log_again: "it pl st = Inr (Again st') \<Longrightarrow> \<exists>a. ss_actions st' = ss_actions st @ a \<and> B pl a"
    and log_chosen: "it pl st = Inr (Chosen sel snap st') \<Longrightarrow> \<exists>a. ss_actions st' = ss_actions st @ a \<and> B pl a"
begin

lemma loop_actions:
  assumes "sample_loop it pls st = Some (Inr (sel, snap, st'))"
  shows "length (poll_actions it pls st) \<le> length pls \<and> ss_actions st' = ss_actions st @ concat (poll_actions it pls st)
    \<and> (\<forall>k<length (poll_actions it pls st). B (pls ! k) (poll_actions it pls st ! k))"
  using assms
proof (induction pls arbitrary: st)
  case (Cons pl pls)
  show ?case
  proof (cases "it pl st")
    case (Inr i)
    show ?thesis
    proof (cases i)
      case (Again st1)
      obtain a where a: "ss_actions st1 = ss_actions st @ a" "B pl a" using log_again [of pl st st1] Inr Again by blast
      from Cons.IH [of st1] Cons.prems show ?thesis by (simp add: Inr Again a All_less_Suc2)
    next
      case (Chosen sel1 snap1 st1)
      obtain a where "ss_actions st1 = ss_actions st @ a" "B pl a" using log_chosen [of pl st sel1 snap1 st1] Inr Chosen by blast
      then show ?thesis using Cons.prems by (simp add: Inr Chosen)
    qed
  qed (use Cons.prems in simp)
qed simp

end

lemma dapo_dispatch_bound:
  assumes "dapo_dispatch c mi enough dc fc inflight draining credit = Inr (d, credit', draining')"
  shows "d = 0 \<or> d + inflight \<le> mi \<and> (\<forall>g. bc_gen_batch_size c = Some g \<longrightarrow> g dvd d) \<and> \<not> enough \<and> \<not> draining"
proof (cases "d = 0")
  case False
  with assms obtain g where g: "bc_gen_batch_size c = Some g" and e: "\<not> enough" "\<not> draining"
    and d: "d = (let x = min (credit + 2 * dc + fc) (mi - inflight) in x - x mod g)"
    by (auto simp: dapo_dispatch_def Let_def split: if_splits option.splits)
  have "g dvd d" unfolding d Let_def by (rule dvd_minus_mod)
  moreover have "d \<le> mi - inflight" unfolding d Let_def by linarith
  ultimately show ?thesis using False g e by simp
qed simp

lemma clear_groups_no_refill: "clear_groups p u b = (acts, b') \<Longrightarrow> Refill d \<notin> set acts"
  by (auto simp: clear_groups_def Let_def split: if_splits)

lemma evict_no_refill: "evict_terminal_groups gs p r b = (x, acts, b') \<Longrightarrow> Refill d \<notin> set acts"
  by (auto simp: evict_terminal_groups_def split: prod.splits if_splits dest: clear_groups_no_refill)

lemma sync_decide_again:
  assumes "sync_decide c so True p n mi dc fc xs st = Inr (Again st')"
  shows "\<exists>a. ss_actions st' = ss_actions st @ a \<and> (\<forall>d. Refill d \<in> set a \<longrightarrow>
    0 < d \<and> d + inflight_count p (ss_buffer st) \<le> mi \<and> (\<forall>g. bc_gen_batch_size c = Some g \<longrightarrow> g dvd d))"
proof -
  let ?D = "dapo_dispatch c mi (n \<le> length xs) dc fc (inflight_count p (ss_buffer st)) (ss_draining st) (ss_credit st)"
  from assms(1) obtain y where y: "?D = Inr y" unfolding sync_decide_def Let_def by (auto elim!: rbind_InrE)
  obtain d cr dr where d: "y = (d, cr, dr)" by (metis prod.exhaust)
  from assms(1) y d have "ss_actions st' = ss_actions st @ (if d > 0 then [Refill d] else [SleepPoll])"
    by (auto simp: sync_decide_def call_refill_def Let_def choose_sync_def split: if_splits prod.splits)
  then show ?thesis using dapo_dispatch_bound [OF y [unfolded d]] by (auto split: if_splits)
qed

interpretation any_poll: polling "sample_iteration c so gs p n mi" "\<lambda>_. True" for c so gs p n mi
  by unfold_locales simp

definition dapo_bounded :: "buffer_config \<Rightarrow> nat \<Rightarrow> string \<Rightarrow> poll \<Rightarrow> action list \<Rightarrow> bool" where
  "dapo_bounded c mi p pl acts \<longleftrightarrow> (p \<noteq> ''val'' \<and> bc_metric c \<noteq> None \<and> one_tag p (fst pl) \<longrightarrow> refills_bounded c mi p pl acts)"

interpretation sync_log: logged_polling "sample_iteration c so gs p n mi" "dapo_bounded c mi p" for c so gs p n mi
proof (unfold_locales, goal_cases)
  case (1 pl st st')
  from 1 obtain b1 where b1: "sync_metadata (fst pl) (ss_buffer st) = Inr b1"
    unfolding sample_iteration_def by (elim rbind_InrE)
  from 1 obtain r b2 where r: "terminal_eviction_reasons c (snd pl) p b1 = Inr (r, b2)"
    unfolding sample_iteration_def b1 rbind_Inr by (elim rbind_InrE) auto
  obtain evicted sc dc ms acts b3 where e: "evict_terminal_groups gs p r b2 = ((evicted, sc, dc, ms), acts, b3)"
    by (metis prod.exhaust)
  note dec = 1 [unfolded sample_iteration_def b1 rbind_Inr r split e prod.case]
  show ?case
  proof (cases "p \<noteq> ''val'' \<and> bc_metric c \<noteq> None")
    case True
    then have eq: "(p \<noteq> ''val'' \<and> bc_metric c \<noteq> None) = True" by blast
    obtain a where a: "ss_actions st' = ss_actions st @ acts @ a" "\<forall>d. Refill d \<in> set a \<longrightarrow>
        0 < d \<and> d + inflight_count p b3 \<le> mi \<and> (\<forall>g. bc_gen_batch_size c = Some g \<longrightarrow> g dvd d)"
      using sync_decide_again [OF dec [unfolded eq]] by auto
    have "dapo_bounded c mi p pl (acts @ a)"
      using a(2) inflight_is_shown [OF b1 r e] evict_no_refill [OF e] by (auto simp: dapo_bounded_def refills_bounded_def)
    with a(1) show ?thesis by blast
  next
    case False
    then have "\<exists>a. ss_actions st' = ss_actions st @ a"
      using dec by (auto simp: sync_decide_def call_refill_def choose_sync_def Let_def split: if_splits prod.splits)
    then show ?thesis using False by (auto simp: dapo_bounded_def)
  qed
next
  case (2 pl st sel snap st')
  from 2 obtain r b2 x acts b3 st2 where I: "evict_terminal_groups gs p r b2 = (x, acts, b3)" "ss_actions st2 = ss_actions st @ acts"
    "choose_sync c so (p \<noteq> ''val'' \<and> bc_metric c \<noteq> None) p n (sampleable_terminal_keys p r b3) st2 = Chosen sel snap st'"
    by (rule sync_chosen_cases) blast
  have "\<exists>a. ss_actions st' = ss_actions st2 @ a \<and> (\<forall>d. Refill d \<notin> set a)"
  proof (cases "p \<noteq> ''val'' \<and> bc_metric c \<noteq> None")
    case True
    obtain a b4 where c: "clear_groups p (minus_keys (sampleable_terminal_keys p r b3) (select_prompt_uids so p (sampleable_terminal_keys p r b3) n (ss_buffer st2)))
      (ss_buffer st2) = (a, b4)" by fastforce
    have "ss_actions st' = ss_actions st2 @ a \<or> ss_actions st' = ss_actions st2"
      using I(3) True c by (auto simp: choose_sync_def Let_def split: if_splits)
    then show ?thesis using clear_groups_no_refill [OF c] by (metis append_Nil2 empty_iff list.set(1))
  next
    case False
    then show ?thesis using I(3) by (auto simp: choose_sync_def Let_def)
  qed
  then obtain a where "ss_actions st' = ss_actions st2 @ a" "\<And>d. Refill d \<notin> set a" by blast
  then have "ss_actions st' = ss_actions st @ (acts @ a)" "dapo_bounded c mi p pl (acts @ a)"
    using I(2) evict_no_refill [OF I(1)] by (auto simp: dapo_bounded_def refills_bounded_def)
  then show ?case by blast
qed

lemma sync_chosen:
  assumes "sample_iteration c so gs p n mi pl st = Inr (Chosen sel snap st')" "p \<noteq> ''val''" "\<And>xs. mset (so xs) = mset xs"
  shows "length sel = n" "distinct sel" "set sel \<subseteq> set (rb_finished (ss_buffer st') p) \<union> set (rb_failure (ss_buffer st') p)"
    "filter (\<lambda>(k, _). uid_of k \<in> set sel) snap = filter (\<lambda>(k, _). uid_of k \<in> set sel) (rb_partitions (ss_buffer st') p)"
    "bc_metric c \<noteq> None \<Longrightarrow> set (rb_finished (ss_buffer st') p) \<union> set (rb_failure (ss_buffer st') p) = set sel
      \<and> inflight_count p (ss_buffer st') = 0 \<and> (\<forall>(u, x)\<in>set (rb_cache (ss_buffer st') p). x = None)"
proof -
  from assms(1) obtain b1 r b2 x acts b3 st2 where I:
    "sync_metadata (fst pl) (ss_buffer st) = Inr b1" "terminal_eviction_reasons c (snd pl) p b1 = Inr (r, b2)"
    "evict_terminal_groups gs p r b2 = (x, acts, b3)" "ss_buffer st2 = b3" "n \<le> length (sampleable_terminal_keys p r b3)"
    "p \<noteq> ''val'' \<and> bc_metric c \<noteq> None \<Longrightarrow> inflight_count p b3 = 0"
    "choose_sync c so (p \<noteq> ''val'' \<and> bc_metric c \<noteq> None) p n (sampleable_terminal_keys p r b3) st2 = Chosen sel snap st'"
    by (rule sync_chosen_cases) blast
  note E = evict_buffer [OF I(3)]
  note C = choose_sync_result [OF I(7) assms(3) sampleable_distinct I(5), unfolded I(4), OF E(3)]
  show "length sel = n" "distinct sel" "set sel \<subseteq> set (rb_finished (ss_buffer st') p) \<union> set (rb_failure (ss_buffer st') p)"
    "filter (\<lambda>(k, _). uid_of k \<in> set sel) snap = filter (\<lambda>(k, _). uid_of k \<in> set sel) (rb_partitions (ss_buffer st') p)"
    by (rule C)+
  assume m: "bc_metric c \<noteq> None"
  have none: "y = None" if y: "(u, y) \<in> set (rb_cache (ss_buffer st') p)" for u y
  proof (rule ccontr)
    assume "y \<noteq> None"
    from y C(7) have "(u, y) \<in> set (rb_cache b3 p)" by blast
    then have "(u, y) \<in> set (rb_cache b2 p)" "u \<notin> set (evicted_uids r)" unfolding E(2) by auto
    with sync_reasons_cache [OF I(2) assms(2) m _ \<open>y \<noteq> None\<close>] show False by blast
  qed
  have "inflight_count p (ss_buffer st') = 0" using C(6) I(6) m assms(2) by simp
  then show "set (rb_finished (ss_buffer st') p) \<union> set (rb_failure (ss_buffer st') p) = set sel
      \<and> inflight_count p (ss_buffer st') = 0 \<and> (\<forall>(u, x)\<in>set (rb_cache (ss_buffer st') p). x = None)"
    using C(5) m assms(2) none by blast
qed

text \<open>
  C19. Synchronous sampling of training prompts, whatever the store does between the polls: a returned
  batch is not empty and consists of all trajectories of exactly \<open>batch_size\<close> distinct terminal
  groups.  In DAPO mode nothing is in flight any more when the batch is taken, no other terminal
  group is left behind, no remaining group is classified as carrying no signal; and the actions of the call
  are those of its polls in order, where a refill of the k-th poll is a positive multiple of \<open>gen_batch_size\<close>
  that, together with the prompts the k-th poll shows pending or running, stays within
  \<open>max_inflight_gen_batches * train_batch_size\<close>.
\<close>

theorem sync_sample_policy:
  assumes "p \<noteq> ''val''" "\<And>xs. mset (so xs) = mset xs" "\<forall>pl\<in>set polls. one_tag p (fst pl)" "sample c so gs p n polls b = Some (Inr (batch, st))"
  shows "batch \<noteq> []
    \<and> (\<exists>sel. length sel = n \<and> distinct sel \<and> set sel \<subseteq> set (rb_finished (ss_buffer st) p) \<union> set (rb_failure (ss_buffer st) p)
        \<and> batch = filter (\<lambda>(k, _). uid_of k \<in> set sel) (rb_partitions (ss_buffer st) p)
        \<and> (bc_metric c \<noteq> None \<longrightarrow>
             set (rb_finished (ss_buffer st) p) \<union> set (rb_failure (ss_buffer st) p) = set sel
             \<and> inflight_count p (ss_buffer st) = 0 \<and> (\<forall>(u, x)\<in>set (rb_cache (ss_buffer st) p). x = None)
             \<and> (\<exists>t blocks. bc_train_batch_size c = Some t
                  \<and> blocks = poll_actions (sample_iteration c so gs p n (nat (bc_max_inflight c) * t)) polls (start_state b)
                  \<and> length blocks \<le> length polls \<and> ss_actions st = concat blocks @ [KvClear p sel []]
                  \<and> (\<forall>k<length blocks. \<forall>d. Refill d \<in> set (blocks ! k) \<longrightarrow> 0 < d
                       \<and> d + card (in_flight_shown p (fst (polls ! k))) \<le> nat (bc_max_inflight c) * t
                       \<and> (\<forall>g. bc_gen_batch_size c = Some g \<longrightarrow> g dvd d)))))"
proof -
  from assms(4) obtain mi sel snap st1 where l: "sample_loop (sample_iteration c so gs p n mi) polls (start_state b) = Some (Inr (sel, snap, st1))"
    and f: "finish_batch p sel snap st1 = (batch, st)" and ex: "list_ex (\<lambda>(k, _). uid_of k \<in> set sel) snap"
    and mi: "bc_metric c \<noteq> None \<longrightarrow> (\<exists>t. bc_train_batch_size c = Some t \<and> mi = nat (bc_max_inflight c) * t)"
    using assms(1) unfolding sample_def
    by (auto split: if_splits option.splits sum.splits elim!: rbind_InrE)
  from f have f': "batch = filter (\<lambda>(k, _). uid_of k \<in> set sel) snap" "ss_buffer st = ss_buffer st1"
    "ss_actions st = ss_actions st1 @ [KvClear p sel []]" by (auto simp: finish_batch_def materialize_batch_def)
  have "batch \<noteq> []" using ex by (auto simp: f'(1) list_ex_iff filter_empty_conv)
  obtain pl st0 where it: "sample_iteration c so gs p n mi pl st0 = Inr (Chosen sel snap st1)"
    using any_poll.loop_chosen [OF l] by blast
  note C = sync_chosen [OF it assms(1,2)]
  let ?blocks = "poll_actions (sample_iteration c so gs p n mi) polls (start_state b)"
  have B: "length ?blocks \<le> length polls" "ss_actions st1 = concat ?blocks"
    "\<forall>k<length ?blocks. dapo_bounded c mi p (polls ! k) (?blocks ! k)"
    using sync_log.loop_actions [OF l] by (auto simp: start_state_def)
  have D: "set (rb_finished (ss_buffer st) p) \<union> set (rb_failure (ss_buffer st) p) = set sel
      \<and> inflight_count p (ss_buffer st) = 0 \<and> (\<forall>(u, x)\<in>set (rb_cache (ss_buffer st) p). x = None)
      \<and> (\<exists>t blocks. bc_train_batch_size c = Some t
           \<and> blocks = poll_actions (sample_iteration c so gs p n (nat (bc_max_inflight c) * t)) polls (start_state b)
           \<and> length blocks \<le> length polls \<and> ss_actions st = concat blocks @ [KvClear p sel []]
           \<and> (\<forall>k<length blocks. \<forall>d. Refill d \<in> set (blocks ! k) \<longrightarrow> 0 < d
                \<and> d + card (in_flight_shown p (fst (polls ! k))) \<le> nat (bc_max_inflight c) * t
                \<and> (\<forall>g. bc_gen_batch_size c = Some g \<longrightarrow> g dvd d)))"
    if m: "bc_metric c \<noteq> None"
  proof -
    obtain t where t: "bc_train_batch_size c = Some t" "mi = nat (bc_max_inflight c) * t" using mi m by blast
    have "refills_bounded c mi p (polls ! k) (?blocks ! k)" if "k < length ?blocks" for k
      using B(1,3) that m assms(1,3) by (auto simp: dapo_bounded_def)
    then show ?thesis using C(5) [OF m] t B(1,2) unfolding f'(2,3) refills_bounded_def by blast
  qed
  show ?thesis
    by (intro conjI exI [of _ sel] impI \<open>batch \<noteq> []\<close> C(1,2) C(3) [folded f'(2)] C(4) [folded f'(1,2)] D)
qed

text \<open>
  Two DAPO polls before the batch: group \<open>a\<close> carries no signal, is evicted and replaced by two prompts although a
  third is in flight; nothing more is dispatched while prompts are in flight; then two groups are ready.
\<close>

definition demo_sync_polls :: "poll list" where
  "demo_sync_polls =
     [(Some [(''train'', [(''a'', demo_prompt 1 ''finished''), (''a_0_0'', demo_tag), (''a_1_0'', demo_tag), (''d'', demo_prompt 1 ''running'')])], demo_info),
      (Some [(''train'', [(''b'', demo_prompt 1 ''running''), (''c'', demo_prompt 2 ''pending''), (''d'', demo_prompt 1 ''running'')])], demo_info),
      (Some [(''train'', [(''b'', demo_prompt 1 ''finished''), (''b_0_0'', demo_tag), (''b_1_0'', demo_tag),
                          (''c'', demo_prompt 2 ''finished''), (''c_0_0'', demo_tag)])], demo_info)]"

definition demo_dapo :: buffer_config where
  "demo_dapo = demo_config\<lparr>bc_max_inflight := 2\<rparr>"

lemma demo_sync_sample:
  "(case sample demo_dapo (\<lambda>x. x) 1 ''train'' 1 demo_sync_polls empty_buffer of
      Some (Inr (batch, st)) \<Rightarrow> Some (map fst batch, ss_actions st) | _ \<Rightarrow> None)
   = Some ([''b_0_0'', ''b_1_0''], [KvClear ''train'' [''a''] [''a_0_0'', ''a_1_0''], Refill 2, SleepPoll,
       KvClear ''train'' [''c''] [''c_0_0''], KvClear ''train'' [''b''] []])"
  by code_simp

theorem sync_sample_policy_witness:
  "\<exists>batch st sel blocks. sample demo_dapo (\<lambda>x. x) 1 ''train'' 1 demo_sync_polls empty_buffer = Some (Inr (batch, st))
     \<and> map fst batch = [''b_0_0'', ''b_1_0''] \<and> length sel = 1
     \<and> batch = filter (\<lambda>(k, _). uid_of k \<in> set sel) (rb_partitions (ss_buffer st) ''train'')
     \<and> ss_actions st = concat blocks @ [KvClear ''train'' sel []] \<and> Refill 2 \<in> set (concat blocks)
     \<and> (\<forall>k<length blocks. \<forall>d. Refill d \<in> set (blocks ! k) \<longrightarrow> d + card (in_flight_shown ''train'' (fst (demo_sync_polls ! k))) \<le> 4)"
proof -
  obtain batch st where b: "sample demo_dapo (\<lambda>x. x) 1 ''train'' 1 demo_sync_polls empty_buffer = Some (Inr (batch, st))"
    "map fst batch = [''b_0_0'', ''b_1_0'']" "Refill 2 \<in> set (ss_actions st)"
    using demo_sync_sample by (auto split: option.splits sum.splits prod.splits)
  have m: "bc_metric demo_dapo \<noteq> None" "bc_train_batch_size demo_dapo = Some 2" "bc_max_inflight demo_dapo = 2"
    by (simp_all add: demo_dapo_def demo_config_def)
  have o: "\<forall>pl\<in>set demo_sync_polls. one_tag ''train'' (fst pl)" by (auto simp: demo_sync_polls_def one_tag_def)
  obtain sel blocks where s: "length sel = 1" "batch = filter (\<lambda>(k, _). uid_of k \<in> set sel) (rb_partitions (ss_buffer st) ''train'')"
    "ss_actions st = concat blocks @ [KvClear ''train'' sel []]"
    "\<forall>k<length blocks. \<forall>d. Refill d \<in> set (blocks ! k) \<longrightarrow> d + card (in_flight_shown ''train'' (fst (demo_sync_polls ! k))) \<le> 4"
    using sync_sample_policy [of "''train''" "\<lambda>x. x", OF _ _ o b(1)] m by fastforce
  have r: "Refill 2 \<in> set (concat blocks)" using b(3) s(3) by simp
  moreover have "\<forall>k<length blocks. \<forall>d. Refill d \<in> set (blocks ! k) \<longrightarrow> d + card (in_flight_shown ''train'' (fst (demo_sync_polls ! k))) \<le> 4" by (rule s(4))
  ultimately show ?thesis using b(1,2) s(1-3) by (intro exI [of _ batch] exI [of _ st] exI [of _ sel] exI [of _ blocks] conjI) assumption+
qed

end
