(* ===== verification/Opd_Algos.thy ===== *)
theory Opd_Algos
  imports Tensor
begin

text \<open>
  \<open>verl/trainer/ppo/opd_core_algos.py\<close> and what it uses of \<open>verl/trainer/ppo/core_algos.py\<close> and
  \<open>verl/utils/torch_functional.py\<close>: the advantage estimators and policy losses of on-policy
  distillation, the GRPO outcome advantage, the clipped PPO loss and the aggregation of a loss over
  a batch.  Log-probabilities, rewards and advantages are real numbers; a quotient with divisor 0
  is the infinity or NaN torch gives.  The tensors of one call have matching shapes.
\<close>

section \<open>Tensors\<close>

type_synonym mat = "real list list"

datatype tensor = T2 mat | T3 "real list list list"

definition map2d :: "(real \<Rightarrow> real \<Rightarrow> real) \<Rightarrow> mat \<Rightarrow> mat \<Rightarrow> mat" where
  "map2d f xs ys = map (\<lambda>(r, s). map (\<lambda>(x, y). f x y) (zip r s)) (zip xs ys)"

definition sum2d :: "mat \<Rightarrow> real" where
  "sum2d xs = sum_list (map sum_list xs)"

definition clamp :: "real \<Rightarrow> real \<Rightarrow> real \<Rightarrow> real" where
  "clamp lo hi x = min (max x lo) hi"

section \<open>Masked sums\<close>

definition mask_value :: "real \<Rightarrow> real \<Rightarrow> real" where
  "mask_value v m = (if m \<noteq> 0 then v else 0) * m"

definition masked_sum :: "mat \<Rightarrow> mat \<Rightarrow> real" where
  "masked_sum vals msk = sum2d (map2d mask_value vals msk)"

definition masked_sum1 :: "real list \<Rightarrow> real list \<Rightarrow> real" where
  "masked_sum1 vals msk = sum_list (map (\<lambda>(v, m). mask_value v m) (zip vals msk))"

definition masked_mean :: "mat \<Rightarrow> mat \<Rightarrow> real" where
  "masked_mean vals msk = masked_sum vals msk / (sum2d msk + 1 / 10 ^ 8)"

section \<open>Aggregation of the loss\<close>

definition seq_sums :: "mat \<Rightarrow> mat \<Rightarrow> real list" where
  "seq_sums loss_mat loss_mask = map sum_list (map2d (*) loss_mat loss_mask)"

definition seq_mask :: "mat \<Rightarrow> real list" where
  "seq_mask loss_mask = map (\<lambda>r. if sum_list r > 0 then 1 else 0) loss_mask"

definition horizon :: "mat \<Rightarrow> real" where
  "horizon loss_mask = (case loss_mask of [] \<Rightarrow> 0 | r # _ \<Rightarrow> of_nat (length r))"

text \<open>The sequence mean of both sequence modes, with the required global batch size.\<close>

definition seq_mean :: "real list \<Rightarrow> real list \<Rightarrow> nat \<Rightarrow> real option \<Rightarrow> fl result" where
  "seq_mean seq_losses smask dp_size global_batch_size =
     (if global_batch_size = None \<and> dp_size > 1 then Inl ValueError
      else Inr (fl_div (Fin (masked_sum1 seq_losses smask))
                  (case global_batch_size of None \<Rightarrow> sum_list smask | Some b \<Rightarrow> b) * Fin (of_nat dp_size)))"

definition agg_loss ::
  "mat \<Rightarrow> mat \<Rightarrow> string \<Rightarrow> nat \<Rightarrow> real option \<Rightarrow> real option \<Rightarrow> real option \<Rightarrow> fl result" where
  "agg_loss loss_mat loss_mask loss_agg_mode dp_size batch_num_tokens global_batch_size loss_scale_factor =
     (if loss_agg_mode = ''token-mean'' then
        (if batch_num_tokens = None \<and> dp_size > 1 then Inl ValueError
         else Inr (fl_div (Fin (masked_sum loss_mat loss_mask))
                     (case batch_num_tokens of None \<Rightarrow> sum2d loss_mask | Some n \<Rightarrow> n) * Fin (of_nat dp_size)))
      else if loss_agg_mode = ''token-sum'' then Inr (Fin (masked_sum loss_mat loss_mask * of_nat dp_size))
      else if loss_agg_mode \<in> {''seq-mean-token-sum'', ''seq-mean-token-sum-norm''} then
        rbind (seq_mean (seq_sums loss_mat loss_mask) (seq_mask loss_mask) dp_size global_batch_size) (\<lambda>loss.
        Inr (if loss_agg_mode = ''seq-mean-token-sum-norm''
             then fl_div loss (case loss_scale_factor of None \<Rightarrow> horizon loss_mask | Some h \<Rightarrow> h) else loss))
      else if loss_agg_mode = ''seq-mean-token-mean'' then
        seq_mean (map (\<lambda>(s, r). s / (sum_list r + 1 / 10 ^ 8)) (zip (seq_sums loss_mat loss_mask) loss_mask))
          (seq_mask loss_mask) dp_size global_batch_size
      else Inl ValueError)"

section \<open>Advantages\<close>

definition mean_of :: "real list \<Rightarrow> real" where
  "mean_of xs = sum_list xs / of_nat (length xs)"

text \<open>\<open>torch.std\<close>, with the unbiased divisor.\<close>

definition std_of :: "real list \<Rightarrow> real" where
  "std_of xs = sqrt (sum_list (map (\<lambda>x. (x - mean_of xs) * (x - mean_of xs)) xs) / (of_nat (length xs) - 1))"

definition group_scores :: "real list \<Rightarrow> 'i list \<Rightarrow> 'i \<Rightarrow> real list" where
  "group_scores scores index g = map fst (filter (\<lambda>(_, j). j = g) (zip scores index))"

definition grpo_scores :: "real list \<Rightarrow> 'i list \<Rightarrow> real \<Rightarrow> bool \<Rightarrow> real list" where
  "grpo_scores scores index epsilon norm_adv_by_std =
     map (\<lambda>(s, g). let xs = group_scores scores index g;
                       m = (if length xs = 1 then 0 else mean_of xs);
                       sd = (if length xs = 1 then 1 else std_of xs) in
                   if norm_adv_by_std then (s - m) / (sd + epsilon) else s - m) (zip scores index)"

definition compute_grpo_outcome_advantage ::
  "mat \<Rightarrow> mat \<Rightarrow> 'i list \<Rightarrow> real \<Rightarrow> bool \<Rightarrow> mat \<times> mat" where
  "compute_grpo_outcome_advantage token_level_rewards response_mask index epsilon norm_adv_by_std =
     (let scores = grpo_scores (map sum_list token_level_rewards) index epsilon norm_adv_by_std;
          adv = map (\<lambda>(s, r). map (\<lambda>m. s * m) r) (zip scores response_mask) in (adv, adv))"

definition compute_token_reward_direct_advantage :: "tensor \<Rightarrow> mat \<Rightarrow> tensor \<times> tensor" where
  "compute_token_reward_direct_advantage token_level_rewards response_mask =
     (let adv = (case token_level_rewards of
          T2 r \<Rightarrow> T2 (map2d (*) r response_mask)
        | T3 r \<Rightarrow> T3 (map (\<lambda>(rows, ms). map (\<lambda>(ks, m). map (\<lambda>x. x * m) ks) (zip rows ms)) (zip r response_mask))) in
      (adv, adv))"

record algo_config =
  al_norm_adv_by_std :: bool
  al_grpo_outcome_weight :: real

definition collapse_k :: "tensor \<Rightarrow> mat" where
  "collapse_k t = (case t of T2 r \<Rightarrow> r | T3 r \<Rightarrow> map (map sum_list) r)"

text \<open>\<open>config=None\<close> means normalisation and weight 1; \<open>true_scores\<close> is \<open>true_token_level_scores\<close> when supplied.\<close>

definition compute_token_reward_direct_plus_grpo_advantage ::
  "tensor \<Rightarrow> mat \<Rightarrow> 'i list \<Rightarrow> algo_config option \<Rightarrow> tensor option \<Rightarrow> tensor \<times> tensor" where
  "compute_token_reward_direct_plus_grpo_advantage token_level_rewards response_mask index config true_scores =
     (let direct = fst (compute_token_reward_direct_advantage token_level_rewards response_mask);
          rewards = collapse_k (case true_scores of None \<Rightarrow> token_level_rewards | Some t \<Rightarrow> t);
          norm = (case config of None \<Rightarrow> True | Some c \<Rightarrow> al_norm_adv_by_std c);
          weight = (case config of None \<Rightarrow> 1 | Some c \<Rightarrow> al_grpo_outcome_weight c);
          grpo = fst (compute_grpo_outcome_advantage rewards response_mask index (1 / 10 ^ 6) norm);
          combined = (case direct of
              T2 d \<Rightarrow> T2 (map2d (\<lambda>x g. x + weight * g) d grpo)
            | T3 d \<Rightarrow> T3 (map (\<lambda>(rows, gs). map (\<lambda>(ks, g). map (\<lambda>x. x + weight * g) ks) (zip rows gs)) (zip d grpo))) in
      (combined, combined))"

section \<open>Policy losses\<close>

record actor_config =
  ac_clip_ratio :: real
  ac_clip_low :: "real option"
  ac_clip_high :: "real option"
  ac_clip_c :: "real option"
  ac_dp_size :: nat
  ac_batch_num_tokens :: "real option"
  ac_global_batch_size :: "real option"
  ac_loss_scale_factor :: "real option"

definition clip_low :: "actor_config \<Rightarrow> real" where
  "clip_low c = (case ac_clip_low c of None \<Rightarrow> ac_clip_ratio c | Some x \<Rightarrow> x)"

definition clip_high :: "actor_config \<Rightarrow> real" where
  "clip_high c = (case ac_clip_high c of None \<Rightarrow> ac_clip_ratio c | Some x \<Rightarrow> x)"

definition neg_approx_kl :: "real \<Rightarrow> real \<Rightarrow> real" where
  "neg_approx_kl old_log_prob log_prob = clamp (- 20) 20 (log_prob - old_log_prob)"

text \<open>Per token: the two losses whose maximum is taken, and the dual-clipped loss of the vanilla mode.\<close>

definition pg_loss1 :: "real \<Rightarrow> real \<Rightarrow> real \<Rightarrow> real" where
  "pg_loss1 old_log_prob log_prob a = - a * exp (neg_approx_kl old_log_prob log_prob)"

definition pg_loss2 :: "actor_config \<Rightarrow> real \<Rightarrow> real \<Rightarrow> real \<Rightarrow> real" where
  "pg_loss2 c old_log_prob log_prob a =
     - a * clamp (1 - clip_low c) (1 + clip_high c) (exp (neg_approx_kl old_log_prob log_prob))"

definition clip_pg_loss :: "actor_config \<Rightarrow> real \<Rightarrow> real \<Rightarrow> real \<Rightarrow> real" where
  "clip_pg_loss c old_log_prob log_prob a = max (pg_loss1 old_log_prob log_prob a) (pg_loss2 c old_log_prob log_prob a)"

definition clip_c :: "actor_config \<Rightarrow> real" where
  "clip_c c = (case ac_clip_c c of None \<Rightarrow> 3 | Some x \<Rightarrow> x)"

definition dual_clip_loss :: "actor_config \<Rightarrow> real \<Rightarrow> real \<Rightarrow> real \<Rightarrow> real" where
  "dual_clip_loss c old_log_prob log_prob a =
     (if a < 0 then min (- a * clip_c c) (clip_pg_loss c old_log_prob log_prob a)
      else clip_pg_loss c old_log_prob log_prob a)"

definition map3d :: "(real \<Rightarrow> real \<Rightarrow> real \<Rightarrow> real) \<Rightarrow> mat \<Rightarrow> mat \<Rightarrow> mat \<Rightarrow> mat" where
  "map3d f xs ys zs = map (\<lambda>(r, s, t). map (\<lambda>(x, y, z). f x y z) (zip r (zip s t))) (zip xs (zip ys zs))"

definition bool_real :: "bool \<Rightarrow> real" where
  "bool_real b = (if b then 1 else 0)"

record pg_metrics =
  pm_clipfrac :: real
  pm_ppo_kl :: real
  pm_clipfrac_lower :: real

definition apply_weights :: "mat option \<Rightarrow> mat \<Rightarrow> mat" where
  "apply_weights w xs = (case w of None \<Rightarrow> xs | Some ws \<Rightarrow> map2d (*) xs ws)"

definition config_agg_loss :: "actor_config \<Rightarrow> string \<Rightarrow> mat \<Rightarrow> mat \<Rightarrow> fl result" where
  "config_agg_loss c mode loss_mat msk =
     agg_loss loss_mat msk mode (ac_dp_size c) (ac_batch_num_tokens c) (ac_global_batch_size c) (ac_loss_scale_factor c)"

definition compute_policy_loss_vanilla ::
  "mat \<Rightarrow> mat \<Rightarrow> mat \<Rightarrow> mat \<Rightarrow> string \<Rightarrow> actor_config \<Rightarrow> mat option \<Rightarrow> (fl \<times> pg_metrics) result" where
  "compute_policy_loss_vanilla old_log_prob log_prob advantages response_mask mode c weights =
     rbind (assert_r (clip_c c > 1) AssertionError) (\<lambda>_.
     rbind (config_agg_loss c mode (apply_weights weights (map3d (dual_clip_loss c) old_log_prob log_prob advantages)) response_mask) (\<lambda>loss.
     Inr (loss, \<lparr>
       pm_clipfrac = masked_mean (map3d (\<lambda>ol l a. bool_real (pg_loss2 c ol l a > pg_loss1 ol l a)) old_log_prob log_prob advantages) response_mask,
       pm_ppo_kl = masked_mean (map2d (\<lambda>ol l. - neg_approx_kl ol l) old_log_prob log_prob) response_mask,
       pm_clipfrac_lower = masked_mean (map3d (\<lambda>ol l a. bool_real (clip_pg_loss c ol l a > - a * clip_c c) * bool_real (a < 0))
           old_log_prob log_prob advantages) response_mask\<rparr>)))"

text \<open>The K axis of one position: sums over the candidates.\<close>

definition sum_k :: "(real \<Rightarrow> real \<Rightarrow> real \<Rightarrow> real) \<Rightarrow> real list list list \<Rightarrow> real list list list \<Rightarrow> real list list list \<Rightarrow> mat" where
  "sum_k f xs ys zs = map (\<lambda>(r, s, t). map (\<lambda>(x, y, z). sum_list (map (\<lambda>(a, b, c). f a b c) (zip x (zip y z)))) (zip r (zip s t)))
     (zip xs (zip ys zs))"

definition compute_policy_loss_vanilla_topk ::
  "tensor \<Rightarrow> tensor \<Rightarrow> tensor \<Rightarrow> mat \<Rightarrow> string \<Rightarrow> actor_config option \<Rightarrow> mat option \<Rightarrow> (fl \<times> pg_metrics) result" where
  "compute_policy_loss_vanilla_topk old_log_prob log_prob advantages response_mask mode config weights =
     (case config of None \<Rightarrow> Inl AssertionError | Some c \<Rightarrow>
      case (old_log_prob, log_prob, advantages) of
        (T3 ol, T3 l, T3 a) \<Rightarrow>
          (let losses = apply_weights weights (sum_k (clip_pg_loss c) ol l a); denom = max (sum2d response_mask) 1 in
           rbind (config_agg_loss c mode losses response_mask) (\<lambda>loss.
           Inr (loss, \<lparr>
             pm_clipfrac = sum2d (map2d (*) (sum_k (\<lambda>x y z. bool_real (pg_loss2 c x y z > pg_loss1 x y z)) ol l a) response_mask) / denom,
             pm_ppo_kl = sum2d (map2d (*) (sum_k (\<lambda>x y z. - neg_approx_kl x y) ol l a) response_mask) / denom,
             pm_clipfrac_lower = 0\<rparr>)))
      | (T2 ol, T2 l, T2 a) \<Rightarrow> compute_policy_loss_vanilla ol l a response_mask mode c weights
      | _ \<Rightarrow> Inl RuntimeError)"

section \<open>The loss does not depend on the parallelism\<close>

lemma fl_div_Fin: "c \<noteq> 0 \<Longrightarrow> fl_div (Fin x) c = Fin (x / c)"
  by (simp add: fl_div_def divide_inverse)

text \<open>Every mode sums a value per row and scales the sum.\<close>

definition row_value :: "string \<Rightarrow> real list \<times> real list \<Rightarrow> real" where
  "row_value mode rs = (case rs of (r, s) \<Rightarrow>
     if mode \<in> {''token-mean'', ''token-sum''} then sum_list (map (\<lambda>(x, y). mask_value x y) (zip r s))
     else mask_value (sum_list (map (\<lambda>(x, y). x * y) (zip r s)) / (if mode = ''seq-mean-token-mean'' then sum_list s + 1 / 10 ^ 8 else 1))
            (if sum_list s > 0 then 1 else 0))"

definition mode_scale :: "string \<Rightarrow> real \<Rightarrow> real \<Rightarrow> real \<Rightarrow> real" where
  "mode_scale mode n b h = (if mode = ''token-mean'' then 1 / n else if mode = ''token-sum'' then 1
     else if mode = ''seq-mean-token-sum-norm'' then 1 / b / h else 1 / b)"

definition agg_modes :: "string set" where
  "agg_modes = {''token-mean'', ''token-sum'', ''seq-mean-token-sum'', ''seq-mean-token-sum-norm'', ''seq-mean-token-mean''}"

lemma masked_sum_rows: "masked_sum m k = sum_list (map (\<lambda>(r, s). sum_list (map (\<lambda>(x, y). mask_value x y) (zip r s))) (zip m k))"
  unfolding masked_sum_def sum2d_def map2d_def map_map by (intro arg_cong [of _ _ sum_list] map_cong) auto

lemma masked_sum1_rows:
  assumes "length m = length k"
  shows "masked_sum1 (map f (zip m k)) (seq_mask k) = sum_list (map (\<lambda>(r, s). mask_value (f (r, s)) (if sum_list s > 0 then 1 else 0)) (zip m k))"
  using assms by (induction m k rule: list_induct2) (simp_all add: masked_sum1_def seq_mask_def)

lemma seq_sums_rows: "seq_sums m k = map (\<lambda>(r, s). sum_list (map (\<lambda>(x, y). x * y) (zip r s))) (zip m k)"
  by (simp add: seq_sums_def map2d_def comp_def case_prod_beta)

lemma seq_means_rows:
  assumes "length m = length k"
  shows "map (\<lambda>(s, r). s / (sum_list r + 1 / 10 ^ 8)) (zip (seq_sums m k) k)
    = map (\<lambda>(r, s). sum_list (map (\<lambda>(x, y). x * y) (zip r s)) / (sum_list s + 1 / 10 ^ 8)) (zip m k)"
  using assms unfolding seq_sums_rows by (induction m k rule: list_induct2) simp_all

lemma agg_loss_value:
  assumes "mode \<in> agg_modes" "length m = length k" "n \<noteq> 0" "b \<noteq> 0" "h \<noteq> 0"
    and "bn = Some n \<or> bn = None \<and> dp \<le> 1 \<and> sum2d k = n" "gb = Some b \<or> gb = None \<and> dp \<le> 1 \<and> sum_list (seq_mask k) = b"
  shows "agg_loss m k mode dp bn gb (Some h) = Inr (Fin (sum_list (map (row_value mode) (zip m k)) * mode_scale mode n b h * real dp))"
proof -
  have tok: "sum_list (map (row_value mode) (zip m k)) = masked_sum m k" if "mode = ''token-mean'' \<or> mode = ''token-sum''"
    using that unfolding masked_sum_rows by (intro arg_cong [of _ _ sum_list] map_cong) (auto simp: row_value_def)
  have sq: "sum_list (map (row_value mode) (zip m k)) = masked_sum1 (seq_sums m k) (seq_mask k)"
    if "mode = ''seq-mean-token-sum'' \<or> mode = ''seq-mean-token-sum-norm''"
    using that unfolding seq_sums_rows masked_sum1_rows [OF assms(2)]
    by (intro arg_cong [of _ _ sum_list] map_cong) (auto simp: row_value_def)
  have sm: "sum_list (map (row_value mode) (zip m k))
      = masked_sum1 (map (\<lambda>(s, r). s / (sum_list r + 1 / 10 ^ 8)) (zip (seq_sums m k) k)) (seq_mask k)"
    if "mode = ''seq-mean-token-mean''"
    using that unfolding seq_means_rows [OF assms(2)] masked_sum1_rows [OF assms(2)]
    by (intro arg_cong [of _ _ sum_list] map_cong) (auto simp: row_value_def)
  have "mode = ''token-mean'' \<or> mode = ''token-sum'' \<or> mode = ''seq-mean-token-sum''
    \<or> mode = ''seq-mean-token-sum-norm'' \<or> mode = ''seq-mean-token-mean''"
    using assms(1) unfolding agg_modes_def insert_iff empty_iff by (simp only: HOL.simp_thms)
  then show ?thesis
  proof (elim disjE, goal_cases)
    case 1
    then show ?thesis unfolding tok [OF disjI1 [OF 1]] using assms(3,6) by (auto simp: agg_loss_def mode_scale_def fl_div_Fin)
  next
    case 2
    then show ?thesis unfolding tok [OF disjI2 [OF 2]] by (simp add: agg_loss_def mode_scale_def)
  next
    case 3
    then show ?thesis unfolding sq [OF disjI1 [OF 3]] using assms(4,7) by (auto simp: agg_loss_def seq_mean_def mode_scale_def fl_div_Fin)
  next
    case 4
    then show ?thesis unfolding sq [OF disjI2 [OF 4]] using assms(4,5,7) by (auto simp: agg_loss_def seq_mean_def mode_scale_def fl_div_Fin)
  next
    case 5
    then show ?thesis unfolding sm [OF 5] using assms(4,7) by (auto simp: agg_loss_def seq_mean_def mode_scale_def fl_div_Fin)
  qed
qed

lemma zip_concat_parts:
  assumes "\<forall>(m, k)\<in>set parts. length m = length k"
  shows "zip (concat (map fst parts)) (concat (map snd parts)) = concat (map (\<lambda>(m, k). zip m k) parts)"
    and "length (concat (map fst parts)) = length (concat (map snd parts))"
  using assms by (induction parts) auto

lemma sum_parts:
  "sum_list (map (\<lambda>(m, k). sum_list (map f (zip m k)) * (c :: real)) parts)
     = sum_list (map f (concat (map (\<lambda>(m, k). zip m k) parts))) * c"
  by (induction parts) (auto simp: algebra_simps)

text \<open>
  C11. The aggregated loss does not depend on data parallelism: when the rows of a batch are
  distributed over the ranks, each rank aggregates its part with the global number of tokens and
  sequences, and the ranks' losses are averaged as DDP and FSDP average gradients, the result is
  the loss of the whole batch on one rank, in each of the five modes.
\<close>

theorem agg_loss_parallel_invariant:
  assumes "mode \<in> agg_modes" "parts \<noteq> []" "\<forall>(m, k)\<in>set parts. length m = length k" "h \<noteq> 0"
    and "n = sum2d (concat (map snd parts))" "n \<noteq> 0" "b = sum_list (seq_mask (concat (map snd parts)))" "b \<noteq> 0"
  shows "\<exists>ls. map_r (\<lambda>(m, k). agg_loss m k mode (length parts) (Some n) (Some b) (Some h)) parts = Inr (map Fin ls)
    \<and> agg_loss (concat (map fst parts)) (concat (map snd parts)) mode 1 None None (Some h)
        = Inr (Fin (sum_list ls / real (length parts)))"
proof -
  let ?v = "\<lambda>(m, k). sum_list (map (row_value mode) (zip m k)) * mode_scale mode n b h * real (length parts)"
  have "map_r (\<lambda>(m, k). agg_loss m k mode (length parts) (Some n) (Some b) (Some h)) parts = Inr (map (Fin \<circ> ?v) parts)"
    by (rule map_r_Inr) (use assms in \<open>auto simp: agg_loss_value\<close>)
  moreover have "sum_list (map ?v parts) = sum_list (map (row_value mode) (concat (map (\<lambda>(m, k). zip m k) parts)))
      * mode_scale mode n b h * real (length parts)"
    using sum_parts [of "row_value mode" "mode_scale mode n b h * real (length parts)" parts] by (simp add: mult.assoc)
  moreover have "agg_loss (concat (map fst parts)) (concat (map snd parts)) mode 1 None None (Some h)
      = Inr (Fin (sum_list (map (row_value mode) (zip (concat (map fst parts)) (concat (map snd parts)))) * mode_scale mode n b h * real 1))"
    by (rule agg_loss_value) (use assms zip_concat_parts(2) [OF assms(3)] in auto)
  ultimately show ?thesis using assms(2)
    by (intro exI [of _ "map ?v parts"]) (simp add: zip_concat_parts(1) [OF assms(3)])
qed

theorem agg_loss_parallel_invariant_witness:
  "\<exists>ls. map_r (\<lambda>(m, k). agg_loss m k ''token-mean'' 2 (Some 3) (Some 2) (Some 2))
       [([[1, 2]], [[1, 1]]), ([[6, 5]], [[1, 0]])] = Inr (map Fin ls)
    \<and> agg_loss [[1, 2], [6, 5]] [[1, 1], [1, 0]] ''token-mean'' 1 None None (Some 2) = Inr (Fin (sum_list ls / 2))"
  using agg_loss_parallel_invariant [of "''token-mean''" "[([[1, 2]], [[1, 1]]), ([[6, 5]], [[1, 0]])]" 2 3 2]
  by (simp add: agg_modes_def sum2d_def seq_mask_def numeral_2_eq_2)

section \<open>GRPO advantages\<close>

lemma group_scores_map:
  assumes "length scores = length index"
  shows "group_scores (map (\<lambda>(s, g). f s g) (zip scores index)) index g = map (\<lambda>s. f s g) (group_scores scores index g)"
  using assms by (induction scores index rule: list_induct2) (simp_all add: group_scores_def)

text \<open>
  The GRPO advantage is relative to the prompt group: in every group of at least two responses
  the advantages sum to zero, with or without normalisation, whatever the other groups are; a
  response that is alone in its group keeps its score, divided by \<open>1 + epsilon\<close> when normalised.
\<close>

lemma grpo_group_relative:
  assumes "length scores = length index"
  shows "(length (group_scores scores index g) \<noteq> 1 \<longrightarrow>
           sum_list (group_scores (grpo_scores scores index epsilon nrm) index g) = 0)
    \<and> (\<forall>s. group_scores scores index g = [s] \<longrightarrow>
           group_scores (grpo_scores scores index epsilon nrm) index g = [if nrm then s / (1 + epsilon) else s])"
proof -
  let ?xs = "group_scores scores index g"
  let ?m = "if length ?xs = 1 then 0 else mean_of ?xs" and ?sd = "if length ?xs = 1 then 1 else std_of ?xs"
  have eq: "group_scores (grpo_scores scores index epsilon nrm) index g
      = map (\<lambda>s. if nrm then (s - ?m) / (?sd + epsilon) else s - ?m) ?xs"
    using group_scores_map [OF assms, of "\<lambda>s g. let xs = group_scores scores index g;
        m = (if length xs = 1 then 0 else mean_of xs); sd = (if length xs = 1 then 1 else std_of xs)
        in if nrm then (s - m) / (sd + epsilon) else s - m" g]
    unfolding grpo_scores_def by (simp only: Let_def)
  have dev: "sum_list (map (\<lambda>s. s - mean_of ?xs) ?xs) = 0"
  proof (cases "?xs = []")
    case False
    have "sum_list (map (\<lambda>s. s - c) ys) = sum_list ys - of_nat (length ys) * c" for c and ys :: "real list"
      by (induction ys) (simp_all add: algebra_simps)
    then show ?thesis using False by (simp add: mean_of_def)
  qed simp
  have "sum_list (map (\<lambda>s. (s - mean_of ?xs) / c) ?xs) = 0" for c
    using dev sum_list_mult_const [of "\<lambda>s. s - mean_of ?xs" "1 / c" ?xs] by simp
  then show ?thesis using dev unfolding eq by (cases nrm) auto
qed

section \<open>The top-K loss\<close>

definition single_k :: "mat \<Rightarrow> tensor" where
  "single_k xs = T3 (map (map (\<lambda>x. [x])) xs)"

lemma sum_k_single: "sum_k f (map (map (\<lambda>x. [x])) xs) (map (map (\<lambda>x. [x])) ys) (map (map (\<lambda>x. [x])) zs) = map3d f xs ys zs"
  by (simp add: sum_k_def map3d_def zip_map_map zip_map1 zip_map2 comp_def case_prod_beta)

text \<open>No token has a negative advantage and a ratio beyond the dual-clip bound.\<close>

definition dual_clip_inactive :: "actor_config \<Rightarrow> mat \<Rightarrow> mat \<Rightarrow> mat \<Rightarrow> bool" where
  "dual_clip_inactive c ol l a \<longleftrightarrow> 1 + clip_high c \<le> clip_c c \<and>
     (\<forall>(r, s, t)\<in>set (zip ol (zip l a)). \<forall>(x, y, z)\<in>set (zip r (zip s t)). z < 0 \<longrightarrow> exp (neg_approx_kl x y) \<le> clip_c c)"

lemma dual_clip_token:
  assumes "1 + clip_high c \<le> clip_c c" "z < 0 \<Longrightarrow> exp (neg_approx_kl x y) \<le> clip_c c"
  shows "dual_clip_loss c x y z = clip_pg_loss c x y z"
proof (cases "z < 0")
  case True
  have "clamp (1 - clip_low c) (1 + clip_high c) (exp (neg_approx_kl x y)) \<le> clip_c c"
    using assms(1) by (simp add: clamp_def)
  then have "pg_loss2 c x y z \<le> - z * clip_c c" unfolding pg_loss2_def using True by (intro mult_left_mono) simp_all
  moreover have "pg_loss1 x y z \<le> - z * clip_c c" unfolding pg_loss1_def using True assms(2) by (intro mult_left_mono) simp_all
  ultimately show ?thesis by (simp add: dual_clip_loss_def clip_pg_loss_def)
qed (simp add: dual_clip_loss_def)

lemma dual_clip_mat: "dual_clip_inactive c ol l a \<Longrightarrow> map3d (dual_clip_loss c) ol l a = map3d (clip_pg_loss c) ol l a"
  unfolding map3d_def dual_clip_inactive_def by (intro map_cong refl) (auto intro!: map_cong dual_clip_token)

text \<open>
  With one candidate per position the top-K loss is the vanilla PPO loss, for every aggregation
  mode, clipping range and importance weights, as long as the dual clip of the vanilla loss, which
  the top-K loss does not have, is not active for any token.
\<close>

lemma topk_single_candidate_is_vanilla:
  assumes "dual_clip_inactive c ol l a" "1 < clip_c c"
  shows "rbind (compute_policy_loss_vanilla_topk (single_k ol) (single_k l) (single_k a) msk mode (Some c) w) (\<lambda>r. Inr (fst r))
    = rbind (compute_policy_loss_vanilla_topk (T2 ol) (T2 l) (T2 a) msk mode (Some c) w) (\<lambda>r. Inr (fst r))"
  using assms(2)
  by (cases "config_agg_loss c mode (apply_weights w (map3d (clip_pg_loss c) ol l a)) msk")
    (simp_all add: compute_policy_loss_vanilla_topk_def compute_policy_loss_vanilla_def single_k_def sum_k_single dual_clip_mat [OF assms(1)] Let_def)

definition demo_actor :: actor_config where
  "demo_actor = \<lparr>ac_clip_ratio = 1 / 5, ac_clip_low = None, ac_clip_high = None, ac_clip_c = None, ac_dp_size = 1,
     ac_batch_num_tokens = None, ac_global_batch_size = None, ac_loss_scale_factor = None\<rparr>"

text \<open>The clip fraction of the top-K loss divides by the number of tokens, not of candidates, and can exceed 1.\<close>

lemma topk_clipfrac_exceeds_one:
  "\<exists>loss m. compute_policy_loss_vanilla_topk (T3 [[[0, 0]]]) (T3 [[[1, 1]]]) (T3 [[[1, 1]]]) [[1]] ''token-mean'' (Some demo_actor) None
     = Inr (loss, m) \<and> pm_clipfrac m = 2"
proof -
  have e: "1 + 1 \<le> exp (1 :: real)" by (rule exp_ge_add_one_self)
  have "pg_loss2 demo_actor 0 1 1 > pg_loss1 0 1 1"
    using e by (simp add: pg_loss1_def pg_loss2_def neg_approx_kl_def clamp_def clip_low_def clip_high_def demo_actor_def)
  then show ?thesis
    by (simp add: compute_policy_loss_vanilla_topk_def config_agg_loss_def agg_loss_def demo_actor_def apply_weights_def sum_k_def
        map2d_def sum2d_def bool_real_def)
qed

end
