(* ===== verification/Async_Rollouter.thy ===== *)
theory Async_Rollouter
  imports Message_Queue
begin

text \<open>
  \<open>verl/experimental/fully_async_policy/fully_async_rollouter.py\<close>: the coroutines of the
  \<open>FullyAsyncRollouter\<close> actor around the message queue of \<open>Message_Queue\<close>.  A coroutine runs without
  interruption between two awaits, so a step below is the code between two awaits: of the feeder
  (\<open>_feed_samples\<close>), the processor (\<open>_processor_worker\<close>), the generation tasks
  (\<open>_process_single_sample_streaming\<close>), the monitor (\<open>_async_monitor_loop\<close>) and
  \<open>reset_staleness\<close>, which the trainer calls after a weight update.  Answers of the queue actor may be
  out of date when they are used.  Generation itself is a parameter: it may finish at any time, and does
  not raise.
\<close>

section \<open>State\<close>

text \<open>
  A task has not put its sample yet, has put it and waits for the answer of the queue, or is finished;
  a finished task stays in \<open>active_tasks\<close> until the processor waits for it.
\<close>

datatype task_status = Running | Stored bool | Finished

text \<open>
  Where the processor is: at the top of its loop; awaiting the statistics; with the answer \<open>queue_size\<close>;
  about to take the lock to pause; draining; allowed to take a sample; with a sample and waiting
  for capacity, in the second case inside \<open>asyncio.wait\<close> with the lock held; waiting for the resume event;
  about to submit; after the end signal, without and with the lock; returned.
\<close>

datatype 'a phase = Top | Answer nat | Pausing | Draining | Cleared | Holding 'a | Full 'a | Stalled 'a | Submitting 'a
  | Ending | Ending_wait | Returned

text \<open>\<open>reset_staleness\<close>: not running, after counting \<open>active_tasks\<close>, and with the answer of the queue added.\<close>

datatype reset_phase = No_reset | Counted nat | Answered nat

text \<open>The feeder: the samples the iterator will still yield, about to send the end signal, returned.\<close>

datatype 'a feeder = Feeding "'a list" | Fed | Feed_returned

text \<open>The monitor: testing \<open>running\<close>, sleeping, with the answer \<open>queue_size\<close>, returned.\<close>

datatype monitor = Checking | Sleeping | Asked nat | Gone

record 'a rollouter =
  ro_feeder :: "'a feeder"
  ro_global_steps :: nat
  ro_total_steps :: nat
  ro_pending :: "'a option list"
  ro_phase :: "'a phase"
  ro_tasks :: "('a \<times> task_status) list"
  ro_paused :: bool
  ro_resume :: bool
  ro_running :: bool
  ro_signalled :: bool
  ro_reset :: reset_phase
  ro_monitor :: monitor
  ro_staleness :: nat
  ro_max_required :: nat
  ro_max_queue :: nat
  ro_max_concurrent :: nat
  ro_generated :: nat
  ro_step_generated :: nat
  ro_dropped :: nat
  ro_processed :: nat
  ro_completed_steps :: nat
  ro_step_history :: "(nat \<times> nat) list"
  ro_mq :: "'a option message_queue"

definition processor_locks :: "'a phase \<Rightarrow> bool" where
  "processor_locks p = (case p of Full _ \<Rightarrow> True | Ending_wait \<Rightarrow> True | _ \<Rightarrow> False)"

definition lock_free :: "'a rollouter \<Rightarrow> bool" where
  "lock_free s = (ro_reset s = No_reset \<and> \<not> processor_locks (ro_phase s))"

section \<open>Configuration\<close>

record rollouter_config =
  rc_mini_batch :: nat
  rc_require_batches :: nat
  rc_staleness_threshold :: rat
  rc_trigger_sync :: nat
  rc_per_replica :: nat
  rc_steps_limit :: "nat option"

definition check_config :: "rollouter_config \<Rightarrow> unit result" where
  "check_config c =
     rbind (assert_r (rc_staleness_threshold c \<ge> 0) AssertionError) (\<lambda>_.
     assert_r (rc_trigger_sync c \<ge> 1) AssertionError)"

definition required_samples :: "rollouter_config \<Rightarrow> nat" where
  "required_samples c = rc_mini_batch c * rc_require_batches c"

definition total_rollout_steps :: "rollouter_config \<Rightarrow> nat \<Rightarrow> nat \<Rightarrow> nat" where
  "total_rollout_steps c dataloader_len epochs =
     (case rc_steps_limit c of None \<Rightarrow> dataloader_len * epochs | Some n \<Rightarrow> min n (dataloader_len * epochs))"

definition max_required_samples :: "rollouter_config \<Rightarrow> nat" where
  "max_required_samples c = nat \<lfloor>of_nat (required_samples c) * (rc_staleness_threshold c + 1) * of_nat (rc_trigger_sync c)\<rfloor>"

definition concurrent_limit :: "rollouter_config \<Rightarrow> nat \<Rightarrow> nat" where
  "concurrent_limit c servers = min (servers * rc_per_replica c) (max_required_samples c)"

text \<open>The object after \<open>__init__\<close>, \<open>set_max_required_samples\<close>, \<open>set_message_queue_client\<close> and the start of \<open>fit\<close>.\<close>

definition start_rollouter ::
  "rollouter_config \<Rightarrow> nat \<Rightarrow> nat \<Rightarrow> nat \<Rightarrow> 'a list \<Rightarrow> 'a rollouter result" where
  "start_rollouter c servers dataloader_len epochs samples =
     rbind (check_config c) (\<lambda>_.
     rbind (init_queue (Some (int (max_required_samples c)))) (\<lambda>q.
     Inr \<lparr>ro_feeder = Feeding samples, ro_global_steps = 1, ro_total_steps = total_rollout_steps c dataloader_len epochs,
       ro_pending = [], ro_phase = Top, ro_tasks = [], ro_paused = False, ro_resume = True, ro_running = True, ro_signalled = False,
       ro_reset = No_reset, ro_monitor = Checking, ro_staleness = 0, ro_max_required = max_required_samples c,
       ro_max_queue = max_required_samples c, ro_max_concurrent = concurrent_limit c servers, ro_generated = 0,
       ro_step_generated = 0, ro_dropped = 0, ro_processed = 0, ro_completed_steps = 1, ro_step_history = [],
       ro_mq = q\<rparr>))"

section \<open>Steps\<close>

text \<open>\<open>_should_pause_generation\<close>, given the queue size the queue actor answered.\<close>

definition should_pause :: "nat \<Rightarrow> 'a rollouter \<Rightarrow> bool" where
  "should_pause queue_size s = (queue_size \<ge> ro_max_queue s \<or> ro_staleness s \<ge> ro_max_required s)"

definition finished_tasks :: "'a rollouter \<Rightarrow> ('a \<times> task_status) list" where
  "finished_tasks s = filter (\<lambda>t. snd t = Finished) (ro_tasks s)"

text \<open>Waiting for a set of tasks: the finished ones leave \<open>active_tasks\<close>.\<close>

definition reap :: "'a rollouter \<Rightarrow> 'a rollouter" where
  "reap s = s\<lparr>ro_tasks := filter (\<lambda>t. snd t \<noteq> Finished) (ro_tasks s)\<rparr>"

definition feed_sample :: "'a \<Rightarrow> 'a list \<Rightarrow> 'a rollouter \<Rightarrow> 'a rollouter" where
  "feed_sample x xs s =
     (let s' = s\<lparr>ro_pending := ro_pending s @ [Some x]\<rparr> in
      if ro_global_steps s \<ge> ro_total_steps s then s'\<lparr>ro_feeder := Fed\<rparr>
      else s'\<lparr>ro_feeder := (if xs = [] then Fed else Feeding xs), ro_global_steps := ro_global_steps s + 1\<rparr>)"

text \<open>\<open>pending_queue.get()\<close> and what follows up to the next await.\<close>

definition take_pending :: "'a rollouter \<Rightarrow> 'a rollouter" where
  "take_pending s = (case ro_pending s of
       [] \<Rightarrow> s
     | sample # rest \<Rightarrow> s\<lparr>ro_pending := rest, ro_staleness := ro_staleness s + 1,
                         ro_phase := (case sample of None \<Rightarrow> Ending | Some x \<Rightarrow> Holding x)\<rparr>)"

text \<open>A task after its \<open>put_sample\<close>.\<close>

definition task_done :: "bool \<Rightarrow> 'a rollouter \<Rightarrow> 'a rollouter" where
  "task_done success s =
     (if success then s\<lparr>ro_generated := ro_generated s + 1, ro_step_generated := ro_step_generated s + 1, ro_processed := ro_processed s + 1\<rparr>
      else s\<lparr>ro_dropped := ro_dropped s + 1, ro_processed := ro_processed s + 1\<rparr>)"

definition begin_reset :: "'a rollouter \<Rightarrow> 'a rollouter" where
  "begin_reset s = s\<lparr>ro_paused := False, ro_resume := True, ro_reset := Counted (length (ro_tasks s))\<rparr>"

definition end_reset :: "nat \<Rightarrow> 'a rollouter \<Rightarrow> 'a rollouter" where
  "end_reset v s =
     (let s' = s\<lparr>ro_staleness := v, ro_step_generated := 0, ro_reset := No_reset\<rparr> in
      if ro_step_generated s > 0 then
        s'\<lparr>ro_completed_steps := ro_completed_steps s + 1,
           ro_step_history := py_take_last 10 (ro_step_history s @ [(ro_completed_steps s + 1, ro_step_generated s)])\<rparr>
      else s')"

datatype 'a ro_event = Internal | Feed 'a | Submit 'a | Store 'a bool | Queue "'a option mq_event" | Signal bool | Reset | Resize

inductive ro_step :: "'a rollouter \<Rightarrow> 'a ro_event \<Rightarrow> 'a rollouter \<Rightarrow> bool" where
  Feed: "ro_feeder s = Feeding (x # xs) \<Longrightarrow> length (ro_pending s) < 128 \<Longrightarrow> ro_step s (Feed x) (feed_sample x xs s)"
| Feed_none: "ro_feeder s = Feeding [] \<Longrightarrow> ro_step s Internal (s\<lparr>ro_feeder := Fed\<rparr>)"
| Feed_end: "ro_feeder s = Fed \<Longrightarrow> length (ro_pending s) < 128 \<Longrightarrow>
    ro_step s Internal (s\<lparr>ro_pending := ro_pending s @ [None], ro_feeder := Feed_returned\<rparr>)"
| Paused: "ro_phase s = Top \<Longrightarrow> ro_paused s \<Longrightarrow> ro_step s Internal (s\<lparr>ro_phase := Pausing\<rparr>)"
| Ask: "ro_phase s = Top \<Longrightarrow> \<not> ro_paused s \<Longrightarrow> ro_step s Internal (s\<lparr>ro_phase := Answer (length (mq_queue (ro_mq s)))\<rparr>)"
| Decide: "ro_phase s = Answer q \<Longrightarrow>
    ro_step s Internal (s\<lparr>ro_phase := (if should_pause q s then Pausing else Cleared)\<rparr>)"
| Pause: "ro_phase s = Pausing \<Longrightarrow> lock_free s \<Longrightarrow>
    ro_step s Internal (s\<lparr>ro_paused := True, ro_resume := False, ro_phase := Draining\<rparr>)"
| Drain: "ro_phase s = Draining \<Longrightarrow> lock_free s \<Longrightarrow>
    ro_step s Internal (s\<lparr>ro_tasks := filter (\<lambda>t. \<not> (P t \<and> snd t = Finished)) (ro_tasks s)\<rparr>)"
| Resumed: "ro_phase s = Draining \<Longrightarrow> ro_resume s \<Longrightarrow> ro_step s Internal (s\<lparr>ro_phase := Top\<rparr>)"
| Take: "ro_phase s = Cleared \<Longrightarrow> ro_pending s \<noteq> [] \<Longrightarrow> ro_step s Internal (take_pending s)"
| Capacity: "ro_phase s = Holding x \<Longrightarrow> length (ro_tasks s) \<ge> ro_max_concurrent s \<Longrightarrow> lock_free s \<Longrightarrow> ro_tasks s \<noteq> [] \<Longrightarrow>
    ro_step s Internal (s\<lparr>ro_phase := Full x\<rparr>)"
| Freed: "ro_phase s = Full x \<Longrightarrow> finished_tasks s \<noteq> [] \<Longrightarrow> ro_step s Internal (reap s\<lparr>ro_phase := Holding x\<rparr>)"
| Room: "ro_phase s = Holding x \<Longrightarrow> length (ro_tasks s) < ro_max_concurrent s \<Longrightarrow>
    ro_step s Internal (s\<lparr>ro_phase := (if ro_paused s then Stalled x else Submitting x)\<rparr>)"
| Unstalled: "ro_phase s = Stalled x \<Longrightarrow> ro_resume s \<Longrightarrow> ro_step s Internal (s\<lparr>ro_phase := Submitting x\<rparr>)"
| Submit: "ro_phase s = Submitting x \<Longrightarrow> lock_free s \<Longrightarrow>
    ro_step s (Submit x) (s\<lparr>ro_tasks := ro_tasks s @ [(x, Running)], ro_phase := Top\<rparr>)"
| End_wait: "ro_phase s = Ending \<Longrightarrow> ro_tasks s \<noteq> [] \<Longrightarrow> lock_free s \<Longrightarrow> ro_step s Internal (s\<lparr>ro_phase := Ending_wait\<rparr>)"
| End_freed: "ro_phase s = Ending_wait \<Longrightarrow> finished_tasks s \<noteq> [] \<Longrightarrow> ro_step s Internal (reap s\<lparr>ro_phase := Ending\<rparr>)"
| End_return: "ro_phase s = Ending \<Longrightarrow> ro_tasks s = [] \<Longrightarrow> ro_step s Internal (s\<lparr>ro_phase := Returned\<rparr>)"
| Store: "i < length (ro_tasks s) \<Longrightarrow> ro_tasks s ! i = (x, Running) \<Longrightarrow> put_sample (Some x) (ro_mq s) = Inr (b, q) \<Longrightarrow>
    ro_step s (Store x b) (s\<lparr>ro_tasks := (ro_tasks s)[i := (x, Stored b)], ro_mq := q\<rparr>)"
| Finish: "i < length (ro_tasks s) \<Longrightarrow> ro_tasks s ! i = (x, Stored b) \<Longrightarrow>
    ro_step s Internal (task_done b (s\<lparr>ro_tasks := (ro_tasks s)[i := (x, Finished)]\<rparr>))"
| End_signal: "ro_phase s = Returned \<Longrightarrow> ro_feeder s = Feed_returned \<Longrightarrow> ro_pending s = [] \<Longrightarrow> \<not> ro_signalled s \<Longrightarrow>
    put_sample None (ro_mq s) = Inr (b, q) \<Longrightarrow> ro_step s (Signal b) (s\<lparr>ro_mq := q, ro_signalled := True\<rparr>)"
| Stop: "ro_signalled s \<Longrightarrow> lock_free s \<Longrightarrow> ro_step s Internal (s\<lparr>ro_running := False\<rparr>)"
| Monitor_check: "ro_monitor s = Checking \<Longrightarrow> lock_free s \<Longrightarrow>
    ro_step s Internal (s\<lparr>ro_monitor := (if ro_running s then Sleeping else Gone)\<rparr>)"
| Monitor_ask: "ro_monitor s = Sleeping \<Longrightarrow>
    ro_step s Internal (s\<lparr>ro_monitor := (if ro_paused s then Asked (length (mq_queue (ro_mq s))) else Checking)\<rparr>)"
| Monitor_stay: "ro_monitor s = Asked q \<Longrightarrow> should_pause q s \<Longrightarrow> ro_step s Internal (s\<lparr>ro_monitor := Checking\<rparr>)"
| Monitor_resume: "ro_monitor s = Asked q \<Longrightarrow> \<not> should_pause q s \<Longrightarrow> lock_free s \<Longrightarrow>
    ro_step s Internal (s\<lparr>ro_monitor := Checking, ro_paused := False, ro_resume := True\<rparr>)"
| Begin_reset: "lock_free s \<Longrightarrow> ro_step s Internal (begin_reset s)"
| Answer_reset: "ro_reset s = Counted n \<Longrightarrow> ro_step s Internal (s\<lparr>ro_reset := Answered (n + length (mq_queue (ro_mq s)))\<rparr>)"
| End_reset: "ro_reset s = Answered v \<Longrightarrow> ro_step s Reset (end_reset v s)"
| Queue: "mq_step (ro_mq s) e q \<Longrightarrow> (\<forall>x b. e \<noteq> Put x b) \<Longrightarrow> ro_step s (Queue e) (s\<lparr>ro_mq := q\<rparr>)"
| Resize: "ro_step s Resize (s\<lparr>ro_max_concurrent := min n (ro_max_required s)\<rparr>)"

section \<open>Samples in flight\<close>

definition held :: "'a rollouter \<Rightarrow> 'a list" where
  "held s = (case ro_phase s of Holding x \<Rightarrow> [x] | Full x \<Rightarrow> [x] | Stalled x \<Rightarrow> [x] | Submitting x \<Rightarrow> [x] | _ \<Rightarrow> [])"

definition generating :: "'a rollouter \<Rightarrow> 'a list" where
  "generating s = map fst (filter (\<lambda>t. snd t = Running) (ro_tasks s))"

definition queued :: "'a option message_queue \<Rightarrow> nat" where
  "queued q = length (filter (\<lambda>x. x \<noteq> None) (mq_queue q))"

definition in_flight :: "'a rollouter \<Rightarrow> nat" where
  "in_flight s = length (held s) + length (generating s) + queued (ro_mq s)"

lemma queued_put_sample: "put_sample x q = Inr (b, q') \<Longrightarrow> queued q' \<le> queued q + (if x = None then 0 else 1)"
  by (auto simp: put_sample_def queued_def notify_all_def split: if_splits list.splits)

definition somes :: "'a option list \<Rightarrow> 'a list" where
  "somes xs = map the (filter (\<lambda>x. x \<noteq> None) xs)"

lemma somes_simps [simp]: "somes [] = []" "somes (None # xs) = somes xs" "somes (Some x # xs) = x # somes xs"
  "somes (xs @ ys) = somes xs @ somes ys" "somes (map Some zs) = zs"
  by (simp_all add: somes_def comp_def)

lemma subseq_somes: "subseq xs ys \<Longrightarrow> subseq (somes xs) (somes ys)"
proof (induction rule: list_emb.induct)
  case (list_emb_Cons xs ys y)
  then show ?case by (cases y) auto
next
  case (list_emb_Cons2 x y xs ys)
  then show ?case by (cases y) auto
qed simp

text \<open>What leaves the queue other than by a drop is delivered (or cleared).\<close>

lemma queued_other: "mq_step q e q' \<Longrightarrow> \<forall>x b. e \<noteq> Put x b \<Longrightarrow> queued q' + length (somes (gets_of [e])) \<le> queued q"
  by (erule mq_stepE) (auto simp: mq_ops put_validate_def get_validate_def queued_def somes_def split: list.splits if_splits)

lemma queued_le_length: "queued q \<le> length (mq_queue q)"
  by (simp add: queued_def)

lemma generating_append: "generating (s\<lparr>ro_tasks := ro_tasks s @ [(x, Running)], ro_phase := p\<rparr>) = generating s @ [x]"
  by (simp add: generating_def)

lemma generating_reap [simp]: "generating (reap s) = generating s"
  by (simp add: generating_def reap_def) (metis (mono_tags, lifting) task_status.distinct(3))

lemma filter_update_drop:
  assumes "i < length ts" "P (ts ! i)" "\<not> P y"
  shows "mset (filter P ts) = add_mset (ts ! i) (mset (filter P (ts[i := y])))"
  using assms
proof (induction ts arbitrary: i)
  case (Cons t ts)
  then show ?case by (cases i) auto
qed simp

lemma generating_store:
  assumes "i < length (ro_tasks s)" "ro_tasks s ! i = (x, Running)"
  shows "mset (generating s) = add_mset x (mset (map fst (filter (\<lambda>t. snd t = Running) ((ro_tasks s)[i := (x, Stored b)]))))"
  using filter_update_drop [OF assms(1), of "\<lambda>t. snd t = Running" "(x, Stored b)"] assms(2)
  by (simp add: generating_def)

lemma filter_update_other:
  assumes "i < length ts" "\<not> P (ts ! i)" "\<not> P y"
  shows "filter P (ts[i := y]) = filter P ts"
  using assms
proof (induction ts arbitrary: i)
  case (Cons t ts)
  then show ?case by (cases i) auto
qed simp

lemmas ro_ops = held_def in_flight_def take_pending_def task_done_def begin_reset_def end_reset_def feed_sample_def
  reap_def lock_free_def processor_locks_def Let_def

lemma start_rollouterD:
  assumes "start_rollouter c servers n epochs xs = Inr s"
  shows "ro_feeder s = Feeding xs" "ro_pending s = []" "ro_phase s = Top" "ro_tasks s = []" "ro_reset s = No_reset"
    "\<not> ro_signalled s" "ro_generated s = 0" "ro_dropped s = 0" "ro_processed s = 0" "ro_global_steps s = 1"
    "ro_total_steps s = total_rollout_steps c n epochs" "ro_max_concurrent s = concurrent_limit c servers"
    "ro_max_required s = max_required_samples c" "init_queue (Some (int (max_required_samples c))) = Inr (ro_mq s)"
    "mq_queue (ro_mq s) = []" "mq_max (ro_mq s) = max_required_samples c"
  using assms by (auto simp: start_rollouter_def rbind_eq_Inr_iff init_queue_def)

section \<open>What happens to a sample\<close>

fun fed_of :: "'a ro_event list \<Rightarrow> 'a list" where
  "fed_of [] = []"
| "fed_of (Feed x # es) = x # fed_of es"
| "fed_of (_ # es) = fed_of es"

fun submitted_of :: "'a ro_event list \<Rightarrow> 'a list" where
  "submitted_of [] = []"
| "submitted_of (Submit x # es) = x # submitted_of es"
| "submitted_of (_ # es) = submitted_of es"

fun stored_of :: "'a ro_event list \<Rightarrow> 'a list" where
  "stored_of [] = []"
| "stored_of (Store x _ # es) = x # stored_of es"
| "stored_of (_ # es) = stored_of es"

lemma ro_events_append [simp]:
  "fed_of (es @ fs) = fed_of es @ fed_of fs" "submitted_of (es @ fs) = submitted_of es @ submitted_of fs"
  "stored_of (es @ fs) = stored_of es @ stored_of fs"
proof -
  show "fed_of (es @ fs) = fed_of es @ fed_of fs" by (induction es rule: fed_of.induct) simp_all
  show "submitted_of (es @ fs) = submitted_of es @ submitted_of fs" by (induction es rule: submitted_of.induct) simp_all
  show "stored_of (es @ fs) = stored_of es @ stored_of fs" by (induction es rule: stored_of.induct) simp_all
qed

definition ended :: "'a rollouter \<Rightarrow> bool" where
  "ended s = (case ro_phase s of Ending \<Rightarrow> True | Ending_wait \<Rightarrow> True | Returned \<Rightarrow> True | _ \<Rightarrow> False)"

definition end_mark :: "'a rollouter \<Rightarrow> 'a option list" where
  "end_mark s = (if ro_feeder s = Feed_returned \<and> \<not> ended s then [None] else [])"

definition stored_tasks :: "'a rollouter \<Rightarrow> nat" where
  "stored_tasks s = length (filter (\<lambda>t. snd t \<noteq> Running \<and> snd t \<noteq> Finished) (ro_tasks s))"

definition ro_feeding :: "'a list \<Rightarrow> 'a ro_event list \<Rightarrow> 'a rollouter \<Rightarrow> bool" where
  "ro_feeding samples es s \<longleftrightarrow> (\<exists>rest. samples = fed_of es @ rest \<and> (\<forall>ys. ro_feeder s = Feeding ys \<longrightarrow> rest = ys))
     \<and> length (fed_of es) \<le> max 1 (ro_total_steps s)
     \<and> (\<forall>ys. ro_feeder s = Feeding ys \<longrightarrow> ro_global_steps s = length (fed_of es) + 1 \<and> length (fed_of es) < max 1 (ro_total_steps s))"

definition ro_flow :: "'a ro_event list \<Rightarrow> 'a rollouter \<Rightarrow> bool" where
  "ro_flow es s \<longleftrightarrow> (\<exists>ps. ro_pending s = map Some ps @ end_mark s \<and> fed_of es = submitted_of es @ held s @ ps)
     \<and> (ended s \<longrightarrow> ro_feeder s = Feed_returned \<and> ro_pending s = [])
     \<and> (ro_phase s = Returned \<longrightarrow> ro_tasks s = [])
     \<and> (ro_signalled s \<longrightarrow> ro_phase s = Returned)"

definition ro_counts :: "'a ro_event list \<Rightarrow> 'a rollouter \<Rightarrow> bool" where
  "ro_counts es s \<longleftrightarrow> mset (submitted_of es) = mset (generating s) + mset (stored_of es)
     \<and> ro_generated s + ro_dropped s = ro_processed s \<and> ro_processed s + stored_tasks s = length (stored_of es)"

definition ro_capacity :: "'a ro_event list \<Rightarrow> 'a rollouter \<Rightarrow> bool" where
  "ro_capacity es s \<longleftrightarrow> (Resize \<notin> set es \<longrightarrow> length (ro_tasks s) \<le> ro_max_concurrent s
     \<and> ((\<exists>x. ro_phase s = Stalled x \<or> ro_phase s = Submitting x) \<longrightarrow> length (ro_tasks s) < ro_max_concurrent s))"

lemma feeding_step:
  assumes "ro_feeding samples es s" "ro_step s e s'"
  shows "ro_feeding samples (es @ [e]) s'"
  using assms(2)
proof cases
  case (Feed x xs)
  then show ?thesis using assms(1) by (auto simp: ro_feeding_def feed_sample_def Let_def)
qed (use assms(1) in \<open>auto simp: ro_feeding_def ro_ops split: list.splits option.splits if_splits\<close>)

lemmas flow_defs = ro_flow_def end_mark_def ended_def held_def

lemma flow_step:
  assumes "ro_flow es s" "ro_step s e s'"
  shows "ro_flow (es @ [e]) s'"
  using assms(2)
proof cases
  case (Feed x xs)
  obtain ps where "ro_pending s = map Some ps" "fed_of es = submitted_of es @ held s @ ps" "\<not> ended s"
    using assms(1) Feed by (auto simp: ro_flow_def end_mark_def)
  then have "ro_pending s' = map Some (ps @ [x])" "fed_of (es @ [e]) = submitted_of (es @ [e]) @ held s' @ ps @ [x]"
    using Feed by (simp_all add: feed_sample_def held_def Let_def)
  moreover have "end_mark s' = []" "\<not> ended s'" "ro_phase s' = ro_phase s" "ro_tasks s' = ro_tasks s" "ro_signalled s' = ro_signalled s"
    using Feed \<open>\<not> ended s\<close> by (simp_all add: end_mark_def ended_def feed_sample_def Let_def)
  ultimately show ?thesis using assms(1) unfolding ro_flow_def by (metis append_Nil2)
next
  case Take
  obtain ps where ps: "ro_pending s = map Some ps @ end_mark s" "fed_of es = submitted_of es @ ps"
    using assms(1) Take by (auto simp: flow_defs)
  then show ?thesis using assms(1) Take by (cases ps) (auto simp: flow_defs take_pending_def split: if_splits)
qed (use assms(1) in \<open>auto simp: flow_defs ro_ops split: if_splits\<close>)

lemma length_filter_update:
  assumes "i < length ts"
  shows "length (filter P (ts[i := y])) + (if P (ts ! i) then 1 else 0) = length (filter P ts) + (if P y then 1 else 0)"
  using assms
proof (induction ts arbitrary: i)
  case (Cons t ts)
  then show ?case by (cases i) auto
qed simp

lemma filter_unfinished:
  assumes "\<And>t. Q t \<Longrightarrow> snd t \<noteq> Finished" "\<And>t. Q t \<Longrightarrow> R t"
  shows "filter Q (filter R ts) = filter Q ts"
  using assms by (induction ts) auto

lemma counts_same:
  assumes "ro_counts es s" "generating s' = generating s" "stored_tasks s' = stored_tasks s" "ro_generated s' = ro_generated s"
    "ro_dropped s' = ro_dropped s" "ro_processed s' = ro_processed s"
    "submitted_of fs = submitted_of es" "stored_of fs = stored_of es"
  shows "ro_counts fs s'"
  using assms by (simp add: ro_counts_def)

lemma counts_drop_finished:
  assumes "ro_tasks s' = filter R (ro_tasks s)" "\<And>t. snd t \<noteq> Finished \<Longrightarrow> R t"
  shows "generating s' = generating s" "stored_tasks s' = stored_tasks s"
proof -
  have "filter (\<lambda>t. snd t = Running) (filter R (ro_tasks s)) = filter (\<lambda>t. snd t = Running) (ro_tasks s)"
    by (rule filter_unfinished) (auto simp: assms(2))
  then show "generating s' = generating s" by (simp add: generating_def assms(1))
  have "filter (\<lambda>t. snd t \<noteq> Running \<and> snd t \<noteq> Finished) (filter R (ro_tasks s)) = filter (\<lambda>t. snd t \<noteq> Running \<and> snd t \<noteq> Finished) (ro_tasks s)"
    by (rule filter_unfinished) (auto simp: assms(2))
  then show "stored_tasks s' = stored_tasks s" by (simp add: stored_tasks_def assms(1) del: filter_filter)
qed

lemma ro_counts_step:
  assumes "ro_counts es s" "ro_step s e s'"
  shows "ro_counts (es @ [e]) s'"
  using assms(2)
proof cases
  case (Store i x b q)
  have "stored_tasks s' = stored_tasks s + 1"
    using length_filter_update [OF Store(3), of "\<lambda>t. snd t \<noteq> Running \<and> snd t \<noteq> Finished" "(x, Stored b)"] Store(2,4)
    by (simp add: stored_tasks_def)
  moreover have "mset (generating s) = add_mset x (mset (generating s'))"
    using generating_store [OF Store(3,4)] Store(2) by (simp add: generating_def)
  ultimately show ?thesis using assms(1) Store(1,2) by (simp add: ro_counts_def)
next
  case (Finish i x b)
  have "stored_tasks s = stored_tasks s' + 1"
    using length_filter_update [OF Finish(3), of "\<lambda>t. snd t \<noteq> Running \<and> snd t \<noteq> Finished" "(x, Finished)"] Finish(2,4)
    by (simp add: stored_tasks_def task_done_def)
  moreover have "ro_processed s' = ro_processed s + 1" "ro_generated s' + ro_dropped s' = ro_generated s + ro_dropped s + 1"
    using Finish(2) by (simp_all add: task_done_def)
  moreover have "filter (\<lambda>t. snd t = Running) ((ro_tasks s)[i := (x, Finished)]) = filter (\<lambda>t. snd t = Running) (ro_tasks s)"
    by (rule filter_update_other) (use Finish in auto)
  then have "generating s' = generating s" using Finish(2) by (simp add: generating_def task_done_def)
  ultimately show ?thesis using assms(1) Finish(1) by (simp add: ro_counts_def)
next
  case (Submit x)
  then show ?thesis using assms(1) by (simp add: ro_counts_def generating_def stored_tasks_def)
next
  case (Drain P)
  then show ?thesis using counts_drop_finished [of s' "\<lambda>t. \<not> (P t \<and> snd t = Finished)" s]
    by (intro counts_same [OF assms(1)]) auto
next
  case (Freed x)
  then show ?thesis using counts_drop_finished [of s' "\<lambda>t. snd t \<noteq> Finished" s]
    by (intro counts_same [OF assms(1)]) (auto simp: reap_def)
next
  case End_freed
  then show ?thesis using counts_drop_finished [of s' "\<lambda>t. snd t \<noteq> Finished" s]
    by (intro counts_same [OF assms(1)]) (auto simp: reap_def)
qed (rule counts_same [OF assms(1)];
  simp add: generating_def stored_tasks_def feed_sample_def take_pending_def begin_reset_def end_reset_def Let_def split: list.split)+

lemma capacity_drop:
  assumes "ro_capacity es s" "ro_tasks s' = filter R (ro_tasks s)" "ro_max_concurrent s' = ro_max_concurrent s"
    "\<forall>x. ro_phase s' \<noteq> Stalled x \<and> ro_phase s' \<noteq> Submitting x" "set es \<subseteq> set fs"
  shows "ro_capacity fs s'"
  using assms by (auto simp: ro_capacity_def intro: order_trans [OF length_filter_le])

lemma capacity_step:
  assumes "ro_capacity es s" "ro_step s e s'"
  shows "ro_capacity (es @ [e]) s'"
  using assms(2)
proof cases
  case (Drain P)
  then show ?thesis by (intro capacity_drop [OF assms(1), of s']) auto
next
  case (Freed x)
  then show ?thesis by (intro capacity_drop [OF assms(1), of s' "\<lambda>t. snd t \<noteq> Finished"]) (auto simp: reap_def)
next
  case End_freed
  then show ?thesis by (intro capacity_drop [OF assms(1), of s' "\<lambda>t. snd t \<noteq> Finished"]) (auto simp: reap_def)
qed (use assms(1) in \<open>auto simp: ro_capacity_def ro_ops split: if_splits list.splits option.splits\<close>)

section \<open>Staleness\<close>

text \<open>The samples the queue has dropped since the last reset, and in all.\<close>

fun count_loss :: "nat \<Rightarrow> 'a ro_event \<Rightarrow> nat" where
  "count_loss n Reset = 0"
| "count_loss n (Store _ False) = Suc n"
| "count_loss n _ = n"

definition recent_losses :: "'a ro_event list \<Rightarrow> nat" where
  "recent_losses es = foldl count_loss 0 es"

fun losses_of :: "'a ro_event list \<Rightarrow> nat" where
  "losses_of [] = 0"
| "losses_of (Store _ False # es) = Suc (losses_of es)"
| "losses_of (_ # es) = losses_of es"

text \<open>The samples consumers have received since the last reset.\<close>

fun count_read :: "nat \<Rightarrow> 'a ro_event \<Rightarrow> nat" where
  "count_read n Reset = 0"
| "count_read n (Queue e) = n + length (somes (gets_of [e]))"
| "count_read n _ = n"

definition recent_reads :: "'a ro_event list \<Rightarrow> nat" where
  "recent_reads es = foldl count_read 0 es"

lemma recent_reads_snoc [simp]: "recent_reads (es @ [e]) = count_read (recent_reads es) e"
  by (simp add: recent_reads_def)

text \<open>
  The samples of the current version: what the rollouter has taken and not lost to an earlier version, wherever it is now:
  held, being generated, queued, received by a consumer or dropped by the queue since the last reset.
\<close>

definition current_samples :: "'a ro_event list \<Rightarrow> 'a rollouter \<Rightarrow> nat" where
  "current_samples es s = in_flight s + recent_reads es + recent_losses es"

definition slack :: "'a ro_event list \<Rightarrow> nat" where
  "slack es = (if Reset \<in> set es then 1 else 0)"

lemma losses_of_append [simp]: "losses_of (es @ fs) = losses_of es + losses_of fs"
  by (induction es rule: losses_of.induct) simp_all

lemma recent_losses_snoc [simp]: "recent_losses (es @ [e]) = count_loss (recent_losses es) e"
  by (simp add: recent_losses_def)

definition ro_queue :: "'a ro_event list \<Rightarrow> 'a rollouter \<Rightarrow> bool" where
  "ro_queue es s \<longleftrightarrow> mq_max (ro_mq s) = ro_max_required s \<and> length (mq_queue (ro_mq s)) \<le> ro_max_required s
     \<and> (None \<in> set (mq_queue (ro_mq s)) \<longrightarrow> ro_signalled s)"

definition ro_bounded :: "'a ro_event list \<Rightarrow> 'a rollouter \<Rightarrow> bool" where
  "ro_bounded es s \<longleftrightarrow> current_samples es s \<le> ro_staleness s + slack es
     \<and> current_samples es s \<le> ro_max_required s + slack es
     \<and> (ro_phase s = Cleared \<longrightarrow> current_samples es s + 1 \<le> ro_max_required s + slack es)
     \<and> (\<forall>n. ro_reset s = Counted n \<longrightarrow> length (generating s) \<le> n)
     \<and> (\<forall>v. ro_reset s = Answered v \<longrightarrow> length (generating s) + queued (ro_mq s) \<le> v)
     \<and> recent_losses es \<le> slack es \<and> losses_of es + slack es \<le> count_list es Reset + recent_losses es"

lemma bounded_quiet:
  assumes "e \<noteq> Reset" "\<forall>x. e \<noteq> Store x False" "\<forall>f. e \<noteq> Queue f"
  shows "ro_bounded (es @ [e]) s = ro_bounded es s"
proof -
  have "count_loss n e = n" for n using assms(1,2) by (cases "(n, e)" rule: count_loss.cases) auto
  moreover have "losses_of [e] = 0" using assms(1,2) by (cases "[e]" rule: losses_of.cases) auto
  moreover have "count_read n e = n" for n using assms(1,3) by (cases "(n, e)" rule: count_read.cases) auto
  ultimately show ?thesis using assms(1) by (simp add: ro_bounded_def current_samples_def slack_def)
qed

lemma put_sample_queue:
  assumes "put_sample x q = Inr (b, q')" "length (mq_queue q) \<le> mq_max q"
  shows "mq_max q' = mq_max q \<and> length (mq_queue q') \<le> mq_max q \<and> set (mq_queue q') \<subseteq> insert x (set (mq_queue q))"
  using assms(1) by (cases rule: put_sampleE) (use assms(2) in \<open>auto simp: notify_all_def neq_Nil_conv\<close>)

lemma queue_step:
  assumes "ro_queue es s" "ro_flow es s" "ro_step s e s'"
  shows "ro_queue (es @ [e]) s'"
  using assms(3)
proof cases
  case (Store i x b q)
  then show ?thesis using assms(1) put_sample_queue [OF Store(5)] by (auto simp: ro_queue_def)
next
  case (End_signal b q)
  then show ?thesis using assms(1) put_sample_queue [OF End_signal(7)] by (auto simp: ro_queue_def)
next
  case (Queue e' q)
  from Queue(3,4) have "mq_max q = mq_max (ro_mq s)" "set (mq_queue q) \<subseteq> set (mq_queue (ro_mq s))" "length (mq_queue q) \<le> length (mq_queue (ro_mq s))"
    by (auto elim!: mq_stepE simp: mq_ops split: list.splits if_splits)
  then show ?thesis using assms(1) Queue(2) by (auto simp: ro_queue_def)
qed (use assms(1) in \<open>auto simp: ro_queue_def ro_ops split: list.splits option.splits\<close>)

lemma bounded_store:
  assumes "ro_bounded es s" "ro_queue es s" "ro_flow es s" "i < length (ro_tasks s)" "ro_tasks s ! i = (x, Running)"
    "put_sample (Some x) (ro_mq s) = Inr (b, q)"
  shows "ro_bounded (es @ [Store x b]) (s\<lparr>ro_tasks := (ro_tasks s)[i := (x, Stored b)], ro_mq := q\<rparr>)" (is "ro_bounded _ ?s")
proof -
  have "size (mset (generating s)) = size (add_mset x (mset (generating ?s)))"
    using generating_store [OF assms(4,5), of b] by (simp add: generating_def)
  then have g: "length (generating s) = Suc (length (generating ?s))" by (simp only: size_mset size_add_mset)
  have "None \<notin> set (mq_queue (ro_mq s))" using assms(2,3,4) by (auto simp: ro_queue_def ro_flow_def)
  then have n: "\<forall>x \<in> set (mq_queue (ro_mq s)). x \<noteq> None" by metis
  then have all: "filter (\<lambda>x. x \<noteq> None) (mq_queue (ro_mq s)) = mq_queue (ro_mq s)" by (rule filter_True)
  have h: "held ?s = held s" "ro_phase ?s = ro_phase s" "ro_reset ?s = ro_reset s" by (simp_all add: held_def)
  from assms(6) show ?thesis
  proof (cases rule: put_sampleE)
    case 1
    have "queued q = queued (ro_mq s)" using 1 n by (cases "mq_queue (ro_mq s)") (auto simp: queued_def notify_all_def filter_True)
    moreover have "ro_max_required s \<le> queued (ro_mq s)" using 1 all assms(2) by (simp add: queued_def ro_queue_def)
    ultimately show ?thesis using assms(1) g h 1(1) by (auto simp: ro_bounded_def current_samples_def in_flight_def slack_def split: if_splits)
  next
    case 2
    have "queued q = queued (ro_mq s) + 1" using 2 by (simp add: queued_def notify_all_def)
    then show ?thesis using assms(1) g h 2(1) by (simp add: bounded_quiet) (auto simp: ro_bounded_def current_samples_def in_flight_def)
  qed
qed

lemma bounded_reset:
  assumes "ro_bounded es s" "ro_reset s = Answered v"
  shows "ro_bounded (es @ [Reset]) (end_reset v s)"
proof -
  have "length (held s) \<le> 1" by (simp add: held_def split: phase.split)
  moreover have "held (end_reset v s) = held s" "generating (end_reset v s) = generating s" "ro_mq (end_reset v s) = ro_mq s"
    "ro_phase (end_reset v s) = ro_phase s" "ro_staleness (end_reset v s) = v" "ro_max_required (end_reset v s) = ro_max_required s"
    "ro_reset (end_reset v s) = No_reset"
    by (simp_all add: end_reset_def held_def generating_def Let_def)
  ultimately show ?thesis using assms by (auto simp: ro_bounded_def current_samples_def in_flight_def slack_def split: if_splits)
qed

lemma ro_bounded_step:
  assumes "ro_bounded es s" "ro_queue es s" "ro_flow es s" "ro_step s e s'"
  shows "ro_bounded (es @ [e]) s'"
  using assms(4)
proof cases
  case (Store i x b q)
  then show ?thesis using bounded_store [OF assms(1-3) Store(3-5)] by simp
next
  case (End_reset v)
  then show ?thesis using bounded_reset [OF assms(1)] by simp
next
  case (Drain P)
  then show ?thesis using assms(1) counts_drop_finished(1) [of s' "\<lambda>t. \<not> (P t \<and> snd t = Finished)" s]
    by (simp add: bounded_quiet) (simp add: ro_bounded_def current_samples_def in_flight_def held_def)
next
  case (Finish i x b)
  have "filter (\<lambda>t. snd t = Running) ((ro_tasks s)[i := (x, Finished)]) = filter (\<lambda>t. snd t = Running) (ro_tasks s)"
    by (rule filter_update_other) (use Finish in auto)
  then show ?thesis using assms(1) by (simp add: Finish bounded_quiet) (simp add: ro_bounded_def current_samples_def ro_ops generating_def)
next
  case (Decide q)
  then show ?thesis using assms(1) by (simp add: bounded_quiet) (auto simp: ro_bounded_def current_samples_def ro_ops generating_def should_pause_def)
next
  case Take
  then obtain p ps where "ro_pending s = p # ps" by (cases "ro_pending s") auto
  then show ?thesis using assms(1) Take by (cases p; simp add: bounded_quiet) (auto simp: ro_bounded_def current_samples_def ro_ops generating_def)
next
  case (End_signal b q)
  then show ?thesis using assms(1) queued_put_sample [OF End_signal(7)]
    by (simp add: bounded_quiet) (auto simp: ro_bounded_def current_samples_def ro_ops generating_def)
next
  case (Queue e' q)
  have "queued q + length (somes (gets_of [e'])) \<le> queued (ro_mq s)" by (rule queued_other [OF Queue(3,4)])
  then show ?thesis using assms(1) Queue(1,2)
    by (simp add: ro_bounded_def current_samples_def in_flight_def generating_def held_def slack_def del: gets_of.simps) auto
next
  case Answer_reset
  then show ?thesis using assms(1) queued_le_length [of "ro_mq s"]
    by (simp add: bounded_quiet) (auto simp: ro_bounded_def current_samples_def ro_ops generating_def)
next
  case Begin_reset
  have "length (generating s) \<le> length (ro_tasks s)" by (simp add: generating_def)
  with Begin_reset show ?thesis using assms(1)
    by (simp add: bounded_quiet) (auto simp: ro_bounded_def current_samples_def in_flight_def begin_reset_def generating_def held_def)
next
  case (Freed x)
  then show ?thesis using assms(1) counts_drop_finished(1) [of s' "\<lambda>t. snd t \<noteq> Finished" s]
    by (simp add: bounded_quiet reap_def) (simp add: ro_bounded_def current_samples_def in_flight_def held_def)
next
  case End_freed
  then show ?thesis using assms(1) counts_drop_finished(1) [of s' "\<lambda>t. snd t \<noteq> Finished" s]
    by (simp add: bounded_quiet reap_def) (simp add: ro_bounded_def current_samples_def in_flight_def held_def)
qed (use assms(1) in \<open>simp_all add: bounded_quiet, auto simp: ro_bounded_def current_samples_def ro_ops generating_def split: if_splits\<close>)

text \<open>All of it, for a run that starts with the samples \<open>samples\<close>.\<close>

definition ro_inv :: "'a list \<Rightarrow> 'a ro_event list \<Rightarrow> 'a rollouter \<Rightarrow> bool" where
  "ro_inv samples es s \<longleftrightarrow> ro_feeding samples es s \<and> ro_flow es s \<and> ro_counts es s \<and> ro_capacity es s \<and> ro_queue es s \<and> ro_bounded es s"

definition rollouter_started :: "'a list \<Rightarrow> 'a rollouter \<Rightarrow> bool" where
  "rollouter_started samples s \<longleftrightarrow> (\<exists>c servers n epochs. start_rollouter c servers n epochs samples = Inr s)"

lemma inv_start: 
  assumes "rollouter_started samples s"
  shows "ro_inv samples [] s"
proof -
  obtain c servers n epochs where "start_rollouter c servers n epochs samples = Inr s" using assms by (auto simp: rollouter_started_def)
  note s = start_rollouterD [OF this]
  show ?thesis
    by (simp add: s ro_inv_def ro_feeding_def flow_defs ro_counts_def ro_capacity_def ro_queue_def ro_bounded_def
      current_samples_def in_flight_def generating_def stored_tasks_def queued_def slack_def recent_losses_def recent_reads_def)
qed

lemma inv_step: "ro_inv samples es s \<Longrightarrow> ro_step s e s' \<Longrightarrow> ro_inv samples (es @ [e]) s'"
  by (auto simp: ro_inv_def intro: feeding_step flow_step ro_counts_step capacity_step queue_step ro_bounded_step)

interpretation rollouter: history_invariant "rollouter_started samples" ro_step "ro_inv samples" for samples
  by unfold_locales (fact inv_start, fact inv_step)

section \<open>The queue of the rollouter\<close>

fun queue_events :: "'a ro_event list \<Rightarrow> 'a option mq_event list" where
  "queue_events [] = []"
| "queue_events (Store x b # es) = Put (Some x) b # queue_events es"
| "queue_events (Signal b # es) = Put None b # queue_events es"
| "queue_events (Queue e # es) = e # queue_events es"
| "queue_events (_ # es) = queue_events es"

lemma queue_events_append [simp]: "queue_events (es @ fs) = queue_events es @ queue_events fs"
  by (induction es rule: queue_events.induct) simp_all

lemma queue_runs:
  assumes "run ro_step s es s'"
  shows "run mq_step (ro_mq s) (queue_events es) (ro_mq s')"
  using assms
proof (induction rule: run.induct)
  case (run_snoc s es s' e s'')
  from run_snoc.hyps(2) have "if queue_events [e] = [] then ro_mq s'' = ro_mq s' else (\<exists>f. queue_events [e] = [f] \<and> mq_step (ro_mq s') f (ro_mq s''))"
    by cases (auto simp: ro_ops split: list.splits option.splits intro: Put)
  with run_snoc.IH show ?case by (auto split: if_splits intro: run.run_snoc)
qed (simp add: run_Nil)

definition ro_puts :: "'a ro_event list \<Rightarrow> 'a rollouter \<Rightarrow> bool" where
  "ro_puts es s \<longleftrightarrow> puts_of (queue_events es) = map Some (stored_of es) @ (if ro_signalled s then [None] else [])"

lemma puts_step:
  assumes "ro_puts es s" "ro_flow es s" "ro_step s e s'"
  shows "ro_puts (es @ [e]) s'"
  using assms(3)
proof cases
  case (Queue e' q)
  then have "puts_of [e'] = []" by (cases "[e']" rule: puts_of.cases) auto
  then show ?thesis using assms(1) Queue by (simp add: ro_puts_def)
next
  case (Store i x b q)
  then have "\<not> ro_signalled s" using assms(2) by (auto simp: ro_flow_def)
  then show ?thesis using assms(1) Store by (simp add: ro_puts_def)
qed (use assms(1) in \<open>auto simp: ro_puts_def ro_ops split: list.splits option.splits\<close>)

interpretation puts: history_invariant "rollouter_started samples" ro_step "\<lambda>es s. ro_inv samples es s \<and> ro_puts es s" for samples
proof (unfold_locales, goal_cases)
  case (1 s)
  then show ?case using inv_start [OF 1] by (auto simp: ro_puts_def rollouter_started_def dest: start_rollouterD)
next
  case (2 es s e s')
  then show ?case using inv_step [of samples es s e s'] puts_step [of es s e s'] by (auto simp: ro_inv_def)
qed

section \<open>Scheduling the coroutines\<close>

text \<open>
  The steps one coroutine can take next, as a function: a run is a list of the coroutines that get the
  control.  In a drain the processor takes every finished task.
\<close>

datatype coroutine = Feeder | Processor | Task nat | Main | Monitor | Resetter | Consumer nat

definition feeder_next :: "'a rollouter \<Rightarrow> ('a ro_event \<times> 'a rollouter) option" where
  "feeder_next s = (case ro_feeder s of
       Feeding [] \<Rightarrow> Some (Internal, s\<lparr>ro_feeder := Fed\<rparr>)
     | Feeding (x # xs) \<Rightarrow> if length (ro_pending s) < 128 then Some (Feed x, feed_sample x xs s) else None
     | Fed \<Rightarrow> if length (ro_pending s) < 128 then Some (Internal, s\<lparr>ro_pending := ro_pending s @ [None], ro_feeder := Feed_returned\<rparr>) else None
     | Feed_returned \<Rightarrow> None)"

definition processor_next :: "'a rollouter \<Rightarrow> ('a ro_event \<times> 'a rollouter) option" where
  "processor_next s = (case ro_phase s of
       Top \<Rightarrow> Some (Internal, s\<lparr>ro_phase := (if ro_paused s then Pausing else Answer (length (mq_queue (ro_mq s))))\<rparr>)
     | Answer q \<Rightarrow> Some (Internal, s\<lparr>ro_phase := (if should_pause q s then Pausing else Cleared)\<rparr>)
     | Pausing \<Rightarrow> if lock_free s then Some (Internal, s\<lparr>ro_paused := True, ro_resume := False, ro_phase := Draining\<rparr>) else None
     | Draining \<Rightarrow>
         if ro_resume s then Some (Internal, s\<lparr>ro_phase := Top\<rparr>)
         else if lock_free s \<and> finished_tasks s \<noteq> [] then Some (Internal, reap s) else None
     | Cleared \<Rightarrow> if ro_pending s \<noteq> [] then Some (Internal, take_pending s) else None
     | Holding x \<Rightarrow>
         if length (ro_tasks s) < ro_max_concurrent s
         then Some (Internal, s\<lparr>ro_phase := (if ro_paused s then Stalled x else Submitting x)\<rparr>)
         else if lock_free s \<and> ro_tasks s \<noteq> [] then Some (Internal, s\<lparr>ro_phase := Full x\<rparr>) else None
     | Full x \<Rightarrow> if finished_tasks s \<noteq> [] then Some (Internal, reap s\<lparr>ro_phase := Holding x\<rparr>) else None
     | Stalled x \<Rightarrow> if ro_resume s then Some (Internal, s\<lparr>ro_phase := Submitting x\<rparr>) else None
     | Submitting x \<Rightarrow> if lock_free s then Some (Submit x, s\<lparr>ro_tasks := ro_tasks s @ [(x, Running)], ro_phase := Top\<rparr>) else None
     | Ending \<Rightarrow>
         if ro_tasks s = [] then Some (Internal, s\<lparr>ro_phase := Returned\<rparr>)
         else if lock_free s then Some (Internal, s\<lparr>ro_phase := Ending_wait\<rparr>) else None
     | Ending_wait \<Rightarrow> if finished_tasks s \<noteq> [] then Some (Internal, reap s\<lparr>ro_phase := Ending\<rparr>) else None
     | Returned \<Rightarrow> None)"

definition task_next :: "nat \<Rightarrow> 'a rollouter \<Rightarrow> ('a ro_event \<times> 'a rollouter) option" where
  "task_next i s =
     (if i < length (ro_tasks s) then
        (case ro_tasks s ! i of
           (x, Running) \<Rightarrow> (case put_sample (Some x) (ro_mq s) of
               Inl _ \<Rightarrow> None
             | Inr (b, q) \<Rightarrow> Some (Store x b, s\<lparr>ro_tasks := (ro_tasks s)[i := (x, Stored b)], ro_mq := q\<rparr>))
         | (x, Stored b) \<Rightarrow> Some (Internal, task_done b (s\<lparr>ro_tasks := (ro_tasks s)[i := (x, Finished)]\<rparr>))
         | (x, Finished) \<Rightarrow> None)
      else None)"

definition main_next :: "'a rollouter \<Rightarrow> ('a ro_event \<times> 'a rollouter) option" where
  "main_next s =
     (if \<not> ro_signalled s then
        (if ro_phase s = Returned \<and> ro_feeder s = Feed_returned \<and> ro_pending s = [] then
           (case put_sample None (ro_mq s) of
              Inl _ \<Rightarrow> None
            | Inr (b, q) \<Rightarrow> Some (Signal b, s\<lparr>ro_mq := q, ro_signalled := True\<rparr>))
         else None)
      else if lock_free s then Some (Internal, s\<lparr>ro_running := False\<rparr>) else None)"

definition monitor_next :: "'a rollouter \<Rightarrow> ('a ro_event \<times> 'a rollouter) option" where
  "monitor_next s = (case ro_monitor s of
       Checking \<Rightarrow> if lock_free s then Some (Internal, s\<lparr>ro_monitor := (if ro_running s then Sleeping else Gone)\<rparr>) else None
     | Sleeping \<Rightarrow> Some (Internal, s\<lparr>ro_monitor := (if ro_paused s then Asked (length (mq_queue (ro_mq s))) else Checking)\<rparr>)
     | Asked q \<Rightarrow>
         if should_pause q s then Some (Internal, s\<lparr>ro_monitor := Checking\<rparr>)
         else if lock_free s then Some (Internal, s\<lparr>ro_monitor := Checking, ro_paused := False, ro_resume := True\<rparr>) else None
     | Gone \<Rightarrow> None)"

definition reset_next :: "'a rollouter \<Rightarrow> ('a ro_event \<times> 'a rollouter) option" where
  "reset_next s = (case ro_reset s of
       No_reset \<Rightarrow> if lock_free s then Some (Internal, begin_reset s) else None
     | Counted n \<Rightarrow> Some (Internal, s\<lparr>ro_reset := Answered (n + length (mq_queue (ro_mq s)))\<rparr>)
     | Answered v \<Rightarrow> Some (Reset, end_reset v s))"

definition consumer_next :: "nat \<Rightarrow> 'a rollouter \<Rightarrow> ('a ro_event \<times> 'a rollouter) option" where
  "consumer_next i s =
     (if i \<in> set (mq_waiters (ro_mq s)) then None
      else if i \<in> set (mq_ready (ro_mq s)) then
        (let (out, q) = wake_consumer i (ro_mq s) in Some (Queue (Wake i out), s\<lparr>ro_mq := q\<rparr>))
      else (let (out, q) = get_sample i (ro_mq s) in Some (Queue (Get i out), s\<lparr>ro_mq := q\<rparr>)))"

fun schedule :: "coroutine \<Rightarrow> 'a rollouter \<Rightarrow> ('a ro_event \<times> 'a rollouter) option" where
  "schedule Feeder s = feeder_next s"
| "schedule Processor s = processor_next s"
| "schedule (Task i) s = task_next i s"
| "schedule Main s = main_next s"
| "schedule Monitor s = monitor_next s"
| "schedule Resetter s = reset_next s"
| "schedule (Consumer i) s = consumer_next i s"

fun schedule_all :: "coroutine list \<Rightarrow> 'a rollouter \<Rightarrow> ('a ro_event list \<times> 'a rollouter) option" where
  "schedule_all [] s = Some ([], s)"
| "schedule_all (c # cs) s = (case schedule c s of
       None \<Rightarrow> None
     | Some (e, s') \<Rightarrow> (case schedule_all cs s' of None \<Rightarrow> None | Some (es, s'') \<Rightarrow> Some (e # es, s'')))"

lemma drain_reap: "ro_phase s = Draining \<Longrightarrow> lock_free s \<Longrightarrow> ro_step s Internal (reap s)"
  using ro_step.Drain [of s "\<lambda>_. True"] by (simp add: reap_def)

lemma feeder_sound: "feeder_next s = Some (e, s') \<Longrightarrow> ro_step s e s'"
  by (auto simp: feeder_next_def intro: ro_step.intros split: feeder.splits list.splits if_splits)

lemma processor_sound:
  assumes "processor_next s = Some (e, s')"
  shows "ro_step s e s'"
proof (cases "ro_phase s")
  case Top
  then show ?thesis using assms by (auto simp: processor_next_def intro: ro_step.Paused ro_step.Ask split: if_splits)
next
  case (Answer q)
  then show ?thesis using assms ro_step.Decide [OF Answer] by (simp add: processor_next_def)
next
  case (Holding x)
  then show ?thesis using assms ro_step.Room [OF Holding]
    by (auto simp: processor_next_def intro: ro_step.Capacity split: if_splits)
qed (use assms in \<open>auto simp: processor_next_def drain_reap intro: ro_step.intros split: if_splits\<close>)

lemma task_sound: "task_next i s = Some (e, s') \<Longrightarrow> ro_step s e s'"
  by (auto simp: task_next_def intro: ro_step.Store ro_step.Finish split: if_splits prod.splits task_status.splits sum.splits)

lemma main_sound: "main_next s = Some (e, s') \<Longrightarrow> ro_step s e s'"
  by (auto simp: main_next_def intro: ro_step.End_signal ro_step.Stop split: if_splits prod.splits sum.splits)

lemma monitor_sound: "monitor_next s = Some (e, s') \<Longrightarrow> ro_step s e s'"
  using ro_step.Monitor_check [of s] ro_step.Monitor_ask [of s]
  by (auto simp: monitor_next_def intro: ro_step.Monitor_stay ro_step.Monitor_resume split: monitor.splits if_splits)

lemma reset_sound: "reset_next s = Some (e, s') \<Longrightarrow> ro_step s e s'"
  by (auto simp: reset_next_def intro: ro_step.Begin_reset ro_step.Answer_reset ro_step.End_reset split: reset_phase.splits if_splits)

lemma consumer_sound: "consumer_next i s = Some (e, s') \<Longrightarrow> ro_step s e s'"
  by (auto simp: consumer_next_def intro!: ro_step.Queue mq_step.Wake mq_step.Get split: if_splits prod.splits)

lemma schedule_sound: "schedule c s = Some (e, s') \<Longrightarrow> ro_step s e s'"
  by (cases c) (auto intro: feeder_sound processor_sound task_sound main_sound monitor_sound reset_sound consumer_sound)

lemma schedule_all_sound: "schedule_all cs s = Some (es, s') \<Longrightarrow> run ro_step s es s'"
proof (induction cs arbitrary: s es)
  case (Cons c cs)
  then show ?case by (auto split: option.splits dest!: schedule_sound) (blast intro: run_Cons)
qed (simp add: run_Nil)

section \<open>Properties\<close>

lemma limits_step:
  assumes "ro_step s e s'"
  shows "ro_max_required s' = ro_max_required s" "ro_total_steps s' = ro_total_steps s"
    "e \<noteq> Resize \<Longrightarrow> ro_max_concurrent s' = ro_max_concurrent s"
  using assms by (cases; auto simp: ro_ops split: list.splits option.splits)+

lemma limits_run:
  assumes "run ro_step s es s'"
  shows "ro_max_required s' = ro_max_required s \<and> ro_total_steps s' = ro_total_steps s
    \<and> (Resize \<notin> set es \<longrightarrow> ro_max_concurrent s' = ro_max_concurrent s)"
  using assms by (induction rule: run.induct) (auto simp: limits_step)

lemma started_run:
  assumes "start_rollouter c servers n epochs samples = Inr s\<^sub>0" "run ro_step s\<^sub>0 es s"
  shows "ro_inv samples es s" "ro_puts es s" "ro_max_required s = max_required_samples c"
    "ro_total_steps s = total_rollout_steps c n epochs"
    "Resize \<notin> set es \<Longrightarrow> ro_max_concurrent s = concurrent_limit c servers"
proof -
  have i: "rollouter_started samples s\<^sub>0" using assms(1) by (auto simp: rollouter_started_def)
  show "ro_inv samples es s" "ro_puts es s" using puts.inv_run [OF i assms(2)] by simp_all
  show "ro_max_required s = max_required_samples c" "ro_total_steps s = total_rollout_steps c n epochs"
    "Resize \<notin> set es \<Longrightarrow> ro_max_concurrent s = concurrent_limit c servers"
    using limits_run [OF assms(2)] start_rollouterD [OF assms(1)] by auto
qed

text \<open>
  C25. Staleness is bounded.  In every interleaving of the feeder, the processor, the generation tasks,
  the monitor, the trainer and its weight updates, the samples of the current version (held, being
  generated, queued, read by the trainer since the last \<open>reset_staleness\<close> or dropped since) never exceed
  \<open>max_required_samples\<close> before the first \<open>reset_staleness\<close>, and the queue then never drops one; afterwards they
  exceed the bound and the counter by at most one, and at most one sample is dropped per \<open>reset_staleness\<close>.
\<close>

theorem staleness_bounded:
  assumes "start_rollouter c servers n epochs samples = Inr s\<^sub>0" "run ro_step s\<^sub>0 es s"
  shows "current_samples es s \<le> max_required_samples c + slack es \<and> current_samples es s \<le> ro_staleness s + slack es
    \<and> length (mq_queue (ro_mq s)) \<le> max_required_samples c \<and> losses_of es \<le> count_list es Reset"
  using started_run [OF assms] by (auto simp: ro_inv_def ro_bounded_def ro_queue_def slack_def split: if_splits)

definition demo_rollout_config :: rollouter_config where
  "demo_rollout_config = \<lparr>rc_mini_batch = 1, rc_require_batches = 1, rc_staleness_threshold = 0, rc_trigger_sync = 1,
     rc_per_replica = 1, rc_steps_limit = None\<rparr>"

definition demo_start :: "string rollouter" where
  "demo_start = \<lparr>ro_feeder = Feeding [''a'', ''b''], ro_global_steps = 1, ro_total_steps = 2,
       ro_pending = [], ro_phase = Top, ro_tasks = [], ro_paused = False, ro_resume = True, ro_running = True, ro_signalled = False,
       ro_reset = No_reset, ro_monitor = Checking, ro_staleness = 0, ro_max_required = 1,
       ro_max_queue = 1, ro_max_concurrent = 1, ro_generated = 0,
       ro_step_generated = 0, ro_dropped = 0, ro_processed = 0, ro_completed_steps = 1, ro_step_history = [],
       ro_mq = \<lparr>mq_max = 1, mq_queue = [], mq_val_queue = [], mq_running = True, mq_waiters = [], mq_ready = [], mq_produced = 0,
         mq_consumed = 0, mq_dropped = 0\<rparr>\<rparr>"

lemma demo_start: "start_rollouter demo_rollout_config 2 2 1 [''a'', ''b''] = Inr demo_start"
  by (simp add: start_rollouter_def demo_start_def demo_rollout_config_def check_config_def assert_r_def init_queue_def
      max_required_samples_def required_samples_def total_rollout_steps_def concurrent_limit_def)

definition demo_schedule :: "coroutine list" where
  "demo_schedule = [Feeder, Feeder, Processor, Processor, Processor, Resetter, Resetter, Resetter, Processor, Processor,
     Processor, Processor, Processor]"

definition demo_events :: "string ro_event list" where
  "demo_events = [Feed ''a'', Feed ''b'', Internal, Internal, Internal, Internal, Internal, Reset, Internal, Submit ''a'',
     Internal, Internal, Internal]"

lemma demo_result:
  "map_option (\<lambda>(es, s). (es = demo_events, in_flight s, ro_staleness s, mq_queue (ro_mq s))) (schedule_all demo_schedule demo_start)
     = Some (True, 2, 1, [])"
  by code_simp

lemma demo_run: "\<exists>s. run ro_step demo_start demo_events s \<and> in_flight s = 2 \<and> ro_staleness s = 1"
  using demo_result by (auto dest: schedule_all_sound)

text \<open>A sample the trainer has read still counts: nothing is in flight, yet the bound of one is reached.\<close>

definition read_schedule :: "coroutine list" where
  "read_schedule = [Feeder, Feeder, Feeder, Processor, Processor, Processor, Processor, Processor, Task 0, Consumer 7]"

lemma read_result:
  "map_option (\<lambda>(es, s). (in_flight s, current_samples es s, slack es)) (schedule_all read_schedule demo_start) = Some (0, 1, 0)"
  by code_simp

lemma read_run: "\<exists>es s. run ro_step demo_start es s \<and> in_flight s = 0 \<and> current_samples es s = 1 \<and> slack es = 0"
  using read_result by (auto dest: schedule_all_sound)

theorem staleness_bounded_witness:
  "(\<exists>s. run ro_step demo_start demo_events s \<and> in_flight s = 2 \<and> current_samples demo_events s = 2
      \<and> max_required_samples demo_rollout_config = 1 \<and> (0::nat) = losses_of demo_events)
   \<and> (\<exists>es s. run ro_step demo_start es s \<and> in_flight s = 0 \<and> current_samples es s = 1 \<and> 1 \<le> ro_staleness s)"
proof (rule conjI)
  obtain s where s: "run ro_step demo_start demo_events s" "in_flight s = 2" using demo_run by blast
  have m: "max_required_samples demo_rollout_config = 1" by (simp add: demo_rollout_config_def max_required_samples_def required_samples_def)
  have l: "losses_of demo_events = 0" "slack demo_events = 1" by (simp_all add: demo_events_def slack_def)
  have "current_samples demo_events s \<le> 2" using staleness_bounded [OF demo_start s(1)] m l(2) by simp
  then have "current_samples demo_events s = 2" using s(2) by (simp add: current_samples_def)
  then show "\<exists>s. run ro_step demo_start demo_events s \<and> in_flight s = 2 \<and> current_samples demo_events s = 2
      \<and> max_required_samples demo_rollout_config = 1 \<and> (0::nat) = losses_of demo_events" using s m l by auto
next
  obtain es s where r: "run ro_step demo_start es s" "in_flight s = 0" "current_samples es s = 1" "slack es = 0" using read_run by blast
  have "1 \<le> ro_staleness s" using staleness_bounded [OF demo_start r(1)] r(3,4) by simp
  then show "\<exists>es s. run ro_step demo_start es s \<and> in_flight s = 0 \<and> current_samples es s = 1 \<and> 1 \<le> ro_staleness s" using r by blast
qed

text \<open>
  What \<open>reset_staleness\<close> counts is not what is in flight.  A weight update that arrives while the
  processor holds a sample overwrites the count of that sample, and the queue of one then drops a sample
  the trainer has not read; and a task that is finished but not yet awaited is counted although the trainer has
  read its sample, so that the processor can pause with nothing in flight, whatever the size of the queue,
  until the next update.
\<close>

definition race_schedule :: "coroutine list" where
  "race_schedule = demo_schedule @ [Task 0, Task 0, Processor, Processor, Processor, Processor, Task 0]"

definition stall_schedule :: "coroutine list" where
  "stall_schedule = [Feeder, Feeder, Feeder, Processor, Processor, Processor, Processor, Processor, Task 0, Consumer 7, Task 0,
     Resetter, Resetter, Resetter, Processor, Processor, Processor, Processor]"

lemma reset_miscounts:
  "(\<exists>es s. run ro_step demo_start es s \<and> count_list es Reset = 1 \<and> losses_of es = 1 \<and> gets_of (queue_events es) = []
      \<and> fed_of es = [''a'', ''b''] \<and> mq_queue (ro_mq s) = [Some ''b''])
   \<and> (\<exists>es s. run ro_step demo_start es s \<and> gets_of (queue_events es) = [Some ''a''] \<and> ro_pending s = [Some ''b'', None]
      \<and> ro_phase s = Draining \<and> ro_tasks s = [] \<and> in_flight s = 0 \<and> \<not> ro_resume s \<and> (\<forall>q. should_pause q s))"
proof -
  have "map_option (\<lambda>(es, s). (count_list es Reset, losses_of es, gets_of (queue_events es), fed_of es, mq_queue (ro_mq s)))
      (schedule_all race_schedule demo_start) = Some (1, 1, [], [''a'', ''b''], [Some ''b''])"
    by code_simp
  moreover have "map_option (\<lambda>(es, s). (gets_of (queue_events es), ro_pending s, ro_phase s, ro_tasks s, in_flight s, ro_resume s,
      ro_staleness s, ro_max_required s)) (schedule_all stall_schedule demo_start)
      = Some ([Some ''a''], [Some ''b'', None], Draining, [], 0, False, 1, 1)"
    by code_simp
  ultimately show ?thesis by (auto dest!: schedule_all_sound simp: should_pause_def) force
qed

lemma samples_accounted:
  assumes "start_rollouter c servers n epochs samples = Inr s\<^sub>0" "run ro_step s\<^sub>0 es s"
  shows "\<exists>rest. samples = fed_of es @ rest" "length (fed_of es) \<le> max 1 (total_rollout_steps c n epochs)"
    "fed_of es = submitted_of es @ held s @ somes (ro_pending s)"
    "mset (submitted_of es) = mset (generating s) + mset (stored_of es)"
    "ro_generated s + ro_dropped s = ro_processed s" "ro_processed s + stored_tasks s = length (stored_of es)"
    "ro_signalled s \<Longrightarrow> held s = [] \<and> ro_pending s = [] \<and> ro_tasks s = []"
proof -
  note i = started_run [OF assms]
  have "somes (end_mark s) = []" by (simp add: end_mark_def)
  then show "\<exists>rest. samples = fed_of es @ rest" "length (fed_of es) \<le> max 1 (total_rollout_steps c n epochs)"
    "fed_of es = submitted_of es @ held s @ somes (ro_pending s)"
    "mset (submitted_of es) = mset (generating s) + mset (stored_of es)"
    "ro_generated s + ro_dropped s = ro_processed s" "ro_processed s + stored_tasks s = length (stored_of es)"
    using i(1,4) by (auto simp: ro_inv_def ro_feeding_def ro_flow_def ro_counts_def)
  show "ro_signalled s \<Longrightarrow> held s = [] \<and> ro_pending s = [] \<and> ro_tasks s = []"
    using i(1) by (auto simp: ro_inv_def ro_flow_def ended_def held_def)
qed

text \<open>
  Every sample is accounted for.  At any point of any run the samples the feeder has put, a prefix of the
  dataset of at most \<open>total_rollout_steps\<close> samples, are in order those submitted for
  generation, the one the processor holds and the pending ones; the submitted ones are, as a multiset, those still
  being generated and those put into the queue, and the counters agree with this.
\<close>

lemma samples_conserved:
  assumes "start_rollouter c servers n epochs samples = Inr s\<^sub>0" "run ro_step s\<^sub>0 es s"
  shows "(\<exists>rest. samples = fed_of es @ rest) \<and> length (fed_of es) \<le> max 1 (total_rollout_steps c n epochs)
    \<and> fed_of es = submitted_of es @ held s @ somes (ro_pending s)
    \<and> mset (submitted_of es) = mset (generating s) + mset (stored_of es)
    \<and> ro_generated s + ro_dropped s = ro_processed s \<and> ro_processed s + stored_tasks s = length (stored_of es)"
  by (intro conjI samples_accounted [OF assms])

text \<open>
  C26. What the trainer receives: the delivered samples are, in order and without repetition, among
  those put into the queue, all of which were fed.  As long as the queue has dropped nothing and was not
  cleared, what consumers have received, followed by what is queued, is exactly what was put, in order, with
  the end signal last once it is sent.  A consumer that receives the end signal knows it was sent, and from
  then on every fed sample has been generated and put exactly once, no task is left, and the counters add
  up to the number of samples fed.
\<close>

theorem trainer_receives_fed_samples:
  assumes "start_rollouter c servers n epochs samples = Inr s\<^sub>0" "run ro_step s\<^sub>0 es s"
  shows "subseq (somes (gets_of (queue_events es))) (stored_of es) \<and> mset (stored_of es) \<subseteq># mset (fed_of es)
    \<and> (drops_of (queue_events es) = 0 \<and> Clear \<notin> set (queue_events es) \<longrightarrow>
         gets_of (queue_events es) @ mq_queue (ro_mq s) = map Some (stored_of es) @ (if ro_signalled s then [None] else []))
    \<and> (None \<in> set (gets_of (queue_events es)) \<longrightarrow> ro_signalled s)
    \<and> (ro_signalled s \<longrightarrow>
         mset (stored_of es) = mset (fed_of es) \<and> ro_tasks s = [] \<and> ro_generated s + ro_dropped s = length (fed_of es))"
proof -
  note i = started_run [OF assms]
  have p: "puts_of (queue_events es) = map Some (stored_of es) @ (if ro_signalled s then [None] else [])"
    using i(2) by (simp add: ro_puts_def)
  have q: "mq_init (ro_mq s\<^sub>0)" using start_rollouterD(14) [OF assms(1)] by (auto simp: mq_init_def)
  obtain gone where g: "puts_of (queue_events es) = gone @ mq_queue (ro_mq s)" "subseq (gets_of (queue_events es)) gone"
    using mqf.inv_run [OF q queue_runs [OF assms(2)]] by (auto simp: mq_fifo_def)
  then have sub: "subseq (gets_of (queue_events es)) (puts_of (queue_events es))"
    by (auto intro: list_emb_append2 subseq_order.trans)
  from subseq_somes [OF this] p have s: "subseq (somes (gets_of (queue_events es))) (stored_of es)" by (simp split: if_splits)
  have all: "gets_of (queue_events es) @ mq_queue (ro_mq s) = puts_of (queue_events es)"
    if "drops_of (queue_events es) = 0" "Clear \<notin> set (queue_events es)"
  proof -
    have "length (puts_of (queue_events es)) = length (gets_of (queue_events es)) + length (mq_queue (ro_mq s))"
      using mqc.inv_run [OF q queue_runs [OF assms(2)]] that by (simp add: mq_counts_def)
    then show ?thesis using g subseq_same_length [OF g(2)] by simp
  qed
  have end_sent: "ro_signalled s" if "None \<in> set (gets_of (queue_events es))"
  proof -
    have "None \<in> set (puts_of (queue_events es))" using list_emb_set [OF sub that] by auto
    then show ?thesis using p by (auto split: if_splits)
  qed
  note c = samples_accounted [OF assms]
  have "mset (stored_of es) \<subseteq># mset (fed_of es)" by (simp add: c(3,4))
  moreover have "mset (stored_of es) = mset (fed_of es) \<and> ro_tasks s = [] \<and> ro_generated s + ro_dropped s = length (fed_of es)"
    if "ro_signalled s"
  proof -
    from c(7) [OF that] have t: "held s = []" "ro_pending s = []" "ro_tasks s = []" by simp_all
    have m: "mset (stored_of es) = mset (fed_of es)" using c(3,4) t by (simp add: generating_def)
    from mset_eq_length [OF m] show ?thesis using c(5,6) t m by (simp add: stored_tasks_def)
  qed
  ultimately show ?thesis using s all [unfolded p] end_sent by (intro conjI impI) simp_all
qed

text \<open>A whole run: the first sample only, with a trainer that reads it and the end signal.\<close>

definition whole_schedule :: "coroutine list" where
  "whole_schedule =
    (let round = replicate 8 Processor @ [Task 0, Consumer 7, Task 0, Processor, Resetter, Resetter, Resetter, Processor] in
     [Feeder, Feeder, Feeder] @ round @ round @ replicate 4 Processor @ [Main, Consumer 7])"

lemma whole_run:
  "\<exists>es s. run ro_step demo_start es s \<and> gets_of (queue_events es) = [Some ''a'', Some ''b'', None] \<and> fed_of es = [''a'', ''b'']
     \<and> drops_of (queue_events es) = 0 \<and> \<not> list_ex (\<lambda>e. e = Clear) (queue_events es)"
proof -
  have "map_option (\<lambda>(es, s). (gets_of (queue_events es), fed_of es, drops_of (queue_events es), list_ex (\<lambda>e. e = Clear) (queue_events es)))
      (schedule_all whole_schedule demo_start) = Some ([Some ''a'', Some ''b'', None], [''a'', ''b''], 0, False)"
    by code_simp
  then show ?thesis by (auto dest: schedule_all_sound)
qed

theorem trainer_receives_fed_samples_witness:
  "\<exists>es s. run ro_step demo_start es s \<and> somes (gets_of (queue_events es)) = [''a'', ''b'']
     \<and> mset (stored_of es) = mset [''a'', ''b''] \<and> ro_generated s + ro_dropped s = 2 \<and> mq_queue (ro_mq s) = []"
proof -
  obtain es s where r: "run ro_step demo_start es s" "gets_of (queue_events es) = [Some ''a'', Some ''b'', None]" "fed_of es = [''a'', ''b'']"
    "drops_of (queue_events es) = 0" "Clear \<notin> set (queue_events es)"
    using whole_run by (auto simp: list_ex_iff)
  from trainer_receives_fed_samples [OF demo_start r(1)] r(2-5)
  have f: "ro_signalled s" "mset (stored_of es) = mset [''a'', ''b'']" "ro_generated s + ro_dropped s = 2"
    "[Some ''a'', Some ''b'', None] @ mq_queue (ro_mq s) = map Some (stored_of es) @ (if ro_signalled s then [None] else [])" by simp_all
  from mset_eq_length [OF f(2)] arg_cong [OF f(4), of length] f(1) have "mq_queue (ro_mq s) = []" by simp
  with r f show ?thesis by (intro exI [of _ es] exI [of _ s]) simp
qed

text \<open>
  Concurrency is bounded: while no replica is added or removed, the tasks that exist never exceed
  \<open>max_concurrent_samples\<close>, which is itself at most \<open>max_required_samples\<close>.
\<close>

lemma concurrency_bounded:
  assumes "start_rollouter c servers n epochs samples = Inr s\<^sub>0" "run ro_step s\<^sub>0 es s" "Resize \<notin> set es"
  shows "length (ro_tasks s) \<le> servers * rc_per_replica c \<and> length (ro_tasks s) \<le> max_required_samples c"
  using started_run(1) [OF assms(1,2)] started_run(5) [OF assms] assms(3)
  by (simp add: ro_inv_def ro_capacity_def concurrent_limit_def)

end
