(* ===== verification/Async_Trainer.thy ===== *)
theory Async_Trainer
  imports Async_Rollouter "HOL-Library.AList" "HOL-Library.Sublist"
begin

text \<open>
  The trainer's side of the fully asynchronous setup: \<open>fully_async_trainer.py\<close> (collecting a batch from the queue, the
  steps between two weight updates, checkpoints), \<open>detach_utils.py\<close> (statistics of a batch, \<open>MetricsAggregator\<close>), and the
  queries of the rollouter that the trainer polls.  Floats are rationals; the times at which a coroutine looks at the
  clock are arguments.
\<close>

section \<open>Collecting samples\<close>

text \<open>
  \<open>_get_samples_from_queue\<close>, given the answers of \<open>get_sample\<close> in order: a sample, the end signal \<open>None\<close>, or \<open>Closed\<close>, a
  bare \<open>None\<close> that the assignment to two names cannot unpack.  The outer \<open>None\<close> is a loop still waiting.
\<close>

fun collect_samples :: "nat \<Rightarrow> 'a list \<Rightarrow> 'a option outcome list \<Rightarrow> ('a list result \<times> 'a option outcome list) option" where
  "collect_samples required acc outs =
     (if length acc \<ge> required then Some (Inr acc, outs)
      else (case outs of
              [] \<Rightarrow> None
            | Got (Some x) _ # rest \<Rightarrow> collect_samples required (acc @ [x]) rest
            | Got None _ # rest \<Rightarrow> Some (Inr acc, rest)
            | Closed # rest \<Rightarrow> Some (Inl TypeError, rest)
            | Waits # rest \<Rightarrow> collect_samples required acc rest))"

declare collect_samples.simps [simp del]

definition get_samples_from_queue :: "nat \<Rightarrow> 'a option outcome list \<Rightarrow> ('a list option result \<times> 'a option outcome list) option" where
  "get_samples_from_queue required outs =
     map_option (\<lambda>(r, rest). (rbind r (\<lambda>xs. Inr (if xs = [] \<or> length xs < required then None else Some xs)), rest))
       (collect_samples required [] outs)"

text \<open>The backlog that is left out of the estimate of the generation rate.\<close>

definition pending_wait_samples :: "bool \<Rightarrow> nat \<Rightarrow> nat \<Rightarrow> nat" where
  "pending_wait_samples dynamic required queue_size = (if dynamic then required - queue_size else 0)"

lemma collect_samples_spec:
  assumes "length acc \<le> required"
  shows "collect_samples required acc (map (\<lambda>x. Got (Some x) (n x)) xs @ rest)
    = (if required - length acc \<le> length xs then Some (Inr (acc @ take (required - length acc) xs), map (\<lambda>x. Got (Some x) (n x)) (drop (required - length acc) xs) @ rest)
       else collect_samples required (acc @ xs) rest)"
  using assms
proof (induction xs arbitrary: acc)
  case Nil
  then show ?case by (auto simp: collect_samples.simps [of required acc rest])
next
  case (Cons x xs)
  show ?case
  proof (cases "length acc = required")
    case True
    then show ?thesis by (subst collect_samples.simps) simp
  next
    case False
    with Cons.prems have "length acc < required" by simp
    then obtain d where d: "required - length acc = Suc d" "required - length (acc @ [x]) = d" by (metis Suc_diff_Suc diff_Suc_1 length_append_singleton diff_Suc_eq_diff_pred Suc_diff_le)
    with Cons.IH [of "acc @ [x]"] \<open>length acc < required\<close> show ?thesis
      by (subst collect_samples.simps) (simp add: d)
  qed
qed

section \<open>Steps between weight updates\<close>

record trainer =
  tr_local :: nat
  tr_version :: int
  tr_global :: int
  tr_last_ckpt :: int

definition init_trainer :: trainer where
  "init_trainer = \<lparr>tr_local = 1, tr_version = 0, tr_global = 0, tr_last_ckpt = 0\<rparr>"

definition fit_update_local_step :: "nat \<Rightarrow> trainer \<Rightarrow> trainer" where
  "fit_update_local_step T t =
     (if tr_local t < T then t\<lparr>tr_local := tr_local t + 1\<rparr> else t\<lparr>tr_version := tr_version t + 1, tr_local := 1\<rparr>)"

text \<open>Whether \<open>_fit_update_weights\<close> does anything.\<close>

definition updates_weights :: "trainer \<Rightarrow> bool" where
  "updates_weights t = (tr_local t = 1)"

definition fit_update_weights :: "trainer \<Rightarrow> int list" where
  "fit_update_weights t = (if updates_weights t then [tr_version t] else [])"

definition fit_save_checkpoint :: "int \<Rightarrow> bool \<Rightarrow> bool \<Rightarrow> trainer \<Rightarrow> bool \<times> trainer" where
  "fit_save_checkpoint save_freq force esi t =
     (if tr_version t = tr_last_ckpt t then (False, t)
      else if save_freq > 0 \<and> (force \<or> tr_version t mod save_freq = 0 \<or> esi) then (True, t\<lparr>tr_last_ckpt := tr_version t\<rparr>)
      else (False, t))"

definition fit_postprocess_step :: "trainer \<Rightarrow> trainer" where
  "fit_postprocess_step t = t\<lparr>tr_global := tr_global t + 1\<rparr>"

definition need_validate :: "int \<Rightarrow> trainer \<Rightarrow> bool" where
  "need_validate test_freq t = (updates_weights t \<and> test_freq > 0 \<and> tr_version t mod test_freq = 0 \<and> tr_version t > 0)"

text \<open>
  \<open>load_checkpoint\<close>, given what \<open>find_latest_ckpt_path\<close> found in the local directory and the working directory: the version
  it returns and the counters it leaves.  The name of the folder carries the version.
\<close>

record resume_config =
  rs_mode :: string
  rs_hdfs_dir :: "string option"
  rs_from_path :: "string option"

definition step_mark :: string where
  "step_mark = ''global_step_''"

definition after_last :: "string \<Rightarrow> string \<Rightarrow> string" where
  "after_last sep s = (case find (\<lambda>i. prefix sep (drop i s)) (rev [0..<length s]) of None \<Rightarrow> s | Some i \<Rightarrow> drop (i + length sep) s)"

definition absolute_path :: "string \<Rightarrow> string \<Rightarrow> string" where
  "absolute_path cwd path = (if prefix ''/'' path then path else if suffix ''/'' cwd then cwd @ path else cwd @ ''/'' @ path)"

definition resume_folder :: "resume_config \<Rightarrow> string \<Rightarrow> string option \<Rightarrow> string option result" where
  "resume_folder c cwd latest =
     (if rs_mode c = ''disable'' then Inr None
      else if rs_hdfs_dir c \<noteq> None then Inl NotImplementedError
      else if rs_mode c = ''auto'' then Inr latest
      else if rs_mode c = ''resume_path'' then
        (case rs_from_path c of
           None \<Rightarrow> Inl AssertionError
         | Some path \<Rightarrow> if sublist step_mark path then Inr (Some (absolute_path cwd path)) else Inl AssertionError)
      else (case latest of None \<Rightarrow> Inl AttributeError | Some folder \<Rightarrow> Inr (Some folder)))"

definition load_checkpoint :: "resume_config \<Rightarrow> string \<Rightarrow> string option \<Rightarrow> nat \<Rightarrow> trainer \<Rightarrow> (int \<times> trainer) result" where
  "load_checkpoint c cwd latest T t =
     rbind (resume_folder c cwd latest) (\<lambda>folder. case folder of
       None \<Rightarrow> Inr (0, t)
     | Some path \<Rightarrow> rbind (int_of_text (after_last step_mark path)) (\<lambda>v.
         Inr (v, t\<lparr>tr_version := v, tr_global := v * int T + 1, tr_last_ckpt := v\<rparr>)))"

text \<open>\<open>fit_step\<close>: the version whose weights go to the rollouter, if any, and whether a checkpoint is saved.\<close>

definition fit_step :: "nat \<Rightarrow> int \<Rightarrow> bool \<Rightarrow> trainer \<Rightarrow> int list \<times> bool \<times> trainer" where
  "fit_step T save_freq esi t =
     (let t1 = fit_update_local_step T t;
          (saved, t2) = fit_save_checkpoint save_freq False esi t1 in
      (fit_update_weights t1, saved, fit_postprocess_step t2))"

text \<open>The steps of the loop of \<open>fit\<close> until the queue ends, each with the answer of the check for an expiring instance.\<close>

fun fit_steps :: "nat \<Rightarrow> int \<Rightarrow> bool list \<Rightarrow> trainer \<Rightarrow> int list \<times> trainer" where
  "fit_steps T save_freq [] t = ([], t)"
| "fit_steps T save_freq (esi # es) t =
     (let (sync, _, t') = fit_step T save_freq esi t; (syncs, t'') = fit_steps T save_freq es t' in (sync @ syncs, t''))"

text \<open>What \<open>fit\<close> does after the loop: the version it synchronises, if any, whether it validates and whether it saves.\<close>

definition fit_end :: "int \<Rightarrow> int \<Rightarrow> bool \<Rightarrow> trainer \<Rightarrow> (int list \<times> bool \<times> bool \<times> trainer) result" where
  "fit_end save_freq test_freq esi t =
     (if test_freq = 0 then Inl ZeroDivisionError
      else
        let again = (tr_version t mod test_freq \<noteq> 0 \<or> tr_local t > 1);
            (saved, t') = fit_save_checkpoint save_freq True esi t in
        Inr (if again then fit_update_weights t else [], again \<and> need_validate test_freq t, saved, t'))"

definition fit :: "nat \<Rightarrow> int \<Rightarrow> int \<Rightarrow> bool list \<Rightarrow> bool \<Rightarrow> trainer \<Rightarrow> (int list \<times> bool \<times> trainer) result" where
  "fit T save_freq test_freq es esi t =
     (let (syncs, t1) = fit_steps T save_freq es (t\<lparr>tr_global := tr_global t + 1\<rparr>) in
      rbind (fit_end save_freq test_freq esi t1) (\<lambda>(sync, validated, _, t2). Inr (syncs @ sync, validated, t2)))"

text \<open>The trainer's calls of the main program: load, synchronise the weights, train.\<close>

definition trainer_main ::
  "resume_config \<Rightarrow> string \<Rightarrow> string option \<Rightarrow> nat \<Rightarrow> int \<Rightarrow> int \<Rightarrow> bool list \<Rightarrow> bool \<Rightarrow> (int list \<times> bool \<times> trainer) result" where
  "trainer_main c cwd latest T save_freq test_freq es esi =
     rbind (load_checkpoint c cwd latest T init_trainer) (\<lambda>(_, t).
     rbind (fit T save_freq test_freq es esi t) (\<lambda>(syncs, validated, t'). Inr (fit_update_weights t @ syncs, validated, t')))"

lemma fit_step_fields:
  assumes "fit_step T f esi t = (sync, saved, t')"
  shows "tr_global t' = tr_global t + 1"
    "tr_local t' = (if tr_local t < T then tr_local t + 1 else 1)" "tr_version t' = (if tr_local t < T then tr_version t else tr_version t + 1)"
    "sync = (if (if tr_local t < T then tr_local t + 1 else 1) = 1 then [tr_version t'] else [])"
  using assms by (auto simp: fit_step_def fit_update_local_step_def fit_save_checkpoint_def fit_postprocess_step_def fit_update_weights_def updates_weights_def
      Let_def split: if_splits)

lemma fit_steps_counts:
  assumes "T > 0" "1 \<le> tr_local t" "tr_local t \<le> T" "fit_steps T f es t = (syncs, t')"
  defines "k \<equiv> tr_local t - 1 + length es"
  shows "tr_version t' = tr_version t + int (k div T) \<and> tr_local t' = k mod T + 1 \<and> tr_global t' = tr_global t + int (length es)
    \<and> syncs = map (\<lambda>i. tr_version t + int i + 1) [0..<k div T]"
  using assms(2-4) unfolding k_def
proof (induction es arbitrary: t syncs)
  case Nil
  then show ?case using assms(1) by auto
next
  case (Cons e es)
  obtain sync saved t1 where s: "fit_step T f e t = (sync, saved, t1)" by (metis prod_cases3)
  obtain syncs1 where r: "fit_steps T f es t1 = (syncs1, t')" "syncs = sync @ syncs1"
    using Cons.prems(3) s by (auto split: prod.splits)
  note fs = fit_step_fields [OF s]
  have b: "1 \<le> tr_local t1" "tr_local t1 \<le> T" using fs(2) assms(1) by auto
  note ih = Cons.IH [OF b r(1)]
  show ?case
  proof (cases "tr_local t < T")
    case True
    then have "tr_local t1 - 1 + length es = tr_local t - 1 + length (e # es)" using Cons.prems(1) fs(2) by simp
    moreover have "sync = []" using fs(4) True Cons.prems(1) by simp
    ultimately show ?thesis using ih fs(1,3) r(2) True by simp
  next
    case False
    then have l: "tr_local t = T" "tr_local t1 = 1" using Cons.prems(2) fs(2) by simp_all
    have k: "tr_local t - 1 + length (e # es) = T + length es" using l(1) assms(1) by simp
    have "(T + length es) div T = Suc (length es div T)" using assms(1) by simp
    moreover have "map (\<lambda>i. tr_version t + int i + 1) [0..<Suc m] = (tr_version t + 1) # map (\<lambda>i. tr_version t + 1 + int i + 1) [0..<m]" for m
      by (induction m) auto
    moreover have "sync = [tr_version t + 1]" "tr_version t1 = tr_version t + 1" using fs(3,4) False by simp_all
    ultimately show ?thesis unfolding k using ih fs(1) r(2) l(2) by simp
  qed
qed

lemma load_checkpoint_fields:
  assumes "load_checkpoint c cwd latest T init_trainer = Inr (v, t)"
  shows "tr_local t = 1" "tr_version t = v" "tr_global t = v * int T + (if t = init_trainer then 0 else 1)"
proof -
  have "t = init_trainer \<and> v = 0 \<or> t = init_trainer\<lparr>tr_version := v, tr_global := v * int T + 1, tr_last_ckpt := v\<rparr>"
    using assms by (auto simp: load_checkpoint_def rbind_eq_Inr_iff split: option.splits)
  moreover have "init_trainer\<lparr>tr_version := v, tr_global := v * int T + 1, tr_last_ckpt := v\<rparr> \<noteq> init_trainer"
    by (auto simp: init_trainer_def)
  ultimately show "tr_local t = 1" "tr_version t = v" "tr_global t = v * int T + (if t = init_trainer then 0 else 1)"
    by (auto simp: init_trainer_def)
qed

lemma fit_end_fields:
  assumes "fit_end save_freq test_freq esi t = Inr (sync, validated, saved, t')"
  shows "test_freq \<noteq> 0" "sync = (if tr_local t = 1 \<and> tr_version t mod test_freq \<noteq> 0 then [tr_version t] else [])" "\<not> validated"
    "tr_version t' = tr_version t" "tr_local t' = tr_local t" "tr_global t' = tr_global t" "save_freq > 0 \<Longrightarrow> tr_last_ckpt t' = tr_version t"
  using assms by (auto simp: fit_end_def fit_save_checkpoint_def fit_update_weights_def updates_weights_def need_validate_def Let_def split: if_splits)

section \<open>Statistics of a batch\<close>

definition stale_trajectories :: "nat \<Rightarrow> nat list \<Rightarrow> nat" where
  "stale_trajectories version versions = length (filter (\<lambda>v. int version - int v \<ge> 1) versions)"

text \<open>The part of \<open>assemble_batch_from_rollout_samples\<close> on versions: how many trajectories span more than one.\<close>

definition version_spans :: "int list \<Rightarrow> int list \<Rightarrow> int list" where
  "version_spans ends starts = map (\<lambda>(a, b). \<bar>a - b\<bar>) (zip ends starts)"

definition partial_stats :: "int list \<Rightarrow> int list \<Rightarrow> (nat \<times> rat \<times> int) result" where
  "partial_stats starts ends =
     (let d = version_spans ends starts; n = length d - count_list d 0 in
      if d = [] then Inl ZeroDivisionError else Inr (n, of_nat n / of_nat (length d), Max (set d)))"

definition param_version_diversity :: "nat list \<Rightarrow> nat" where
  "param_version_diversity versions = card (set versions)"

section \<open>Polling the rollouter\<close>

text \<open>\<open>wait_for_enough_samples\<close>, given what each poll finds: the size of the queue and the time since the start.\<close>

fun wait_for_enough_samples :: "int option \<Rightarrow> rat option \<Rightarrow> (nat \<times> rat) list \<Rightarrow> nat result option" where
  "wait_for_enough_samples required timeout [] = None"
| "wait_for_enough_samples required timeout ((qsize, elapsed) # polls) =
     (case required of
        None \<Rightarrow> Some (Inl TypeError)
      | Some n \<Rightarrow>
          if int qsize \<ge> n then Some (Inr qsize)
          else if (case timeout of None \<Rightarrow> False | Some t \<Rightarrow> elapsed \<ge> t) then Some (Inl TimeoutError)
          else wait_for_enough_samples required timeout polls)"

definition sample_collection_ratio :: "nat \<Rightarrow> nat \<Rightarrow> rat result" where
  "sample_collection_ratio required queue_size = (if required = 0 then Inl ZeroDivisionError else Inr (of_nat queue_size / of_nat required))"

text \<open>\<open>_select_best_worker\<close>: the worker and the next index.\<close>

definition select_best_worker :: "'w list \<Rightarrow> nat \<Rightarrow> ('w \<times> nat) result" where
  "select_best_worker workers i = (if i < length workers then Inr (workers ! i, (i + 1) mod length workers) else Inl IndexError)"

section \<open>Utilisation of the rollout\<close>

text \<open>\<open>_compute_rollout_resource_utilization\<close> on the closed history of times, active tasks and capacities.\<close>

fun utilization_sums :: "(rat \<times> nat \<times> nat) list \<Rightarrow> rat \<times> rat" where
  "utilization_sums ((t, active, cap) # (t', rest) # hs) =
     (let (num, den) = utilization_sums ((t', rest) # hs); dt = t' - t in
      if dt \<le> 0 \<or> cap = 0 then (num, den)
      else (dt * of_nat cap * min 1 (of_nat active / of_nat cap) + num, dt * of_nat cap + den))"
| "utilization_sums _ = (0, 0)"

definition rollout_utilization :: "(rat \<times> nat \<times> nat) list \<Rightarrow> rat" where
  "rollout_utilization hs = (let (num, den) = utilization_sums hs in if den > 0 then num / den else 0)"

text \<open>The history the next window starts with.\<close>

definition reset_history :: "rat \<Rightarrow> nat \<Rightarrow> nat option \<Rightarrow> (rat \<times> nat \<times> nat) list" where
  "reset_history now active cap = [(now, active, case cap of None \<Rightarrow> 0 | Some c \<Rightarrow> c)]"

lemma utilization_sums_bounds: "0 \<le> fst (utilization_sums hs) \<and> fst (utilization_sums hs) \<le> snd (utilization_sums hs)"
proof (induction hs rule: utilization_sums.induct)
  case (1 t active cap t' rest hs)
  let ?u = "min 1 (of_nat active / of_nat cap) :: rat"
  have u: "0 \<le> ?u" "?u \<le> 1" by simp_all
  show ?case
  proof (cases "t' - t \<le> 0 \<or> cap = 0")
    case False
    then have d: "0 \<le> (t' - t) * of_nat cap" by simp
    have m: "0 \<le> (t' - t) * of_nat cap * ?u" "(t' - t) * of_nat cap * ?u \<le> (t' - t) * of_nat cap"
      using d u by (simp_all only: mult_nonneg_nonneg mult_left_le)
    have "utilization_sums ((t, active, cap) # (t', rest) # hs)
      = ((t' - t) * of_nat cap * ?u + fst (utilization_sums ((t', rest) # hs)), (t' - t) * of_nat cap + snd (utilization_sums ((t', rest) # hs)))"
      using False by (simp add: Let_def case_prod_unfold)
    moreover have "0 \<le> fst (utilization_sums ((t', rest) # hs))" "fst (utilization_sums ((t', rest) # hs)) \<le> snd (utilization_sums ((t', rest) # hs))"
      using 1 by simp_all
    ultimately show ?thesis using m by simp
  qed (use 1 in \<open>auto simp: Let_def split: prod.splits\<close>)
qed auto

section \<open>Aggregated metrics\<close>

type_synonym metrics = "(string \<times> rat) list"

record metrics_aggregator =
  ma_values :: "(string \<times> rat list) list"
  ma_sample_counts :: "nat list"
  ma_timestamps :: "rat list"
  ma_steps :: nat
  ma_total_gpus :: nat
  ma_hybrid_gpus :: nat
  ma_standalone_gpus :: nat

definition init_aggregator :: "nat \<Rightarrow> nat \<Rightarrow> nat \<Rightarrow> metrics_aggregator" where
  "init_aggregator gpus hybrid standalone =
     \<lparr>ma_values = [], ma_sample_counts = [], ma_timestamps = [], ma_steps = 0, ma_total_gpus = gpus, ma_hybrid_gpus = hybrid, ma_standalone_gpus = standalone\<rparr>"

datatype aggregation = Time_sum | Min_of | Avg | Max_of | Last_of | Sum_of | Weighted_avg

definition aggregation_rules :: "(aggregation \<times> string list) list" where
  "aggregation_rules =
     [(Time_sum, [''perf/time_per_step'']), (Min_of, [''timing_s/agent_loop/tool_calls/min'']),
      (Avg, [''timing_s/agent_loop/tool_calls/mean'']), (Max_of, [''timing_s/agent_loop/tool_calls/max'']),
      (Last_of, [''fully_async/count/total_generated_samples'', ''fully_async/count/stale_samples_processed'',
         ''fully_async/count/stale_trajectory_processed'', ''fully_async/count/current_param_version'',
         ''fully_async/count/dropped_stale_samples'', ''training/global_step'', ''dynamic_resource/mq_size'']),
      (Sum_of, [''dynamic_resource/train_compute_time_s'', ''dynamic_resource/train_allocated_time_s''])]"

text \<open>\<open>value is None\<close> stands for a value that is neither a number nor a tensor.\<close>

definition add_step_metrics :: "(string \<times> rat option) list \<Rightarrow> nat \<Rightarrow> rat \<Rightarrow> metrics_aggregator \<Rightarrow> metrics_aggregator" where
  "add_step_metrics ms samples timestamp a =
     a\<lparr>ma_sample_counts := ma_sample_counts a @ [samples], ma_timestamps := ma_timestamps a @ [timestamp], ma_steps := ma_steps a + 1,
       ma_values := fold (\<lambda>(k, v) d. case v of None \<Rightarrow> d | Some x \<Rightarrow> AList.update k (dict_get d k [] @ [x]) d) ms (ma_values a)\<rparr>"

text \<open>Lower case of an ASCII name.\<close>

definition lower_char :: "char \<Rightarrow> char" where
  "lower_char c = (let n = of_char c :: nat in if 65 \<le> n \<and> n \<le> 90 then char_of (n + 32) else c)"

definition has_keyword :: "string list \<Rightarrow> string \<Rightarrow> bool" where
  "has_keyword keywords name = list_ex (\<lambda>k. sublist k name) keywords"

definition aggregation_type :: "string \<Rightarrow> aggregation" where
  "aggregation_type name =
     (case find (\<lambda>r. name \<in> set (snd r)) aggregation_rules of
        Some r \<Rightarrow> fst r
      | None \<Rightarrow>
          (let l = map lower_char name in
           if has_keyword [''timing_s/''] l then Time_sum
           else if has_keyword [''mean'', ''avg'', ''average''] l then Avg
           else if has_keyword [''max'', ''maximum''] l then Max_of
           else if has_keyword [''min'', ''minimum''] l then Min_of
           else if has_keyword [''sum'', ''total''] l then Sum_of
           else if has_keyword [''weighted_avg''] l then Weighted_avg
           else Avg))"

definition average :: "rat list \<Rightarrow> rat" where
  "average vs = sum_list vs / of_nat (length vs)"

definition aggregate_as :: "aggregation \<Rightarrow> nat list \<Rightarrow> rat list \<Rightarrow> rat" where
  "aggregate_as ty counts vs =
     (if vs = [] then 0 else case ty of
        Last_of \<Rightarrow> last vs
      | Weighted_avg \<Rightarrow>
          if length vs \<noteq> length counts \<or> sum_list counts = 0 then average vs
          else sum_list (map (\<lambda>(v, c). v * of_nat c) (zip vs counts)) / of_nat (sum_list counts)
      | Sum_of \<Rightarrow> sum_list vs
      | Time_sum \<Rightarrow> sum_list vs
      | Avg \<Rightarrow> average vs
      | Max_of \<Rightarrow> Max (set vs)
      | Min_of \<Rightarrow> Min (set vs))"

definition aggregate_single :: "metrics_aggregator \<Rightarrow> string \<Rightarrow> rat list \<Rightarrow> rat" where
  "aggregate_single a name vs = aggregate_as (aggregation_type name) (ma_sample_counts a) vs"

text \<open>\<open>_special_metrics_aggergate\<close>, one function for each group of metrics.\<close>

definition metric :: "metrics \<Rightarrow> string \<Rightarrow> rat result" where
  "metric m k = (case map_of m k of None \<Rightarrow> Inl KeyError | Some v \<Rightarrow> Inr v)"

definition py_div :: "rat \<Rightarrow> rat \<Rightarrow> rat result" where
  "py_div x y = (if y = 0 then Inl ZeroDivisionError else Inr (x / y))"

definition minmax_diff :: "metrics \<Rightarrow> metrics result" where
  "minmax_diff m =
     (if map_of m ''global_seqlen/minmax_diff'' = None then Inr m
      else rbind (metric m ''global_seqlen/max'') (\<lambda>hi. rbind (metric m ''global_seqlen/min'') (\<lambda>lo.
           Inr (AList.update ''global_seqlen/minmax_diff'' (hi - lo) m))))"

definition throughput :: "nat \<Rightarrow> metrics \<Rightarrow> metrics result" where
  "throughput gpus m =
     (case (map_of m ''perf/throughput'', map_of m ''perf/total_num_tokens'', map_of m ''perf/time_per_step'') of
        (Some _, Some tokens, Some time) \<Rightarrow> rbind (py_div tokens (time * of_nat gpus)) (\<lambda>v. Inr (AList.update ''perf/throughput'' v m))
      | _ \<Rightarrow> Inr m)"

definition idle_ratio :: "metrics \<Rightarrow> metrics result" where
  "idle_ratio m =
     (case (map_of m ''timing_s/gen'', map_of m ''timing_s/step'') of
        (Some gen, Some step) \<Rightarrow> rbind (py_div gen step) (\<lambda>v. Inr (AList.update ''fully_async/trainer/idle_ratio'' v m))
      | _ \<Rightarrow> Inr m)"

definition train_utilization :: "metrics \<Rightarrow> metrics" where
  "train_utilization m =
     (case (map_of m ''dynamic_resource/train_compute_time_s'', map_of m ''dynamic_resource/train_allocated_time_s'') of
        (Some c, Some a) \<Rightarrow> if a > 0 then AList.update ''dynamic_resource/train_resource_utilization'' (c / a) m else m
      | _ \<Rightarrow> m)"

definition mixed_utilization :: "nat \<Rightarrow> nat \<Rightarrow> rat \<Rightarrow> rat \<Rightarrow> rat \<Rightarrow> rat" where
  "mixed_utilization hybrid standalone x train rollout =
     ((1 - x) * of_nat hybrid * train + (x * of_nat hybrid + of_nat standalone) * rollout) / of_nat (hybrid + standalone)"

definition resource_utilization :: "nat \<Rightarrow> nat \<Rightarrow> rat option \<Rightarrow> metrics \<Rightarrow> metrics" where
  "resource_utilization hybrid standalone rollout m =
     (case (map_of m ''dynamic_resource/train_resource_utilization'', rollout) of
        (Some train, Some r) \<Rightarrow>
          (let step = dict_get m ''timing_s/step'' 0 in
           if hybrid + standalone > 0 \<and> step > 0 then
             let x = min 1 (max 0 (dict_get m ''timing_s/wait_for_enough_samples'' 0 / step)) in
             AList.update ''dynamic_resource/resource_utilization'' (mixed_utilization hybrid standalone x train r)
               (AList.update ''dynamic_resource/rollout_resource_utilization'' r m)
           else m)
      | _ \<Rightarrow> m)"

definition special_metrics :: "metrics_aggregator \<Rightarrow> rat option \<Rightarrow> metrics \<Rightarrow> metrics result" where
  "special_metrics a rollout m =
     rbind (minmax_diff m) (\<lambda>m1. rbind (throughput (ma_total_gpus a) m1) (\<lambda>m2. rbind (idle_ratio m2) (\<lambda>m3.
     Inr (resource_utilization (ma_hybrid_gpus a) (ma_standalone_gpus a) rollout (train_utilization m3)))))"

definition get_aggregated_metrics :: "rat option \<Rightarrow> metrics_aggregator \<Rightarrow> metrics result" where
  "get_aggregated_metrics rollout a =
     (if ma_steps a = 0 then Inr []
      else special_metrics a rollout (map (\<lambda>(k, vs). (k, aggregate_single a k vs)) (ma_values a)))"

definition reset_aggregator :: "metrics_aggregator \<Rightarrow> metrics_aggregator" where
  "reset_aggregator a = a\<lparr>ma_values := [], ma_sample_counts := [], ma_timestamps := [], ma_steps := 0\<rparr>"

section \<open>Properties\<close>

text \<open>
  Collecting a batch: the batch is the next \<open>required\<close> samples in the order of the queue, and nothing after them is
  read; when the end signal comes first no batch is returned, and the samples collected so far are lost; a
  closed queue raises \<open>TypeError\<close> instead of stopping the training.
\<close>

lemma batch_is_next_samples:
  assumes "0 < required"
  shows "get_samples_from_queue required (map (\<lambda>x. Got (Some x) (n x)) xs @ rest)
      = (if required \<le> length xs
         then Some (Inr (Some (take required xs)), map (\<lambda>x. Got (Some x) (n x)) (drop required xs) @ rest)
         else case rest of
           Got None _ # rest' \<Rightarrow> Some (Inr None, rest')
         | Closed # rest' \<Rightarrow> Some (Inl TypeError, rest')
         | _ \<Rightarrow> get_samples_from_queue required (map (\<lambda>x. Got (Some x) (n x)) xs @ rest))"
proof (cases "required \<le> length xs")
  case True
  then have "take required xs \<noteq> []" "length (take required xs) = required" using assms by auto
  with True collect_samples_spec [of "[]" required n xs rest] show ?thesis by (simp add: get_samples_from_queue_def)
next
  case False
  have "collect_samples required [] (map (\<lambda>x. Got (Some x) (n x)) xs @ rest) = collect_samples required xs rest"
    using collect_samples_spec [of "[]" required n xs rest] False by simp
  with False show ?thesis
    by (auto simp: get_samples_from_queue_def collect_samples.simps [of required xs "_ # _"] split: list.split outcome.split option.split)
qed

text \<open>
  C27. The schedule of weight updates of a run of the trainer, from a start (\<open>v = 0\<close>) or a resume at version \<open>v\<close>: after \<open>k\<close> steps the
  version is \<open>v + k div T\<close>; the versions synchronised are \<open>v\<close>, before training, and then each completed one, once and in order.  At the
  end \<open>fit\<close> only sends a version the rollouter already has (when its number is no multiple of \<open>test_freq\<close>), never the steps of an
  incomplete cycle, and never validates; with a save frequency the last version is saved.  The step counter is the position in the
  schedule, \<open>version * T + local\<close>, in a fresh run, and one more in a resumed one.
\<close>

theorem sync_schedule:
  assumes "0 < T" "load_checkpoint c cwd latest T init_trainer = Inr (v, t0)"
    "trainer_main c cwd latest T save_freq test_freq es esi = Inr (syncs, validated, t)"
  shows "tr_version t = v + int (length es div T) \<and> tr_local t = length es mod T + 1
    \<and> syncs = map (\<lambda>i. v + int i) [0..<Suc (length es div T)]
              @ (if length es mod T = 0 \<and> tr_version t mod test_freq \<noteq> 0 then [tr_version t] else [])
    \<and> \<not> validated \<and> (save_freq > 0 \<longrightarrow> tr_last_ckpt t = tr_version t)
    \<and> tr_global t = tr_version t * int T + int (tr_local t) + (if t0 = init_trainer then 0 else 1)"
proof -
  let ?b = "t0\<lparr>tr_global := tr_global t0 + 1\<rparr>"
  note l = load_checkpoint_fields [OF assms(2)]
  obtain ss t1 sync saved where f: "fit_steps T save_freq es ?b = (ss, t1)"
    "fit_end save_freq test_freq esi t1 = Inr (sync, validated, saved, t)" "syncs = fit_update_weights t0 @ ss @ sync"
    using assms(2,3) by (auto simp: trainer_main_def fit_def rbind_eq_Inr_iff split: prod.splits)
  have c: "tr_version t1 = v + int (length es div T) \<and> tr_local t1 = length es mod T + 1 \<and> tr_global t1 = tr_global t0 + 1 + int (length es)
      \<and> ss = map (\<lambda>i. v + int i + 1) [0..<length es div T]"
    using fit_steps_counts [OF assms(1) _ _ f(1)] assms(1) l(1,2) by simp
  have "int (length es) = int (length es div T) * int T + int (length es mod T)"
    by (metis div_mult_mod_eq of_nat_add of_nat_mult)
  moreover have "map (\<lambda>i. v + int i) [0..<Suc m] = v # map (\<lambda>i. v + int i + 1) [0..<m]" for m by (induction m) auto
  ultimately show ?thesis
    using c fit_end_fields [OF f(2)] f(3) l by (auto simp: fit_update_weights_def updates_weights_def algebra_simps)
qed

theorem sync_schedule_witness:
  "let c = \<lparr>rs_mode = ''auto'', rs_hdfs_dir = None, rs_from_path = None\<rparr>; latest = Some ''/ckpt/global_step_5'' in
   \<exists>syncs validated t. trainer_main c ''/'' latest 2 1 3 [False, False, False, False] False = Inr (syncs, validated, t)
     \<and> syncs = [5, 6, 7, 7] \<and> tr_global t = tr_version t * 2 + int (tr_local t) + 1"
proof -
  let ?c = "\<lparr>rs_mode = ''auto'', rs_hdfs_dir = None, rs_from_path = None\<rparr>" and ?l = "Some ''/ckpt/global_step_5''"
  have l: "load_checkpoint ?c ''/'' ?l 2 init_trainer = Inr (5, \<lparr>tr_local = 1, tr_version = 5, tr_global = 11, tr_last_ckpt = 5\<rparr>)" by code_simp
  obtain s v t where r: "trainer_main ?c ''/'' ?l 2 1 3 [False, False, False, False] False = Inr (s, v, t)"
    "tr_version t = 7" by (simp add: trainer_main_def l) (auto simp: fit_def fit_end_def fit_step_def fit_update_local_step_def fit_save_checkpoint_def
      fit_postprocess_step_def fit_update_weights_def updates_weights_def Let_def)
  from sync_schedule [OF _ l r(1)] r show ?thesis by (auto simp: init_trainer_def upt_rec)
qed

lemma sublist_weighted:
  assumes "sublist ''weighted_avg'' name"
  shows "sublist ''avg'' name"
proof -
  have "sublist ''avg'' (''weighted_'' @ ''avg'' @ [])" by (rule sublist_appendI)
  then have "sublist ''avg'' ''weighted_avg''" by simp
  then show ?thesis using assms by (rule sublist_order.order_trans)
qed

lemma sum_list_bounds:
  fixes vs :: "rat list"
  shows "\<forall>v \<in> set vs. m \<le> v \<Longrightarrow> of_nat (length vs) * m \<le> sum_list vs" "\<forall>v \<in> set vs. v \<le> m \<Longrightarrow> sum_list vs \<le> of_nat (length vs) * m"
  by (induction vs) (auto simp: algebra_simps)

lemma average_bounds:
  assumes "vs \<noteq> []"
  shows "Min (set vs) \<le> average vs" "average vs \<le> Max (set vs)"
proof -
  have l: "0 < (of_nat (length vs) :: rat)" using assms by simp
  have "of_nat (length vs) * Min (set vs) \<le> sum_list vs" "sum_list vs \<le> of_nat (length vs) * Max (set vs)"
    by (rule sum_list_bounds; simp)+
  then show "Min (set vs) \<le> average vs" "average vs \<le> Max (set vs)"
    using l by (simp_all add: average_def le_divide_eq divide_le_eq mult.commute)
qed

lemma never_weighted: "aggregation_type name \<noteq> Weighted_avg"
proof (cases "find (\<lambda>r. name \<in> set (snd r)) aggregation_rules")
  case None
  have "has_keyword [''weighted_avg''] l \<Longrightarrow> has_keyword [''mean'', ''avg'', ''average''] l" for l
    using sublist_weighted [of l] by (simp add: has_keyword_def)
  with None show ?thesis by (auto simp: aggregation_type_def Let_def)
next
  case (Some r)
  then have "r \<in> set aggregation_rules" by (metis find_Some_iff nth_mem)
  then have "fst r \<noteq> Weighted_avg" by (auto simp: aggregation_rules_def)
  with Some show ?thesis by (simp add: aggregation_type_def)
qed

text \<open>
  How metrics are aggregated: the sums are sums, every other aggregate of a metric lies between its smallest and its
  largest value; the weighted average is never used, since every name that contains \<open>weighted_avg\<close> contains \<open>avg\<close>, which is
  tested first.
\<close>

lemma aggregation_in_range:
  assumes "vs \<noteq> []"
  shows "aggregation_type name \<noteq> Weighted_avg
    \<and> (if aggregation_type name \<in> {Time_sum, Sum_of} then aggregate_single a name vs = sum_list vs
       else Min (set vs) \<le> aggregate_single a name vs \<and> aggregate_single a name vs \<le> Max (set vs))"
  using assms never_weighted [of name] average_bounds [OF assms]
  by (cases "aggregation_type name") (auto simp: aggregate_single_def aggregate_as_def)

lemma rollout_utilization_bounds: "0 \<le> rollout_utilization hs \<and> rollout_utilization hs \<le> 1"
  using utilization_sums_bounds [of hs] by (auto simp: rollout_utilization_def Let_def case_prod_unfold divide_le_eq)

lemma mixed_bounds:
  assumes "0 \<le> x" "x \<le> 1" "hybrid + standalone > 0" "0 \<le> train" "train \<le> 1" "0 \<le> r" "r \<le> 1"
  shows "0 \<le> mixed_utilization hybrid standalone x train r" "mixed_utilization hybrid standalone x train r \<le> 1"
proof -
  let ?a = "(1 - x) * of_nat hybrid" and ?b = "x * of_nat hybrid + of_nat standalone"
  have nn: "0 \<le> ?a" "0 \<le> ?b" "0 < (of_nat (hybrid + standalone) :: rat)" "?a + ?b = of_nat (hybrid + standalone)"
    using assms(1-3) by (simp_all only: mult_nonneg_nonneg add_nonneg_nonneg diff_ge_0_iff_ge of_nat_0_le_iff of_nat_0_less_iff)
      (simp_all add: algebra_simps)
  have "0 \<le> ?a * train" "?a * train \<le> ?a" "0 \<le> ?b * r" "?b * r \<le> ?b"
    using nn(1,2) assms(4-7) by (simp_all add: mult_left_le)
  then have "0 \<le> ?a * train + ?b * r" "?a * train + ?b * r \<le> of_nat (hybrid + standalone)" using nn(4) by linarith+
  then show "0 \<le> mixed_utilization hybrid standalone x train r" "mixed_utilization hybrid standalone x train r \<le> 1"
    unfolding mixed_utilization_def using nn(3) by (auto simp only: divide_le_eq_1_pos intro!: divide_nonneg_pos)
qed

text \<open>
  Utilisations are fractions: what the rollouter reports is between 0 and 1 for every history of tasks and capacities, and with a
  train utilisation between 0 and 1 so is the combined one, wherever the hybrid GPUs spent their time.
\<close>

lemma utilizations_are_fractions:
  assumes "map_of m ''dynamic_resource/train_resource_utilization'' = Some train" "0 \<le> train" "train \<le> 1"
    "map_of m ''dynamic_resource/resource_utilization'' = None"
    "map_of (resource_utilization hybrid standalone (Some (rollout_utilization hs)) m) ''dynamic_resource/resource_utilization'' = Some v"
  shows "0 \<le> rollout_utilization hs \<and> rollout_utilization hs \<le> 1 \<and> 0 \<le> v \<and> v \<le> 1"
proof -
  let ?x = "min 1 (max 0 (dict_get m ''timing_s/wait_for_enough_samples'' 0 / dict_get m ''timing_s/step'' 0))"
  have g: "hybrid + standalone > 0" "v = mixed_utilization hybrid standalone ?x train (rollout_utilization hs)"
    using assms(1,4,5) by (auto simp: resource_utilization_def Let_def update_conv' split: if_splits)
  have "0 \<le> ?x" "?x \<le> 1" by simp_all
  from mixed_bounds [OF this g(1) assms(2,3), of "rollout_utilization hs"] rollout_utilization_bounds [of hs] g(2)
  show ?thesis by simp
qed

end
