(* ===== verification/Dynamic_Schedule.thy ===== *)
theory Dynamic_Schedule
  imports Async_Rollouter
begin

text \<open>
  \<open>verl/experimental/fully_async_policy/dynamic_schedule/\<close>: the policies that decide when the trainer's GPUs
  leave the rollout (\<open>deactivate_wait_samples\<close>) and come back to it (\<open>should_activate_after_step\<close>), and
  how the ratio between the two adapts.  The locale \<open>schedule_policy\<close> is what the trainer relies on.  Times and
  ratios are rationals; \<open>int\<close> of a float is \<open>trunc\<close>.
\<close>

section \<open>Context and registry\<close>

record schedule_context =
  sc_required_samples :: nat
  sc_trigger_sync :: nat
  sc_total_generated :: int
  sc_expected :: int
  sc_wait_times :: "rat list"
  sc_wait_samples :: "nat list"
  sc_activate_duration :: rat
  sc_deactivate_duration :: rat

definition step_required_samples :: "schedule_context \<Rightarrow> nat" where
  "step_required_samples ctx = sc_required_samples ctx * sc_trigger_sync ctx"

text \<open>The decorator \<open>register_policy\<close>, and the policies that importing the package registers.\<close>

definition register_policy :: "string \<Rightarrow> 'c \<Rightarrow> (string \<Rightarrow> 'c option) \<Rightarrow> string \<Rightarrow> 'c option" where
  "register_policy name cls registry = registry(name \<mapsto> cls)"

datatype policy_class = Default_policy | Static_policy | Fixed_ratio_policy

definition package_registry :: "string \<Rightarrow> policy_class option" where
  "package_registry = register_policy ''static_fully_async'' Static_policy (register_policy ''default'' Default_policy (\<lambda>_. None))"

definition build_policy :: "(string \<Rightarrow> policy_class option) \<Rightarrow> string \<Rightarrow> policy_class result" where
  "build_policy registry name = (case registry name of None \<Rightarrow> Inl KeyError | Some c \<Rightarrow> Inr c)"

section \<open>Policies\<close>

definition trunc :: "rat \<Rightarrow> int" where
  "trunc x = (if x \<ge> 0 then \<lfloor>x\<rfloor> else \<lceil>x\<rceil>)"

record policy =
  po_ratio :: rat
  po_only_hybrid :: bool
  po_overheads :: "rat list"
  po_sample_time :: rat

definition init_policy :: "rat \<Rightarrow> bool \<Rightarrow> policy" where
  "init_policy ratio only_hybrid =
     \<lparr>po_ratio = (if only_hybrid then 1 else ratio), po_only_hybrid = only_hybrid, po_overheads = [], po_sample_time = 1000\<rparr>"

definition should_deactivate :: "bool \<Rightarrow> bool" where
  "should_deactivate is_hybrid_active = is_hybrid_active"

definition ratio_wait_samples :: "schedule_context \<Rightarrow> policy \<Rightarrow> int" where
  "ratio_wait_samples ctx p = trunc (of_nat (step_required_samples ctx) * po_ratio p)"

definition switch_cost :: "policy \<Rightarrow> rat" where
  "switch_cost p = (let recent = py_take_last 3 (po_overheads p) in
     if po_overheads p = [] then 10 else sum_list recent / of_nat (length recent))"

definition ratio_increase :: "schedule_context \<Rightarrow> rat" where
  "ratio_increase ctx =
     (let total = sum_list (sc_wait_samples ctx); cycle = step_required_samples ctx;
          raw = (if cycle > 0 then of_nat total / of_nat cycle else 1 / 10) in
      min (1 / 10) (max (2 / 100) raw))"

definition default_update :: "int \<Rightarrow> schedule_context \<Rightarrow> policy \<Rightarrow> policy" where
  "default_update global_steps ctx p =
     (if global_steps \<le> 0 \<or> po_only_hybrid p then p
      else
        let overhead = sc_activate_duration ctx + sc_deactivate_duration ctx;
            p' = (if overhead > 0 then p\<lparr>po_overheads := po_overheads p @ [overhead]\<rparr> else p) in
        if sum_list (sc_wait_samples ctx) > 0 then p'\<lparr>po_ratio := min 1 (po_ratio p + ratio_increase ctx)\<rparr>
        else p'\<lparr>po_ratio := po_ratio p - 2 / 100\<rparr>)"

definition deactivate_gap :: "schedule_context \<Rightarrow> policy \<Rightarrow> rat" where
  "deactivate_gap ctx p = po_ratio p * of_nat (step_required_samples ctx) - of_int (sc_total_generated ctx - sc_expected ctx)"

definition estimate_sample_time :: "schedule_context \<Rightarrow> policy \<Rightarrow> policy" where
  "estimate_sample_time ctx p =
     (if sum_list (sc_wait_times ctx) > 0 \<and> sum_list (sc_wait_samples ctx) > 0
      then p\<lparr>po_sample_time := sum_list (sc_wait_times ctx) / of_nat (sum_list (sc_wait_samples ctx))\<rparr> else p)"

definition positive_net_benefit :: "schedule_context \<Rightarrow> policy \<Rightarrow> bool \<times> policy" where
  "positive_net_benefit ctx p =
     (let p' = estimate_sample_time ctx p in (max 0 (deactivate_gap ctx p) * po_sample_time p' - switch_cost p > 0, p'))"

definition default_activate :: "schedule_context \<Rightarrow> policy \<Rightarrow> bool \<times> policy" where
  "default_activate ctx p =
     (if po_only_hybrid p then (True, p)
      else if \<not> deactivate_gap ctx p > 0 then (False, p)
      else positive_net_benefit ctx p)"

definition fixed_activate :: "schedule_context \<Rightarrow> policy \<Rightarrow> bool \<times> policy" where
  "fixed_activate ctx p =
     (po_only_hybrid p \<or> of_int (sc_total_generated ctx - sc_expected ctx) < po_ratio p * of_nat (step_required_samples ctx), p)"

definition fixed_update :: "int \<Rightarrow> schedule_context \<Rightarrow> policy \<Rightarrow> policy" where
  "fixed_update global_steps ctx p = p"

definition static_wait_samples :: "schedule_context \<Rightarrow> policy \<Rightarrow> int" where
  "static_wait_samples ctx p = 0"

definition static_activate :: "schedule_context \<Rightarrow> policy \<Rightarrow> bool \<times> policy" where
  "static_activate ctx p = (False, p)"

section \<open>What the trainer relies on\<close>

text \<open>
  A sane policy never waits for more samples than a weight-update cycle uses, and brings the hybrid replicas
  back only while fewer than a cycle's samples are ahead, unless there are no other replicas.
\<close>

locale schedule_policy =
  fixes sane :: "'p \<Rightarrow> bool"
    and wait_samples :: "schedule_context \<Rightarrow> 'p \<Rightarrow> int"
    and activate :: "schedule_context \<Rightarrow> 'p \<Rightarrow> bool \<times> 'p"
    and update :: "int \<Rightarrow> schedule_context \<Rightarrow> 'p \<Rightarrow> 'p"
    and only_hybrid :: "'p \<Rightarrow> bool"
  assumes wait_le: "sane p \<Longrightarrow> wait_samples ctx p \<le> int (step_required_samples ctx)"
    and activate_ahead: "sane p \<Longrightarrow> fst (activate ctx p) \<Longrightarrow> \<not> only_hybrid p \<Longrightarrow>
      sc_total_generated ctx - sc_expected ctx < int (step_required_samples ctx)"
    and sane_activate: "sane p \<Longrightarrow> sane (snd (activate ctx p))"
    and sane_update: "sane p \<Longrightarrow> sane (update n ctx p)"
    and only_activate: "only_hybrid (snd (activate ctx p)) = only_hybrid p"
    and only_update: "only_hybrid (update n ctx p) = only_hybrid p"
begin

text \<open>A cycle of the trainer: the policy is asked after the weight update, and then adapted.\<close>

fun cycles :: "(int \<times> schedule_context) list \<Rightarrow> 'p \<Rightarrow> 'p" where
  "cycles [] p = p"
| "cycles ((n, ctx) # cs) p = cycles cs (update n ctx (snd (activate ctx p)))"

lemma cycles_sane: "sane p \<Longrightarrow> sane (cycles cs p) \<and> only_hybrid (cycles cs p) = only_hybrid p"
  by (induction cs p rule: cycles.induct) (auto simp: sane_activate sane_update only_activate only_update)

lemma cycles_wait: "sane p \<Longrightarrow> wait_samples ctx (cycles cs p) \<le> int (step_required_samples ctx)"
  using cycles_sane [of p cs] by (simp add: wait_le)

lemma cycles_activate:
  "sane p \<Longrightarrow> \<not> only_hybrid p \<Longrightarrow> fst (activate ctx (cycles cs p)) \<Longrightarrow> sc_total_generated ctx - sc_expected ctx < int (step_required_samples ctx)"
  using cycles_sane [of p cs] activate_ahead [of "cycles cs p" ctx] by simp

end

definition sane_policy :: "policy \<Rightarrow> bool" where
  "sane_policy p \<longleftrightarrow> po_ratio p \<le> 1"

lemma ratio_scaled: "r \<le> 1 \<Longrightarrow> of_nat n * r \<le> (of_nat n :: rat)"
  by (simp add: mult_left_le)

lemma ratio_wait_le:
  assumes "sane_policy p"
  shows "ratio_wait_samples ctx p \<le> int (step_required_samples ctx)"
proof -
  have "of_nat (step_required_samples ctx) * po_ratio p \<le> of_nat (step_required_samples ctx)"
    using assms by (intro ratio_scaled) (simp add: sane_policy_def)
  then show ?thesis by (auto simp: ratio_wait_samples_def trunc_def floor_le_iff ceiling_le_iff)
qed

lemma gap_ahead:
  assumes "sane_policy p" "of_int d < po_ratio p * of_nat n"
  shows "d < int n"
proof -
  have "po_ratio p * of_nat n \<le> of_nat n" using ratio_scaled [of "po_ratio p" n] assms(1) by (simp add: sane_policy_def mult.commute)
  with assms(2) have "of_int d < (of_int (int n) :: rat)" by simp
  then show ?thesis by (simp only: of_int_less_iff)
qed

lemma default_activate_fields:
  "po_ratio (snd (default_activate ctx p)) = po_ratio p" "po_only_hybrid (snd (default_activate ctx p)) = po_only_hybrid p"
  by (simp_all add: default_activate_def positive_net_benefit_def estimate_sample_time_def Let_def)

interpretation default: schedule_policy sane_policy ratio_wait_samples default_activate default_update po_only_hybrid
proof (unfold_locales, goal_cases)
  case (2 p ctx)
  then have "of_int (sc_total_generated ctx - sc_expected ctx) < po_ratio p * of_nat (step_required_samples ctx)"
    by (auto simp: default_activate_def deactivate_gap_def split: if_splits)
  with 2(1) show ?case by (rule gap_ahead)
qed (auto simp: ratio_wait_le sane_policy_def default_activate_fields default_update_def Let_def)

interpretation fixed_ratio: schedule_policy sane_policy ratio_wait_samples fixed_activate fixed_update po_only_hybrid
proof (unfold_locales, goal_cases)
  case (2 p ctx)
  then show ?case by (auto simp: fixed_activate_def intro: gap_ahead)
qed (auto simp: ratio_wait_le fixed_activate_def fixed_update_def)

interpretation static: schedule_policy "\<lambda>_. True" static_wait_samples static_activate fixed_update po_only_hybrid
  by unfold_locales (auto simp: static_wait_samples_def static_activate_def fixed_update_def)

section \<open>Properties\<close>

text \<open>
  C35. The wait can end: with any built-in policy, after any history of cycles, the number of samples the trainer waits for before it
  takes the hybrid GPUs back is at most what a weight-update cycle uses, which is at most what the message queue of the
  rollouter can hold; and while there are standalone replicas the hybrid ones are brought back only if fewer samples than
  a cycle uses are ahead.
\<close>

theorem deactivation_wait_attainable:
  assumes "check_config c = Inr ()" "sc_required_samples ctx = required_samples c" "sc_trigger_sync ctx = rc_trigger_sync c" "r \<le> 1"
  shows "ratio_wait_samples ctx (default.cycles cs (init_policy r oh)) \<le> int (step_required_samples ctx)
    \<and> ratio_wait_samples ctx (fixed_ratio.cycles cs (init_policy r oh)) \<le> int (step_required_samples ctx)
    \<and> static_wait_samples ctx (static.cycles cs (init_policy r oh)) \<le> int (step_required_samples ctx)
    \<and> step_required_samples ctx \<le> max_required_samples c
    \<and> (\<not> oh \<and> (fst (default_activate ctx (default.cycles cs (init_policy r oh))) \<or> fst (fixed_activate ctx (fixed_ratio.cycles cs (init_policy r oh))))
         \<longrightarrow> sc_total_generated ctx - sc_expected ctx < int (step_required_samples ctx))"
proof -
  have sane: "sane_policy (init_policy r oh)" "po_only_hybrid (init_policy r oh) = oh" using assms(4) by (simp_all add: sane_policy_def init_policy_def)
  have thr: "rc_staleness_threshold c \<ge> 0" using assms(1) by (auto simp: check_config_def rbind_eq_Inr_iff)
  have "(of_nat (required_samples c) :: rat) * 1 * of_nat (rc_trigger_sync c) \<le> of_nat (required_samples c) * (rc_staleness_threshold c + 1) * of_nat (rc_trigger_sync c)"
    using thr by (intro mult_right_mono mult_left_mono) auto
  then have "int (required_samples c * rc_trigger_sync c) \<le> \<lfloor>of_nat (required_samples c) * (rc_staleness_threshold c + 1) * of_nat (rc_trigger_sync c)\<rfloor>"
    by (simp add: le_floor_iff)
  then have "step_required_samples ctx \<le> max_required_samples c"
    unfolding step_required_samples_def max_required_samples_def assms(2,3) by linarith
  then show ?thesis
    using default.cycles_wait [OF sane(1)] fixed_ratio.cycles_wait [OF sane(1)] static.cycles_wait
      default.cycles_activate [OF sane(1)] fixed_ratio.cycles_activate [OF sane(1)] sane(2) by blast
qed

definition demo_context :: schedule_context where
  "demo_context = \<lparr>sc_required_samples = 1, sc_trigger_sync = 1, sc_total_generated = 3, sc_expected = 3, sc_wait_times = [],
     sc_wait_samples = [], sc_activate_duration = 0, sc_deactivate_duration = 0\<rparr>"

theorem deactivation_wait_attainable_witness:
  "ratio_wait_samples demo_context (default.cycles [(1, demo_context)] (init_policy (3 / 10) False)) \<le> 1
     \<and> step_required_samples demo_context \<le> max_required_samples demo_rollout_config"
proof -
  have "check_config demo_rollout_config = Inr ()" "sc_required_samples demo_context = required_samples demo_rollout_config"
    "sc_trigger_sync demo_context = rc_trigger_sync demo_rollout_config" "(3 / 10 :: rat) \<le> 1" "step_required_samples demo_context = 1"
    by (simp_all add: check_config_def assert_r_def demo_rollout_config_def demo_context_def required_samples_def step_required_samples_def)
  with deactivation_wait_attainable [OF this(1-4), of "[(1, demo_context)]" False] show ?thesis by simp
qed

text \<open>
  How the default ratio adapts: it never exceeds 1; a cycle that waited raises it by 0.02 to 0.1, up to 1; each cycle that did not wait
  lowers it by 0.02 without a lower bound, so that it leaves the documented range \<open>(0, 1]\<close>, and after enough
  such cycles the number of samples to wait for is negative.
\<close>

lemma default_cycle_ratio:
  assumes "0 < n" "\<not> po_only_hybrid p"
  shows "po_ratio (default_update n ctx (snd (default_activate ctx p)))
    = (if sum_list (sc_wait_samples ctx) > 0 then min 1 (po_ratio p + ratio_increase ctx) else po_ratio p - 1 / 50)"
  using assms by (simp add: default_update_def default_activate_fields Let_def del: sum_list_eq_0_iff)

lemma default_ratio_drifts:
  assumes "r \<le> 1"
  shows "po_ratio (default.cycles cs (init_policy r False)) \<le> 1 \<and> 1 / 50 \<le> ratio_increase ctx \<and> ratio_increase ctx \<le> 1 / 10
    \<and> (sum_list (sc_wait_samples ctx) = 0 \<longrightarrow>
         po_ratio (default.cycles (replicate k (1, ctx)) (init_policy r False)) = r - of_nat k / 50
         \<and> (r * 50 + 50 \<le> of_nat k \<and> 0 < step_required_samples ctx \<longrightarrow>
              ratio_wait_samples ctx (default.cycles (replicate k (1, ctx)) (init_policy r False)) < 0))"
proof -
  have "sane_policy (init_policy r False)" using assms by (simp add: sane_policy_def init_policy_def)
  from default.cycles_sane [OF this] have le: "po_ratio (default.cycles cs (init_policy r False)) \<le> 1" by (simp add: sane_policy_def)
  have inc: "1 / 50 \<le> ratio_increase ctx" "ratio_increase ctx \<le> 1 / 10" by (simp_all add: ratio_increase_def Let_def)
  have down: "po_ratio (default.cycles (replicate k (1, ctx)) p) = po_ratio p - of_nat k / 50"
    if "sum_list (sc_wait_samples ctx) = 0" "\<not> po_only_hybrid p" for k p
    using that
  proof (induction k arbitrary: p)
    case (Suc k)
    have "\<not> po_only_hybrid (default_update 1 ctx (snd (default_activate ctx p)))" using Suc.prems(2) default.only_activate default.only_update by simp
    with Suc default_cycle_ratio [of 1 p ctx] show ?case by (simp add: add_divide_distrib del: sum_list_eq_0_iff)
  qed simp
  have neg: "ratio_wait_samples ctx p < 0" if "po_ratio p \<le> -1" "0 < step_required_samples ctx" for p
  proof -
    have "of_nat (step_required_samples ctx) * po_ratio p \<le> of_nat (step_required_samples ctx) * (-1)" using that(1) by (intro mult_left_mono) auto
    moreover have "1 \<le> (of_nat (step_required_samples ctx) :: rat)" using that(2) by (simp add: Suc_le_eq)
    ultimately have "of_nat (step_required_samples ctx) * po_ratio p \<le> -1" by linarith
    then show ?thesis by (auto simp: ratio_wait_samples_def trunc_def ceiling_less_iff)
  qed
  have "po_ratio (default.cycles (replicate k (1, ctx)) (init_policy r False)) = r - of_nat k / 50" if "sum_list (sc_wait_samples ctx) = 0"
    using down [OF that, of "init_policy r False" k] by (simp add: init_policy_def)
  then show ?thesis using le inc neg [of "default.cycles (replicate k (1, ctx)) (init_policy r False)"] by (auto simp: field_simps)
qed

text \<open>The policy \<open>fixed_ratio\<close> is never imported, so the package does not know it.\<close>

lemma fixed_ratio_unregistered:
  "build_policy package_registry ''fixed_ratio'' = Inl KeyError \<and> build_policy package_registry ''default'' = Inr Default_policy"
  by (simp add: build_policy_def package_registry_def register_policy_def)

end
