(* ===== verification/Load_Balancer.thy ===== *)
theory Load_Balancer
  imports Transition "HOL-Library.AList"
begin

text \<open>
  \<open>verl/workers/rollout/llm_server.py\<close>: the \<open>GlobalRequestLoadBalancer\<close>, one actor that routes every
  generation request to a server.  Its dictionaries are association lists in insertion order, since the
  first least-loaded server wins.  The sticky cache is \<open>cachetools.LRUCache\<close>, which is not part of the
  repository: what it keeps when an entry is stored, and the reordering when one is read, are parameters
  with the laws of \<open>lru_store_ok\<close> and \<open>lru_touch_ok\<close>.  The \<open>hash\<close> of a request is a parameter.
\<close>

section \<open>State\<close>

record ('r, 's, 'h) balancer =
  lb_servers :: "('s \<times> 'h) list"
  lb_inflight :: "('s \<times> nat) list"
  lb_cache :: "('r \<times> 's) list"
  lb_determinism :: bool

text \<open>Storing an entry keeps it, and keeps or evicts each other entry; reading changes no entry.\<close>

definition lru_store_ok :: "(('r \<times> 's) list \<Rightarrow> 'r \<Rightarrow> 's \<Rightarrow> ('r \<times> 's) list) \<Rightarrow> bool" where
  "lru_store_ok store \<longleftrightarrow> (\<forall>c k v. map_of (store c k v) k = Some v
     \<and> (\<forall>k'. k' \<noteq> k \<longrightarrow> map_of (store c k v) k' = map_of c k' \<or> map_of (store c k v) k' = None))"

definition lru_touch_ok :: "(('r \<times> 's) list \<Rightarrow> 'r \<Rightarrow> ('r \<times> 's) list) \<Rightarrow> bool" where
  "lru_touch_ok touch \<longleftrightarrow> (\<forall>c k. map_of (touch c k) = map_of c)"

definition init_balancer :: "('s \<times> 'h) list \<Rightarrow> bool \<Rightarrow> ('r, 's, 'h) balancer" where
  "init_balancer servers determinism =
     \<lparr>lb_servers = servers, lb_inflight = map (\<lambda>(sid, _). (sid, 0)) servers, lb_cache = [], lb_determinism = determinism\<rparr>"

section \<open>Operations\<close>

definition inflight_of :: "('r, 's, 'h) balancer \<Rightarrow> 's \<Rightarrow> nat" where
  "inflight_of lb sid = (case map_of (lb_inflight lb) sid of None \<Rightarrow> 0 | Some n \<Rightarrow> n)"

text \<open>\<open>_inflight_requests[sid] += 1\<close> on a registered server, and \<open>_servers[sid]\<close>.\<close>

definition use_server :: "'s \<Rightarrow> ('r, 's, 'h) balancer \<Rightarrow> (py_error + 's \<times> 'h) \<times> ('r, 's, 'h) balancer" where
  "use_server sid lb =
     (let lb' = lb\<lparr>lb_inflight := AList.update sid (inflight_of lb sid + 1) (lb_inflight lb)\<rparr> in
      case map_of (lb_servers lb) sid of None \<Rightarrow> (Inl KeyError, lb') | Some h \<Rightarrow> (Inr (sid, h), lb'))"

definition least_loaded :: "('s \<times> nat) list \<Rightarrow> 's" where
  "least_loaded inflight = fst (hd (filter (\<lambda>p. snd p = Min (set (map snd inflight))) inflight))"

definition select_server ::
  "(('r \<times> 's) list \<Rightarrow> 'r \<Rightarrow> 's \<Rightarrow> ('r \<times> 's) list) \<Rightarrow> ('r \<Rightarrow> int) \<Rightarrow> 'r \<Rightarrow> ('r, 's, 'h) balancer
   \<Rightarrow> (py_error + 's \<times> 'h) \<times> ('r, 's, 'h) balancer" where
  "select_server store hash rid lb =
     (if lb_inflight lb = [] then (Inl RuntimeError, lb)
      else
        let sid = (if lb_determinism lb then fst (lb_servers lb ! nat (hash rid mod int (length (lb_servers lb))))
                   else least_loaded (lb_inflight lb))
        in use_server sid (lb\<lparr>lb_cache := store (lb_cache lb) rid sid\<rparr>))"

definition acquire_server ::
  "(('r \<times> 's) list \<Rightarrow> 'r \<Rightarrow> 's \<Rightarrow> ('r \<times> 's) list) \<Rightarrow> (('r \<times> 's) list \<Rightarrow> 'r \<Rightarrow> ('r \<times> 's) list) \<Rightarrow> ('r \<Rightarrow> int) \<Rightarrow> 'r
   \<Rightarrow> ('r, 's, 'h) balancer \<Rightarrow> (py_error + 's \<times> 'h) \<times> ('r, 's, 'h) balancer" where
  "acquire_server store touch hash rid lb =
     (case map_of (lb_cache lb) rid of
        Some sid \<Rightarrow>
          (let lb' = lb\<lparr>lb_cache := touch (lb_cache lb) rid\<rparr> in
           if sid \<in> fst ` set (lb_inflight lb) then use_server sid lb'
           else select_server store hash rid (lb'\<lparr>lb_cache := AList.delete rid (lb_cache lb')\<rparr>))
      | None \<Rightarrow> select_server store hash rid lb)"

definition release_server :: "'s \<Rightarrow> ('r, 's, 'h) balancer \<Rightarrow> ('r, 's, 'h) balancer" where
  "release_server sid lb = (case map_of (lb_inflight lb) sid of
       None \<Rightarrow> lb
     | Some n \<Rightarrow> if n > 0 then lb\<lparr>lb_inflight := AList.update sid (n - 1) (lb_inflight lb)\<rparr> else lb)"

definition add_server :: "'s \<times> 'h \<Rightarrow> ('r, 's, 'h) balancer \<Rightarrow> ('r, 's, 'h) balancer" where
  "add_server p lb = lb\<lparr>lb_inflight := AList.update (fst p) 0 (lb_inflight lb), lb_servers := AList.update (fst p) (snd p) (lb_servers lb)\<rparr>"

definition add_servers :: "('s \<times> 'h) list \<Rightarrow> ('r, 's, 'h) balancer \<Rightarrow> ('r, 's, 'h) balancer" where
  "add_servers servers lb = fold add_server servers lb"

definition remove_server :: "'s \<Rightarrow> ('r, 's, 'h) balancer \<Rightarrow> ('r, 's, 'h) balancer" where
  "remove_server sid lb = lb\<lparr>lb_inflight := AList.delete sid (lb_inflight lb), lb_servers := AList.delete sid (lb_servers lb)\<rparr>"

definition remove_servers :: "'s list \<Rightarrow> ('r, 's, 'h) balancer \<Rightarrow> ('r, 's, 'h) balancer" where
  "remove_servers sids lb = fold remove_server sids lb"

definition get_all_servers :: "('r, 's, 'h) balancer \<Rightarrow> 's list" where
  "get_all_servers lb = map fst (lb_inflight lb)"

definition get_total_inflight :: "('r, 's, 'h) balancer \<Rightarrow> nat" where
  "get_total_inflight lb = sum_list (map snd (lb_inflight lb))"

definition clear_sticky_cache :: "('r, 's, 'h) balancer \<Rightarrow> (nat \<times> ('s \<times> nat) list) \<times> ('r, 's, 'h) balancer" where
  "clear_sticky_cache lb = ((length (lb_cache lb), lb_inflight lb), lb\<lparr>lb_cache := []\<rparr>)"

definition get_status :: "('r, 's, 'h) balancer \<Rightarrow> ('s \<times> nat) list \<times> nat \<times> nat \<times> 's list" where
  "get_status lb = (lb_inflight lb, sum_list (map snd (lb_inflight lb)), length (lb_inflight lb), map fst (lb_servers lb))"

section \<open>Runs\<close>

datatype ('r, 's, 'h) lb_event = Acquire 'r "py_error + 's \<times> 'h" | Release 's | Add "('s \<times> 'h) list" | Remove "'s list" | Clear_cache

inductive lb_step for store touch hash where
  Acquire: "acquire_server store touch hash rid lb = (r, lb') \<Longrightarrow> lb_step store touch hash lb (Acquire rid r) lb'"
| Release: "lb_step store touch hash lb (Release sid) (release_server sid lb)"
| Add: "distinct (map fst servers) \<Longrightarrow> lb_step store touch hash lb (Add servers) (add_servers servers lb)"
| Remove: "lb_step store touch hash lb (Remove sids) (remove_servers sids lb)"
| Clear_cache: "lb_step store touch hash lb Clear_cache (snd (clear_sticky_cache lb))"

inductive_cases lb_stepE: "lb_step store touch hash lb e lb'"

text \<open>Both dictionaries have the same servers, each once.\<close>

definition lb_wf :: "('r, 's, 'h) balancer \<Rightarrow> bool" where
  "lb_wf lb \<longleftrightarrow> map fst (lb_inflight lb) = map fst (lb_servers lb) \<and> distinct (map fst (lb_servers lb))"

lemma map_fst_update: "map fst (AList.update k v xs) = (if k \<in> fst ` set xs then map fst xs else map fst xs @ [k])"
  by (simp add: update_keys)

lemma map_fst_delete: "map fst (AList.delete k xs) = filter (\<lambda>x. x \<noteq> k) (map fst xs)"
  by (induction xs) auto

lemma wf_image: "lb_wf lb \<Longrightarrow> fst ` set (lb_inflight lb) = fst ` set (lb_servers lb)"
  by (metis lb_wf_def list.set_map)

lemma wf_cache [simp]: "lb_wf (lb\<lparr>lb_cache := c\<rparr>) = lb_wf lb"
  by (simp add: lb_wf_def)

lemma wf_update: "lb_wf lb \<Longrightarrow> sid \<in> fst ` set (lb_servers lb) \<Longrightarrow> lb_wf (lb\<lparr>lb_inflight := AList.update sid n (lb_inflight lb)\<rparr>)"
  using wf_image [of lb] by (simp add: lb_wf_def map_fst_update)

lemma wf_add_server: "lb_wf lb \<Longrightarrow> lb_wf (add_server p lb)"
  using wf_image [of lb] by (auto simp: lb_wf_def add_server_def map_fst_update)

lemma wf_remove_server: "lb_wf lb \<Longrightarrow> lb_wf (remove_server sid lb)"
  by (simp add: lb_wf_def remove_server_def map_fst_delete)

lemma wf_add_servers: "lb_wf lb \<Longrightarrow> lb_wf (add_servers ps lb)"
  unfolding add_servers_def by (induction ps arbitrary: lb) (auto simp: wf_add_server)

lemma wf_remove_servers: "lb_wf lb \<Longrightarrow> lb_wf (remove_servers sids lb)"
  unfolding remove_servers_def by (induction sids arbitrary: lb) (auto simp: wf_remove_server)

lemma wf_release:
  assumes "lb_wf lb"
  shows "lb_wf (release_server sid lb)"
proof (cases "map_of (lb_inflight lb) sid")
  case (Some n)
  then have "sid \<in> fst ` set (lb_servers lb)" using wf_image [OF assms] by (metis map_of_eq_None_iff option.distinct(1))
  with assms Some show ?thesis by (simp add: release_server_def wf_update)
qed (use assms in \<open>simp add: release_server_def\<close>)

lemma least_loaded_in:
  assumes "xs \<noteq> []"
  shows "least_loaded xs \<in> fst ` set xs" "distinct (map fst xs) \<Longrightarrow> map_of xs (least_loaded xs) = Some (Min (set (map snd xs)))"
proof -
  let ?m = "Min (set (map snd xs))"
  have "?m \<in> set (map snd xs)" using assms by (intro Min_in) auto
  then have ne: "filter (\<lambda>p. snd p = ?m) xs \<noteq> []" by (force simp: filter_empty_conv)
  from hd_in_set [OF ne] have h: "hd (filter (\<lambda>p. snd p = ?m) xs) \<in> set xs" "snd (hd (filter (\<lambda>p. snd p = ?m) xs)) = ?m" by auto
  then show "least_loaded xs \<in> fst ` set xs" by (auto simp: least_loaded_def)
  show "map_of xs (least_loaded xs) = Some ?m" if "distinct (map fst xs)"
    using h that by (metis (mono_tags, lifting) least_loaded_def map_of_eq_Some_iff prod.collapse)
qed

lemma use_server_ok:
  assumes "lb_wf lb" "sid \<in> fst ` set (lb_servers lb)" "use_server sid lb = (r, lb')"
  shows "\<exists>h. r = Inr (sid, h) \<and> map_of (lb_servers lb) sid = Some h"
    "lb' = lb\<lparr>lb_inflight := AList.update sid (inflight_of lb sid + 1) (lb_inflight lb)\<rparr>" "lb_wf lb'"
proof -
  obtain h where h: "map_of (lb_servers lb) sid = Some h" using assms(2) by (metis map_of_eq_None_iff not_None_eq)
  then show "\<exists>h. r = Inr (sid, h) \<and> map_of (lb_servers lb) sid = Some h"
    and "lb' = lb\<lparr>lb_inflight := AList.update sid (inflight_of lb sid + 1) (lb_inflight lb)\<rparr>"
    using assms(3) by (auto simp: use_server_def)
  then show "lb_wf lb'" using wf_update [OF assms(1,2)] by simp
qed

text \<open>What an acquisition does when a server is registered.\<close>

definition acquired ::
  "('r \<Rightarrow> int) \<Rightarrow> 'r \<Rightarrow> ('r, 's, 'h) balancer \<Rightarrow> 's \<Rightarrow> 'h \<Rightarrow> ('r, 's, 'h) balancer \<Rightarrow> bool" where
  "acquired hash rid lb sid h lb' \<longleftrightarrow> map_of (lb_servers lb) sid = Some h
     \<and> lb_inflight lb' = AList.update sid (inflight_of lb sid + 1) (lb_inflight lb)
     \<and> lb_servers lb' = lb_servers lb \<and> lb_determinism lb' = lb_determinism lb \<and> map_of (lb_cache lb') rid = Some sid
     \<and> (\<forall>k. k \<noteq> rid \<longrightarrow> map_of (lb_cache lb') k = map_of (lb_cache lb) k \<or> map_of (lb_cache lb') k = None)
     \<and> (if map_of (lb_cache lb) rid = Some sid then True
        else (\<forall>old. map_of (lb_cache lb) rid = Some old \<longrightarrow> old \<notin> fst ` set (lb_servers lb))
          \<and> (if lb_determinism lb then sid = fst (lb_servers lb ! nat (hash rid mod int (length (lb_servers lb))))
             else map_of (lb_inflight lb) sid = Some (Min (set (map snd (lb_inflight lb))))))"

lemma select_server_acquired:
  assumes "lru_store_ok store" "lb_wf lb" "lb_inflight lb \<noteq> []" "select_server store hash rid lb = (r, lb')"
  shows "\<exists>sid h. r = Inr (sid, h) \<and> lb_wf lb' \<and> map_of (lb_servers lb) sid = Some h
    \<and> lb_inflight lb' = AList.update sid (inflight_of lb sid + 1) (lb_inflight lb)
    \<and> lb_servers lb' = lb_servers lb \<and> lb_determinism lb' = lb_determinism lb \<and> lb_cache lb' = store (lb_cache lb) rid sid
    \<and> (if lb_determinism lb then sid = fst (lb_servers lb ! nat (hash rid mod int (length (lb_servers lb))))
       else map_of (lb_inflight lb) sid = Some (Min (set (map snd (lb_inflight lb)))))"
proof -
  let ?k = "nat (hash rid mod int (length (lb_servers lb)))"
  define sid where "sid = (if lb_determinism lb then fst (lb_servers lb ! ?k) else least_loaded (lb_inflight lb))"
  have ne: "lb_servers lb \<noteq> []" using assms(2,3) by (metis lb_wf_def map_is_Nil_conv)
  then have "?k < length (lb_servers lb)" by (simp add: nat_less_iff)
  then have mem: "sid \<in> fst ` set (lb_servers lb)"
    using least_loaded_in(1) [OF assms(3)] wf_image [OF assms(2)] by (simp add: sid_def)
  have d: "distinct (map fst (lb_inflight lb))" using assms(2) by (simp add: lb_wf_def)
  have u: "use_server sid (lb\<lparr>lb_cache := store (lb_cache lb) rid sid\<rparr>) = (r, lb')"
    using assms(3,4) by (simp add: select_server_def sid_def Let_def split: if_splits)
  have w: "lb_wf (lb\<lparr>lb_cache := store (lb_cache lb) rid sid\<rparr>)" using assms(2) by simp
  obtain h where "r = Inr (sid, h)" "map_of (lb_servers lb) sid = Some h" using use_server_ok(1) [OF w _ u] mem by auto
  then show ?thesis using use_server_ok(2,3) [OF w _ u] mem least_loaded_in(2) [OF assms(3) d]
    by (intro exI [of _ sid] exI [of _ h]) (auto simp: inflight_of_def sid_def)
qed

lemma store_other:
  assumes "lru_store_ok store" "\<forall>k. k \<noteq> rid \<longrightarrow> map_of c' k = map_of c k" "k \<noteq> rid"
  shows "map_of (store c' rid sid) k = map_of c k \<or> map_of (store c' rid sid) k = None"
  using assms unfolding lru_store_ok_def by metis

lemma use_cached:
  assumes "lru_touch_ok touch" "lb_wf lb" "map_of (lb_cache lb) rid = Some sid" "sid \<in> fst ` set (lb_servers lb)"
    "use_server sid (lb\<lparr>lb_cache := touch (lb_cache lb) rid\<rparr>) = (r, lb')"
  shows "\<exists>h. r = Inr (sid, h) \<and> acquired hash rid lb sid h lb' \<and> lb_wf lb'"
proof -
  have t: "map_of (touch (lb_cache lb) rid) = map_of (lb_cache lb)" using assms(1) by (simp add: lru_touch_ok_def)
  have w: "lb_wf (lb\<lparr>lb_cache := touch (lb_cache lb) rid\<rparr>)" using assms(2) by simp
  show ?thesis using use_server_ok [OF w _ assms(5)] assms(3,4) t by (auto simp: acquired_def inflight_of_def)
qed

lemma acquire_spec:
  assumes "lru_store_ok store" "lru_touch_ok touch" "lb_wf lb" "acquire_server store touch hash rid lb = (r, lb')"
  shows "if lb_inflight lb = [] then r = Inl RuntimeError \<and> lb_inflight lb' = [] \<and> lb_servers lb' = []
    else \<exists>sid h. r = Inr (sid, h) \<and> acquired hash rid lb sid h lb'" (is ?spec) "lb_wf lb'"
proof -
  have im: "fst ` set (lb_inflight lb) = fst ` set (lb_servers lb)" by (rule wf_image [OF assms(3)])
  have empty: "lb_servers lb = []" if "lb_inflight lb = []" using im that by simp
  have sel: "?spec \<and> lb_wf lb'" if st: "\<forall>old. map_of (lb_cache lb) rid = Some old \<longrightarrow> old \<notin> fst ` set (lb_servers lb)"
    and c: "\<forall>k. k \<noteq> rid \<longrightarrow> map_of c k = map_of (lb_cache lb) k" and q: "select_server store hash rid (lb\<lparr>lb_cache := c\<rparr>) = (r, lb')" for c
  proof (cases "lb_inflight lb = []")
    case True
    then show ?thesis using q empty assms(3) by (auto simp: select_server_def)
  next
    case False
    let ?lb = "lb\<lparr>lb_cache := c\<rparr>"
    have w: "lb_wf ?lb" "lb_inflight ?lb \<noteq> []" using assms(3) False by simp_all
    obtain sid h where a: "r = Inr (sid, h)" "lb_wf lb'" "map_of (lb_servers lb) sid = Some h"
      "lb_inflight lb' = AList.update sid (inflight_of lb sid + 1) (lb_inflight lb)" "lb_servers lb' = lb_servers lb"
      "lb_determinism lb' = lb_determinism lb" "lb_cache lb' = store c rid sid"
      "if lb_determinism lb then sid = fst (lb_servers lb ! nat (hash rid mod int (length (lb_servers lb))))
       else map_of (lb_inflight lb) sid = Some (Min (set (map snd (lb_inflight lb))))"
      using select_server_acquired [OF assms(1) w q] by (auto simp: inflight_of_def)
    moreover have "map_of (lb_cache lb') rid = Some sid" using assms(1) a(7) by (simp add: lru_store_ok_def)
    moreover have "map_of (lb_cache lb) rid \<noteq> Some sid" using st a(3) by (metis domI dom_map_of_conv_image_fst)
    ultimately have "acquired hash rid lb sid h lb'"
      unfolding acquired_def using st store_other [OF assms(1) c] by auto
    with a False show ?thesis by auto
  qed
  have "?spec \<and> lb_wf lb'"
  proof (cases "map_of (lb_cache lb) rid")
    case None
    then show ?thesis using sel [of "lb_cache lb"] assms(4) by (simp add: acquire_server_def)
  next
    case (Some old)
    show ?thesis
    proof (cases "old \<in> fst ` set (lb_servers lb)")
      case True
      with Some assms(4) im have "use_server old (lb\<lparr>lb_cache := touch (lb_cache lb) rid\<rparr>) = (r, lb')"
        by (simp add: acquire_server_def)
      from use_cached [OF assms(2,3) Some True this, of hash] True im show ?thesis by auto
    next
      case False
      have "\<forall>k. k \<noteq> rid \<longrightarrow> map_of (AList.delete rid (touch (lb_cache lb) rid)) k = map_of (lb_cache lb) k"
        using assms(2) by (simp add: lru_touch_ok_def delete_conv)
      moreover have "select_server store hash rid (lb\<lparr>lb_cache := AList.delete rid (touch (lb_cache lb) rid)\<rparr>) = (r, lb')"
        using assms(4) Some False im by (simp add: acquire_server_def)
      moreover have "\<forall>old. map_of (lb_cache lb) rid = Some old \<longrightarrow> old \<notin> fst ` set (lb_servers lb)" using Some False by simp
      ultimately show ?thesis by (rule_tac sel)
    qed
  qed
  then show ?spec "lb_wf lb'" by blast+
qed

lemma wf_init: "distinct (map fst servers) \<Longrightarrow> lb_wf (init_balancer servers det)"
  by (simp add: lb_wf_def init_balancer_def comp_def case_prod_unfold)

lemma init_balancer_fields:
  "lb_cache (init_balancer servers det) = []" "lb_determinism (init_balancer servers det) = det"
  "lb_servers (init_balancer servers det) = servers"
  by (simp_all add: init_balancer_def)

lemma wf_step:
  assumes "lru_store_ok store" "lru_touch_ok touch" "lb_wf lb" "lb_step store touch hash lb e lb'"
  shows "lb_wf lb'"
  using assms(4)
proof cases
  case (Acquire rid r)
  then show ?thesis using acquire_spec(2) [OF assms(1-3)] by simp
qed (use assms(3) in \<open>simp_all add: wf_release wf_add_servers wf_remove_servers clear_sticky_cache_def\<close>)

interpretation routing: history_invariant "\<lambda>lb. lru_store_ok store \<and> lru_touch_ok touch \<and> lb_wf lb"
  "lb_step store touch hash" "\<lambda>es lb. lru_store_ok store \<and> lru_touch_ok touch \<and> lb_wf lb" for store touch hash
  by unfold_locales (auto intro: wf_step)

section \<open>Clients\<close>

text \<open>
  The clients of the balancer release a server once for each acquisition, and a server is
  registered only when none of its requests is out.  A state is the balancer and the requests
  that are really out at each server.
\<close>

inductive client_step for store touch hash where
  Client: "lb_step store touch hash lb e lb' \<Longrightarrow>
    (case e of
       Acquire _ (Inr (sid, _)) \<Rightarrow> out' = out(sid := out sid + 1)
     | Release sid \<Rightarrow> out sid > 0 \<and> out' = out(sid := out sid - 1)
     | Add servers \<Rightarrow> (\<forall>sid \<in> fst ` set servers. out sid = (0::nat)) \<and> out' = out
     | _ \<Rightarrow> out' = out) \<Longrightarrow>
    client_step store touch hash (lb, out) e (lb', out')"

definition exact :: "('r, 's, 'h) balancer \<Rightarrow> ('s \<Rightarrow> nat) \<Rightarrow> bool" where
  "exact lb out \<longleftrightarrow> (\<forall>sid n. map_of (lb_inflight lb) sid = Some n \<longrightarrow> n = out sid)"

lemma exact_init: "exact (init_balancer servers det) (\<lambda>_. 0)"
proof -
  have "map_of (map (\<lambda>(sid, _). (sid, 0)) servers) sid = Some n \<Longrightarrow> n = (0::nat)" for sid n
    by (induction servers) (auto split: if_splits)
  then show ?thesis by (simp add: exact_def init_balancer_def)
qed

lemma exact_cache [simp]: "exact (lb\<lparr>lb_cache := c\<rparr>) out = exact lb out"
  by (simp add: exact_def)

lemma exact_add_server: "exact lb out \<Longrightarrow> out (fst p) = 0 \<Longrightarrow> exact (add_server p lb) out"
  by (auto simp: exact_def add_server_def update_conv')

lemma exact_remove_server: "exact lb out \<Longrightarrow> exact (remove_server sid lb) out"
  by (auto simp: exact_def remove_server_def delete_conv' split: if_splits)

lemma exact_add_servers: "exact lb out \<Longrightarrow> \<forall>sid \<in> fst ` set ps. out sid = 0 \<Longrightarrow> exact (add_servers ps lb) out"
  unfolding add_servers_def by (induction ps arbitrary: lb) (auto simp: exact_add_server)

lemma exact_remove_servers: "exact lb out \<Longrightarrow> exact (remove_servers sids lb) out"
  unfolding remove_servers_def by (induction sids arbitrary: lb) (auto simp: exact_remove_server)

lemma exact_release:
  assumes "exact lb out" "out sid > 0"
  shows "exact (release_server sid lb) (out(sid := out sid - 1))"
  using assms by (auto simp: release_server_def exact_def update_conv' split: option.splits)

lemma exact_acquired:
  assumes "exact lb out" "lb_wf lb" "acquired hash rid lb sid h lb'"
  shows "exact lb' (out(sid := out sid + 1))"
proof -
  have "sid \<in> fst ` set (lb_inflight lb)"
    using assms(3) wf_image [OF assms(2)] by (metis acquired_def domI dom_map_of_conv_image_fst)
  then obtain n where "map_of (lb_inflight lb) sid = Some n" by (metis domD dom_map_of_conv_image_fst)
  with assms(1,3) show ?thesis by (auto simp: exact_def acquired_def inflight_of_def update_conv')
qed

definition client_inv ::
  "(('r \<times> 's) list \<Rightarrow> 'r \<Rightarrow> 's \<Rightarrow> ('r \<times> 's) list) \<Rightarrow> (('r \<times> 's) list \<Rightarrow> 'r \<Rightarrow> ('r \<times> 's) list)
   \<Rightarrow> ('r, 's, 'h) balancer \<times> ('s \<Rightarrow> nat) \<Rightarrow> bool" where
  "client_inv store touch st \<longleftrightarrow> lru_store_ok store \<and> lru_touch_ok touch \<and> lb_wf (fst st) \<and> exact (fst st) (snd st)"

lemma client_inv_step:
  assumes "client_inv store touch st" "client_step store touch hash st e st'"
  shows "client_inv store touch st'"
  using assms(2)
proof cases
  case (Client lb lb' out' out)
  have ok: "lru_store_ok store" "lru_touch_ok touch" "lb_wf lb" "exact lb out" using assms(1) Client(1) by (simp_all add: client_inv_def)
  have w: "lb_wf lb'" by (rule wf_step [OF ok(1-3) Client(3)])
  from Client(3) have "exact lb' out'"
  proof cases
    case (Acquire rid r)
    show ?thesis
    proof (cases "lb_inflight lb = []")
      case True
      with acquire_spec(1) [OF ok(1-3) Acquire(2)] show ?thesis by (simp add: exact_def)
    next
      case False
      with acquire_spec(1) [OF ok(1-3) Acquire(2)] obtain sid h where "r = Inr (sid, h)" "acquired hash rid lb sid h lb'" by auto
      with exact_acquired [OF ok(4,3)] Client(4) Acquire(1) show ?thesis by simp
    qed
  qed (use Client(4) ok(4) in \<open>auto simp: exact_release [simplified] exact_add_servers exact_remove_servers clear_sticky_cache_def\<close>)
  with ok w Client(2) show ?thesis by (simp add: client_inv_def)
qed

interpretation clients: history_invariant "client_inv store touch" "client_step store touch hash" "\<lambda>es. client_inv store touch"
  for store touch hash
  by unfold_locales (auto intro: client_inv_step)

section \<open>Even loads\<close>

fun requests_of :: "('r, 's, 'h) lb_event list \<Rightarrow> 'r list" where
  "requests_of [] = []"
| "requests_of (Acquire rid _ # es) = rid # requests_of es"
| "requests_of (_ # es) = requests_of es"

definition only_acquires :: "('r, 's, 'h) lb_event list \<Rightarrow> bool" where
  "only_acquires es \<longleftrightarrow> length (requests_of es) = length es"

lemma requests_of_append [simp]: "requests_of (es @ fs) = requests_of es @ requests_of fs"
  by (induction es rule: requests_of.induct) simp_all

lemma length_requests_le: "length (requests_of es) \<le> length es"
  by (induction es rule: requests_of.induct) simp_all

lemma only_acquires_snoc: "only_acquires (es @ [e]) \<longleftrightarrow> only_acquires es \<and> (\<exists>rid r. e = Acquire rid r)"
  using length_requests_le [of es] by (cases e) (auto simp: only_acquires_def)

definition even_loads :: "('r, 's, 'h) balancer \<Rightarrow> bool" where
  "even_loads lb \<longleftrightarrow> (\<forall>s n s' n'. map_of (lb_inflight lb) s = Some n \<longrightarrow> map_of (lb_inflight lb) s' = Some n' \<longrightarrow> n \<le> n' + 1)"

lemma even_loads_init: "even_loads (init_balancer servers det)"
  unfolding even_loads_def using exact_init [of servers det] by (auto simp: exact_def)

definition even_inv ::
  "(('r \<times> 's) list \<Rightarrow> 'r \<Rightarrow> 's \<Rightarrow> ('r \<times> 's) list) \<Rightarrow> (('r \<times> 's) list \<Rightarrow> 'r \<Rightarrow> ('r \<times> 's) list)
   \<Rightarrow> ('r, 's, 'h) lb_event list \<Rightarrow> ('r, 's, 'h) balancer \<Rightarrow> bool" where
  "even_inv store touch es lb \<longleftrightarrow> lru_store_ok store \<and> lru_touch_ok touch \<and> lb_wf lb \<and>
     (only_acquires es \<and> distinct (requests_of es) \<longrightarrow>
        even_loads lb \<and> \<not> lb_determinism lb \<and> (\<forall>k. map_of (lb_cache lb) k \<noteq> None \<longrightarrow> k \<in> set (requests_of es)))"

lemma even_acquired:
  assumes "even_loads lb" "\<not> lb_determinism lb" "acquired hash rid lb sid h lb'" "map_of (lb_cache lb) rid = None"
  shows "even_loads lb'"
proof -
  let ?m = "Min (set (map snd (lb_inflight lb)))"
  have m: "map_of (lb_inflight lb) sid = Some ?m" using assms(2-4) by (simp add: acquired_def)
  have low: "?m \<le> n" if "map_of (lb_inflight lb) s = Some n" for s n
    using map_of_SomeD [OF that] by (intro Min_le) force+
  have "lb_inflight lb' = AList.update sid (?m + 1) (lb_inflight lb)" using assms(3) m by (simp add: acquired_def inflight_of_def)
  then show ?thesis using assms(1) m low by (fastforce simp: even_loads_def update_conv')
qed

lemma even_step:
  assumes "even_inv store touch es lb" "lb_step store touch hash lb e lb'"
  shows "even_inv store touch (es @ [e]) lb'"
proof -
  have ok: "lru_store_ok store" "lru_touch_ok touch" "lb_wf lb" using assms(1) by (simp_all add: even_inv_def)
  have "even_loads lb' \<and> \<not> lb_determinism lb' \<and> (\<forall>k. map_of (lb_cache lb') k \<noteq> None \<longrightarrow> k \<in> set (requests_of (es @ [e])))"
    if run: "only_acquires (es @ [e])" "distinct (requests_of (es @ [e]))"
  proof -
    obtain rid r where e: "e = Acquire rid r" using run(1) by (auto simp: only_acquires_snoc)
    from run have old: "even_loads lb" "\<not> lb_determinism lb" "\<forall>k. map_of (lb_cache lb) k \<noteq> None \<longrightarrow> k \<in> set (requests_of es)" "rid \<notin> set (requests_of es)"
      using assms(1) by (auto simp: even_inv_def only_acquires_snoc e)
    then have none: "map_of (lb_cache lb) rid = None" by blast
    have a: "acquire_server store touch hash rid lb = (r, lb')" using assms(2) e by (auto elim: lb_stepE)
    show ?thesis
    proof (cases "lb_inflight lb = []")
      case True
      with a none have "lb' = lb" by (simp add: acquire_server_def select_server_def)
      then show ?thesis using old e by auto
    next
      case False
      with acquire_spec(1) [OF ok a] obtain sid h where q: "acquired hash rid lb sid h lb'" by auto
      from even_acquired [OF old(1,2) q none] q old show ?thesis by (auto simp: e acquired_def)
    qed
  qed
  then show ?thesis using ok wf_step [OF ok assms(2)] by (simp add: even_inv_def)
qed

interpretation even: history_invariant "even_inv store touch []" "lb_step store touch hash" "even_inv store touch" for store touch hash
  by unfold_locales (auto intro: even_step)

section \<open>Properties\<close>

definition keep_all :: "('r \<times> 's) list \<Rightarrow> 'r \<Rightarrow> 's \<Rightarrow> ('r \<times> 's) list" where
  "keep_all c k v = (k, v) # c"

lemma keep_all_ok: "lru_store_ok keep_all" "lru_touch_ok (\<lambda>c k. c)"
  by (simp_all add: lru_store_ok_def lru_touch_ok_def keep_all_def)


text \<open>
  Requests spread evenly: as long as fresh requests only arrive, the loads of any two servers differ by at most
  one, whatever the cache evicts.
\<close>

lemma loads_even:
  assumes "lru_store_ok store" "lru_touch_ok touch" "distinct (map fst servers)"
    "run (lb_step store touch hash) (init_balancer servers False) es lb" "only_acquires es" "distinct (requests_of es)"
  shows "\<forall>s \<in> set (get_all_servers lb). \<forall>s' \<in> set (get_all_servers lb). inflight_of lb s \<le> inflight_of lb s' + 1"
proof -
  have "even_inv store touch [] (init_balancer servers False)"
    using assms(1-3) by (simp add: even_inv_def wf_init init_balancer_fields even_loads_init)
  from even.inv_run [OF this assms(4)] assms(5,6) have "even_loads lb" by (simp add: even_inv_def)
  moreover have "\<exists>n. map_of (lb_inflight lb) s = Some n" if "s \<in> set (get_all_servers lb)" for s
    using that by (simp add: get_all_servers_def) (metis domD dom_map_of_conv_image_fst)
  ultimately show ?thesis unfolding even_loads_def inflight_of_def by (metis option.simps(5))
qed

text \<open>
  Where a request goes, in any reachable state: with no server it is refused with \<open>RuntimeError\<close>;
  a request whose cached server is registered goes there; any other request goes, in deterministic mode, to the
  server its hash names, and else to a server of least load.  The chosen server is registered, its load
  grows by one, and the request will go there again unless its entry is evicted.
\<close>

lemma acquire_routes:
  assumes "lru_store_ok store" "lru_touch_ok touch" "distinct (map fst servers)"
    "run (lb_step store touch hash) (init_balancer servers det) es lb" "acquire_server store touch hash rid lb = (r, lb')"
  shows "if get_all_servers lb = [] then r = Inl RuntimeError
    else \<exists>sid h. r = Inr (sid, h) \<and> map_of (lb_servers lb) sid = Some h \<and> inflight_of lb' sid = inflight_of lb sid + 1
      \<and> (\<forall>s. s \<noteq> sid \<longrightarrow> inflight_of lb' s = inflight_of lb s) \<and> map_of (lb_cache lb') rid = Some sid
      \<and> (case map_of (lb_cache lb) rid of
           Some old \<Rightarrow> old \<in> set (get_all_servers lb) \<longrightarrow> sid = old
         | None \<Rightarrow> if lb_determinism lb then sid = get_all_servers lb ! nat (hash rid mod int (length (get_all_servers lb)))
                   else \<forall>s \<in> set (get_all_servers lb). inflight_of lb sid \<le> inflight_of lb s)"
proof -
  have w: "lb_wf lb" using routing.inv_run [OF _ assms(4)] assms(1-3) by (simp add: wf_init)
  have keys: "get_all_servers lb = map fst (lb_servers lb)" using w by (simp add: get_all_servers_def lb_wf_def)
  show ?thesis
  proof (cases "lb_inflight lb = []")
    case True
    then show ?thesis using acquire_spec(1) [OF assms(1,2) w assms(5)] by (simp add: get_all_servers_def)
  next
    case False
    then obtain sid h where r: "r = Inr (sid, h)" and a: "acquired hash rid lb sid h lb'"
      using acquire_spec(1) [OF assms(1,2) w assms(5)] by auto
    have up: "inflight_of lb' s = (if s = sid then inflight_of lb sid + 1 else inflight_of lb s)" for s
      using a by (simp add: acquired_def inflight_of_def update_conv')
    have least: "inflight_of lb sid \<le> inflight_of lb s"
      if "map_of (lb_inflight lb) sid = Some (Min (set (map snd (lb_inflight lb))))" "s \<in> set (get_all_servers lb)" for s
    proof -
      have "s \<in> fst ` set (lb_inflight lb)" using that(2) by (simp add: get_all_servers_def)
      then obtain n where n: "map_of (lb_inflight lb) s = Some n" by (metis domD dom_map_of_conv_image_fst)
      have "Min (set (map snd (lb_inflight lb))) \<le> n" using map_of_SomeD [OF n] by (intro Min_le) force+
      with n that(1) show ?thesis by (simp add: inflight_of_def)
    qed
    have "map fst (lb_servers lb) ! k = fst (lb_servers lb ! k)" if "k < length (lb_servers lb)" for k using that by simp
    moreover have "lb_servers lb \<noteq> []" using False w by (metis lb_wf_def map_is_Nil_conv)
    then have "nat (hash rid mod int (length (lb_servers lb))) < length (lb_servers lb)" by (simp add: nat_less_iff)
    ultimately show ?thesis using False r a up least
      by (auto simp: acquired_def keys image_iff split: option.splits if_splits simp del: image_iff)
  qed
qed

definition demo_servers :: "(string \<times> nat) list" where
  "demo_servers = [(''s0'', 10), (''s1'', 11)]"

definition demo_balancer :: "(nat, string, nat) balancer" where
  "demo_balancer = \<lparr>lb_servers = demo_servers, lb_inflight = [(''s0'', 1), (''s1'', 1)], lb_cache = [(2, ''s1''), (1, ''s0'')], lb_determinism = False\<rparr>"

definition demo_requests :: "(nat, string, nat) lb_event list" where
  "demo_requests = [Acquire 1 (Inr (''s0'', 10)), Acquire 2 (Inr (''s1'', 11))]"

lemma demo_distinct: "distinct (map fst demo_servers)"
  by (simp add: demo_servers_def)

lemmas demo_routing = acquire_server_def select_server_def use_server_def least_loaded_def inflight_of_def keep_all_def
  init_balancer_def demo_servers_def demo_balancer_def Let_def

lemma demo_acquire_1:
  "lb_step keep_all (\<lambda>c k. c) (\<lambda>_. 0) (init_balancer demo_servers False) (Acquire 1 (Inr (''s0'', 10)))
     (demo_balancer\<lparr>lb_inflight := [(''s0'', 1), (''s1'', 0)], lb_cache := [(1, ''s0'')]\<rparr>)"
  by (rule lb_step.Acquire) (simp add: demo_routing)

lemma demo_acquire_2:
  "lb_step keep_all (\<lambda>c k. c) (\<lambda>_. 0) (demo_balancer\<lparr>lb_inflight := [(''s0'', 1), (''s1'', 0)], lb_cache := [(1, ''s0'')]\<rparr>)
     (Acquire 2 (Inr (''s1'', 11))) demo_balancer"
  by (rule lb_step.Acquire) (simp add: demo_routing)

lemma demo_balancer_run: "run (lb_step keep_all (\<lambda>c k. c) (\<lambda>_. 0)) (init_balancer demo_servers False) demo_requests demo_balancer"
  unfolding demo_requests_def by (blast intro: run_Cons run_Nil demo_acquire_1 demo_acquire_2)

lemma demo_clients:
  "run (client_step keep_all (\<lambda>c k. c) (\<lambda>_. 0)) (init_balancer demo_servers False, \<lambda>_. 0)
     [Acquire 1 (Inr (''s0'', 10)), Acquire 2 (Inr (''s1'', 11)), Remove [''s0'']]
     (remove_servers [''s0''] demo_balancer, (\<lambda>_. 0)(''s0'' := 1, ''s1'' := 1))" (is "run ?step _ _ (?lb, ?out)")
proof -
  have "?step (init_balancer demo_servers False, \<lambda>_. 0) (Acquire 1 (Inr (''s0'', 10)))
      (demo_balancer\<lparr>lb_inflight := [(''s0'', 1), (''s1'', 0)], lb_cache := [(1, ''s0'')]\<rparr>, (\<lambda>_. 0)(''s0'' := 1))"
    by (rule client_step.Client [OF demo_acquire_1]) simp
  moreover have "?step (demo_balancer\<lparr>lb_inflight := [(''s0'', 1), (''s1'', 0)], lb_cache := [(1, ''s0'')]\<rparr>, (\<lambda>_. 0)(''s0'' := 1))
      (Acquire 2 (Inr (''s1'', 11))) (demo_balancer, ?out)"
    by (rule client_step.Client [OF demo_acquire_2]) simp
  moreover have "?step (demo_balancer, ?out) (Remove [''s0'']) (?lb, ?out)"
    by (rule client_step.Client [OF lb_step.Remove]) simp
  ultimately show ?thesis by (blast intro: run_Cons run_Nil)
qed


end
