(* ===== verification/Hybrid_Replicas.thy ===== *)
theory Hybrid_Replicas
  imports Load_Balancer
begin

text \<open>
  \<open>FullyAsyncLLMServerManager\<close> of \<open>fully_async_rollouter.py\<close>, which registers hybrid replicas with the load balancer
  while the trainer does not need their GPUs, and \<open>DynamicResourceController\<close> of
  \<open>dynamic_schedule/dynamic_resource_controller.py\<close>, which switches between the two modes.  The resource id
  \<open>hybrid_i\<close> is the number \<open>i\<close>; Python compares replicas by identity, here every replica has an own
  \<open>rp_id\<close>.  The call to the balancer actor may raise, which is the argument \<open>ok\<close>; the trainer awaits one call before the next.
\<close>

section \<open>State\<close>

record replica =
  rp_id :: nat
  rp_address :: string
  rp_handle :: nat

record 'r replica_manager =
  hm_hybrid :: "(nat \<times> replica) list"
  hm_alive :: "(nat \<times> replica) list"
  hm_alive_addresses :: "(nat \<times> string) list"
  hm_rollout :: "replica list"
  hm_handles :: "nat list"
  hm_addresses :: "string list"
  hm_lb :: "('r, string, nat) balancer"

text \<open>
  After \<open>_initialize_llm_servers\<close> and \<open>_init_global_load_balancer\<close>: the hybrid replicas sleep, the standalone ones are
  registered.
\<close>

definition init_manager :: "replica list \<Rightarrow> replica list \<Rightarrow> bool \<Rightarrow> 'r replica_manager" where
  "init_manager hybrid standalone det =
     \<lparr>hm_hybrid = zip [0..<length hybrid] hybrid, hm_alive = [], hm_alive_addresses = [], hm_rollout = standalone,
      hm_handles = map rp_handle standalone, hm_addresses = map rp_address standalone,
      hm_lb = init_balancer (zip (map rp_address standalone) (map rp_handle standalone)) det\<rparr>"

section \<open>Activation and deactivation\<close>

definition activate_one :: "nat \<Rightarrow> 'r replica_manager \<Rightarrow> 'r replica_manager" where
  "activate_one i m = (case map_of (hm_hybrid m) i of
       None \<Rightarrow> m
     | Some rp \<Rightarrow>
         (let m1 = (if rp_address rp \<in> set (hm_addresses m) then m
                    else m\<lparr>hm_handles := hm_handles m @ [rp_handle rp], hm_addresses := hm_addresses m @ [rp_address rp]\<rparr>);
              m2 = (if rp \<in> set (hm_rollout m1) then m1 else m1\<lparr>hm_rollout := hm_rollout m1 @ [rp]\<rparr>) in
          m2\<lparr>hm_alive := AList.update i rp (hm_alive m2), hm_alive_addresses := AList.update i (rp_address rp) (hm_alive_addresses m2)\<rparr>))"

definition servers_of :: "nat list \<Rightarrow> 'r replica_manager \<Rightarrow> (string \<times> nat) list" where
  "servers_of is m = fold (\<lambda>i d. case map_of (hm_hybrid m) i of None \<Rightarrow> d | Some rp \<Rightarrow> AList.update (rp_address rp) (rp_handle rp) d) is []"

definition add_replicas :: "bool \<Rightarrow> nat list \<Rightarrow> 'r replica_manager \<Rightarrow> nat \<times> 'r replica_manager" where
  "add_replicas ok is m =
     (let valid = filter (\<lambda>i. map_of (hm_alive m) i = None \<and> map_of (hm_hybrid m) i \<noteq> None) is in
      if valid = [] \<or> \<not> ok then (0, m)
      else (length valid, fold activate_one valid (m\<lparr>hm_lb := add_servers (servers_of valid m) (hm_lb m)\<rparr>)))"

definition list_pop :: "nat \<Rightarrow> 'a list \<Rightarrow> 'a list" where
  "list_pop i xs = take i xs @ drop (Suc i) xs"

definition index_of :: "'a \<Rightarrow> 'a list \<Rightarrow> nat" where
  "index_of x xs = length (takeWhile (\<lambda>y. y \<noteq> x) xs)"

text \<open>\<open>None\<close> is the \<open>KeyError\<close> of \<open>alive_addresses[rid]\<close> on a resource that occurs twice.\<close>

definition deactivate_one :: "nat \<Rightarrow> 'r replica_manager \<Rightarrow> 'r replica_manager option" where
  "deactivate_one i m = (case (map_of (hm_alive_addresses m) i, map_of (hm_alive m) i) of
       (Some a, Some rp) \<Rightarrow>
         (let m1 = (if a \<in> set (hm_addresses m)
                    then m\<lparr>hm_addresses := list_pop (index_of a (hm_addresses m)) (hm_addresses m),
                           hm_handles := list_pop (index_of a (hm_addresses m)) (hm_handles m)\<rparr> else m) in
          Some (m1\<lparr>hm_rollout := remove1 rp (hm_rollout m1), hm_alive := AList.delete i (hm_alive m1),
                   hm_alive_addresses := AList.delete i (hm_alive_addresses m1)\<rparr>))
     | _ \<Rightarrow> None)"

fun deactivate_all :: "nat list \<Rightarrow> 'r replica_manager \<Rightarrow> bool \<times> 'r replica_manager" where
  "deactivate_all [] m = (True, m)"
| "deactivate_all (i # is) m = (case deactivate_one i m of None \<Rightarrow> (False, m) | Some m' \<Rightarrow> deactivate_all is m')"

text \<open>An exception in the loop is caught: 0 is returned, with the replicas before it removed.\<close>

definition remove_replicas :: "bool \<Rightarrow> nat list \<Rightarrow> 'r replica_manager \<Rightarrow> nat \<times> 'r replica_manager" where
  "remove_replicas ok is m =
     (let valid = filter (\<lambda>i. map_of (hm_alive m) i \<noteq> None) is;
          addresses = map (\<lambda>i. the (map_of (hm_alive_addresses m) i)) valid in
      if valid = [] \<or> \<not> ok then (0, m)
      else (let (done, m') = deactivate_all valid (m\<lparr>hm_lb := remove_servers addresses (hm_lb m)\<rparr>) in
            (if done then length valid else 0, m')))"

definition get_num_hybrid_replicas :: "'r replica_manager \<Rightarrow> nat" where
  "get_num_hybrid_replicas m = length (hm_alive m)"

definition get_hybrid_replicas_info :: "'r replica_manager \<Rightarrow> (nat \<times> string) list" where
  "get_hybrid_replicas_info m = hm_alive_addresses m"

definition get_active_server_count :: "'r replica_manager \<Rightarrow> nat" where
  "get_active_server_count m = length (hm_rollout m) + length (hm_alive m)"

definition get_standalone_replicas :: "'r replica_manager \<Rightarrow> replica list" where
  "get_standalone_replicas m = hm_rollout m"

text \<open>\<open>FullyAsyncRollouter._update_max_concurrent_samples\<close>, with the limit before it.\<close>

definition update_max_concurrent_samples :: "nat option \<Rightarrow> nat \<Rightarrow> 'r replica_manager \<Rightarrow> nat option \<Rightarrow> nat option" where
  "update_max_concurrent_samples max_required per_replica m old =
     (case max_required of None \<Rightarrow> old | Some r \<Rightarrow> Some (min (length (hm_rollout m) * per_replica) r))"

section \<open>The controller\<close>

datatype checkpoint_call = Abort_replicas | Update_weights nat | Resume_generation | Sleep_replicas | Add_to_balancer | Remove_from_balancer

record 'r controller =
  dc_manager :: "'r replica_manager"
  dc_active :: bool
  dc_activate_count :: nat
  dc_deactivate_count :: nat
  dc_calls :: "checkpoint_call list"

definition call :: "checkpoint_call list \<Rightarrow> 'r controller \<Rightarrow> 'r controller" where
  "call cs d = d\<lparr>dc_calls := dc_calls d @ cs\<rparr>"

text \<open>\<open>registered\<close>: whether the hybrid checkpoint manager has replicas.\<close>

definition sync_hybrid_weights :: "bool \<Rightarrow> nat \<Rightarrow> 'r controller \<Rightarrow> 'r controller" where
  "sync_hybrid_weights registered step d =
     (if registered then call [Abort_replicas, Update_weights step, Resume_generation] d else d)"

definition activate_hybrid_replicas :: "bool \<Rightarrow> 'r controller \<Rightarrow> 'r controller" where
  "activate_hybrid_replicas ok d =
     (let ids = map fst (hm_hybrid (dc_manager d)) in
      if ids = [] then d
      else (call [Add_to_balancer, Resume_generation] d)
             \<lparr>dc_manager := snd (add_replicas ok ids (dc_manager d)), dc_active := True, dc_activate_count := dc_activate_count d + 1\<rparr>)"

definition deactivate_hybrid_replicas :: "bool \<Rightarrow> 'r controller \<Rightarrow> 'r controller" where
  "deactivate_hybrid_replicas ok d =
     (let ids = map fst (hm_hybrid (dc_manager d)) in
      if ids = [] then d\<lparr>dc_active := False\<rparr>
      else (call [Remove_from_balancer, Abort_replicas, Sleep_replicas] d)
             \<lparr>dc_manager := snd (remove_replicas ok ids (dc_manager d)), dc_active := False, dc_deactivate_count := dc_deactivate_count d + 1\<rparr>)"

section \<open>What a manager is\<close>

text \<open>
  The abstract state is the list of active hybrid replicas, in the order of their activation.  \<open>tables\<close> says what the
  lists of the manager are for it, \<open>routes\<close> what the balancer is.
\<close>

definition up_replicas :: "replica list \<Rightarrow> replica list \<Rightarrow> nat list \<Rightarrow> replica list" where
  "up_replicas hybrid standalone al = standalone @ map ((!) hybrid) al"

definition tables :: "replica list \<Rightarrow> replica list \<Rightarrow> nat list \<Rightarrow> 'r replica_manager \<Rightarrow> bool" where
  "tables hybrid standalone al m \<longleftrightarrow>
     hm_hybrid m = zip [0..<length hybrid] hybrid \<and> hm_alive m = map (\<lambda>i. (i, hybrid ! i)) al
     \<and> hm_alive_addresses m = map (\<lambda>i. (i, rp_address (hybrid ! i))) al \<and> hm_rollout m = up_replicas hybrid standalone al
     \<and> hm_handles m = map rp_handle (up_replicas hybrid standalone al) \<and> hm_addresses m = map rp_address (up_replicas hybrid standalone al)"

definition routes :: "replica list \<Rightarrow> ('r, string, nat) balancer \<Rightarrow> bool" where
  "routes up lb \<longleftrightarrow> lb_wf lb \<and> lb_servers lb = map (\<lambda>r. (rp_address r, rp_handle r)) up"

definition replicas_ok :: "replica list \<Rightarrow> replica list \<Rightarrow> nat list \<Rightarrow> bool" where
  "replicas_ok hybrid standalone al \<longleftrightarrow> distinct (map rp_address (standalone @ hybrid)) \<and> distinct al \<and> set al \<subseteq> {..<length hybrid}"

definition abs_add :: "nat \<Rightarrow> nat list \<Rightarrow> nat list \<Rightarrow> nat list" where
  "abs_add n is al = fold (\<lambda>i al. if i < n \<and> i \<notin> set al then al @ [i] else al) is al"

definition abs_remove :: "nat list \<Rightarrow> nat list \<Rightarrow> nat list" where
  "abs_remove is al = filter (\<lambda>i. i \<notin> set is) al"

lemma map_of_upt_zip: "map_of (zip [0..<length xs] xs) i = (if i < length xs then Some (xs ! i) else None)"
proof (cases "i < length xs")
  case True
  then show ?thesis using map_of_zip_nth [of "[0..<length xs]" xs i] by simp
next
  case False
  then show ?thesis using map_of_zip_is_None [of "[0..<length xs]" xs i] by simp
qed

lemma map_of_graph [simp]: "map_of (map (\<lambda>i. (i, f i)) al) i = (if i \<in> set al then Some (f i) else None)"
  by (induction al) auto

lemma update_fresh: "k \<notin> fst ` set xs \<Longrightarrow> AList.update k v xs = xs @ [(k, v)]"
  by (induction xs) auto

lemma update_graph: "AList.update i (f i) (map (\<lambda>i. (i, f i)) al) = map (\<lambda>i. (i, f i)) (if i \<in> set al then al else al @ [i])"
  by (induction al) auto

lemma delete_graph: "AList.delete i (map (\<lambda>i. (i, f i)) al) = map (\<lambda>i. (i, f i)) (filter (\<lambda>j. j \<noteq> i) al)"
  by (induction al) auto

lemma replicas_okD:
  assumes "replicas_ok hybrid standalone al" "i < length hybrid"
  shows "rp_address (hybrid ! i) \<notin> rp_address ` set standalone" "hybrid ! i \<notin> set standalone"
    "j < length hybrid \<Longrightarrow> rp_address (hybrid ! i) = rp_address (hybrid ! j) \<longleftrightarrow> i = j"
    "j < length hybrid \<Longrightarrow> hybrid ! i = hybrid ! j \<longleftrightarrow> i = j"
proof -
  have d: "distinct (map rp_address hybrid)" "rp_address ` set standalone \<inter> rp_address ` set hybrid = {}"
    using assms(1) by (auto simp: replicas_ok_def)
  have "rp_address (hybrid ! i) \<in> rp_address ` set hybrid" using assms(2) by simp
  with d(2) show a: "rp_address (hybrid ! i) \<notin> rp_address ` set standalone" by blast
  then show "hybrid ! i \<notin> set standalone" by blast
  show eq: "rp_address (hybrid ! i) = rp_address (hybrid ! j) \<longleftrightarrow> i = j" if "j < length hybrid"
    using d(1) assms(2) that by (auto simp: distinct_conv_nth)
  then show "hybrid ! i = hybrid ! j \<longleftrightarrow> i = j" if "j < length hybrid" using that by metis
qed

lemma up_replica_iff:
  assumes "replicas_ok hybrid standalone al" "i < length hybrid"
  shows "rp_address (hybrid ! i) \<in> rp_address ` set (up_replicas hybrid standalone al) \<longleftrightarrow> i \<in> set al"
    "hybrid ! i \<in> set (up_replicas hybrid standalone al) \<longleftrightarrow> i \<in> set al"
proof -
  have sub: "j \<in> set al \<Longrightarrow> j < length hybrid" for j using assms(1) by (auto simp: replicas_ok_def)
  show "rp_address (hybrid ! i) \<in> rp_address ` set (up_replicas hybrid standalone al) \<longleftrightarrow> i \<in> set al"
    "hybrid ! i \<in> set (up_replicas hybrid standalone al) \<longleftrightarrow> i \<in> set al"
    using replicas_okD [OF assms] sub by (auto simp: up_replicas_def image_iff)
qed

lemma activate_one_tables:
  assumes "tables hybrid standalone al m" "replicas_ok hybrid standalone al" "i < length hybrid"
  shows "tables hybrid standalone (if i \<in> set al then al else al @ [i]) (activate_one i m)" "hm_lb (activate_one i m) = hm_lb m"
proof -
  have "map_of (hm_hybrid m) i = Some (hybrid ! i)" using assms(1,3) by (simp add: tables_def map_of_upt_zip)
  moreover have "rp_address (hybrid ! i) \<in> set (hm_addresses m) \<longleftrightarrow> i \<in> set al" "hybrid ! i \<in> set (hm_rollout m) \<longleftrightarrow> i \<in> set al"
    using assms(1) up_replica_iff [OF assms(2,3)] by (simp_all add: tables_def)
  ultimately show "tables hybrid standalone (if i \<in> set al then al else al @ [i]) (activate_one i m)" "hm_lb (activate_one i m) = hm_lb m"
    using assms(1) update_graph [of i "(!) hybrid" al] update_graph [of i "\<lambda>i. rp_address (hybrid ! i)" al]
    by (auto simp: tables_def activate_one_def Let_def up_replicas_def)
qed

lemma abs_add_Cons: "abs_add n (i # is) al = abs_add n is (if i < n \<and> i \<notin> set al then al @ [i] else al)"
  by (simp add: abs_add_def)

lemma abs_add_ok: "replicas_ok hybrid standalone al \<Longrightarrow> replicas_ok hybrid standalone (abs_add (length hybrid) is al)"
proof (induction "is" arbitrary: al)
  case (Cons i "is")
  then show ?case by (auto simp: abs_add_Cons replicas_ok_def)
qed (simp add: abs_add_def)

lemma activate_tables:
  assumes "tables hybrid standalone al m" "replicas_ok hybrid standalone al" "set is \<subseteq> {..<length hybrid}"
  shows "tables hybrid standalone (abs_add (length hybrid) is al) (fold activate_one is m) \<and> hm_lb (fold activate_one is m) = hm_lb m"
  using assms
proof (induction "is" arbitrary: al m)
  case (Cons i "is")
  let ?al = "if i \<in> set al then al else al @ [i]"
  have "replicas_ok hybrid standalone ?al" using Cons.prems by (auto simp: replicas_ok_def)
  from Cons.IH [OF activate_one_tables(1) [OF Cons.prems(1,2)] this] activate_one_tables(2) [OF Cons.prems(1,2)] Cons.prems(3)
  show ?case by (auto simp: abs_add_Cons)
qed (simp add: abs_add_def)

lemma list_pop_map:
  assumes "x \<in> set xs" "inj_on f (set xs)"
  shows "list_pop (index_of (f x) (map f xs)) (map g xs) = map g (remove1 x xs)"
  using assms
proof (induction xs)
  case (Cons y xs)
  then show ?case by (cases "x = y") (auto simp: list_pop_def index_of_def inj_on_def)
qed simp

lemma distinct_up:
  assumes "replicas_ok hybrid standalone al"
  shows "distinct (map rp_address (up_replicas hybrid standalone al))"
proof -
  have "\<forall>i \<in> set al. i < length hybrid" "distinct al" "distinct (map rp_address standalone)" using assms by (auto simp: replicas_ok_def)
  note al = this
  have "inj_on (\<lambda>i. rp_address (hybrid ! i)) (set al)"
    using replicas_okD(3) [OF assms] al(1) by (intro inj_onI) blast
  then have h: "distinct (map (\<lambda>i. rp_address (hybrid ! i)) al)" using al(2) by (simp only: distinct_map simp_thms)
  have "rp_address (hybrid ! i) \<notin> rp_address ` set standalone" if "i \<in> set al" for i
    using replicas_okD(1) [OF assms, of i] al(1) that by simp
  then have "rp_address ` set standalone \<inter> (\<lambda>i. rp_address (hybrid ! i)) ` set al = {}"
    by (metis (no_types, lifting) disjoint_iff imageE)
  then show ?thesis using al(3) h
    by (simp only: up_replicas_def map_append map_map comp_def distinct_append set_map simp_thms)
qed

lemma remove1_up:
  assumes "replicas_ok hybrid standalone al" "i \<in> set al"
  shows "remove1 (hybrid ! i) (up_replicas hybrid standalone al) = up_replicas hybrid standalone (filter (\<lambda>j. j \<noteq> i) al)"
proof -
  have sub: "\<forall>j \<in> set al. j < length hybrid" using assms(1) by (auto simp: replicas_ok_def)
  have "remove1 (hybrid ! i) (map ((!) hybrid) js) = map ((!) hybrid) (remove1 i js)" if "set js \<subseteq> set al" for js
    using that
  proof (induction js)
    case (Cons j js)
    moreover have "hybrid ! j = hybrid ! i \<longleftrightarrow> j = i" using replicas_okD(4) [OF assms(1)] sub assms(2) Cons.prems by simp
    ultimately show ?case by auto
  qed simp
  moreover have "remove1 i al = filter (\<lambda>j. j \<noteq> i) al"
  proof -
    have "distinct al" using assms(1) by (simp add: replicas_ok_def)
    then show ?thesis by (subst distinct_remove1_removeAll) (auto simp: removeAll_filter_not_eq intro!: filter_cong)
  qed
  moreover have "hybrid ! i \<notin> set standalone" using replicas_okD(2) [OF assms(1)] sub assms(2) by blast
  ultimately show ?thesis by (simp add: up_replicas_def remove1_append)
qed

lemma deactivate_one_tables:
  assumes "tables hybrid standalone al m" "replicas_ok hybrid standalone al" "i \<in> set al"
  shows "\<exists>m'. deactivate_one i m = Some m' \<and> tables hybrid standalone (filter (\<lambda>j. j \<noteq> i) al) m' \<and> hm_lb m' = hm_lb m"
proof -
  let ?up = "up_replicas hybrid standalone al" and ?r = "hybrid ! i"
  have i: "i < length hybrid" using assms(2,3) by (auto simp: replicas_ok_def)
  have mem: "?r \<in> set ?up" using up_replica_iff(2) [OF assms(2) i] assms(3) by simp
  have inj: "inj_on rp_address (set ?up)" using distinct_up [OF assms(2)] by (simp add: distinct_map)
  show ?thesis using assms(1,3) mem remove1_up [OF assms(2,3)]
    by (simp add: deactivate_one_def tables_def Let_def delete_graph list_pop_map [OF mem inj])
qed

lemma deactivate_tables:
  assumes "tables hybrid standalone al m" "replicas_ok hybrid standalone al" "distinct is" "set is \<subseteq> set al"
  shows "\<exists>m'. deactivate_all is m = (True, m') \<and> tables hybrid standalone (abs_remove is al) m' \<and> hm_lb m' = hm_lb m"
  using assms
proof (induction "is" arbitrary: al m)
  case (Cons i "is")
  let ?al = "filter (\<lambda>j. j \<noteq> i) al"
  obtain m1 where m1: "deactivate_one i m = Some m1" "tables hybrid standalone ?al m1" "hm_lb m1 = hm_lb m"
    using deactivate_one_tables [OF Cons.prems(1,2)] Cons.prems(4) by auto
  have "replicas_ok hybrid standalone ?al" "set is \<subseteq> set ?al" using Cons.prems by (auto simp: replicas_ok_def)
  from Cons.IH [OF m1(2) this(1) _ this(2)] Cons.prems(3) m1(1,3) show ?case
    by (auto simp: abs_remove_def conj_commute)
qed (simp add: abs_remove_def)

text \<open>The balancer.\<close>

lemma abs_add_append:
  assumes "set is \<inter> set al = {}"
  shows "abs_add n is (al @ acc) = al @ abs_add n is acc"
  using assms
proof (induction "is" arbitrary: acc)
  case (Cons i "is")
  then show ?case using Cons.IH [of "acc @ [i]"] by (auto simp: abs_add_Cons)
qed (simp add: abs_add_def)

lemma abs_add_filter:
  assumes "set al0 \<subseteq> set al"
  shows "abs_add n (filter (\<lambda>i. i \<notin> set al0 \<and> i < n) is) al = abs_add n is al"
  using assms
proof (induction "is" arbitrary: al)
  case (Cons i "is")
  have "set al0 \<subseteq> set (al @ [i])" using Cons.prems by auto
  with Cons.IH [of "al @ [i]"] Cons.IH [of al] Cons.prems show ?case by (auto simp: abs_add_Cons)
qed (simp add: abs_add_def)

lemma servers_of_eq:
  assumes "tables hybrid standalone al m" "replicas_ok hybrid standalone al" "set is \<subseteq> {..<length hybrid}"
  shows "servers_of is m = map (\<lambda>i. (rp_address (hybrid ! i), rp_handle (hybrid ! i))) (abs_add (length hybrid) is [])"
proof -
  let ?f = "\<lambda>i d. case map_of (hm_hybrid m) i of None \<Rightarrow> d | Some rp \<Rightarrow> AList.update (rp_address rp) (rp_handle rp) d"
  let ?g = "\<lambda>i. (rp_address (hybrid ! i), rp_handle (hybrid ! i))"
  have up: "AList.update (rp_address (hybrid ! i)) (rp_handle (hybrid ! i)) (map ?g acc) = map ?g (if i \<in> set acc then acc else acc @ [i])"
    if "i < length hybrid" "set acc \<subseteq> {..<length hybrid}" for i acc
    using that by (induction acc) (use replicas_okD(3) [OF assms(2)] in auto)
  have "fold ?f is (map ?g acc) = map ?g (abs_add (length hybrid) is acc)" if "set acc \<subseteq> {..<length hybrid}" for acc
    using assms(3) that
  proof (induction "is" arbitrary: acc)
    case (Cons i "is")
    then show ?case using assms(1) by (auto simp: abs_add_Cons tables_def map_of_upt_zip up)
  qed (simp add: abs_add_def)
  from this [of "[]"] show ?thesis by (simp add: servers_of_def)
qed

lemma add_servers_fresh:
  assumes "distinct (map fst ps)" "fst ` set ps \<inter> fst ` set (lb_servers lb) = {}"
  shows "lb_servers (add_servers ps lb) = lb_servers lb @ ps"
  using assms unfolding add_servers_def
proof (induction ps arbitrary: lb)
  case (Cons p ps)
  have "lb_servers (add_server p lb) = lb_servers lb @ [p]" using Cons.prems(2) by (simp add: add_server_def update_fresh)
  with Cons show ?case by auto
qed simp

lemma remove_servers_filter: "lb_servers (remove_servers as lb) = filter (\<lambda>p. fst p \<notin> set as) (lb_servers lb)"
proof -
  have d: "AList.delete k xs = filter (\<lambda>p. fst p \<noteq> k) xs" for k and xs :: "('x \<times> 'y) list" by (induction xs) auto
  show ?thesis unfolding remove_servers_def
    by (induction "as" arbitrary: lb) (auto simp: remove_server_def d conj_commute)
qed

lemma valid_add:
  assumes "tables hybrid standalone al m"
  shows "filter (\<lambda>i. map_of (hm_alive m) i = None \<and> map_of (hm_hybrid m) i \<noteq> None) is = filter (\<lambda>i. i \<notin> set al \<and> i < length hybrid) is"
  using assms by (intro filter_cong) (auto simp: tables_def map_of_upt_zip)

lemma tables_lb [simp]: "tables hybrid standalone al (m\<lparr>hm_lb := lb\<rparr>) = tables hybrid standalone al m"
  by (simp add: tables_def)

lemma routes_add:
  assumes "replicas_ok hybrid standalone al" "routes (up_replicas hybrid standalone al) lb" "set is \<subseteq> {..<length hybrid}" "set is \<inter> set al = {}"
  defines "new \<equiv> abs_add (length hybrid) is []"
  shows "routes (up_replicas hybrid standalone (abs_add (length hybrid) is al)) (add_servers (map (\<lambda>i. (rp_address (hybrid ! i), rp_handle (hybrid ! i))) new) lb)"
proof -
  have all: "abs_add (length hybrid) is al = al @ new" using abs_add_append [OF assms(4), of "length hybrid" "[]"] by (simp add: new_def)
  have "distinct (map rp_address (up_replicas hybrid standalone (al @ new)))"
    using distinct_up [OF abs_add_ok [OF assms(1), of "is"]] all by simp
  then have "distinct (map rp_address (map ((!) hybrid) new))"
    "rp_address ` set (map ((!) hybrid) new) \<inter> rp_address ` set (up_replicas hybrid standalone al) = {}"
    by (auto simp: up_replicas_def)
  then have "lb_servers (add_servers (map (\<lambda>i. (rp_address (hybrid ! i), rp_handle (hybrid ! i))) new) lb)
      = lb_servers lb @ map (\<lambda>i. (rp_address (hybrid ! i), rp_handle (hybrid ! i))) new"
    using assms(2) by (intro add_servers_fresh) (auto simp: routes_def comp_def image_image)
  with assms(2) all show ?thesis by (simp add: routes_def wf_add_servers up_replicas_def comp_def)
qed

lemma add_replicas_spec:
  assumes "tables hybrid standalone al m" "replicas_ok hybrid standalone al" "routes (up_replicas hybrid standalone al) (hm_lb m)"
    "add_replicas ok is m = (n, m')"
  defines "al' \<equiv> (if ok then abs_add (length hybrid) is al else al)"
  shows "tables hybrid standalone al' m' \<and> replicas_ok hybrid standalone al' \<and> routes (up_replicas hybrid standalone al') (hm_lb m')
    \<and> n = (if ok then length (filter (\<lambda>i. i \<notin> set al \<and> i < length hybrid) is) else 0)"
proof -
  define valid where "valid = filter (\<lambda>i. i \<notin> set al \<and> i < length hybrid) is"
  have v: "set valid \<subseteq> {..<length hybrid}" "set valid \<inter> set al = {}" by (auto simp: valid_def)
  have al': "al' = (if ok then abs_add (length hybrid) valid al else al)" by (simp add: al'_def valid_def abs_add_filter)
  have run: "(if valid = [] \<or> \<not> ok then (0, m)
      else (length valid, fold activate_one valid (m\<lparr>hm_lb := add_servers (servers_of valid m) (hm_lb m)\<rparr>))) = (n, m')"
    using assms(4) unfolding add_replicas_def valid_add [OF assms(1)] Let_def valid_def [symmetric] .
  show ?thesis
  proof (cases "valid = [] \<or> \<not> ok")
    case True
    have "abs_add (length hybrid) [] al = al" by (simp add: abs_add_def)
    with True show ?thesis using assms(1-3) al' run by (auto simp: valid_def)
  next
    case False
    let ?m = "m\<lparr>hm_lb := add_servers (servers_of valid m) (hm_lb m)\<rparr>"
    have eq: "n = length valid" "m' = fold activate_one valid ?m"
      using run False by auto
    have "tables hybrid standalone al ?m" using assms(1) by simp
    from activate_tables [OF this assms(2) v(1)] eq(2) have t: "tables hybrid standalone al' m'" "hm_lb m' = add_servers (servers_of valid m) (hm_lb m)"
      using al' False by auto
    moreover have "routes (up_replicas hybrid standalone al') (hm_lb m')"
      using routes_add [OF assms(2,3) v] False al' by (simp add: t(2) servers_of_eq [OF assms(1,2) v(1)])
    ultimately show ?thesis using abs_add_ok [OF assms(2), of valid] al' eq(1) False by (simp add: valid_def)
  qed
qed

lemma routes_remove:
  assumes "replicas_ok hybrid standalone al" "routes (up_replicas hybrid standalone al) lb" "set is \<subseteq> set al"
  shows "routes (up_replicas hybrid standalone (abs_remove is al)) (remove_servers (map (\<lambda>i. rp_address (hybrid ! i)) is) lb)"
proof -
  let ?gone = "\<lambda>r. rp_address r \<in> (\<lambda>i. rp_address (hybrid ! i)) ` set is"
  have sub: "\<forall>i \<in> set al. i < length hybrid" using assms(1) by (auto simp: replicas_ok_def)
  have "\<not> ?gone r" if "r \<in> set standalone" for r using that sub assms(3) replicas_okD(1) [OF assms(1)] by (force simp: image_iff)
  then have s: "filter (\<lambda>r. \<not> ?gone r) standalone = standalone" by simp
  have "?gone (hybrid ! j) \<longleftrightarrow> j \<in> set is" if "j \<in> set al" for j
    using that sub assms(3) replicas_okD(3) [OF assms(1)] by (auto simp: image_iff)
  then have h: "filter (\<lambda>r. \<not> ?gone r) (map ((!) hybrid) al) = map ((!) hybrid) (abs_remove is al)"
    unfolding abs_remove_def filter_map comp_def by (intro arg_cong [of _ _ "map ((!) hybrid)"] filter_cong) auto
  have "filter (\<lambda>r. \<not> ?gone r) (up_replicas hybrid standalone al) = up_replicas hybrid standalone (abs_remove is al)"
    using s h by (simp add: up_replicas_def)
  with assms(2) show ?thesis by (simp add: routes_def wf_remove_servers remove_servers_filter filter_map comp_def)
qed

lemma remove_replicas_spec:
  assumes "tables hybrid standalone al m" "replicas_ok hybrid standalone al" "routes (up_replicas hybrid standalone al) (hm_lb m)"
    "remove_replicas ok is m = (n, m')" "distinct is"
  defines "al' \<equiv> (if ok then abs_remove is al else al)"
  shows "tables hybrid standalone al' m' \<and> replicas_ok hybrid standalone al' \<and> routes (up_replicas hybrid standalone al') (hm_lb m')
    \<and> n = (if ok then length (filter (\<lambda>i. i \<in> set al) is) else 0)"
proof -
  define valid where "valid = filter (\<lambda>i. i \<in> set al) is"
  have v: "distinct valid" "set valid \<subseteq> set al" using assms(5) by (auto simp: valid_def)
  have al': "al' = (if ok then abs_remove valid al else al)" by (auto simp: al'_def abs_remove_def valid_def intro: filter_cong)
  have valid: "filter (\<lambda>i. map_of (hm_alive m) i \<noteq> None) is = valid"
    unfolding valid_def using assms(1) by (intro filter_cong) (auto simp: tables_def)
  have addr: "map (\<lambda>i. the (map_of (hm_alive_addresses m) i)) valid = map (\<lambda>i. rp_address (hybrid ! i)) valid"
    using assms(1) v(2) by (auto simp: tables_def)
  show ?thesis
  proof (cases "valid = [] \<or> \<not> ok")
    case True
    have "abs_remove [] al = al" by (simp add: abs_remove_def)
    with True show ?thesis using assms(1-4) al' unfolding remove_replicas_def valid Let_def by (auto simp: valid_def)
  next
    case False
    let ?m = "m\<lparr>hm_lb := remove_servers (map (\<lambda>i. rp_address (hybrid ! i)) valid) (hm_lb m)\<rparr>"
    have "tables hybrid standalone al ?m" using assms(1) by simp
    from deactivate_tables [OF this assms(2) v] obtain m1 where m1: "deactivate_all valid ?m = (True, m1)"
      "tables hybrid standalone (abs_remove valid al) m1" "hm_lb m1 = hm_lb ?m" by blast
    have eq: "n = length valid" "m' = m1"
      using assms(4) False m1(1) unfolding remove_replicas_def valid Let_def addr by simp_all
    have "replicas_ok hybrid standalone (abs_remove valid al)" using assms(2) by (auto simp: replicas_ok_def abs_remove_def)
    with m1 eq False al' routes_remove [OF assms(2,3) v(2)] show ?thesis by (simp add: valid_def)
  qed
qed

section \<open>The pool of replicas the manager implements\<close>

datatype 'r hm_event = Activate bool "nat list" nat | Deactivate bool "nat list" nat | Route "('r, string, nat) lb_event"

fun routing_event :: "('r, 's, 'h) lb_event \<Rightarrow> bool" where
  "routing_event (Add _) = False"
| "routing_event (Remove _) = False"
| "routing_event _ = True"

inductive hm_step for store touch hash where
  Activate: "add_replicas ok is m = (n, m') \<Longrightarrow> hm_step store touch hash m (Activate ok is n) m'"
| Deactivate: "remove_replicas ok is m = (n, m') \<Longrightarrow> distinct is \<Longrightarrow> hm_step store touch hash m (Deactivate ok is n) m'"
| Route: "lb_step store touch hash (hm_lb m) e lb \<Longrightarrow> routing_event e \<Longrightarrow> hm_step store touch hash m (Route e) (m\<lparr>hm_lb := lb\<rparr>)"

text \<open>The abstract pool: the active hybrid replicas; requests do not change it.\<close>

inductive pool_step :: "nat \<Rightarrow> nat list \<Rightarrow> 'r hm_event \<Rightarrow> nat list \<Rightarrow> bool" for N where
  Pool_failed: "e \<in> {Activate False is 0, Deactivate False is 0} \<Longrightarrow> pool_step N al e al"
| Pool_activate: "n = length (filter (\<lambda>i. i \<notin> set al \<and> i < N) is) \<Longrightarrow> pool_step N al (Activate True is n) (abs_add N is al)"
| Pool_deactivate: "n = length (filter (\<lambda>i. i \<in> set al) is) \<Longrightarrow> pool_step N al (Deactivate True is n) (abs_remove is al)"
| Pool_route: "pool_step N al (Route e) al"

definition active_of :: "'r replica_manager \<Rightarrow> nat list" where
  "active_of m = map fst (hm_alive m)"

definition pool_inv ::
  "(('r \<times> string) list \<Rightarrow> 'r \<Rightarrow> string \<Rightarrow> ('r \<times> string) list) \<Rightarrow> (('r \<times> string) list \<Rightarrow> 'r \<Rightarrow> ('r \<times> string) list)
   \<Rightarrow> replica list \<Rightarrow> replica list \<Rightarrow> 'r replica_manager \<Rightarrow> bool" where
  "pool_inv store touch hybrid standalone m \<longleftrightarrow> lru_store_ok store \<and> lru_touch_ok touch
     \<and> tables hybrid standalone (active_of m) m \<and> replicas_ok hybrid standalone (active_of m)
     \<and> routes (up_replicas hybrid standalone (active_of m)) (hm_lb m)"

lemma active_of_tables: "tables hybrid standalone al m \<Longrightarrow> active_of m = al"
  by (simp add: tables_def active_of_def comp_def)

lemma active_of_lb [simp]: "active_of (m\<lparr>hm_lb := lb\<rparr>) = active_of m"
  by (simp add: active_of_def)

lemma routes_step:
  assumes "lru_store_ok store" "lru_touch_ok touch" "routes up lb" "lb_step store touch hash lb e lb'" "routing_event e"
  shows "routes up lb'"
  using assms(4)
proof cases
  case (Acquire rid r)
  have w: "lb_wf lb" using assms(3) by (simp add: routes_def)
  have "lb_servers lb' = lb_servers lb"
  proof (cases "lb_inflight lb = []")
    case True
    then have "lb_servers lb = []" using w by (simp add: lb_wf_def)
    with True acquire_spec(1) [OF assms(1,2) w Acquire(2)] show ?thesis by simp
  next
    case False
    with acquire_spec(1) [OF assms(1,2) w Acquire(2)] show ?thesis by (auto simp: acquired_def)
  qed
  with assms(3) acquire_spec(2) [OF assms(1,2) w Acquire(2)] show ?thesis by (simp add: routes_def)
next
  case (Release sid)
  then show ?thesis using assms(3) wf_release [of lb sid] by (auto simp: routes_def release_server_def split: option.splits if_splits)
qed (use assms(3,5) in \<open>auto simp: routes_def clear_sticky_cache_def\<close>)

lemma pool_simulates:
  assumes "pool_inv store touch hybrid standalone m" "hm_step store touch hash m e m'"
  shows "pool_inv store touch hybrid standalone m' \<and> pool_step (length hybrid) (active_of m) e (active_of m')"
  using assms(2)
proof cases
  case (Activate ok "is" n)
  from add_replicas_spec [OF _ _ _ Activate(2), of hybrid standalone "active_of m"] assms(1)
  have s: "tables hybrid standalone (if ok then abs_add (length hybrid) is (active_of m) else active_of m) m'"
    "replicas_ok hybrid standalone (if ok then abs_add (length hybrid) is (active_of m) else active_of m)"
    "routes (up_replicas hybrid standalone (if ok then abs_add (length hybrid) is (active_of m) else active_of m)) (hm_lb m')"
    "n = (if ok then length (filter (\<lambda>i. i \<notin> set (active_of m) \<and> i < length hybrid) is) else 0)" by (simp_all add: pool_inv_def)
  with assms(1) active_of_tables [OF s(1)] Activate(1) show ?thesis
    by (cases ok) (auto simp: pool_inv_def intro: pool_step.intros)
next
  case (Deactivate ok "is" n)
  from remove_replicas_spec [OF _ _ _ Deactivate(2,3), of hybrid standalone "active_of m"] assms(1)
  have s: "tables hybrid standalone (if ok then abs_remove is (active_of m) else active_of m) m'"
    "replicas_ok hybrid standalone (if ok then abs_remove is (active_of m) else active_of m)"
    "routes (up_replicas hybrid standalone (if ok then abs_remove is (active_of m) else active_of m)) (hm_lb m')"
    "n = (if ok then length (filter (\<lambda>i. i \<in> set (active_of m)) is) else 0)" by (simp_all add: pool_inv_def)
  with assms(1) active_of_tables [OF s(1)] Deactivate(1) show ?thesis
    by (cases ok) (auto simp: pool_inv_def intro: pool_step.intros)
next
  case (Route e lb)
  then show ?thesis using assms(1) routes_step [OF _ _ _ Route(3,4)] by (auto simp: pool_inv_def intro: pool_step.intros)
qed

interpretation pool: simulation "hm_step store touch hash" "pool_step (length hybrid)" active_of "pool_inv store touch hybrid standalone"
  for store touch hash hybrid standalone
  by unfold_locales (simp_all add: pool_simulates)

lemma init_pool:
  assumes "lru_store_ok store" "lru_touch_ok touch" "distinct (map rp_address (standalone @ hybrid))"
  shows "pool_inv store touch hybrid standalone (init_manager hybrid standalone det)" "active_of (init_manager hybrid standalone det) = []"
proof -
  show "active_of (init_manager hybrid standalone det) = []" by (simp add: active_of_def init_manager_def)
  have z: "zip (map rp_address standalone) (map rp_handle standalone) = map (\<lambda>r. (rp_address r, rp_handle r)) standalone"
    by (induction standalone) auto
  have "lb_wf (hm_lb (init_manager hybrid standalone det))"
    unfolding init_manager_def replica_manager.simps using assms(3) by (intro wf_init) (simp add: z comp_def)
  then show "pool_inv store touch hybrid standalone (init_manager hybrid standalone det)"
    using assms by (simp add: pool_inv_def active_of_def tables_def replicas_ok_def routes_def up_replicas_def init_balancer_fields z init_manager_def)
qed

section \<open>Properties\<close>

text \<open>
  C34. The manager implements the pool: every sequence of activations and deactivations, of known, unknown, active or inactive
  resources, with calls to the balancer that may fail, interleaved with requests, with every count it returns, is a run of the
  abstract pool of active hybrid replicas; its tables agree with each other, and the balancer
  routes to exactly the standalone and the active hybrid replicas.
\<close>

theorem manager_refines_pool:
  assumes "lru_store_ok store" "lru_touch_ok touch" "distinct (map rp_address (standalone @ hybrid))"
    "run (hm_step store touch hash) (init_manager hybrid standalone det) es m"
  shows "run (pool_step (length hybrid)) [] es (active_of m) \<and> distinct (active_of m) \<and> set (active_of m) \<subseteq> {..<length hybrid}
    \<and> hm_addresses m = map rp_address (standalone @ map ((!) hybrid) (active_of m))
    \<and> hm_handles m = map rp_handle (standalone @ map ((!) hybrid) (active_of m))
    \<and> get_hybrid_replicas_info m = map (\<lambda>i. (i, rp_address (hybrid ! i))) (active_of m)
    \<and> get_all_servers (hm_lb m) = hm_addresses m"
proof -
  from pool.run_simulates [OF assms(4) init_pool(1) [OF assms(1-3)]]
  have "run (pool_step (length hybrid)) [] es (active_of m)" "pool_inv store touch hybrid standalone m"
    by (simp_all add: init_pool(2) [OF assms(1-3)])
  then show ?thesis
    by (auto simp: pool_inv_def tables_def replicas_ok_def routes_def up_replicas_def get_all_servers_def lb_wf_def get_hybrid_replicas_info_def)
qed

text \<open>
  How the manager counts: in every reachable state \<open>get_active_server_count\<close> counts each active hybrid replica twice,
  \<open>get_standalone_replicas\<close> returns the active hybrid replicas too, and the concurrency limit is computed from the
  right number of replicas.
\<close>

lemma hybrid_replicas_counted_twice:
  assumes "lru_store_ok store" "lru_touch_ok touch" "distinct (map rp_address (standalone @ hybrid))"
    "run (hm_step store touch hash) (init_manager hybrid standalone det) es m"
  shows "get_active_server_count m = length standalone + 2 * get_num_hybrid_replicas m
    \<and> get_standalone_replicas m = standalone @ map ((!) hybrid) (active_of m)
    \<and> update_max_concurrent_samples (Some r) k m old = Some (min ((length standalone + get_num_hybrid_replicas m) * k) r)"
proof -
  from pool.run_simulates [OF assms(4) init_pool(1) [OF assms(1-3)]]
  have "tables hybrid standalone (active_of m) m" by (simp add: pool_inv_def)
  then show ?thesis
    by (auto simp: tables_def up_replicas_def get_active_server_count_def get_num_hybrid_replicas_def get_standalone_replicas_def
        update_max_concurrent_samples_def active_of_def)
qed

lemma abs_add_upt: "k \<le> n \<Longrightarrow> abs_add n [0..<k] [] = [0..<k]"
proof -
  have "set xs \<inter> set al = {} \<Longrightarrow> distinct xs \<Longrightarrow> set xs \<subseteq> {..<n} \<Longrightarrow> abs_add n xs al = al @ xs" for xs al
    by (induction xs arbitrary: al) (auto simp: abs_add_Cons, simp add: abs_add_def)
  from this [of "[0..<k]" "[]"] show "k \<le> n \<Longrightarrow> abs_add n [0..<k] [] = [0..<k]" by (simp add: lessThan_atLeast0)
qed

text \<open>
  Activating and deactivating is a round trip: from the state without active replicas, activation makes every hybrid
  replica reachable and deactivation restores all tables and the servers of the balancer; a hybrid replica is
  aborted and put to sleep only after it has left the balancer.  When the balancer call fails the controller
  records an active state although no replica is active.
\<close>

lemma controller_roundtrip:
  assumes "tables hybrid standalone [] (dc_manager d)" "replicas_ok hybrid standalone []" "routes standalone (hm_lb (dc_manager d))"
    "hybrid \<noteq> []"
  defines "up \<equiv> activate_hybrid_replicas True d"
    and "down \<equiv> deactivate_hybrid_replicas True (activate_hybrid_replicas True d)"
    and "failed \<equiv> activate_hybrid_replicas False d"
  shows "tables hybrid standalone [0..<length hybrid] (dc_manager up) \<and> dc_active up
    \<and> get_all_servers (hm_lb (dc_manager up)) = map rp_address (standalone @ hybrid)
    \<and> tables hybrid standalone [] (dc_manager down) \<and> \<not> dc_active down
    \<and> get_all_servers (hm_lb (dc_manager down)) = map rp_address standalone
    \<and> dc_calls down = dc_calls d @ [Add_to_balancer, Resume_generation, Remove_from_balancer, Abort_replicas, Sleep_replicas]
    \<and> dc_active failed \<and> active_of (dc_manager failed) = []"
proof -
  let ?n = "length hybrid"
  have ids: "map fst (hm_hybrid m) = [0..<?n]" if "tables hybrid standalone al m" for al and m :: "'r replica_manager"
    using that by (simp add: tables_def)
  have ne: "[0..<?n] \<noteq> []" using assms(4) by simp
  obtain k m1 where m1: "add_replicas True [0..<?n] (dc_manager d) = (k, m1)" by fastforce
  have r0: "routes (up_replicas hybrid standalone []) (hm_lb (dc_manager d))" using assms(3) by (simp add: up_replicas_def)
  from add_replicas_spec [OF assms(1,2) r0 m1] abs_add_upt [of ?n ?n]
  have s1: "tables hybrid standalone [0..<?n] m1" "replicas_ok hybrid standalone [0..<?n]" "routes (up_replicas hybrid standalone [0..<?n]) (hm_lb m1)"
    by simp_all
  obtain j m2 where m2: "remove_replicas True [0..<?n] m1 = (j, m2)" by fastforce
  from remove_replicas_spec [OF s1 m2]
  have s2: "tables hybrid standalone [] m2" "routes (up_replicas hybrid standalone []) (hm_lb m2)" by (simp_all add: abs_remove_def)
  have "ids": "up = call [Add_to_balancer, Resume_generation] d\<lparr>dc_manager := m1, dc_active := True, dc_activate_count := dc_activate_count d + 1\<rparr>"
    "dc_manager up = m1" "dc_active up" "dc_calls up = dc_calls d @ [Add_to_balancer, Resume_generation]"
    using ids [OF assms(1)] ne m1 by (simp_all add: up_def activate_hybrid_replicas_def call_def Let_def)
  have dn: "dc_manager down = m2" "\<not> dc_active down"
    "dc_calls down = dc_calls d @ [Add_to_balancer, Resume_generation, Remove_from_balancer, Abort_replicas, Sleep_replicas]"
    using ids(2,4) ne m2 \<open>tables hybrid standalone [0..<?n] m1\<close>
    unfolding down_def up_def [symmetric] by (simp_all add: deactivate_hybrid_replicas_def call_def Let_def tables_def)
  have "dc_active failed" "dc_manager failed = dc_manager d"
    using \<open>tables hybrid standalone [] (dc_manager d)\<close> ne by (simp_all add: failed_def activate_hybrid_replicas_def call_def Let_def tables_def add_replicas_def)
  moreover have "active_of (dc_manager d) = []" using assms(1) by (rule active_of_tables)
  moreover have "map ((!) hybrid) [0..<?n] = hybrid" by (rule map_nth)
  ultimately show ?thesis using s1 s2 ids dn by (simp add: routes_def get_all_servers_def lb_wf_def up_replicas_def comp_def)
qed

definition demo_hybrid :: "replica list" where
  "demo_hybrid = [\<lparr>rp_id = 0, rp_address = ''h0'', rp_handle = 20\<rparr>]"

definition demo_standalone :: "replica list" where
  "demo_standalone = [\<lparr>rp_id = 1, rp_address = ''s0'', rp_handle = 10\<rparr>]"

definition demo_manager :: "nat replica_manager" where
  "demo_manager = init_manager demo_hybrid demo_standalone False"

lemma demo_replicas: "distinct (map rp_address (demo_standalone @ demo_hybrid))"
  by (simp add: demo_hybrid_def demo_standalone_def)

lemma demo_activate:
  "run (hm_step keep_all (\<lambda>c k. c) (\<lambda>_. 0)) (init_manager demo_hybrid demo_standalone False) [Activate True [0, 3] 1]
     (snd (add_replicas True [0, 3] demo_manager))"
proof -
  have "fst (add_replicas True [0, 3] demo_manager) = 1" by code_simp
  then have "add_replicas True [0, 3] demo_manager = (1, snd (add_replicas True [0, 3] demo_manager))" by (simp add: prod_eq_iff)
  then show ?thesis unfolding demo_manager_def by (intro run_single hm_step.Activate)
qed

theorem manager_refines_pool_witness:
  "run (pool_step 1) [] [Activate True [0, 3] 1 :: nat hm_event] [0]
     \<and> get_all_servers (hm_lb (snd (add_replicas True [0, 3] demo_manager))) = [''s0'', ''h0'']"
proof -
  have "active_of (snd (add_replicas True [0, 3] demo_manager)) = [0]" by code_simp
  with manager_refines_pool [OF keep_all_ok demo_replicas demo_activate] show ?thesis
    by (simp add: demo_hybrid_def demo_standalone_def)
qed

end
