(* ===== verification/Llm_Client.thy ===== *)
theory Llm_Client
  imports Prelude "HOL-Library.AList"
begin

text \<open>
  \<open>verl/workers/rollout/llm_server.py\<close>: \<open>FullyAsyncLLMServerClient.generate\<close>, which hides aborted
  generations from the agent loop: it sends the prompt with what has been generated so far again, with what
  remains of the budget, until a server finishes.  The servers are not part of the repository: each
  attempt is answered by a parameter, a function from the prompt and the sampling parameters to
  an output, and the attempts are a list, so that running out of it is a loop that goes on.
\<close>

section \<open>Requests\<close>

type_synonym sampling = "(string \<times> int option) list"

record 't token_output =
  o_tokens :: "'t list"
  o_log_probs :: "rat list option"
  o_routed :: "nat list option"
  o_preempted :: "nat option"
  o_stop :: "string option"
  o_global_steps :: "nat option"

record client_config =
  cc_response_length :: "int option"
  cc_partial_rollout :: "bool option"

text \<open>\<open>_configured_response_length\<close>; \<open>cc_partial_rollout\<close> is \<open>None\<close> without an \<open>async_training\<close> section.\<close>

definition configured_response_length :: "client_config \<Rightarrow> int option" where
  "configured_response_length c = (case cc_response_length c of None \<Rightarrow> None | Some n \<Rightarrow> if n > 0 then Some n else None)"

definition should_retry :: "client_config \<Rightarrow> bool" where
  "should_retry c = (case cc_partial_rollout c of None \<Rightarrow> True | Some b \<Rightarrow> b)"

definition limit_key :: "sampling \<Rightarrow> string option" where
  "limit_key sp = (if map_of sp ''max_tokens'' \<noteq> None then Some ''max_tokens''
     else if map_of sp ''max_new_tokens'' \<noteq> None then Some ''max_new_tokens'' else None)"

text \<open>The key and the value of the budget, and the parameters of the first attempt.\<close>

definition budget :: "client_config \<Rightarrow> sampling \<Rightarrow> (string \<times> int) option \<times> sampling" where
  "budget c sp =
     (case (case limit_key sp of None \<Rightarrow> None | Some k \<Rightarrow> (case map_of sp k of Some (Some n) \<Rightarrow> Some (k, n) | _ \<Rightarrow> None)) of
        Some kn \<Rightarrow> (Some kn, sp)
      | None \<Rightarrow> (case configured_response_length c of
            None \<Rightarrow> (None, sp)
          | Some n \<Rightarrow> (Some (''max_tokens'', n), AList.update ''max_tokens'' (Some n) sp)))"

section \<open>The resume loop\<close>

record 't final =
  f_tokens :: "'t list"
  f_log_probs :: "rat list"
  f_routed :: "nat list option"
  f_preempted :: nat
  f_stop :: "string option"
  f_min_steps :: "nat option"
  f_max_steps :: "nat option"

definition empty_final :: "'t final" where
  "empty_final = \<lparr>f_tokens = [], f_log_probs = [], f_routed = None, f_preempted = 0, f_stop = None, f_min_steps = None, f_max_steps = None\<rparr>"

definition merge_routed :: "nat list option \<Rightarrow> nat list option \<Rightarrow> nat \<Rightarrow> nat list option" where
  "merge_routed old new n = (case new of None \<Rightarrow> old
     | Some r \<Rightarrow> if n = 0 then old else (case old of None \<Rightarrow> Some r | Some o' \<Rightarrow> Some (o' @ py_take_last n r)))"

definition merge_output :: "'t final \<Rightarrow> 't token_output \<Rightarrow> 't final" where
  "merge_output f out =
     \<lparr>f_tokens = f_tokens f @ o_tokens out,
      f_log_probs = f_log_probs f @ (case o_log_probs out of None \<Rightarrow> [] | Some l \<Rightarrow> l),
      f_routed = merge_routed (f_routed f) (o_routed out) (length (o_tokens out)),
      f_preempted = f_preempted f + (case o_preempted out of None \<Rightarrow> 0 | Some n \<Rightarrow> n),
      f_stop = o_stop out,
      f_min_steps = (case f_min_steps f of None \<Rightarrow> o_global_steps out | Some v \<Rightarrow> Some v),
      f_max_steps = o_global_steps out\<rparr>"

definition aborted :: "'t token_output \<Rightarrow> bool" where
  "aborted out = (o_stop out = Some ''aborted'' \<or> o_stop out = Some ''abort'')"

fun generate_loop ::
  "client_config \<Rightarrow> 't list \<Rightarrow> (string \<times> int) option \<Rightarrow> sampling \<Rightarrow> 't final \<Rightarrow> ('t list \<Rightarrow> sampling \<Rightarrow> 't token_output) list \<Rightarrow> 't final option" where
  "generate_loop c prompt bud sp f [] = None"
| "generate_loop c prompt bud sp f (server # servers) =
     (let out = server (prompt @ f_tokens f) sp;
          f' = merge_output f out in
      case bud of
        Some (k, n) \<Rightarrow>
          (let sp' = AList.update k (Some (n - int (length (f_tokens f')))) sp in
           if int (length (f_tokens f')) \<ge> n then Some (f'\<lparr>f_stop := Some ''length''\<rparr>)
           else if \<not> aborted out \<or> \<not> should_retry c then Some f'
           else generate_loop c prompt bud sp' f' servers)
      | None \<Rightarrow>
          if \<not> aborted out \<or> \<not> should_retry c then Some f'
          else generate_loop c prompt bud sp f' servers)"

definition generate :: "client_config \<Rightarrow> 't list \<Rightarrow> sampling \<Rightarrow> ('t list \<Rightarrow> sampling \<Rightarrow> 't token_output) list \<Rightarrow> 't final option" where
  "generate c prompt sp servers = (let (bud, sp') = budget c sp in generate_loop c prompt bud sp' empty_final servers)"

section \<open>Servers of one model\<close>

text \<open>Decoding with a next-token function up to an end token or a number of tokens.\<close>

fun decode :: "('t list \<Rightarrow> 't) \<Rightarrow> 't \<Rightarrow> 't list \<Rightarrow> nat \<Rightarrow> 't list" where
  "decode next eos p 0 = []"
| "decode next eos p (Suc n) = (let t = next p in t # (if t = eos then [] else decode next eos (p @ [t]) n))"

text \<open>
  A server of the model answers a request with what the model decodes within the budget, or is aborted
  earlier, before the end token, and says so; one log probability per token when it returns any.
\<close>

definition server_of :: "('t list \<Rightarrow> 't) \<Rightarrow> 't \<Rightarrow> ('t list \<Rightarrow> sampling \<Rightarrow> 't token_output) \<Rightarrow> bool" where
  "server_of next eos server \<longleftrightarrow> (\<forall>p sp k n. limit_key sp = Some k \<longrightarrow> map_of sp k = Some (Some n) \<longrightarrow> n > 0 \<longrightarrow>
     (let out = server p sp; full = decode next eos p (nat n) in
        (if aborted out then eos \<notin> set (o_tokens out) \<and> (\<exists>m. o_tokens out = take m full) else o_tokens out = full)
        \<and> (\<exists>l. o_log_probs out = Some l \<and> length l = length (o_tokens out))))"

lemma length_decode: "length (decode next eos p n) \<le> n"
  by (induction n arbitrary: p) (auto simp: Let_def)

lemma decode_resume:
  assumes "eos \<notin> set (take m (decode next eos p n))"
  shows "decode next eos p n = take m (decode next eos p n)
    @ decode next eos (p @ take m (decode next eos p n)) (n - length (take m (decode next eos p n)))"
  using assms
proof (induction n arbitrary: p m)
  case (Suc n)
  show ?case
  proof (cases m)
    case (Suc m')
    with Suc.prems have "next p \<noteq> eos" "eos \<notin> set (take m' (decode next eos (p @ [next p]) n))" by (auto simp: Let_def split: if_splits)
    with Suc.IH [OF this(2)] Suc show ?thesis by (simp add: Let_def)
  qed simp
qed simp

lemma limit_key_update: "limit_key sp = Some k \<Longrightarrow> limit_key (AList.update k (Some v) sp) = Some k"
  by (auto simp: limit_key_def update_conv' split: if_splits)

lemma decode_done:
  assumes "eos \<notin> set (decode next eos p n)"
  shows "length (decode next eos p n) = n"
  using assms by (induction n arbitrary: p) (auto simp: Let_def split: if_splits)

lemma generate_loop_decodes:
  assumes "\<forall>server \<in> set servers. server_of next eos server" "should_retry c"
    "limit_key sp = Some k" "map_of sp k = Some (Some (int n - int (length (f_tokens f))))" "length (f_tokens f) < n"
    "length (f_log_probs f) = length (f_tokens f)"
    "generate_loop c prompt (Some (k, int n)) sp f servers = Some r"
  shows "f_tokens r = f_tokens f @ decode next eos (prompt @ f_tokens f) (n - length (f_tokens f)) \<and> length (f_log_probs r) = length (f_tokens r)
    \<and> (length (f_tokens r) = n \<longrightarrow> f_stop r = Some ''length'')"
  using assms
proof (induction servers arbitrary: sp f)
  case (Cons server servers)
  let ?p = "prompt @ f_tokens f" and ?b = "int n - int (length (f_tokens f))"
  define out where "out = server ?p sp"
  define f' where "f' = merge_output f out"
  define full where "full = decode next eos ?p (nat ?b)"
  have b: "?b > 0" "nat ?b = n - length (f_tokens f)" using Cons.prems(5) by auto
  have o: "if aborted out then eos \<notin> set (o_tokens out) \<and> (\<exists>m. o_tokens out = take m full) else o_tokens out = full"
    "\<exists>l. o_log_probs out = Some l \<and> length l = length (o_tokens out)"
    using Cons.prems(1,3,4) b(1) by (auto simp: server_of_def out_def full_def Let_def)
  have f': "f_tokens f' = f_tokens f @ o_tokens out" "length (f_log_probs f') = length (f_tokens f')"
    using o(2) Cons.prems(6) by (auto simp: f'_def merge_output_def)
  have split: "full = o_tokens out @ decode next eos (prompt @ f_tokens f') (n - length (f_tokens f'))" if ab: "aborted out"
  proof -
    obtain m where m: "o_tokens out = take m full" using o(1) ab by auto
    have "eos \<notin> set (take m full)" using o(1) ab m by simp
    from decode_resume [OF this [unfolded full_def]] m f'(1) show ?thesis by (simp add: full_def b(2))
  qed
  have le: "length full \<le> n - length (f_tokens f)" unfolding full_def b(2) by (rule length_decode)
  let ?sp = "AList.update k (Some (int n - int (length (f_tokens f')))) sp"
  have g: "(if length (f_tokens f') \<ge> n then Some (f'\<lparr>f_stop := Some ''length''\<rparr>)
       else if \<not> aborted out then Some f' else generate_loop c prompt (Some (k, int n)) ?sp f' servers) = Some r"
    using Cons.prems(2,7) unfolding generate_loop.simps Let_def option.case prod.case out_def [symmetric] f'_def [symmetric]
    by (simp only: simp_thms of_nat_le_iff)
  show ?case
  proof (cases "length (f_tokens f') \<ge> n \<or> \<not> aborted out")
    case True
    have r: "f_tokens r = f_tokens f'" "f_log_probs r = f_log_probs f'" "length (f_tokens f') = n \<longrightarrow> f_stop r = Some ''length''"
      using g True by (auto split: if_splits)
    have t: "f_tokens f' = f_tokens f @ full"
    proof (cases "aborted out")
      case True
      with split \<open>length (f_tokens f') \<ge> n \<or> \<not> aborted out\<close> f'(1) show ?thesis by simp
    qed (use o(1) f'(1) in simp)
    show ?thesis using r f'(2) t [unfolded full_def b(2)] by simp
  next
    case False
    then have ih: "f_tokens r = f_tokens f' @ decode next eos (prompt @ f_tokens f') (n - length (f_tokens f')) \<and> length (f_log_probs r) = length (f_tokens r)
        \<and> (length (f_tokens r) = n \<longrightarrow> f_stop r = Some ''length'')"
      using Cons.IH [of ?sp f'] Cons.prems(1-3) g f'(2) by (auto simp: limit_key_update update_conv')
    from False split f'(1) have "f_tokens f' @ decode next eos (prompt @ f_tokens f') (n - length (f_tokens f')) = f_tokens f @ full" by simp
    with ih show ?thesis by (simp add: full_def b(2))
  qed
qed simp

lemma generate_loop_returns:
  assumes "server \<in> set servers" "\<And>p sp. \<not> aborted (server p sp)"
  shows "\<exists>r. generate_loop c prompt bud sp f servers = Some r"
  using assms(1)
proof (induction servers arbitrary: sp f)
  case (Cons s servers)
  show ?case
  proof (cases "s = server")
    case True
    then show ?thesis using assms(2) by (simp add: Let_def split: option.split)
  next
    case False
    then have "\<exists>r. generate_loop c prompt bud sp f servers = Some r" for sp f using Cons by simp
    then show ?thesis by (auto simp: Let_def split: option.split)
  qed
qed simp

section \<open>Properties\<close>

text \<open>
  C28. Interruptions are invisible.  When every attempt is answered by a server of the same model, which may abort
  at any token, and aborted generations are retried, the tokens returned are exactly those one
  uninterrupted generation of the whole budget would give; they never exceed the budget, there is one log probability per
  token, and a generation that uses up the budget reports \<open>length\<close>.
\<close>

theorem resumed_generation_uninterrupted:
  assumes "\<forall>server \<in> set servers. server_of next eos server" "should_retry c" "budget c sp = (Some (k, int n), sp')" "0 < n"
    "generate c prompt sp servers = Some r"
  shows "f_tokens r = decode next eos prompt n \<and> length (f_tokens r) \<le> n \<and> length (f_log_probs r) = length (f_tokens r)
    \<and> (length (f_tokens r) = n \<longrightarrow> f_stop r = Some ''length'')"
proof -
  have "limit_key sp' = Some k \<and> map_of sp' k = Some (Some (int n))"
    using assms(3) by (auto simp: budget_def limit_key_def update_conv' split: option.splits if_splits)
  with generate_loop_decodes [OF assms(1,2), where sp = sp' and f = empty_final and r = r and n = n and prompt = prompt and k = k] assms(3-5)
  have "f_tokens r = decode next eos prompt n \<and> length (f_log_probs r) = length (f_tokens r) \<and> (length (f_tokens r) = n \<longrightarrow> f_stop r = Some ''length'')"
    by (simp add: generate_def empty_final_def)
  then show ?thesis using length_decode by metis
qed

text \<open>
  The loop returns as soon as one attempt is not aborted, whatever the servers do.
\<close>

lemma generate_returns:
  assumes "\<And>p sp. \<not> aborted (server p sp)" "server \<in> set servers"
  shows "\<exists>r. generate c prompt sp servers = Some r"
  using generate_loop_returns [OF assms(2), of c prompt _ _ empty_final] assms(1)
  by (simp add: generate_def split: prod.split)

text \<open>A model that counts up to an end token 5, aborted after one token and then finished by another server.\<close>

definition count_up :: "nat list \<Rightarrow> nat" where
  "count_up p = last p + 1"

definition serve :: "nat option \<Rightarrow> nat list \<Rightarrow> sampling \<Rightarrow> nat token_output" where
  "serve stop p sp =
     (let n = (case limit_key sp of None \<Rightarrow> 0 | Some k \<Rightarrow> (case map_of sp k of Some (Some n) \<Rightarrow> nat n | _ \<Rightarrow> 0));
          full = decode count_up 5 p n;
          early = (case stop of None \<Rightarrow> full | Some m \<Rightarrow> take m full) in
      if stop = None \<or> 5 \<in> set early
      then \<lparr>o_tokens = full, o_log_probs = Some (replicate (length full) 0), o_routed = None, o_preempted = None,
             o_stop = Some ''completed'', o_global_steps = Some 3\<rparr>
      else \<lparr>o_tokens = early, o_log_probs = Some (replicate (length early) 0), o_routed = None, o_preempted = None,
             o_stop = Some ''abort'', o_global_steps = Some 2\<rparr>)"

lemma server_of_serve: "server_of count_up 5 (serve stop)"
  by (auto simp: server_of_def serve_def aborted_def Let_def split: option.split)

definition demo_client :: client_config where
  "demo_client = \<lparr>cc_response_length = Some 8, cc_partial_rollout = Some True\<rparr>"

lemma demo_generate:
  "map_option f_tokens (generate demo_client [1] [] [serve (Some 1), serve None]) = Some [2, 3, 4, 5]"
  by code_simp

theorem resumed_generation_uninterrupted_witness:
  "\<exists>r. generate demo_client [1] [] [serve (Some 1), serve None] = Some r \<and> f_tokens r = decode count_up 5 [1] 8 \<and> length (f_tokens r) \<le> 8"
proof -
  obtain r where r: "generate demo_client [1] [] [serve (Some 1), serve None] = Some r" using demo_generate by auto
  have "budget demo_client [] = (Some (''max_tokens'', int 8), [(''max_tokens'', Some 8)])" "should_retry demo_client"
    by (simp_all add: budget_def limit_key_def demo_client_def configured_response_length_def should_retry_def)
  from resumed_generation_uninterrupted [OF _ this(2,1) _ r, of count_up 5] r server_of_serve show ?thesis by auto
qed

end
