(* ===== verification/Advantages.thy ===== *)
theory Advantages
  imports Opd_Algos
begin

text \<open>
  The advantage estimators of \<open>verl/trainer/ppo/core_algos.py\<close>, the KL controllers and the registries there, and
  what they use of \<open>verl/utils/groupwise.py\<close> and \<open>verl/utils/torch_functional.py\<close>.  A batch is a list of rows; the
  code works on columns of all rows at once, the model on one row after the other, which is the same since no operation
  before the whitening mixes rows.  Masks are 0 or 1 where a theorem says so.
\<close>

section \<open>KL controllers and registries\<close>

datatype kl_controller = Fixed_kl real | Adaptive_kl real real real

fun kl_value :: "kl_controller \<Rightarrow> real" where
  "kl_value (Fixed_kl v) = v"
| "kl_value (Adaptive_kl v _ _) = v"

text \<open>\<open>update\<close>; an adaptive controller has a value, a target and a horizon.\<close>

fun kl_update :: "real \<Rightarrow> nat \<Rightarrow> kl_controller \<Rightarrow> kl_controller" where
  "kl_update current_kl n_steps (Fixed_kl v) = Fixed_kl v"
| "kl_update current_kl n_steps (Adaptive_kl v target h) =
     Adaptive_kl (v * (1 + clamp (- 2 / 10) (2 / 10) (current_kl / target - 1) * of_nat n_steps / h)) target h"

definition get_kl_controller :: "string \<Rightarrow> real \<Rightarrow> real \<Rightarrow> real \<Rightarrow> kl_controller result" where
  "get_kl_controller kind coef target h =
     (if kind = ''fixed'' then Inr (Fixed_kl coef)
      else if kind = ''adaptive'' then (if h > 0 then Inr (Adaptive_kl coef target h) else Inl AssertionError)
      else Inl NotImplementedError)"

text \<open>The registries map names to functions; a function is represented by a number.\<close>

definition register_policy_loss :: "string \<Rightarrow> 'f \<Rightarrow> (string \<Rightarrow> 'f option) \<Rightarrow> string \<Rightarrow> 'f option" where
  "register_policy_loss name f reg = reg(name \<mapsto> f)"

definition get_policy_loss_fn :: "(string \<Rightarrow> 'f option) \<Rightarrow> string \<Rightarrow> 'f result" where
  "get_policy_loss_fn reg name = (case reg name of None \<Rightarrow> Inl ValueError | Some f \<Rightarrow> Inr f)"

definition register_adv_est :: "string \<Rightarrow> 'f \<Rightarrow> (string \<Rightarrow> 'f option) \<Rightarrow> (string \<Rightarrow> 'f option) result" where
  "register_adv_est name f reg = (case reg name of
       Some g \<Rightarrow> if g \<noteq> f then Inl ValueError else Inr (reg(name \<mapsto> f))
     | None \<Rightarrow> Inr (reg(name \<mapsto> f)))"

definition get_adv_estimator_fn :: "(string \<Rightarrow> 'f option) \<Rightarrow> string \<Rightarrow> 'f result" where
  "get_adv_estimator_fn reg name = (case reg name of None \<Rightarrow> Inl ValueError | Some f \<Rightarrow> Inr f)"

section \<open>Whitening\<close>

definition masked_var :: "mat \<Rightarrow> mat \<Rightarrow> bool \<Rightarrow> real result" where
  "masked_var vals msk unbiased =
     (let mean = masked_mean vals msk;
          v = masked_mean (map (map (\<lambda>x. (x - mean) * (x - mean))) vals) msk in
      if \<not> unbiased then Inr v
      else if sum2d msk = 0 \<or> sum2d msk = 1 then Inl ValueError
      else Inr (v * (sum2d msk / (sum2d msk - 1))))"

definition masked_whiten :: "mat \<Rightarrow> mat \<Rightarrow> bool \<Rightarrow> mat result" where
  "masked_whiten vals msk shift_mean =
     rbind (masked_var vals msk True) (\<lambda>var.
     let mean = masked_mean vals msk in
     Inr (map (map (\<lambda>x. (x - mean) * (1 / sqrt (var + 1 / 10 ^ 8)) + (if shift_mean then 0 else mean))) vals))"

section \<open>Generalised advantage estimation\<close>

text \<open>One row, from its end: the next value, the last advantage and the advantages.\<close>

fun gae_scan :: "real \<Rightarrow> real \<Rightarrow> (real \<times> real \<times> real) list \<Rightarrow> real \<times> real \<times> real list" where
  "gae_scan gamma lam [] = (0, 0, [])"
| "gae_scan gamma lam ((r, v, m) # xs) =
     (let (nextvalues, lastgaelam, advs) = gae_scan gamma lam xs;
          delta = r + gamma * nextvalues - v;
          gaelam = delta + gamma * lam * lastgaelam;
          lastgaelam' = gaelam * m + (1 - m) * lastgaelam in
      (v * m + (1 - m) * nextvalues, lastgaelam', lastgaelam' # advs))"

definition gae_row :: "real \<Rightarrow> real \<Rightarrow> real list \<Rightarrow> real list \<Rightarrow> real list \<Rightarrow> real list" where
  "gae_row gamma lam rewards vals msk = snd (snd (gae_scan gamma lam (zip rewards (zip vals msk))))"

definition zip3_with :: "('a \<Rightarrow> 'b \<Rightarrow> 'c \<Rightarrow> 'd) \<Rightarrow> 'a list \<Rightarrow> 'b list \<Rightarrow> 'c list \<Rightarrow> 'd list" where
  "zip3_with f xs ys zs = map (\<lambda>(x, y, z). f x y z) (zip xs (zip ys zs))"

definition compute_gae_advantage_return :: "mat \<Rightarrow> mat \<Rightarrow> mat \<Rightarrow> real \<Rightarrow> real \<Rightarrow> (mat \<times> mat) result" where
  "compute_gae_advantage_return token_level_rewards vals response_mask gamma lam =
     (let advantages = zip3_with (gae_row gamma lam) token_level_rewards vals response_mask;
          returns = map2d (+) advantages vals in
      rbind (masked_whiten advantages response_mask True) (\<lambda>a. Inr (a, returns)))"

text \<open>The textbook estimator: a sum of discounted temporal differences of a trajectory of rewards and values.\<close>

definition td_error :: "real \<Rightarrow> (real \<times> real) list \<Rightarrow> nat \<Rightarrow> real" where
  "td_error gamma traj t = fst (traj ! t) + gamma * (if Suc t < length traj then snd (traj ! Suc t) else 0) - snd (traj ! t)"

definition gae_reference :: "real \<Rightarrow> real \<Rightarrow> (real \<times> real) list \<Rightarrow> nat \<Rightarrow> real" where
  "gae_reference gamma lam traj t = (\<Sum>l < length traj - t. (gamma * lam) ^ l * td_error gamma traj (t + l))"

text \<open>The trajectory without its observation tokens.\<close>

definition valid_positions :: "real list \<Rightarrow> 'a list \<Rightarrow> 'a list" where
  "valid_positions msk xs = map snd (filter (\<lambda>p. fst p = 1) (zip msk xs))"

section \<open>Groups\<close>

text \<open>\<open>np.unique(..., return_inverse=True)\<close> and \<open>group_mean_std\<close>.\<close>

definition unique_inverse :: "'i::linorder list \<Rightarrow> nat list" where
  "unique_inverse index = map (\<lambda>x. card {y \<in> set index. y < x}) index"

definition group_mean :: "real list \<Rightarrow> nat list \<Rightarrow> nat \<Rightarrow> real" where
  "group_mean scores g k =
     (let xs = group_scores scores g k in if length xs \<le> 1 then 0 else sum_list xs / max 1 (of_nat (length xs)))"

definition group_std :: "real \<Rightarrow> real list \<Rightarrow> nat list \<Rightarrow> nat \<Rightarrow> real" where
  "group_std eps scores g k =
     (let xs = group_scores scores g k; mean = sum_list xs / max 1 (of_nat (length xs)) in
      if length xs \<le> 1 then 1
      else sqrt (max eps (sum_list (map (\<lambda>x. (x - mean) * (x - mean)) xs) / max 1 (of_nat (length xs) - 1))))"

definition group_mean_std :: "real \<Rightarrow> real list \<Rightarrow> nat list \<Rightarrow> (real list \<times> real list \<times> real list) result" where
  "group_mean_std eps scores g =
     (if length scores \<noteq> length g then Inl ValueError
      else let ks = (if g = [] then [] else [0..<Suc (Max (set g))]) in
        Inr (map (group_mean scores g) ks, map (group_std eps scores g) ks, map (\<lambda>k. of_nat (length (group_scores scores g k))) ks))"

definition broadcast :: "real list \<Rightarrow> mat \<Rightarrow> mat" where
  "broadcast scores response_mask = map (\<lambda>(s, r). map (\<lambda>m. s * m) r) (zip scores response_mask)"

definition compute_grpo_vectorized_outcome_advantage ::
  "mat \<Rightarrow> mat \<Rightarrow> 'i::linorder list \<Rightarrow> real \<Rightarrow> bool \<Rightarrow> (mat \<times> mat) result" where
  "compute_grpo_vectorized_outcome_advantage token_level_rewards response_mask index epsilon nrm =
     (let scores = map sum_list token_level_rewards; g = unique_inverse index in
      rbind (group_mean_std 0 scores g) (\<lambda>(mean, std, _).
      let scalars = map (\<lambda>(s, k). if nrm then (s - mean ! k) / (std ! k + epsilon) else s - mean ! k) (zip scores g);
          adv = broadcast scalars response_mask in
      Inr (adv, adv)))"

section \<open>Outcome advantages\<close>

definition baseline_mean :: "real list \<Rightarrow> 'i list \<Rightarrow> 'i \<Rightarrow> real" where
  "baseline_mean scores index g = (let xs = group_scores scores index g in if length xs = 1 then 0 else mean_of xs)"

definition compute_reinforce_plus_plus_baseline_outcome_advantage :: "mat \<Rightarrow> mat \<Rightarrow> 'i list \<Rightarrow> (mat \<times> mat) result" where
  "compute_reinforce_plus_plus_baseline_outcome_advantage token_level_rewards response_mask index =
     (let scores = map sum_list token_level_rewards;
          centred = map (\<lambda>(s, g). s - baseline_mean scores index g) (zip scores index) in
      rbind (masked_whiten (broadcast centred response_mask) response_mask True) (\<lambda>w.
      let adv = map2d (*) w response_mask in Inr (adv, adv)))"

definition rloo_scores :: "real list \<Rightarrow> 'i list \<Rightarrow> real list" where
  "rloo_scores scores index =
     map (\<lambda>(s, g). let xs = group_scores scores index g; n = of_nat (length xs) in
                   if length xs > 1 then s * n / (n - 1) - baseline_mean scores index g * n / (n - 1) else s) (zip scores index)"

definition compute_rloo_outcome_advantage :: "mat \<Rightarrow> mat \<Rightarrow> 'i list \<Rightarrow> mat \<times> mat" where
  "compute_rloo_outcome_advantage token_level_rewards response_mask index =
     (let adv = broadcast (rloo_scores (map sum_list token_level_rewards) index) response_mask in (adv, adv))"

definition rloo_vectorized_scores :: "real list \<Rightarrow> 'i::linorder list \<Rightarrow> real list" where
  "rloo_vectorized_scores scores index =
     (let inv = unique_inverse index in
      map (\<lambda>(s, k). let xs = group_scores scores inv k; c = of_nat (length xs) in
                    (c * s - sum_list xs) / max 1 (c - 1) * (if c > (1::real) then 1 else 0)) (zip scores inv))"

definition compute_rloo_vectorized_outcome_advantage :: "mat \<Rightarrow> mat \<Rightarrow> 'i::linorder list \<Rightarrow> mat \<times> mat" where
  "compute_rloo_vectorized_outcome_advantage token_level_rewards response_mask index =
     (let adv = broadcast (rloo_vectorized_scores (map sum_list token_level_rewards) index) response_mask in (adv, adv))"

text \<open>The length-weighted baseline; a divisor 0 gives torch's NaN, here 0.\<close>

definition opo_baseline :: "real list \<Rightarrow> real list \<Rightarrow> 'i list \<Rightarrow> 'i \<Rightarrow> real" where
  "opo_baseline scores lens index g =
     (let xs = group_scores scores index g; ls = group_scores lens index g in
      if length xs = 1 then 0 else sum_list (map (\<lambda>(l, s). l * s) (zip ls xs)) / sum_list ls)"

definition compute_opo_outcome_advantage :: "mat \<Rightarrow> mat \<Rightarrow> 'i list \<Rightarrow> mat \<times> mat" where
  "compute_opo_outcome_advantage token_level_rewards response_mask index =
     (let scores = map sum_list token_level_rewards; lens = map sum_list response_mask;
          adv = broadcast (map (\<lambda>(s, g). s - opo_baseline scores lens index g) (zip scores index)) response_mask in (adv, adv))"

text \<open>The count of non-zero scores overwrites the argument \<open>alpha\<close>; the standard deviations are not used.\<close>

definition compute_gpg_outcome_advantage :: "mat \<Rightarrow> mat \<Rightarrow> 'i list \<Rightarrow> real \<Rightarrow> mat \<times> mat" where
  "compute_gpg_outcome_advantage token_level_rewards response_mask index f_norm =
     (let scores = map sum_list token_level_rewards;
          alpha = of_nat (length scores) / max 1 (of_nat (length (filter (\<lambda>s. s \<noteq> 0) scores)));
          adv = broadcast (map (\<lambda>(s, g). alpha * (s - baseline_mean scores index g) / f_norm) (zip scores index)) response_mask in
      (adv, adv))"

text \<open>Reward-to-go.\<close>

fun suffix_sums :: "real list \<Rightarrow> real list" where
  "suffix_sums [] = []"
| "suffix_sums (x # xs) = (x + (case suffix_sums xs of [] \<Rightarrow> 0 | y # _ \<Rightarrow> y)) # suffix_sums xs"

definition masked_returns :: "mat \<Rightarrow> mat \<Rightarrow> mat" where
  "masked_returns token_level_rewards response_mask = map suffix_sums (map2d (*) token_level_rewards response_mask)"

definition compute_remax_outcome_advantage :: "mat \<Rightarrow> real list \<Rightarrow> mat \<Rightarrow> mat \<times> mat" where
  "compute_remax_outcome_advantage token_level_rewards reward_baselines response_mask =
     (let returns = masked_returns token_level_rewards response_mask in
      (map2d (-) returns (broadcast reward_baselines response_mask), returns))"

fun rpp_scan :: "real \<Rightarrow> (real \<times> real) list \<Rightarrow> real \<times> real list" where
  "rpp_scan gamma [] = (0, [])"
| "rpp_scan gamma ((r, m) # xs) =
     (let (running, rets) = rpp_scan gamma xs; new = r + gamma * running in
      (new * m + running * (1 - m), new * m # rets))"

definition compute_reinforce_plus_plus_outcome_advantage :: "mat \<Rightarrow> mat \<Rightarrow> real option \<Rightarrow> (mat \<times> mat) result" where
  "compute_reinforce_plus_plus_outcome_advantage token_level_rewards response_mask gamma =
     (case gamma of
        None \<Rightarrow> Inl AssertionError
      | Some g \<Rightarrow>
          (let returns = map (\<lambda>(r, m). snd (rpp_scan g (zip r m))) (zip token_level_rewards response_mask) in
           rbind (masked_whiten returns response_mask True) (\<lambda>a. Inr (map2d (*) a response_mask, returns))))"

definition compute_rewards :: "mat \<Rightarrow> mat \<Rightarrow> mat \<Rightarrow> real \<Rightarrow> mat" where
  "compute_rewards token_level_scores old_log_prob ref_log_prob kl_ratio =
     zip3_with (zip3_with (\<lambda>s o' r. s - (o' - r) * kl_ratio)) token_level_scores old_log_prob ref_log_prob"

section \<open>Pass@k and GDPO\<close>

text \<open>\<open>torch.topk\<close> of a group; of equal best rewards the first one is taken.\<close>

definition passk_advantage :: "real \<Rightarrow> bool \<Rightarrow> real list \<Rightarrow> real" where
  "passk_advantage epsilon nrm xs =
     (let top = sorted_rev (\<lambda>x. x) xs; a = top ! 0 - top ! 1 in if nrm then a / (std_of xs + epsilon) else a)"

definition first_best :: "real list \<Rightarrow> 'i list \<Rightarrow> nat \<Rightarrow> bool" where
  "first_best scores index i \<longleftrightarrow>
     (\<forall>j < length scores. index ! j = index ! i \<longrightarrow> scores ! j < scores ! i \<or> (scores ! j = scores ! i \<and> i \<le> j))"

definition passk_scores :: "real list \<Rightarrow> 'i list \<Rightarrow> real \<Rightarrow> bool \<Rightarrow> real list result" where
  "passk_scores scores index epsilon nrm =
     (if \<exists>g \<in> set index. length (group_scores scores index g) < 2 then Inl ValueError
      else Inr (map (\<lambda>i. if first_best scores index i then passk_advantage epsilon nrm (group_scores scores index (index ! i)) else 0)
                 [0..<length scores]))"

definition compute_grpo_passk_outcome_advantage :: "mat \<Rightarrow> mat \<Rightarrow> 'i list \<Rightarrow> real \<Rightarrow> bool option \<Rightarrow> (mat \<times> mat) result" where
  "compute_grpo_passk_outcome_advantage token_level_rewards response_mask index epsilon nrm =
     (case nrm of
        None \<Rightarrow> Inl AssertionError
      | Some nm \<Rightarrow> rbind (passk_scores (map sum_list token_level_rewards) index epsilon nm) (\<lambda>scores.
          let adv = broadcast scores response_mask in Inr (adv, adv)))"

text \<open>A component of the reward, put at the last valid position of each row (\<open>-1\<close> is the last of all).\<close>

definition place_scores :: "real list \<Rightarrow> int list \<Rightarrow> nat \<Rightarrow> mat result" where
  "place_scores vals positions width =
     map_r (\<lambda>(s, p). let i = (if p < 0 then p + int width else p) in
        if 0 \<le> i \<and> i < int width then Inr ((replicate width 0)[nat i := s]) else Inl IndexError) (zip vals positions)"

definition gdpo_score_list ::
  "string list \<Rightarrow> (string \<Rightarrow> real list option) \<Rightarrow> int list \<Rightarrow> nat \<Rightarrow> mat list result" where
  "gdpo_score_list keys components positions width =
     (if keys = [] then Inl AssertionError
      else map_r (\<lambda>k. case components k of None \<Rightarrow> Inl AssertionError | Some c \<Rightarrow> place_scores c positions width) keys)"

definition gdpo_combine :: "mat list \<Rightarrow> real list \<Rightarrow> mat \<Rightarrow> 'i list \<Rightarrow> real \<Rightarrow> bool \<Rightarrow> mat result" where
  "gdpo_combine score_list weights response_mask index epsilon nrm =
     (if length weights < length score_list then Inl IndexError
      else let terms = map (\<lambda>(w, s). map (map (\<lambda>x. w * x)) (fst (compute_grpo_outcome_advantage s response_mask index epsilon nrm)))
                 (zip weights score_list) in
        Inr (fold (\<lambda>t acc. map2d (+) acc t) (tl terms) (hd terms)))"

text \<open>\<open>details\<close>: the keys, the weights, the components and the last valid positions, when the caller supplies them all.\<close>

definition compute_gdpo_outcome_advantage ::
  "mat \<Rightarrow> mat \<Rightarrow> 'i list \<Rightarrow> real \<Rightarrow> bool \<Rightarrow> (string list \<times> real list option \<times> (string \<Rightarrow> real list option) \<times> int list) option
   \<Rightarrow> (mat \<times> mat) result" where
  "compute_gdpo_outcome_advantage token_level_rewards response_mask index epsilon nrm details =
     rbind (case details of
              None \<Rightarrow> Inr [token_level_rewards]
            | Some (keys, _, comps, pos) \<Rightarrow> gdpo_score_list keys comps pos (length (hd response_mask))) (\<lambda>score_list.
     let weights = (case details of Some (_, Some ws, _) \<Rightarrow> ws | _ \<Rightarrow> replicate (length score_list) 1) in
     rbind (gdpo_combine score_list weights response_mask index epsilon nrm) (\<lambda>adv.
     rbind (masked_whiten adv response_mask True) (\<lambda>w. let a = map2d (*) w response_mask in Inr (a, a))))"

section \<open>Compaction lemmas\<close>

lemma valid_positions_simps [simp]:
  "valid_positions [] xs = []" "valid_positions ms [] = []"
  "valid_positions (m # ms) (x # xs) = (if m = 1 then x # valid_positions ms xs else valid_positions ms xs)"
  by (simp_all add: valid_positions_def)

lemma td_error_Cons [simp]: "td_error gamma (x # traj) (Suc t) = td_error gamma traj t"
  by (simp add: td_error_def)

lemma gae_reference_Cons:
  "gae_reference gamma lam (x # traj) (Suc t) = gae_reference gamma lam traj t"
  by (simp add: gae_reference_def)

lemma gae_reference_step:
  "gae_reference gamma lam (x # traj) 0
     = td_error gamma (x # traj) 0 + gamma * lam * (if traj = [] then 0 else gae_reference gamma lam traj 0)"
proof -
  have "gae_reference gamma lam (x # traj) 0 = (\<Sum>l < Suc (length traj). (gamma * lam) ^ l * td_error gamma (x # traj) l)"
    by (simp add: gae_reference_def)
  also have "\<dots> = td_error gamma (x # traj) 0 + gamma * lam * (\<Sum>l < length traj. (gamma * lam) ^ l * td_error gamma traj l)"
    by (subst sum.lessThan_Suc_shift) (simp add: sum_distrib_left mult.assoc)
  finally show ?thesis by (simp add: gae_reference_def)
qed

lemma gae_scan_compact:
  assumes "set ms \<subseteq> {0, 1}" "length rs = length ms" "length vs = length ms"
  defines "traj \<equiv> zip (valid_positions ms rs) (valid_positions ms vs)"
  shows "fst (gae_scan gamma lam (zip rs (zip vs ms))) = (if traj = [] then 0 else snd (hd traj))
    \<and> fst (snd (gae_scan gamma lam (zip rs (zip vs ms)))) = (if traj = [] then 0 else gae_reference gamma lam traj 0)
    \<and> valid_positions ms (snd (snd (gae_scan gamma lam (zip rs (zip vs ms))))) = map (gae_reference gamma lam traj) [0..<length traj]"
  using assms(2,3,1) unfolding traj_def
proof (induction rs ms arbitrary: vs rule: list_induct2)
  case (Cons r rs m ms)
  obtain v vs' where vs: "vs = v # vs'" "length vs' = length ms" using Cons.prems(1) by (cases vs) auto
  let ?t = "zip (valid_positions ms rs) (valid_positions ms vs')"
  obtain nv lg advs where g: "gae_scan gamma lam (zip rs (zip vs' ms)) = (nv, lg, advs)" by (metis prod_cases3)
  have ih: "nv = (if ?t = [] then 0 else snd (hd ?t))" "lg = (if ?t = [] then 0 else gae_reference gamma lam ?t 0)"
    "valid_positions ms advs = map (gae_reference gamma lam ?t) [0..<length ?t]"
    using Cons.IH [OF vs(2)] Cons.prems(2) g by simp_all
  show ?case
  proof (cases "m = 1")
    case True
    have td: "td_error gamma ((r, v) # ?t) 0 = r + gamma * nv - v" by (cases ?t) (auto simp: td_error_def ih(1))
    have "map (gae_reference gamma lam ((r, v) # ?t)) [0..<Suc (length ?t)]
        = gae_reference gamma lam ((r, v) # ?t) 0 # map (gae_reference gamma lam ?t) [0..<length ?t]"
      by (simp add: upt_conv_Cons map_Suc_upt [symmetric] gae_reference_Cons comp_def del: upt_Suc)
    moreover have "gae_reference gamma lam ((r, v) # ?t) 0 = r + gamma * nv - v + gamma * lam * lg"
      by (simp add: gae_reference_step td ih(2))
    ultimately show ?thesis using True ih(3) by (simp add: vs(1) g Let_def del: upt_Suc)
  next
    case False
    then have "m = 0" using Cons.prems(2) by simp
    then show ?thesis using ih by (simp add: vs(1) g)
  qed
qed (simp add: gae_reference_def)

lemma rpp_compact:
  assumes "set ms \<subseteq> {0, 1}" "length rs = length ms"
  defines "xs \<equiv> valid_positions ms rs"
  shows "fst (rpp_scan gamma (zip rs ms)) = (\<Sum>l < length xs. gamma ^ l * xs ! l)
    \<and> valid_positions ms (snd (rpp_scan gamma (zip rs ms))) = map (\<lambda>t. \<Sum>l < length xs - t. gamma ^ l * xs ! (t + l)) [0..<length xs]"
  using assms(2,1) unfolding xs_def
proof (induction rs ms rule: list_induct2)
  case (Cons r rs m ms)
  let ?x = "valid_positions ms rs"
  obtain run rets where g: "rpp_scan gamma (zip rs ms) = (run, rets)" by fastforce
  have ih: "run = (\<Sum>l < length ?x. gamma ^ l * ?x ! l)"
    "valid_positions ms rets = map (\<lambda>t. \<Sum>l < length ?x - t. gamma ^ l * ?x ! (t + l)) [0..<length ?x]"
    using Cons.IH Cons.prems g by simp_all
  show ?case
  proof (cases "m = 1")
    case True
    have "(\<Sum>l < Suc (length ?x). gamma ^ l * (r # ?x) ! l) = r + gamma * run"
      unfolding ih(1) by (subst sum.lessThan_Suc_shift) (simp add: sum_distrib_left mult.assoc)
    moreover have "map (\<lambda>t. \<Sum>l < Suc (length ?x) - t. gamma ^ l * (r # ?x) ! (t + l)) [0..<Suc (length ?x)]
        = (\<Sum>l < Suc (length ?x). gamma ^ l * (r # ?x) ! l) # map (\<lambda>t. \<Sum>l < length ?x - t. gamma ^ l * ?x ! (t + l)) [0..<length ?x]"
      by (simp add: upt_conv_Cons map_Suc_upt [symmetric] comp_def del: upt_Suc sum.lessThan_Suc)
    ultimately show ?thesis using True ih(2) by (simp add: g Let_def del: upt_Suc sum.lessThan_Suc)
  next
    case False
    then have "m = 0" using Cons.prems by simp
    then show ?thesis using ih by (simp add: g)
  qed
qed simp

section \<open>Theorems on the estimators\<close>

lemma nth_zip3_with:
  "\<lbrakk>i < length xs; i < length ys; i < length zs\<rbrakk> \<Longrightarrow> zip3_with f xs ys zs ! i = f (xs ! i) (ys ! i) (zs ! i)"
  by (simp add: zip3_with_def)

lemma nth_map2d: "\<lbrakk>i < length xs; i < length ys\<rbrakk> \<Longrightarrow> map2d f xs ys ! i = map2 f (xs ! i) (ys ! i)"
  by (simp add: map2d_def)

lemma length_gae_scan: "length (snd (snd (gae_scan gamma lam xs))) = length xs"
  by (induction gamma lam xs rule: gae_scan.induct) (auto simp: Let_def split: prod.splits)

lemma valid_positions_map2:
  "\<lbrakk>length xs = length ms; length ys = length ms\<rbrakk> \<Longrightarrow>
     valid_positions ms (map2 f xs ys) = map2 f (valid_positions ms xs) (valid_positions ms ys)"
proof (induction ms arbitrary: xs ys)
  case (Cons m ms)
  then show ?case by (cases xs; cases ys) auto
qed simp

lemma length_valid_positions: "length xs = length ms \<Longrightarrow> length (valid_positions ms xs) = length (filter (\<lambda>m. m = 1) ms)"
proof (induction ms arbitrary: xs)
  case (Cons m ms)
  then show ?case by (cases xs) auto
qed simp

lemma masked_whiten_result:
  "masked_whiten vals msk b = Inl e \<longleftrightarrow> e = ValueError \<and> sum2d msk \<in> {0, 1}"
  by (auto simp: masked_whiten_def masked_var_def Let_def)

text \<open>
  C39. \<open>compute_gae_advantage_return\<close> fails exactly when the mask holds no token or a single one; otherwise its
  returns, read at the positions of a row whose mask is 1, are the value plus the textbook generalised advantage
  (the sum of the \<open>gamma * lam\<close>-discounted temporal differences) of the row's trajectory with every observation
  token removed: tool output inside a response contributes neither a value nor a difference.
\<close>

theorem gae_is_textbook_on_valid_tokens:
  assumes "length R = length M" "length V = length M"
    and "\<And>i. i < length M \<Longrightarrow> length (R ! i) = length (M ! i) \<and> length (V ! i) = length (M ! i) \<and> set (M ! i) \<subseteq> {0, 1}"
  shows "case compute_gae_advantage_return R V M gamma lam of
      Inl e \<Rightarrow> e = ValueError \<and> sum2d M \<in> {0, 1}
    | Inr (_, returns) \<Rightarrow> sum2d M \<notin> {0, 1} \<and>
        (\<forall>i < length M. let traj = zip (valid_positions (M ! i) (R ! i)) (valid_positions (M ! i) (V ! i)) in
           valid_positions (M ! i) (returns ! i) = map (\<lambda>t. gae_reference gamma lam traj t + snd (traj ! t)) [0..<length traj])"
proof -
  have row: "valid_positions (M ! i) (map2d (+) (zip3_with (gae_row gamma lam) R V M) V ! i)
      = map (\<lambda>t. gae_reference gamma lam traj t + snd (traj ! t)) [0..<length traj]"
    if i: "i < length M" and traj: "traj = zip (valid_positions (M ! i) (R ! i)) (valid_positions (M ! i) (V ! i))" for i traj
  proof -
    have l: "length (gae_row gamma lam (R ! i) (V ! i) (M ! i)) = length (M ! i)"
      using assms(3) [OF i] by (simp add: gae_row_def length_gae_scan)
    have lv: "length (valid_positions (M ! i) (V ! i)) = length traj"
      using assms(3) [OF i] by (simp add: traj length_valid_positions)
    have "valid_positions (M ! i) (gae_row gamma lam (R ! i) (V ! i) (M ! i)) = map (gae_reference gamma lam traj) [0..<length traj]"
      using gae_scan_compact [of "M ! i" "R ! i" "V ! i" gamma lam] assms(3) [OF i] by (simp add: gae_row_def traj)
    moreover have "valid_positions (M ! i) (V ! i) = map (\<lambda>t. snd (traj ! t)) [0..<length traj]"
      using lv by (intro nth_equalityI) (simp_all add: traj)
    moreover have "length (zip3_with (gae_row gamma lam) R V M) = length M" using assms(1,2) by (simp add: zip3_with_def)
    ultimately have "valid_positions (M ! i) (map2d (+) (zip3_with (gae_row gamma lam) R V M) V ! i)
        = map2 (+) (map (gae_reference gamma lam traj) [0..<length traj]) (map (\<lambda>t. snd (traj ! t)) [0..<length traj])"
      using i assms(1,2) assms(3) [OF i] l by (simp add: nth_map2d nth_zip3_with valid_positions_map2)
    then show ?thesis by (simp add: zip_map_map zip_same_conv_map comp_def)
  qed
  show ?thesis
  proof (cases "masked_whiten (zip3_with (gae_row gamma lam) R V M) M True")
    case (Inl e)
    then show ?thesis using masked_whiten_result [of "zip3_with (gae_row gamma lam) R V M" M True e]
      by (simp add: compute_gae_advantage_return_def)
  next
    case (Inr w)
    then have "sum2d M \<notin> {0, 1}" using masked_whiten_result [of "zip3_with (gae_row gamma lam) R V M" M True ValueError] by simp
    then show ?thesis using Inr row by (simp add: compute_gae_advantage_return_def Let_def)
  qed
qed

theorem gae_is_textbook_on_valid_tokens_witness:
  "case compute_gae_advantage_return [[1, 9, 2]] [[3, 7, 4]] [[1, 0, 1]] 1 1 of
     Inl e \<Rightarrow> False
   | Inr (_, returns) \<Rightarrow> valid_positions [1, 0, 1] (returns ! 0) = [3, 2]"
proof -
  have s: "sum2d [[1, 0, 1]] = 2" by (simp add: sum2d_def)
  have "gae_reference 1 1 [(1, 3), (2, 4)] 0 = 0" "gae_reference 1 1 [(1, 3), (2, 4)] (Suc 0) = -2"
    by (simp_all add: gae_reference_def td_error_def numeral_2_eq_2)
  then show ?thesis
    using gae_is_textbook_on_valid_tokens [of "[[1, 9, 2]]" "[[1, 0, 1]]" "[[3, 7, 4]]" 1 1]
    by (auto simp: s numeral_2_eq_2 Let_def split: sum.splits)
qed

text \<open>Ranks name the groups one to one.\<close>

lemma rank_inject:
  assumes "finite A" "x \<in> A" "y \<in> A" "card {z \<in> A. z < x} = card {z \<in> A. z < (y::'a::linorder)}"
  shows "x = y"
proof (rule ccontr)
  assume "x \<noteq> y"
  have less: "card {z \<in> A. z < a} < card {z \<in> A. z < b}" if "a < b" "a \<in> A" for a b
    by (rule psubset_card_mono) (use assms(1) that in auto)
  have "x < y \<or> y < x" using \<open>x \<noteq> y\<close> by (metis neqE)
  then show False using less [of x y] less [of y x] assms by auto
qed

lemma group_scores_unique_inverse:
  assumes "i < length index" "length scores = length index"
  shows "group_scores scores (unique_inverse index) (unique_inverse index ! i) = group_scores scores index (index ! i)"
proof -
  define rank where "rank x = card {y \<in> set index. y < x}" for x
  have inj: "rank x = rank (index ! i) \<longleftrightarrow> x = index ! i" if "x \<in> set index" for x
    using rank_inject [of "set index" x "index ! i"] that assms(1) by (auto simp: rank_def)
  have "group_scores scores (map rank index') k = map fst (filter (\<lambda>(_, j). rank j = k) (zip scores index'))" for index' k
    by (induction scores index' rule: list_induct2') (auto simp: group_scores_def)
  moreover have "filter (\<lambda>(_, j). rank j = rank (index ! i)) (zip scores index) = filter (\<lambda>(_, j). j = index ! i) (zip scores index)"
    by (intro filter_cong) (auto simp: inj dest: set_zip_rightD)
  ultimately show ?thesis using assms(1)
    by (simp add: unique_inverse_def group_scores_def flip: rank_def)
qed

lemma group_scores_nonempty:
  assumes "i < length index" "length scores = length index"
  shows "scores ! i \<in> set (group_scores scores index (index ! i))"
  using assms by (force simp: group_scores_def set_zip)

text \<open>
  RLOO: a response's score is its reward minus the mean reward of the other responses to the same prompt, and
  the vectorised estimator gives the same score, for every prompt with at least two responses.  A prompt with one
  response is treated differently by the two: the loop keeps the reward itself, the vectorised version gives 0.
\<close>

lemma rloo_leave_one_out:
  assumes "length scores = length index" "i < length index"
  shows "let xs = group_scores scores index (index ! i) in
     (length xs \<ge> 2 \<longrightarrow>
        rloo_scores scores index ! i = scores ! i - (sum_list xs - scores ! i) / (of_nat (length xs) - 1)
      \<and> rloo_vectorized_scores scores index ! i = rloo_scores scores index ! i)
     \<and> (length xs = 1 \<longrightarrow> rloo_scores scores index ! i = scores ! i \<and> rloo_vectorized_scores scores index ! i = 0)"
proof -
  let ?xs = "group_scores scores index (index ! i)"
  define n where "n = real (length ?xs)"
  have li: "length (unique_inverse index) = length index" by (simp add: unique_inverse_def)
  have v: "rloo_vectorized_scores scores index ! i
      = (n * scores ! i - sum_list ?xs) / max 1 (n - 1) * (if n > 1 then 1 else 0)"
    using assms by (simp add: rloo_vectorized_scores_def Let_def li group_scores_unique_inverse n_def)
  have r: "rloo_scores scores index ! i
      = (if length ?xs > 1 then scores ! i * n / (n - 1) - baseline_mean scores index (index ! i) * n / (n - 1) else scores ! i)"
    using assms by (simp add: rloo_scores_def Let_def n_def)
  have "scores ! i * n / (n - 1) - baseline_mean scores index (index ! i) * n / (n - 1) = (n * scores ! i - sum_list ?xs) / (n - 1)
      \<and> (n * scores ! i - sum_list ?xs) / (n - 1) = scores ! i - (sum_list ?xs - scores ! i) / (n - 1)" if "length ?xs \<ge> 2"
  proof -
    have n2: "n \<ge> 2" using that by (simp add: n_def)
    have "baseline_mean scores index (index ! i) * n = sum_list ?xs"
      using that n2 by (auto simp: baseline_mean_def mean_of_def Let_def n_def)
    then show ?thesis using n2 by (simp add: diff_divide_distrib [symmetric] mult.commute divide_simps) (simp add: algebra_simps)
  qed
  moreover have "max 1 (n - 1) = n - 1" if "length ?xs \<ge> 2" using that by (simp add: n_def)
  ultimately show ?thesis using v r by (auto simp: Let_def n_def)
qed

text \<open>
  The vectorised GRPO estimator is the GRPO loop: for every batch, every grouping and both normalisations the
  two give the same advantages, one-response prompts included.
\<close>

lemma grpo_vectorized_is_grpo:
  assumes "length token_level_rewards = length index"
  shows "compute_grpo_vectorized_outcome_advantage token_level_rewards response_mask index epsilon nrm
     = Inr (compute_grpo_outcome_advantage token_level_rewards response_mask index epsilon nrm)"
proof -
  let ?s = "map sum_list token_level_rewards" and ?g = "unique_inverse index"
  have lg: "length ?g = length index" by (simp add: unique_inverse_def)
  have cell: "(if nrm then (?s ! i - map (group_mean ?s ?g) ks ! (?g ! i)) / (map (group_std 0 ?s ?g) ks ! (?g ! i) + epsilon)
       else ?s ! i - map (group_mean ?s ?g) ks ! (?g ! i)) = grpo_scores ?s index epsilon nrm ! i"
    if i: "i < length index" and ks: "ks = [0..<Suc (Max (set ?g))]" for i ks
  proof -
    let ?xs = "group_scores ?s index (index ! i)"
    have mem: "?g ! i \<in> set ?g" using i lg by simp
    have nth: "map f ks ! (?g ! i) = f (?g ! i)" for f :: "nat \<Rightarrow> real"
      using Max_ge [OF finite_set mem] by (simp add: ks del: upt_Suc)
    have eq: "group_scores ?s ?g (?g ! i) = ?xs" using group_scores_unique_inverse [OF i, of ?s] assms by simp
    have ne: "?xs \<noteq> []" using group_scores_nonempty [OF i, of ?s] assms by auto
    have nn: "0 \<le> sum_list (map (\<lambda>x. (x - m) * (x - m)) xs)" for m :: real and xs by (induction xs) auto
    have "group_mean ?s ?g (?g ! i) = (if length ?xs = 1 then 0 else mean_of ?xs)"
      using ne by (cases ?xs) (auto simp: group_mean_def eq mean_of_def Let_def)
    moreover have "group_std 0 ?s ?g (?g ! i) = (if length ?xs = 1 then 1 else std_of ?xs)"
    proof (cases "length ?xs = 1")
      case False
      then have l: "length ?xs \<ge> 2" using ne by (cases ?xs) (auto simp: Suc_le_eq)
      have "sum_list ?xs / max 1 (real (length ?xs)) = mean_of ?xs" using l by (simp add: mean_of_def)
      moreover have "max 1 (real (length ?xs) - 1) = real (length ?xs) - 1" using l by simp
      ultimately show ?thesis using l nn by (simp add: group_std_def eq std_of_def Let_def max_absorb2)
    qed (simp add: group_std_def eq Let_def)
    moreover have "grpo_scores ?s index epsilon nrm ! i = (let m = (if length ?xs = 1 then 0 else mean_of ?xs);
        sd = (if length ?xs = 1 then 1 else std_of ?xs) in if nrm then (?s ! i - m) / (sd + epsilon) else ?s ! i - m)"
      using i assms by (simp add: grpo_scores_def Let_def)
    ultimately show ?thesis by (simp add: nth Let_def)
  qed
  show ?thesis
  proof (cases "index = []")
    case True
    then show ?thesis using assms by (simp add: compute_grpo_vectorized_outcome_advantage_def group_mean_std_def
        compute_grpo_outcome_advantage_def grpo_scores_def broadcast_def unique_inverse_def)
  next
    case False
    then have ne: "?g \<noteq> []" by (simp add: unique_inverse_def)
    let ?ks = "[0..<Suc (Max (set ?g))]"
    have "map (\<lambda>(s, k). if nrm then (s - map (group_mean ?s ?g) ?ks ! k) / (map (group_std 0 ?s ?g) ?ks ! k + epsilon)
        else s - map (group_mean ?s ?g) ?ks ! k) (zip ?s ?g) = grpo_scores ?s index epsilon nrm" (is "?l = _")
    proof (rule nth_equalityI)
      show "length ?l = length (grpo_scores ?s index epsilon nrm)" using assms by (simp add: lg grpo_scores_def del: upt_Suc)
      fix i assume "i < length ?l"
      then have i: "i < length index" by (simp add: lg del: upt_Suc)
      then have "?l ! i = (if nrm then (?s ! i - map (group_mean ?s ?g) ?ks ! (?g ! i)) / (map (group_std 0 ?s ?g) ?ks ! (?g ! i) + epsilon)
          else ?s ! i - map (group_mean ?s ?g) ?ks ! (?g ! i))" using assms by (simp add: lg del: upt_Suc)
      then show "?l ! i = grpo_scores ?s index epsilon nrm ! i" using cell [OF i refl] by simp
    qed
    then show ?thesis using assms ne
      by (simp add: compute_grpo_vectorized_outcome_advantage_def group_mean_std_def lg Let_def
          compute_grpo_outcome_advantage_def broadcast_def del: upt_Suc)
  qed
qed

end
