(* ===== verification/Optimal_Baseline.thy ===== *)
theory Optimal_Baseline
  imports Advantages
begin

text \<open>
  The two optimal-token-baseline estimators of \<open>verl/trainer/ppo/core_algos.py\<close>: the single-turn one, which works on
  positions, and the multi-turn one, which first packs the valid tokens of every response to the left.  Both are
  translated for masks of 0 and 1; on a prefix mask they are shown to be the same estimator.
\<close>

section \<open>What the two share\<close>

definition prefix_sums :: "real list \<Rightarrow> real list" where
  "prefix_sums xs = map (\<lambda>i. sum_list (take (Suc i) xs)) [0..<length xs]"

text \<open>The cumulative path-variance proxy \<open>W\<close>; \<open>rollout_is_weights\<close> is optional.\<close>

definition path_weights :: "mat \<Rightarrow> mat \<Rightarrow> mat option \<Rightarrow> mat \<Rightarrow> mat" where
  "path_weights old_log_probs sum_pi_squared rollout_is_weights response_mask =
     (let w = map2d (\<lambda>lp s. 1 - 2 * exp lp + s) old_log_probs sum_pi_squared;
          w' = (case rollout_is_weights of None \<Rightarrow> w | Some r \<Rightarrow> map2d (\<lambda>x y. x * (y * y)) w r) in
      map prefix_sums (map2d (*) w' response_mask))"

definition row_length :: "real list \<Rightarrow> nat" where
  "row_length m = nat \<lfloor>sum_list m\<rfloor>"

definition prompt_group :: "'i list \<Rightarrow> nat \<Rightarrow> nat list" where
  "prompt_group index i = filter (\<lambda>j. index ! j = index ! i) [0..<length index]"

text \<open>Where the baseline of response \<open>i\<close> ends: it is the only longest one, and the rest has no other response.\<close>

definition zero_tail :: "nat list \<Rightarrow> nat list \<Rightarrow> nat \<Rightarrow> nat option" where
  "zero_tail lens grp i =
     (let sorted = sort (map ((!) lens) grp); max_length = sorted ! (length sorted - 1);
          second_max_length = sorted ! (length sorted - 2) in
      if length (filter (\<lambda>j. lens ! j = max_length) grp) = 1 \<and> max_length > second_max_length \<and> lens ! i = max_length
      then Some second_max_length else None)"

definition tail_baseline :: "bool \<Rightarrow> nat list \<Rightarrow> nat list \<Rightarrow> nat \<Rightarrow> nat \<Rightarrow> real \<Rightarrow> real" where
  "tail_baseline handle_zero_tail lens grp i t b =
     (case (if handle_zero_tail then zero_tail lens grp i else None) of None \<Rightarrow> b | Some k \<Rightarrow> if k \<le> t then 0 else b)"

section \<open>The single-turn estimator\<close>

definition step_baseline :: "mat \<Rightarrow> mat \<Rightarrow> mat \<Rightarrow> real \<Rightarrow> nat list \<Rightarrow> nat \<Rightarrow> real" where
  "step_baseline returns w_cumulative response_mask epsilon grp t =
     sum_list (map (\<lambda>j. returns ! j ! t * w_cumulative ! j ! t * response_mask ! j ! t) grp)
     / (sum_list (map (\<lambda>j. w_cumulative ! j ! t * response_mask ! j ! t) grp) + epsilon)"

definition otb_baseline :: "mat \<Rightarrow> mat \<Rightarrow> mat \<Rightarrow> 'i list \<Rightarrow> bool \<Rightarrow> real \<Rightarrow> nat \<Rightarrow> nat \<Rightarrow> real" where
  "otb_baseline returns w_cumulative response_mask index handle_zero_tail epsilon i t =
     (let grp = prompt_group index i in
      if length grp = 1 then 0
      else tail_baseline handle_zero_tail (map row_length response_mask) grp i t
             (step_baseline returns w_cumulative response_mask epsilon grp t))"

definition compute_optimal_token_baseline_advantage ::
  "mat \<Rightarrow> mat \<Rightarrow> 'i list \<Rightarrow> mat \<Rightarrow> mat \<Rightarrow> mat option \<Rightarrow> bool \<Rightarrow> real \<Rightarrow> mat \<times> mat" where
  "compute_optimal_token_baseline_advantage token_level_rewards response_mask index old_log_probs sum_pi_squared
     rollout_is_weights handle_zero_tail epsilon =
     (let returns = masked_returns token_level_rewards response_mask;
          w_cumulative = path_weights old_log_probs sum_pi_squared rollout_is_weights response_mask in
      (map (\<lambda>i. map (\<lambda>t. (returns ! i ! t - otb_baseline returns w_cumulative response_mask index handle_zero_tail epsilon i t)
                            * response_mask ! i ! t) [0..<length (response_mask ! i)]) [0..<length response_mask],
       returns))"

section \<open>The multi-turn estimator\<close>

text \<open>\<open>row[mask]\<close> put into the first columns of a row of zeros, and its inverse \<open>out[mask] = row[:length]\<close>.\<close>

definition packed :: "nat \<Rightarrow> real list \<Rightarrow> real list \<Rightarrow> real list" where
  "packed width m xs = (let ys = map fst (filter (\<lambda>(_, b). b \<noteq> 0) (zip xs m)) in ys @ replicate (width - length ys) 0)"

fun scatter_masked :: "real list \<Rightarrow> real list \<Rightarrow> real list" where
  "scatter_masked [] ys = []"
| "scatter_masked (b # m) ys =
     (if b \<noteq> 0 then (case ys of [] \<Rightarrow> 0 | y # _ \<Rightarrow> y) # scatter_masked m (drop 1 ys) else 0 # scatter_masked m ys)"

definition packed_baseline :: "mat \<Rightarrow> mat \<Rightarrow> nat list \<Rightarrow> 'i list \<Rightarrow> bool \<Rightarrow> real \<Rightarrow> nat \<Rightarrow> nat \<Rightarrow> real" where
  "packed_baseline all_returns all_w_values lens index handle_zero_tail epsilon i t =
     (let grp = filter (\<lambda>j. lens ! j \<noteq> 0) (prompt_group index i) in
      if lens ! i = 0 \<or> length grp = 1 then 0
      else tail_baseline handle_zero_tail lens grp i t
             (sum_list (map (\<lambda>j. all_returns ! j ! t * all_w_values ! j ! t) grp)
              / (sum_list (map (\<lambda>j. all_w_values ! j ! t) grp) + epsilon)))"

definition compute_multi_turn_optimal_token_baseline_advantage ::
  "mat \<Rightarrow> mat \<Rightarrow> 'i list \<Rightarrow> mat \<Rightarrow> mat \<Rightarrow> mat option \<Rightarrow> bool \<Rightarrow> real \<Rightarrow> mat \<times> mat" where
  "compute_multi_turn_optimal_token_baseline_advantage token_level_rewards response_mask index old_log_probs sum_pi_squared
     rollout_is_weights handle_zero_tail epsilon =
     (let token_returns = masked_returns token_level_rewards response_mask;
          w_cumulative = path_weights old_log_probs sum_pi_squared rollout_is_weights response_mask;
          lens = map row_length response_mask;
          width = fold max lens 0;
          all_w_values = map2 (packed width) response_mask w_cumulative;
          all_returns = map2 (packed width) response_mask token_returns;
          all_advantages = map (\<lambda>i. map (\<lambda>t. all_returns ! i ! t
              - packed_baseline all_returns all_w_values lens index handle_zero_tail epsilon i t) [0..<width]) [0..<length response_mask] in
      (map (\<lambda>i. if lens ! i = 0 then map (\<lambda>_. 0) (response_mask ! i)
                else map2 (*) (scatter_masked (response_mask ! i) (take (lens ! i) (all_advantages ! i))) (response_mask ! i))
         [0..<length response_mask],
       token_returns))"

section \<open>Prefix masks\<close>

definition prefix_mask :: "nat \<Rightarrow> nat \<Rightarrow> real list" where
  "prefix_mask width n = replicate n 1 @ replicate (width - n) 0"

lemma prefix_mask_simps [simp]:
  "n \<le> width \<Longrightarrow> length (prefix_mask width n) = width"
  "row_length (prefix_mask width n) = n"
  "n \<le> width \<Longrightarrow> t < width \<Longrightarrow> prefix_mask width n ! t = (if t < n then 1 else 0)"
  by (simp_all add: prefix_mask_def row_length_def sum_list_replicate nth_append)

lemma packed_prefix:
  assumes "n \<le> width" "length xs = width" "n \<le> w" "t < w"
  shows "packed w (prefix_mask width n) xs ! t = (if t < n then xs ! t else 0)"
proof -
  have "filter (\<lambda>(_, b). b \<noteq> 0) (zip xs (prefix_mask width n)) = zip (take n xs) (replicate n 1)"
  proof -
    have "zip xs (prefix_mask width n) = zip (take n xs) (replicate n 1) @ zip (drop n xs) (replicate (width - n) 0)"
      using assms zip_append [of "take n xs" "replicate n (1::real)" "drop n xs" "replicate (width - n) 0"]
      by (simp add: prefix_mask_def)
    moreover have "filter (\<lambda>(_, b). b \<noteq> 0) (zip ys (replicate k (1::real))) = zip ys (replicate k 1)" for ys :: "real list" and k
      by (rule filter_True) (auto simp: set_zip)
    moreover have "filter (\<lambda>(_, b). b \<noteq> 0) (zip ys (replicate k (0::real))) = []" for ys :: "real list" and k
      by (rule filter_False) (auto simp: set_zip)
    ultimately show ?thesis by simp
  qed
  then show ?thesis using assms by (simp add: packed_def Let_def nth_append)
qed

lemma scatter_prefix:
  "\<lbrakk>length ys = n\<rbrakk> \<Longrightarrow> scatter_masked (replicate n 1 @ replicate k 0) ys = ys @ replicate k 0"
proof (induction n arbitrary: ys)
  case 0
  have "scatter_masked (replicate k 0) [] = replicate k 0" by (induction k) auto
  then show ?case using 0 by simp
next
  case (Suc n)
  then show ?case by (cases ys) auto
qed

lemma sum_list_map_filter_zero:
  "(\<And>x. x \<in> set xs \<Longrightarrow> \<not> P x \<Longrightarrow> f x = (0::real)) \<Longrightarrow> sum_list (map f (filter P xs)) = sum_list (map f xs)"
  by (induction xs) auto

lemma length_1_mem: "\<lbrakk>length xs = 1; x \<in> set xs\<rbrakk> \<Longrightarrow> xs = [x]"
  by (cases xs) auto

lemma sort_zeros:
  "sort (map f xs) = replicate (length (filter (\<lambda>x. f x = (0::nat)) xs)) 0 @ sort (map f (filter (\<lambda>x. f x \<noteq> 0) xs))"
proof (rule properties_for_sort)
  show "mset (replicate (length (filter (\<lambda>x. f x = 0) xs)) 0 @ sort (map f (filter (\<lambda>x. f x \<noteq> 0) xs))) = mset (map f xs)"
    by (induction xs) auto
qed (auto simp: sorted_append)

lemma zero_tail_nonempty:
  assumes "length (filter (\<lambda>j. lens ! j \<noteq> 0) grp) \<ge> 2"
  shows "zero_tail lens grp i = zero_tail lens (filter (\<lambda>j. lens ! j \<noteq> 0) grp) i"
proof -
  let ?z = "length (filter (\<lambda>j. lens ! j = 0) grp)"
  let ?f = "filter (\<lambda>j. lens ! j \<noteq> 0) grp"
  let ?s = "sort (map ((!) lens) ?f)"
  have s: "sort (map ((!) lens) grp) = replicate ?z 0 @ ?s" by (rule sort_zeros)
  have l: "length ?s \<ge> 2" using assms by simp
  have nth: "(replicate ?z 0 @ ?s) ! (length (replicate ?z 0 @ ?s) - k) = ?s ! (length ?s - k)" if "k \<le> 2" for k
  proof -
    have "length (replicate ?z 0 @ ?s) - k = ?z + (length ?s - k)" using that l by simp
    then show ?thesis by (simp only: nth_append length_replicate) simp
  qed
  have pos: "?s ! (length ?s - 1) \<noteq> 0"
  proof -
    have "?s ! (length ?s - 1) \<in> set ?s" using l by (intro nth_mem) simp
    then show ?thesis by auto
  qed
  have "filter (\<lambda>j. lens ! j = ?s ! (length ?s - 1)) ?f = filter (\<lambda>j. lens ! j = ?s ! (length ?s - 1)) grp"
    using pos by (auto simp: filter_filter intro: filter_cong)
  then show ?thesis unfolding zero_tail_def Let_def s using nth [of 1] nth [of 2] by simp
qed

lemma zero_tail_single:
  assumes "filter (\<lambda>j. lens ! j \<noteq> 0) grp = [i]" "length grp \<ge> 2"
  shows "zero_tail lens grp i = Some 0"
proof -
  have "length (filter (\<lambda>j. lens ! j = 0) grp) + length (filter (\<lambda>j. lens ! j \<noteq> 0) grp) = length grp"
    by (rule sum_length_filter_compl)
  then obtain z where z: "length (filter (\<lambda>j. lens ! j = 0) grp) = Suc z" using assms by (cases "length (filter (\<lambda>j. lens ! j = 0) grp)") auto
  have s: "sort (map ((!) lens) grp) = replicate (Suc z) 0 @ [lens ! i]"
    using sort_zeros [of "(!) lens" grp] z assms(1) by simp
  have i: "lens ! i \<noteq> 0" using equalityD2 [OF arg_cong [OF assms(1), of set]] by auto
  have "filter (\<lambda>j. lens ! j = lens ! i) (filter (\<lambda>j. lens ! j \<noteq> 0) grp) = filter (\<lambda>j. lens ! j = lens ! i) grp"
    using i by (auto simp: filter_filter intro: filter_cong)
  then have "length (filter (\<lambda>j. lens ! j = lens ! i) grp) = 1" using assms(1) by (metis (mono_tags, lifting) One_nat_def filter.simps length_Cons list.size(3))
  then show ?thesis unfolding zero_tail_def Let_def s using i by (simp add: nth_append nth_Cons')
qed

lemma baselines_agree:
  assumes "i < length ls" "t < ls ! i" "length index = length ls"
    and msk: "msk = map (prefix_mask width) ls" and ls: "\<And>j. j < length ls \<Longrightarrow> ls ! j \<le> width" and w: "w = fold max ls 0"
    and rows: "length G = length ls" "length W = length ls" "\<And>j. j < length ls \<Longrightarrow> length (G ! j) = width \<and> length (W ! j) = width"
  shows "packed_baseline (map2 (packed w) msk G) (map2 (packed w) msk W) (map row_length msk) index True eps i t
     = otb_baseline G W msk index True eps i t"
proof -
  have lens: "map row_length msk = ls" by (simp add: msk comp_def cong: map_cong)
  let ?g = "prompt_group index i"
  let ?f = "filter (\<lambda>j. ls ! j \<noteq> 0) ?g"
  have g: "j < length ls" if "j \<in> set ?g" for j using that assms(3) by (simp add: prompt_group_def)
  have i: "i \<in> set ?g" "i \<in> set ?f" using assms(1-3) by (auto simp: prompt_group_def)
  have wm: "ls ! j \<le> w" if "j < length ls" for j
    using that Max_ge [of "set (0 # ls)" "ls ! j"] by (simp add: w Max.set_eq_fold [symmetric] del: Max_insert)
  have t: "t < w" "t < width" using wm [OF assms(1)] ls [OF assms(1)] assms(2) by simp_all
  have cell: "map2 (packed w) msk X ! j ! t = (if t < ls ! j then X ! j ! t else 0)"
    if "j < length ls" "length X = length ls" "length (X ! j) = width" for j and X :: mat
    using that wm [OF that(1)] ls [OF that(1)] t by (simp add: msk packed_prefix)
  have m: "msk ! j ! t = (if t < ls ! j then 1 else 0)" if "j < length ls" for j
    using that ls [OF that] t by (simp add: msk)
  have num: "sum_list (map (\<lambda>j. map2 (packed w) msk G ! j ! t * map2 (packed w) msk W ! j ! t) ?f)
      = sum_list (map (\<lambda>j. G ! j ! t * W ! j ! t * msk ! j ! t) ?g)"
    using g rows by (subst sum_list_map_filter_zero) (auto simp: cell m intro!: arg_cong [of _ _ sum_list])
  have den: "sum_list (map (\<lambda>j. map2 (packed w) msk W ! j ! t) ?f) = sum_list (map (\<lambda>j. W ! j ! t * msk ! j ! t) ?g)"
    using g rows by (subst sum_list_map_filter_zero) (auto simp: cell m intro!: arg_cong [of _ _ sum_list])
  have li: "ls ! i \<noteq> 0" using assms(2) by simp
  consider "length ?g = 1" | "length ?g \<ge> 2" "length ?f = 1" | "length ?f \<ge> 2"
    using length_pos_if_in_set [OF i(2)] length_filter_le [of "\<lambda>j. ls ! j \<noteq> 0" ?g] by linarith
  then show ?thesis
  proof cases
    case 1
    then have "length ?f = 1" using length_pos_if_in_set [OF i(2)] length_filter_le [of "\<lambda>j. ls ! j \<noteq> 0" ?g] by linarith
    then show ?thesis using 1 li by (simp add: packed_baseline_def otb_baseline_def lens)
  next
    case 2
    then have "?f = [i]" using i(2) by (intro length_1_mem)
    then show ?thesis using 2 li zero_tail_single [of ls ?g i]
      by (simp add: packed_baseline_def otb_baseline_def lens tail_baseline_def)
  next
    case 3
    then have "length ?g \<ge> 2" using length_filter_le [of "\<lambda>j. ls ! j \<noteq> 0" ?g] by linarith
    then show ?thesis using 3 li by (simp only: packed_baseline_def otb_baseline_def lens tail_baseline_def step_baseline_def Let_def num den
          zero_tail_nonempty [OF 3, of i]) simp
  qed
qed

text \<open>The shapes of one call.\<close>

definition shaped :: "nat \<Rightarrow> nat \<Rightarrow> mat \<Rightarrow> bool" where
  "shaped n width x \<longleftrightarrow> length x = n \<and> (\<forall>r \<in> set x. length r = width)"

lemma shaped_nth: "shaped n width x \<Longrightarrow> j < n \<Longrightarrow> length (x ! j) = width"
  by (simp add: shaped_def)

lemma shaped_map2d: "\<lbrakk>shaped n width x; shaped n width y\<rbrakk> \<Longrightarrow> shaped n width (map2d f x y)"
  unfolding shaped_def map2d_def by (auto simp: set_zip)

lemma shaped_map: "\<lbrakk>shaped n width x; \<And>r. length (f r) = length r\<rbrakk> \<Longrightarrow> shaped n width (map f x)"
  by (auto simp: shaped_def)

lemma length_suffix_sums [simp]: "length (suffix_sums xs) = length xs"
  by (induction xs) auto

lemma shaped_masked_returns: "\<lbrakk>shaped n width R; shaped n width M\<rbrakk> \<Longrightarrow> shaped n width (masked_returns R M)"
  unfolding masked_returns_def by (intro shaped_map shaped_map2d) simp_all

lemma shaped_path_weights:
  assumes "shaped n width P" "shaped n width Q" "\<And>r. ris = Some r \<Longrightarrow> shaped n width r" "shaped n width M"
  shows "shaped n width (path_weights P Q ris M)"
  unfolding path_weights_def Let_def
  by (intro shaped_map shaped_map2d) (auto simp: prefix_sums_def assms intro!: shaped_map2d split: option.splits)

text \<open>
  C40. With the zero tail (the default of both), the multi-turn optimal token baseline is the single-turn one on
  every batch whose masks are prefixes: packing the valid tokens, leaving empty responses out of their prompt's group
  and scattering the result back change no advantage and no return, whatever the log-probabilities, the
  importance weights and the grouping.
\<close>

theorem multi_turn_otb_extends_single_turn:
  assumes M: "M = map (prefix_mask width) ls" and ls: "\<forall>l \<in> set ls. l \<le> width"
    and idx: "length index = length ls" and R: "shaped (length ls) width R"
    and P: "shaped (length ls) width P" "shaped (length ls) width Q" "\<forall>r. ris = Some r \<longrightarrow> shaped (length ls) width r"
  shows "compute_multi_turn_optimal_token_baseline_advantage R M index P Q ris True eps
     = compute_optimal_token_baseline_advantage R M index P Q ris True eps"
proof -
  let ?n = "length ls"
  define G where "G = masked_returns R M"
  define W where "W = path_weights P Q ris M"
  define w where "w = fold max ls 0"
  have lj: "ls ! j \<le> width" if "j < ?n" for j using ls that by simp
  have sM: "shaped ?n width M" using ls by (auto simp: M shaped_def)
  have G: "shaped ?n width G" unfolding G_def by (rule shaped_masked_returns [OF R sM])
  have W: "shaped ?n width W" unfolding W_def using P sM by (intro shaped_path_weights) auto
  have lens: "map row_length M = ls" by (simp add: M comp_def cong: map_cong)
  have ln: "length M = ?n" by (simp add: M)
  have wm: "ls ! j \<le> w" if "j < ?n" for j
    using that Max_ge [of "set (0 # ls)" "ls ! j"] by (simp add: w_def Max.set_eq_fold [symmetric] del: Max_insert)
  let ?PB = "packed_baseline (map2 (packed w) M G) (map2 (packed w) M W) ls index True eps"
  let ?adv = "map (\<lambda>i. map (\<lambda>t. map2 (packed w) M G ! i ! t - ?PB i t) [0..<w]) [0..<?n]"
  have row: "(if ls ! i = 0 then map (\<lambda>_. 0) (M ! i) else map2 (*) (scatter_masked (M ! i) (take (ls ! i) (?adv ! i))) (M ! i))
      = map (\<lambda>t. (G ! i ! t - otb_baseline G W M index True eps i t) * M ! i ! t) [0..<length (M ! i)]" (is "?l = ?r")
    if i: "i < ?n" for i
  proof (rule nth_equalityI)
    have Mi: "M ! i = prefix_mask width (ls ! i)" "length (M ! i) = width" using i lj [OF i] by (simp_all add: M)
    have sc: "scatter_masked (M ! i) (take (ls ! i) (?adv ! i)) = take (ls ! i) (?adv ! i) @ replicate (width - ls ! i) 0"
      unfolding Mi prefix_mask_def by (rule scatter_prefix) (use i wm [OF i] in simp)
    then show "length ?l = length ?r" using Mi i lj [OF i] wm [OF i] by simp
    fix t assume "t < length ?l"
    then have t: "t < width" using Mi i lj [OF i] wm [OF i] sc by (simp split: if_splits)
    have "?adv ! i ! t = G ! i ! t - otb_baseline G W M index True eps i t" if "t < ls ! i"
    proof -
      have "t < w" using wm [OF i] that by simp
      moreover have "map2 (packed w) M G ! i ! t = G ! i ! t"
        using that i G lj [OF i] wm [OF i] \<open>t < w\<close> shaped_nth [OF G i] by (simp add: M packed_prefix shaped_def)
      moreover have "?PB i t = otb_baseline G W M index True eps i t"
        using baselines_agree [OF i that idx M lj w_def, of G W eps] G W shaped_nth [OF G] shaped_nth [OF W]
        by (simp add: lens shaped_def)
      ultimately show ?thesis using i by simp
    qed
    then show "?l ! t = ?r ! t" using Mi i t lj [OF i] wm [OF i] sc by (auto simp: nth_append)
  qed
  show ?thesis
    unfolding compute_multi_turn_optimal_token_baseline_advantage_def compute_optimal_token_baseline_advantage_def Let_def
      lens ln G_def [symmetric] W_def [symmetric] w_def [symmetric]
    by (rule arg_cong2 [of _ _ _ _ Pair], rule map_cong, rule refl, rule row) simp_all
qed

theorem multi_turn_otb_extends_single_turn_witness:
  "let R = [[0, 0, 4], [0, 2, 0], [0, 0, 0]]; M = [[1, 1, 1], [1, 1, 0], [0, 0, 0]]; P = [[0, 0, 0], [0, 0, 0], [0, 0, 0]]; i = [''a'', ''a'', ''a''] in
   compute_multi_turn_optimal_token_baseline_advantage R M i P P None True 1 = compute_optimal_token_baseline_advantage R M i P P None True 1"
proof -
  have "[[1, 1, 1], [1, 1, 0], [0, 0, 0]] = map (prefix_mask 3) [3, 2, 0]" by (simp add: prefix_mask_def numeral_3_eq_3 numeral_2_eq_2)
  then show ?thesis
    using multi_turn_otb_extends_single_turn [of "[[1, 1, 1], [1, 1, 0], [0, 0, 0]]" 3 "[3, 2, 0]" "[''a'', ''a'', ''a'']"
        "[[0, 0, 4], [0, 2, 0], [0, 0, 0]]" "[[0, 0, 0], [0, 0, 0], [0, 0, 0]]" "[[0, 0, 0], [0, 0, 0], [0, 0, 0]]" None 1]
    by (simp add: shaped_def Let_def)
qed

end
