(* ===== verification/Policy_Losses.thy ===== *)
theory Policy_Losses
  imports Optimal_Baseline
begin

text \<open>
  The policy losses of \<open>verl/trainer/ppo/core_algos.py\<close> beside the vanilla one of \<open>Opd_Algos\<close>, the value and entropy losses
  and the KL penalties, with \<open>entropy_from_logits\<close> of \<open>verl/utils/torch_functional.py\<close>.  The value of a loss is modelled,
  not its gradient: \<open>detach\<close> is the identity.  Log-probabilities are at most 0.
\<close>

section \<open>Configuration\<close>

record policy_section =
  ps_clip_cov_ratio :: "real option"
  ps_clip_cov_lb :: "real option"
  ps_clip_cov_ub :: "real option"
  ps_kl_cov_ratio :: "real option"
  ps_ppo_kl_coef :: "real option"
  ps_dro_beta :: "real option"

record loss_config =
  lc_actor :: actor_config
  lc_tau_pos :: real
  lc_tau_neg :: real
  lc_policy :: "policy_section option"

definition default_to :: "'a \<Rightarrow> 'a option \<Rightarrow> 'a" where
  "default_to d x = (case x of None \<Rightarrow> d | Some y \<Rightarrow> y)"

definition loss_of :: "loss_config \<Rightarrow> string \<Rightarrow> mat option \<Rightarrow> mat \<Rightarrow> mat \<Rightarrow> fl result" where
  "loss_of c mode weights losses msk = config_agg_loss (lc_actor c) mode (apply_weights weights losses) msk"

text \<open>The log ratio of a token, clamped and not.\<close>

definition log_ratio :: "real \<Rightarrow> real \<Rightarrow> real" where
  "log_ratio old_log_prob log_prob = log_prob - old_log_prob"

definition mean_kl :: "(real \<Rightarrow> real \<Rightarrow> real) \<Rightarrow> mat \<Rightarrow> mat \<Rightarrow> mat \<Rightarrow> real" where
  "mean_kl r old_log_prob log_prob msk = masked_mean (map2d (\<lambda>ol l. - r ol l) old_log_prob log_prob) msk"

section \<open>DPPO\<close>

definition dppo_clip_c :: "actor_config \<Rightarrow> real" where
  "dppo_clip_c c = default_to 20 (ac_clip_c c)"

definition tv_valid :: "actor_config \<Rightarrow> real \<Rightarrow> real \<Rightarrow> real \<Rightarrow> bool" where
  "tv_valid c old_log_prob log_prob a =
     (if a > 0 then exp log_prob - exp old_log_prob \<le> clip_high c else exp log_prob - exp old_log_prob \<ge> - clip_low c)"

definition binary_kl :: "real \<Rightarrow> real \<Rightarrow> real" where
  "binary_kl old_log_prob log_prob =
     exp old_log_prob * (old_log_prob - log_prob)
     + (1 - exp old_log_prob) * ln ((1 - exp old_log_prob + 1 / 10 ^ 8) / (1 - exp log_prob + 1 / 10 ^ 8))"

definition kl_valid :: "actor_config \<Rightarrow> real \<Rightarrow> real \<Rightarrow> real \<Rightarrow> bool" where
  "kl_valid c old_log_prob log_prob a =
     (if a > 0 then binary_kl old_log_prob log_prob \<le> clip_high c \<or> exp log_prob \<le> exp old_log_prob
      else binary_kl old_log_prob log_prob \<le> clip_low c \<or> exp log_prob \<ge> exp old_log_prob)"

definition dppo_token_loss ::
  "(actor_config \<Rightarrow> real \<Rightarrow> real \<Rightarrow> real \<Rightarrow> bool) \<Rightarrow> actor_config \<Rightarrow> real \<Rightarrow> real \<Rightarrow> real \<Rightarrow> real" where
  "dppo_token_loss valid c old_log_prob log_prob a =
     - a * min (exp (neg_approx_kl old_log_prob log_prob)) (dppo_clip_c c) * log_prob * bool_real (valid c old_log_prob log_prob a)"

definition dppo_policy_loss ::
  "(actor_config \<Rightarrow> real \<Rightarrow> real \<Rightarrow> real \<Rightarrow> bool) \<Rightarrow> mat \<Rightarrow> mat \<Rightarrow> mat \<Rightarrow> mat \<Rightarrow> string \<Rightarrow> loss_config option \<Rightarrow> mat option
   \<Rightarrow> (fl \<times> pg_metrics) result" where
  "dppo_policy_loss valid old_log_prob log_prob advantages response_mask mode config weights =
     (case config of None \<Rightarrow> Inl AssertionError | Some lc \<Rightarrow>
        (let c = lc_actor lc in
         rbind (loss_of lc mode weights (map3d (dppo_token_loss valid c) old_log_prob log_prob advantages) response_mask) (\<lambda>loss.
         Inr (loss, \<lparr>
           pm_clipfrac = masked_mean (map3d (\<lambda>ol l a. 1 - bool_real (valid c ol l a)) old_log_prob log_prob advantages) response_mask,
           pm_ppo_kl = mean_kl neg_approx_kl old_log_prob log_prob response_mask,
           pm_clipfrac_lower = masked_mean (map3d (\<lambda>ol l a. bool_real (exp (neg_approx_kl ol l) > dppo_clip_c c) * bool_real (valid c ol l a))
               old_log_prob log_prob advantages) response_mask\<rparr>))))"

definition compute_policy_loss_dppo_tv ::
  "mat \<Rightarrow> mat \<Rightarrow> mat \<Rightarrow> mat \<Rightarrow> string \<Rightarrow> loss_config option \<Rightarrow> mat option \<Rightarrow> (fl \<times> pg_metrics) result" where
  "compute_policy_loss_dppo_tv = dppo_policy_loss tv_valid"

definition compute_policy_loss_dppo_kl ::
  "mat \<Rightarrow> mat \<Rightarrow> mat \<Rightarrow> mat \<Rightarrow> string \<Rightarrow> loss_config option \<Rightarrow> mat option \<Rightarrow> (fl \<times> pg_metrics) result" where
  "compute_policy_loss_dppo_kl = dppo_policy_loss kl_valid"

section \<open>GSPO and SAPO\<close>

text \<open>The log of the sequence-level ratio of a row.\<close>

definition seq_log_ratio :: "real list \<Rightarrow> real list \<Rightarrow> real list \<Rightarrow> real" where
  "seq_log_ratio old_log_prob log_prob msk =
     sum_list (map (\<lambda>(ol, l, m). log_ratio ol l * m) (zip old_log_prob (zip log_prob msk))) / max 1 (sum_list msk)"

definition gspo_ratio :: "real list \<Rightarrow> real list \<Rightarrow> real list \<Rightarrow> real" where
  "gspo_ratio old_log_prob log_prob msk = exp (min 10 (seq_log_ratio old_log_prob log_prob msk))"

definition gspo_loss2 :: "actor_config \<Rightarrow> real \<Rightarrow> real \<Rightarrow> real" where
  "gspo_loss2 c ratio a = - a * clamp (1 - clip_low c) (1 + clip_high c) ratio"

text \<open>Every token of a row with the row's ratio.\<close>

definition gspo_rows :: "(real \<Rightarrow> real \<Rightarrow> real) \<Rightarrow> mat \<Rightarrow> mat \<Rightarrow> mat \<Rightarrow> mat \<Rightarrow> mat" where
  "gspo_rows f old_log_prob log_prob msk advantages =
     map (\<lambda>(ol, l, m, a). map (f (gspo_ratio ol l m)) a) (zip old_log_prob (zip log_prob (zip msk advantages)))"

definition compute_policy_loss_gspo ::
  "mat \<Rightarrow> mat \<Rightarrow> mat \<Rightarrow> mat \<Rightarrow> string \<Rightarrow> loss_config option \<Rightarrow> mat option \<Rightarrow> (fl \<times> pg_metrics) result" where
  "compute_policy_loss_gspo old_log_prob log_prob advantages response_mask mode config weights =
     (case config of None \<Rightarrow> Inl AssertionError | Some lc \<Rightarrow>
        (let c = lc_actor lc; rows = (\<lambda>f. gspo_rows f old_log_prob log_prob response_mask advantages) in
         rbind (loss_of lc ''seq-mean-token-mean'' weights (rows (\<lambda>r a. max (- a * r) (gspo_loss2 c r a))) response_mask) (\<lambda>loss.
         Inr (loss, \<lparr>
           pm_clipfrac = masked_mean (rows (\<lambda>r a. bool_real (gspo_loss2 c r a > - a * r))) response_mask,
           pm_ppo_kl = mean_kl log_ratio old_log_prob log_prob response_mask,
           pm_clipfrac_lower = 0\<rparr>))))"

definition sigmoid :: "real \<Rightarrow> real" where
  "sigmoid x = 1 / (1 + exp (- x))"

definition gate_function :: "real \<Rightarrow> real \<Rightarrow> real" where
  "gate_function x tau = sigmoid (tau * (x - 1)) * (4 / tau)"

definition sapo_token_loss :: "loss_config \<Rightarrow> real \<Rightarrow> real \<Rightarrow> real \<Rightarrow> real" where
  "sapo_token_loss c old_log_prob log_prob a =
     - gate_function (exp (neg_approx_kl old_log_prob log_prob)) (if a > 0 then lc_tau_pos c else lc_tau_neg c) * a"

definition compute_policy_loss_sapo ::
  "mat \<Rightarrow> mat \<Rightarrow> mat \<Rightarrow> mat \<Rightarrow> string \<Rightarrow> loss_config option \<Rightarrow> mat option \<Rightarrow> (fl \<times> pg_metrics) result" where
  "compute_policy_loss_sapo old_log_prob log_prob advantages response_mask mode config weights =
     (case config of None \<Rightarrow> Inl AssertionError | Some c \<Rightarrow>
        rbind (loss_of c ''seq-mean-token-mean'' weights (map3d (sapo_token_loss c) old_log_prob log_prob advantages) response_mask) (\<lambda>loss.
        Inr (loss, \<lparr>pm_clipfrac = 0, pm_ppo_kl = mean_kl neg_approx_kl old_log_prob log_prob response_mask, pm_clipfrac_lower = 0\<rparr>)))"

section \<open>GPG, DRO, CISPO and REINFORCE\<close>

definition compute_policy_loss_gpg ::
  "mat \<Rightarrow> mat \<Rightarrow> mat \<Rightarrow> string \<Rightarrow> loss_config option \<Rightarrow> mat option \<Rightarrow> fl result" where
  "compute_policy_loss_gpg log_prob advantages response_mask mode config weights =
     (case config of None \<Rightarrow> Inl AssertionError | Some c \<Rightarrow>
        loss_of c mode weights (map2d (\<lambda>l a. - l * a) log_prob advantages) response_mask)"

definition dro_token_loss :: "real \<Rightarrow> real \<Rightarrow> real \<Rightarrow> real \<Rightarrow> real" where
  "dro_token_loss beta old_log_prob log_prob a =
     - (log_prob * a - 1 / 2 * beta * (log_ratio old_log_prob log_prob * log_ratio old_log_prob log_prob))"

definition compute_policy_loss_dro ::
  "mat \<Rightarrow> mat \<Rightarrow> mat \<Rightarrow> mat \<Rightarrow> string \<Rightarrow> loss_config option \<Rightarrow> mat option \<Rightarrow> (fl \<times> real) result" where
  "compute_policy_loss_dro old_log_prob log_prob advantages response_mask mode config weights =
     (case config of None \<Rightarrow> Inl AssertionError | Some c \<Rightarrow>
      case lc_policy c of None \<Rightarrow> Inl AssertionError | Some p \<Rightarrow>
      case ps_dro_beta p of None \<Rightarrow> Inl ValueError | Some beta \<Rightarrow>
        if beta \<le> 0 then Inl ValueError
        else rbind (loss_of c mode weights (map3d (dro_token_loss beta) old_log_prob log_prob advantages) response_mask) (\<lambda>loss.
          Inr (loss, mean_kl log_ratio old_log_prob log_prob response_mask)))"

definition cispo_ratio :: "actor_config \<Rightarrow> real \<Rightarrow> real \<Rightarrow> real" where
  "cispo_ratio c old_log_prob log_prob = clamp (1 - clip_low c) (1 + clip_high c) (exp (neg_approx_kl old_log_prob log_prob))"

definition compute_policy_loss_cispo ::
  "mat \<Rightarrow> mat \<Rightarrow> mat \<Rightarrow> mat \<Rightarrow> string \<Rightarrow> loss_config option \<Rightarrow> mat option \<Rightarrow> (fl \<times> pg_metrics) result" where
  "compute_policy_loss_cispo old_log_prob log_prob advantages response_mask mode config weights =
     (case config of None \<Rightarrow> Inl AssertionError | Some lc \<Rightarrow>
        (let c = lc_actor lc in
         rbind (loss_of lc mode weights (map3d (\<lambda>ol l a. - cispo_ratio c ol l * a * l) old_log_prob log_prob advantages) response_mask) (\<lambda>loss.
         Inr (loss, \<lparr>
           pm_clipfrac = masked_mean (map2d (\<lambda>ol l. bool_real (exp (neg_approx_kl ol l) \<noteq> cispo_ratio c ol l)) old_log_prob log_prob) response_mask,
           pm_ppo_kl = mean_kl neg_approx_kl old_log_prob log_prob response_mask,
           pm_clipfrac_lower = 0\<rparr>))))"

definition compute_policy_loss_reinforce ::
  "mat \<Rightarrow> mat \<Rightarrow> mat \<Rightarrow> mat \<Rightarrow> string \<Rightarrow> loss_config option \<Rightarrow> mat option \<Rightarrow> (fl \<times> real) result" where
  "compute_policy_loss_reinforce rollout_log_prob log_prob advantages response_mask mode config weights =
     (case config of None \<Rightarrow> Inl AssertionError | Some c \<Rightarrow>
        rbind (loss_of c mode weights (map2d (\<lambda>l a. - a * l) log_prob advantages) response_mask) (\<lambda>loss.
        Inr (loss, mean_kl log_ratio rollout_log_prob log_prob response_mask)))"

section \<open>Covariance-based losses\<close>

text \<open>The cells of a matrix in the order of \<open>torch.nonzero\<close>, and the cell of one.\<close>

definition cells :: "mat \<Rightarrow> (nat \<times> nat) list" where
  "cells xs = concat (map (\<lambda>i. map (Pair i) [0..<length (xs ! i)]) [0..<length xs])"

definition cell :: "mat \<Rightarrow> nat \<times> nat \<Rightarrow> real" where
  "cell xs p = xs ! fst p ! snd p"

definition of_cells :: "mat \<Rightarrow> (nat \<times> nat \<Rightarrow> real) \<Rightarrow> mat" where
  "of_cells shape f = map (\<lambda>i. map (\<lambda>j. f (i, j)) [0..<length (shape ! i)]) [0..<length shape]"

definition loss1_at :: "mat \<Rightarrow> mat \<Rightarrow> mat \<Rightarrow> nat \<times> nat \<Rightarrow> real" where
  "loss1_at old_log_prob log_prob advantages p = - cell advantages p * exp (log_ratio (cell old_log_prob p) (cell log_prob p))"

definition loss2_at :: "actor_config \<Rightarrow> mat \<Rightarrow> mat \<Rightarrow> mat \<Rightarrow> nat \<times> nat \<Rightarrow> real" where
  "loss2_at c old_log_prob log_prob advantages p =
     - cell advantages p * clamp (1 - clip_low c) (1 + clip_high c) (exp (log_ratio (cell old_log_prob p) (cell log_prob p)))"

definition cov_at :: "mat \<Rightarrow> mat \<Rightarrow> mat \<Rightarrow> nat \<times> nat \<Rightarrow> real" where
  "cov_at log_prob advantages response_mask p =
     (cell advantages p - masked_mean advantages response_mask) * (cell log_prob p - masked_mean log_prob response_mask)"

text \<open>The candidates of clip-cov: valid, not clipped by PPO, with a covariance between the bounds.\<close>

definition cov_candidates :: "actor_config \<Rightarrow> policy_section \<Rightarrow> mat \<Rightarrow> mat \<Rightarrow> mat \<Rightarrow> mat \<Rightarrow> (nat \<times> nat) list" where
  "cov_candidates c ps old_log_prob log_prob advantages response_mask =
     filter (\<lambda>p. cell response_mask p > 0
         \<and> \<not> loss2_at c old_log_prob log_prob advantages p > loss1_at old_log_prob log_prob advantages p
         \<and> cov_at log_prob advantages response_mask p < default_to 5 (ps_clip_cov_ub ps)
         \<and> cov_at log_prob advantages response_mask p > default_to 1 (ps_clip_cov_lb ps)) (cells advantages)"

definition clip_num :: "policy_section \<Rightarrow> mat \<Rightarrow> nat" where
  "clip_num ps response_mask = max (nat \<lfloor>default_to (2 / 10000) (ps_clip_cov_ratio ps) * sum2d response_mask\<rfloor>) 1"

text \<open>The chosen ones, given what \<open>torch.randperm\<close> returns.\<close>

definition cov_chosen :: "nat list \<Rightarrow> nat \<Rightarrow> (nat \<times> nat) list \<Rightarrow> (nat \<times> nat) list" where
  "cov_chosen perm n candidates = map ((!) candidates) (take (min n (length candidates)) perm)"

definition clip_cov_losses ::
  "(nat \<Rightarrow> nat list) \<Rightarrow> actor_config \<Rightarrow> policy_section \<Rightarrow> mat \<Rightarrow> mat \<Rightarrow> mat \<Rightarrow> mat \<Rightarrow> (nat \<times> nat) list \<times> mat" where
  "clip_cov_losses randperm c ps old_log_prob log_prob advantages response_mask =
     (let candidates = cov_candidates c ps old_log_prob log_prob advantages response_mask;
          chosen = cov_chosen (randperm (length candidates)) (clip_num ps response_mask) candidates in
      (chosen, of_cells advantages (\<lambda>p. max (loss1_at old_log_prob log_prob advantages p) (loss2_at c old_log_prob log_prob advantages p)
                 * (if p \<in> set chosen then 0 else 1))))"

definition compute_policy_loss_clip_cov ::
  "(nat \<Rightarrow> nat list) \<Rightarrow> mat \<Rightarrow> mat \<Rightarrow> mat \<Rightarrow> mat \<Rightarrow> string \<Rightarrow> loss_config option \<Rightarrow> mat option \<Rightarrow> (fl \<times> real \<times> real) result" where
  "compute_policy_loss_clip_cov randperm old_log_prob log_prob advantages response_mask mode config weights =
     (case config of None \<Rightarrow> Inl AssertionError | Some c \<Rightarrow>
      case lc_policy c of None \<Rightarrow> Inl AssertionError | Some ps \<Rightarrow>
        rbind (assert_r (default_to (2 / 10000) (ps_clip_cov_ratio ps) > 0) AssertionError) (\<lambda>_.
        let (chosen, losses) = clip_cov_losses randperm (lc_actor c) ps old_log_prob log_prob advantages response_mask in
        rbind (loss_of c mode weights losses response_mask) (\<lambda>loss.
        Inr (loss, masked_mean (of_cells advantages (\<lambda>p. bool_real (p \<in> set chosen))) response_mask,
             mean_kl log_ratio old_log_prob log_prob response_mask))))"

text \<open>
  KL-cov, given what \<open>torch.topk\<close> returns for the covariances of the valid tokens and a number of indices; more
  indices than tokens are an error.
\<close>

definition valid_covs :: "mat \<Rightarrow> mat \<Rightarrow> mat \<Rightarrow> (nat \<times> nat) list \<times> real list" where
  "valid_covs log_prob advantages response_mask =
     (let valid = filter (\<lambda>p. cell response_mask p > 0) (cells advantages);
          adv = map (cell advantages) valid; logp = map (cell log_prob) valid in
      (valid, map (\<lambda>(a, l). (a - mean_of adv) * (l - mean_of logp)) (zip adv logp)))"

definition kl_cov_losses ::
  "(real list \<Rightarrow> nat \<Rightarrow> nat list) \<Rightarrow> policy_section \<Rightarrow> mat \<Rightarrow> mat \<Rightarrow> mat \<Rightarrow> mat \<Rightarrow> mat result" where
  "kl_cov_losses topk ps old_log_prob log_prob advantages response_mask =
     (let ratio = default_to (2 / 10000) (ps_kl_cov_ratio ps); coef = default_to 1 (ps_ppo_kl_coef ps);
          (valid, covs) = valid_covs log_prob advantages response_mask;
          k = max 1 (nat \<lfloor>of_nat (length covs) * ratio\<rfloor>);
          large = (if covs = [] then [] else map ((!) valid) (topk covs k)) in
      if covs \<noteq> [] \<and> k > length covs then Inl RuntimeError
      else Inr (of_cells advantages (\<lambda>p. loss1_at old_log_prob log_prob advantages p
                  + (if p \<in> set large then coef * \<bar>log_ratio (cell old_log_prob p) (cell log_prob p)\<bar> else 0))))"

definition compute_policy_loss_kl_cov ::
  "(real list \<Rightarrow> nat \<Rightarrow> nat list) \<Rightarrow> mat \<Rightarrow> mat \<Rightarrow> mat \<Rightarrow> mat \<Rightarrow> string \<Rightarrow> loss_config option \<Rightarrow> mat option \<Rightarrow> (fl \<times> real) result" where
  "compute_policy_loss_kl_cov topk old_log_prob log_prob advantages response_mask mode config weights =
     (case config of None \<Rightarrow> Inl AssertionError | Some c \<Rightarrow>
      case lc_policy c of None \<Rightarrow> Inl AssertionError | Some ps \<Rightarrow>
        rbind (assert_r (default_to (2 / 10000) (ps_kl_cov_ratio ps) > 0) AssertionError) (\<lambda>_.
        rbind (kl_cov_losses topk ps old_log_prob log_prob advantages response_mask) (\<lambda>losses.
        rbind (loss_of c mode weights losses response_mask) (\<lambda>loss.
        Inr (loss, masked_mean (map2d (\<lambda>ol l. \<bar>log_ratio ol l\<bar>) old_log_prob log_prob) response_mask)))))"

section \<open>Geometric mean\<close>

definition geo_clamp :: "actor_config \<Rightarrow> real \<Rightarrow> real" where
  "geo_clamp c x = clamp (- clip_low c) (clip_high c) x"

definition geo_token :: "actor_config \<Rightarrow> real \<Rightarrow> real \<Rightarrow> real \<Rightarrow> real" where
  "geo_token c old_log_prob log_prob a =
     (let x = log_ratio old_log_prob log_prob in sgn a * min (sgn a * x) (sgn a * geo_clamp c x))"

definition masked_avg :: "real list \<Rightarrow> real list \<Rightarrow> real" where
  "masked_avg xs msk = sum_list (map (\<lambda>(x, m). x * m) (zip xs msk)) / (sum_list msk + 1 / 10 ^ 8)"

definition geo_ratio :: "actor_config \<Rightarrow> real list \<Rightarrow> real list \<Rightarrow> real list \<Rightarrow> real list \<Rightarrow> real" where
  "geo_ratio c ol l a msk = exp (masked_avg (map (\<lambda>(x, y, z). geo_token c x y z) (zip ol (zip l a))) msk)"

definition geo_weight :: "real list \<Rightarrow> real list \<Rightarrow> real" where
  "geo_weight w msk = exp (masked_avg (map (\<lambda>x. ln (x + 1 / 10 ^ 10)) w) msk)"

definition geo_seq_losses :: "actor_config \<Rightarrow> mat \<Rightarrow> mat \<Rightarrow> mat \<Rightarrow> mat \<Rightarrow> mat option \<Rightarrow> real list" where
  "geo_seq_losses c old_log_prob log_prob advantages response_mask weights =
     map (\<lambda>i. - masked_avg (advantages ! i) (response_mask ! i)
              * geo_ratio c (old_log_prob ! i) (log_prob ! i) (advantages ! i) (response_mask ! i)
              * (case weights of None \<Rightarrow> 1 | Some w \<Rightarrow> geo_weight (w ! i) (response_mask ! i))) [0..<length advantages]"

definition geo_clipped :: "actor_config \<Rightarrow> real \<Rightarrow> real \<Rightarrow> bool" where
  "geo_clipped c old_log_prob log_prob = (log_ratio old_log_prob log_prob \<noteq> geo_clamp c (log_ratio old_log_prob log_prob))"

definition compute_policy_loss_geo_mean ::
  "mat \<Rightarrow> mat \<Rightarrow> mat \<Rightarrow> mat \<Rightarrow> string \<Rightarrow> loss_config option \<Rightarrow> mat option \<Rightarrow> (fl \<times> pg_metrics) result" where
  "compute_policy_loss_geo_mean old_log_prob log_prob advantages response_mask mode config weights =
     (case config of None \<Rightarrow> Inl AssertionError | Some lc \<Rightarrow>
        (let c = lc_actor lc; losses = geo_seq_losses c old_log_prob log_prob advantages response_mask weights in
         Inr (fl_div (Fin (sum_list losses)) (of_nat (length losses)), \<lparr>
           pm_clipfrac = masked_mean (map3d (\<lambda>ol l a. bool_real (geo_clipped c ol l \<and> a > 0)) old_log_prob log_prob advantages) response_mask,
           pm_ppo_kl = mean_kl log_ratio old_log_prob log_prob response_mask,
           pm_clipfrac_lower = masked_mean (map3d (\<lambda>ol l a. bool_real (geo_clipped c ol l \<and> a < 0)) old_log_prob log_prob advantages) response_mask\<rparr>)))"

section \<open>Value, entropy, KL penalty and reweighting\<close>

definition clip_by_value :: "real \<Rightarrow> real \<Rightarrow> real \<Rightarrow> real" where
  "clip_by_value x lo hi = max (min x hi) lo"

definition vf_loss1 :: "real \<Rightarrow> real \<Rightarrow> real" where
  "vf_loss1 vpred ret = (vpred - ret) * (vpred - ret)"

definition vf_loss2 :: "real \<Rightarrow> real \<Rightarrow> real \<Rightarrow> real \<Rightarrow> real" where
  "vf_loss2 cliprange_value vpred ret val =
     (let v = clip_by_value vpred (val - cliprange_value) (val + cliprange_value) in (v - ret) * (v - ret))"

definition compute_value_loss ::
  "mat \<Rightarrow> mat \<Rightarrow> mat \<Rightarrow> mat \<Rightarrow> real \<Rightarrow> string \<Rightarrow> nat \<Rightarrow> real option \<Rightarrow> real option \<Rightarrow> real option \<Rightarrow> (fl \<times> real) result" where
  "compute_value_loss vpreds returns vals response_mask cliprange_value mode dp_size batch_num_tokens global_batch_size loss_scale_factor =
     rbind (agg_loss (map3d (\<lambda>p r v. max (vf_loss1 p r) (vf_loss2 cliprange_value p r v)) vpreds returns vals) response_mask
              mode dp_size batch_num_tokens global_batch_size loss_scale_factor) (\<lambda>loss.
     Inr (Fin (1 / 2) * loss,
          masked_mean (map3d (\<lambda>p r v. bool_real (vf_loss2 cliprange_value p r v > vf_loss1 p r)) vpreds returns vals) response_mask))"

definition softmax :: "real list \<Rightarrow> real list" where
  "softmax xs = map (\<lambda>x. exp x / sum_list (map exp xs)) xs"

definition entropy_from_logits :: "real list \<Rightarrow> real" where
  "entropy_from_logits logits = ln (sum_list (map exp logits)) - sum_list (map (\<lambda>(p, x). p * x) (zip (softmax logits) logits))"

definition compute_entropy_loss :: "real list list list \<Rightarrow> mat \<Rightarrow> string \<Rightarrow> fl result" where
  "compute_entropy_loss logits response_mask mode = agg_loss (map (map entropy_from_logits) logits) response_mask mode 1 None None None"

definition kl_penalty_forward :: "string \<Rightarrow> real \<Rightarrow> real \<Rightarrow> real result" where
  "kl_penalty_forward kind logprob ref_logprob =
     (if kind \<in> {''kl'', ''k1''} then Inr (logprob - ref_logprob)
      else if kind = ''abs'' then Inr \<bar>logprob - ref_logprob\<bar>
      else if kind \<in> {''mse'', ''k2''} then Inr (1 / 2 * ((logprob - ref_logprob) * (logprob - ref_logprob)))
      else if kind \<in> {''low_var_kl'', ''k3''} then
        (let kl = clamp (- 20) 20 (ref_logprob - logprob) in Inr (clamp (- 10) 10 (exp kl - kl - 1)))
      else Inl NotImplementedError)"

definition kl_penalty :: "string \<Rightarrow> real \<Rightarrow> real \<Rightarrow> real result" where
  "kl_penalty kind logprob ref_logprob =
     (let plus = kind \<noteq> [] \<and> last kind = CHR ''+''; base = (if plus then butlast kind else kind) in
      rbind (kl_penalty_forward base logprob ref_logprob) (\<lambda>forward.
      if \<not> plus \<or> kind \<in> {''mse'', ''k2''} then Inr forward
      else let backward = 1 / 2 * ((logprob - ref_logprob) * (logprob - ref_logprob)) in Inr (backward - backward + forward)))"

text \<open>The weights with which \<open>compute_pf_ppo_reweight_data\<close> draws the rows; the maximum of no scores is an error.\<close>

definition pf_ppo_weights :: "string \<Rightarrow> real \<Rightarrow> real list \<Rightarrow> real list result" where
  "pf_ppo_weights reweight_method weight_pow scores =
     rbind (if reweight_method = ''pow'' then Inr (map (\<lambda>s. \<bar>s\<bar> powr weight_pow) scores)
            else if reweight_method = ''max_min'' then
              (if scores = [] then Inl RuntimeError
               else Inr (map (\<lambda>s. if s = Max (set scores) \<or> s = Min (set scores) then 1 else 0) scores))
            else if reweight_method = ''max_random'' then
              (if scores = [] then Inl RuntimeError else Inr (map (\<lambda>s. if s = Max (set scores) then 4 / 10 else 1 / 10) scores))
            else Inl ValueError)
       (\<lambda>ws. Inr (map (\<lambda>w. max (w + 1 / 10 ^ 8) (1 / 10 ^ 8)) ws))"

text \<open>A batch with its tensors, its other columns and its meta information, of which lists of the batch's length are resampled.\<close>

datatype 'x meta_item = Meta_List "'x list" | Meta_Other 'x

record 'x pf_data =
  pf_batch :: "(string \<times> mat) list"
  pf_non_tensor :: "(string \<times> 'x list) list"
  pf_meta :: "(string \<times> 'x meta_item) list"

definition pick_rows :: "nat list \<Rightarrow> 'a list \<Rightarrow> 'a list" where
  "pick_rows idx xs = map ((!) xs) idx"

definition compute_pf_ppo_reweight_data ::
  "(real list \<Rightarrow> nat \<Rightarrow> nat list) \<Rightarrow> string \<Rightarrow> real \<Rightarrow> 'x pf_data \<Rightarrow> 'x pf_data result" where
  "compute_pf_ppo_reweight_data multinomial reweight_method weight_pow d =
     (case map_of (pf_batch d) ''token_level_scores'' of
        None \<Rightarrow> Inl KeyError
      | Some scores \<Rightarrow>
          rbind (pf_ppo_weights reweight_method weight_pow (map sum_list scores)) (\<lambda>weights.
          let n = length scores; idx = multinomial weights n in
          Inr (d\<lparr>pf_batch := map (\<lambda>(k, x). (k, pick_rows idx x)) (pf_batch d),
                 pf_non_tensor := map (\<lambda>(k, x). (k, pick_rows idx x)) (pf_non_tensor d),
                 pf_meta := map (\<lambda>(k, v). (k, case v of
                     Meta_List xs \<Rightarrow> if length xs = n then Meta_List (pick_rows idx xs) else v
                   | Meta_Other _ \<Rightarrow> v)) (pf_meta d)\<rparr>)))"

section \<open>KL penalties\<close>

lemma exp_minus_ge: "exp x - x - 1 \<ge> (0 :: real)"
  using exp_ge_add_one_self [of x] by linarith

lemma exp_minus_pos: "x \<noteq> 0 \<Longrightarrow> exp x - x - 1 > (0 :: real)"
  using exp_minus_greater [of "- x"] by auto

text \<open>
  Every penalty is one of five values or an unsupported name: \<open>k1\<close> is the difference itself, \<open>abs\<close>, \<open>k2\<close> and \<open>k3\<close> are
  distances (never negative, 0 exactly for equal log-probabilities), \<open>k3\<close> is at most 10, and a trailing \<open>+\<close>, which only
  changes the gradient, does not change the value.
\<close>

lemma k3_range:
  "clamp (- 10) 10 (exp k - k - 1) \<ge> 0 \<and> clamp (- 10) 10 (exp k - k - 1) \<le> 10 \<and> (clamp (- 10) 10 (exp k - k - 1) = 0 \<longleftrightarrow> k = 0)"
  using exp_minus_ge [of k] exp_minus_pos [of k] by (cases "k = 0") (auto simp: clamp_def min_def max_def)

lemma clamp_zero_iff: "clamp (- 20) 20 x = 0 \<longleftrightarrow> x = 0"
  by (auto simp: clamp_def min_def max_def)

lemma kl_penalty_no_plus: "last kind \<noteq> CHR ''+'' \<Longrightarrow> kl_penalty kind x y = kl_penalty_forward kind x y"
  by (cases "kl_penalty_forward kind x y") (simp_all add: kl_penalty_def Let_def)

lemma kl_penalty_distance:
  assumes "kind \<in> {''abs'', ''mse'', ''k2'', ''low_var_kl'', ''k3''}"
  shows "case kl_penalty kind x y of Inl e \<Rightarrow> False
     | Inr v \<Rightarrow> v \<ge> 0 \<and> (v = 0 \<longleftrightarrow> x = y) \<and> (kind \<in> {''low_var_kl'', ''k3''} \<longrightarrow> v \<le> 10)"
proof -
  have f: "kl_penalty kind x y = kl_penalty_forward kind x y" using assms by (intro kl_penalty_no_plus) auto
  consider "kind = ''abs''" | "kind = ''mse'' \<or> kind = ''k2''" | "kind = ''low_var_kl'' \<or> kind = ''k3''" using assms by blast
  then show ?thesis
  proof cases
    case 3
    then have "kl_penalty_forward kind x y = Inr (clamp (- 10) 10 (exp (clamp (- 20) 20 (y - x)) - clamp (- 20) 20 (y - x) - 1))"
      by (auto simp: kl_penalty_forward_def Let_def)
    then show ?thesis unfolding f using k3_range [of "clamp (- 20) 20 (y - x)"] by (auto simp: clamp_zero_iff)
  next
    case 1
    then show ?thesis unfolding f by (simp add: kl_penalty_forward_def)
  next
    case 2
    then show ?thesis unfolding f by (auto simp: kl_penalty_forward_def)
  qed
qed

lemma kl_penalty_plus: "kl_penalty (kind @ ''+'') x y = kl_penalty_forward kind x y"
proof -
  have "kind @ ''+'' \<noteq> ''mse''" "kind @ ''+'' \<noteq> ''k2''" by (auto dest: arg_cong [of _ _ last])
  then show ?thesis by (cases "kl_penalty_forward kind x y") (simp_all add: kl_penalty_def Let_def)
qed

lemma kl_penalty_unsupported:
  "kl_penalty_forward kind x y = Inl e \<longleftrightarrow>
     e = NotImplementedError \<and> kind \<notin> {''kl'', ''k1'', ''abs'', ''mse'', ''k2'', ''low_var_kl'', ''k3''}"
  by (auto simp: kl_penalty_forward_def Let_def)

section \<open>Value loss\<close>

text \<open>The clipped value loss is never below the plain one, and is it while the prediction stays in the clip range.\<close>

lemma value_loss_pessimistic:
  "vf_loss1 p r \<le> max (vf_loss1 p r) (vf_loss2 c p r v)"
  "\<bar>p - v\<bar> \<le> c \<Longrightarrow> vf_loss2 c p r v = vf_loss1 p r"
  by (auto simp: vf_loss1_def vf_loss2_def clip_by_value_def Let_def)

section \<open>Geometric-mean trust region\<close>

lemma geo_token_pos: "\<lbrakk>a > 0; clip_high c \<ge> 0; clip_low c \<ge> 0\<rbrakk> \<Longrightarrow> geo_token c ol l a = min (log_ratio ol l) (clip_high c)"
  by (auto simp: geo_token_def geo_clamp_def clamp_def Let_def)

lemma geo_token_neg: "\<lbrakk>a < 0; clip_high c \<ge> 0; clip_low c \<ge> 0\<rbrakk> \<Longrightarrow> geo_token c ol l a = max (log_ratio ol l) (- clip_low c)"
  by (auto simp: geo_token_def geo_clamp_def clamp_def Let_def)

lemma masked_avg_mono:
  assumes "length xs = length msk" "length ys = length msk" "\<forall>m \<in> set msk. m \<ge> 0"
    and "\<And>i. i < length msk \<Longrightarrow> msk ! i \<noteq> 0 \<Longrightarrow> xs ! i \<le> ys ! i"
  shows "masked_avg xs msk \<le> masked_avg ys msk"
proof -
  have "sum_list (map (\<lambda>(x, m). x * m) (zip xs msk)) \<le> sum_list (map (\<lambda>(x, m). x * m) (zip ys msk))"
  proof -
    have "xs ! i * msk ! i \<le> ys ! i * msk ! i" if "i < length msk" for i
      using assms(3,4) that by (cases "msk ! i = 0") (auto intro: mult_right_mono)
    then show ?thesis unfolding sum_list_sum_nth using assms(1,2) by (auto intro!: sum_mono)
  qed
  moreover have "sum_list msk \<ge> 0" using assms(3) by (intro sum_list_nonneg) simp
  ultimately show ?thesis unfolding masked_avg_def by (intro divide_right_mono) auto
qed

lemma masked_avg_const_le:
  assumes "\<forall>m \<in> set msk. m \<ge> 0" "k \<ge> 0"
  shows "masked_avg (replicate (length msk) k) msk \<le> k" "masked_avg (replicate (length msk) (- k)) msk \<ge> - k"
proof -
  have s: "sum_list (map (\<lambda>(x, m). x * m) (zip (replicate (length msk) x) msk)) = x * sum_list msk" for x
    by (induction msk) (simp_all add: distrib_left)
  have "sum_list msk \<ge> 0" using assms(1) by (intro sum_list_nonneg) simp
  then have "k * sum_list msk \<le> k * (sum_list msk + 1 / 10 ^ 8)" and "sum_list msk + 1 / 10 ^ 8 > 0" using assms(2)
    by (auto intro: mult_left_mono)
  then show "masked_avg (replicate (length msk) k) msk \<le> k" "masked_avg (replicate (length msk) (- k)) msk \<ge> - k"
    by (simp_all add: masked_avg_def s pos_divide_le_eq pos_le_divide_eq)
qed

text \<open>
  GMPO keeps a response in its trust region: for a response whose valid tokens have a positive advantage the ratio used is
  at most \<open>exp clip_high\<close> and at most the geometric mean of the token ratios, for a negative advantage it is at least
  \<open>exp (- clip_low)\<close> and at least that mean, so clipping only ever lowers the objective.  A token counts as clipped also
  where the clip has no effect on it: with a positive advantage and a log ratio below \<open>- clip_low\<close>.
\<close>

lemma geo_mean_trust_region:
  assumes len: "length ol = length msk" "length l = length msk" "length a = length msk"
    and m: "\<forall>x \<in> set msk. x \<ge> 0" and c: "clip_high c \<ge> 0" "clip_low c \<ge> 0"
  shows "((\<forall>i < length msk. msk ! i \<noteq> 0 \<longrightarrow> a ! i > 0) \<longrightarrow>
            geo_ratio c ol l a msk \<le> exp (clip_high c) \<and> geo_ratio c ol l a msk \<le> exp (masked_avg (map2 log_ratio ol l) msk))
       \<and> ((\<forall>i < length msk. msk ! i \<noteq> 0 \<longrightarrow> a ! i < 0) \<longrightarrow>
            geo_ratio c ol l a msk \<ge> exp (- clip_low c) \<and> geo_ratio c ol l a msk \<ge> exp (masked_avg (map2 log_ratio ol l) msk))
       \<and> (\<forall>x y z. z > 0 \<and> log_ratio x y < - clip_low c \<longrightarrow> geo_token c x y z = log_ratio x y \<and> geo_clipped c x y)"
proof (intro conjI impI allI)
  let ?t = "map (\<lambda>(x, y, z). geo_token c x y z) (zip ol (zip l a))"
  have lt: "length ?t = length msk" "length (map2 log_ratio ol l) = length msk" using len by simp_all
  have nth: "?t ! i = geo_token c (ol ! i) (l ! i) (a ! i)" "map2 log_ratio ol l ! i = log_ratio (ol ! i) (l ! i)"
    if "i < length msk" for i using that len by simp_all
  note mono = masked_avg_mono [OF _ _ m]
  {
    assume pos: "\<forall>i < length msk. msk ! i \<noteq> 0 \<longrightarrow> a ! i > 0"
    then have "masked_avg ?t msk \<le> masked_avg (replicate (length msk) (clip_high c)) msk"
      using c by (intro mono) (simp_all only: lt length_replicate nth nth_replicate, simp add: geo_token_pos)
    also have "\<dots> \<le> clip_high c" by (rule masked_avg_const_le [OF m c(1)])
    finally show "geo_ratio c ol l a msk \<le> exp (clip_high c)" by (simp add: geo_ratio_def)
    have "masked_avg ?t msk \<le> masked_avg (map2 log_ratio ol l) msk"
      using pos c by (intro mono) (simp_all only: lt nth, simp add: geo_token_pos)
    then show "geo_ratio c ol l a msk \<le> exp (masked_avg (map2 log_ratio ol l) msk)" by (simp add: geo_ratio_def)
  }
  {
    assume neg: "\<forall>i < length msk. msk ! i \<noteq> 0 \<longrightarrow> a ! i < 0"
    have "- clip_low c \<le> masked_avg (replicate (length msk) (- clip_low c)) msk" by (rule masked_avg_const_le [OF m c(2)])
    also have "\<dots> \<le> masked_avg ?t msk"
      using neg c by (intro mono) (simp_all only: lt length_replicate nth nth_replicate, simp add: geo_token_neg)
    finally show "geo_ratio c ol l a msk \<ge> exp (- clip_low c)" by (simp add: geo_ratio_def)
    have "masked_avg (map2 log_ratio ol l) msk \<le> masked_avg ?t msk"
      using neg c by (intro mono) (simp_all only: lt nth, simp add: geo_token_neg)
    then show "geo_ratio c ol l a msk \<ge> exp (masked_avg (map2 log_ratio ol l) msk)" by (simp add: geo_ratio_def)
  }
  fix x y z :: real assume "z > 0 \<and> log_ratio x y < - clip_low c"
  then show "geo_token c x y z = log_ratio x y" "geo_clipped c x y"
    using c by (auto simp: geo_token_pos geo_clipped_def geo_clamp_def clamp_def)
qed

section \<open>Clip-cov\<close>

lemma cell_of_cells: "p \<in> set (cells shape) \<Longrightarrow> cell (of_cells shape f) p = f p"
  by (auto simp: cells_def cell_def of_cells_def)

lemma distinct_cells: "distinct (cells xs)"
proof -
  have "distinct (concat (map (\<lambda>i. map (Pair i) [0..<f i]) is))" if "distinct is" for "is" :: "nat list" and f
    using that by (induction "is") (auto simp: distinct_map inj_on_def)
  then show ?thesis by (simp add: cells_def)
qed

text \<open>
  Clip-cov removes exactly \<open>min clip_num n\<close> of the \<open>n\<close> candidate tokens, whatever permutation is drawn: distinct valid tokens
  that PPO did not clip and whose covariance lies strictly between the bounds.  Their loss is 0, every other token keeps
  the PPO loss.
\<close>

lemma clip_cov_removes_candidates:
  assumes "\<And>n. distinct (randperm n) \<and> set (randperm n) = {..<n}"
  shows "let n = length (cov_candidates c ps ol l a msk) in case clip_cov_losses randperm c ps ol l a msk of (chosen, losses) \<Rightarrow>
      distinct chosen \<and> length chosen = min (clip_num ps msk) n \<and> set chosen \<subseteq> set (cells a)
      \<and> (\<forall>p \<in> set chosen. cell msk p > 0 \<and> loss2_at c ol l a p \<le> loss1_at ol l a p
            \<and> cov_at l a msk p < default_to 5 (ps_clip_cov_ub ps) \<and> cov_at l a msk p > default_to 1 (ps_clip_cov_lb ps))
      \<and> (\<forall>p \<in> set (cells a). cell losses p = (if p \<in> set chosen then 0 else max (loss1_at ol l a p) (loss2_at c ol l a p)))"
proof -
  let ?cs = "cov_candidates c ps ol l a msk"
  define n where "n = length ?cs"
  let ?ch = "cov_chosen (randperm n) (clip_num ps msk) ?cs"
  let ?ix = "take (min (clip_num ps msk) n) (randperm n)"
  have perm: "distinct (randperm n)" "set (randperm n) = {..<n}" using assms(1) by auto
  then have lp: "length (randperm n) = n" using distinct_card [of "randperm n"] by simp
  have dc: "distinct ?cs" unfolding cov_candidates_def by (intro distinct_filter distinct_cells)
  have ix: "set ?ix \<subseteq> {..<n}" using perm(2) set_take_subset by fastforce
  have ch: "?ch = map ((!) ?cs) ?ix" by (simp add: cov_chosen_def n_def)
  have "inj_on ((!) ?cs) (set ?ix)"
    by (rule inj_on_subset [OF inj_on_nth [OF dc, of "{..<n}"] ix]) (simp add: n_def)
  then have dch: "distinct ?ch" unfolding ch distinct_map using perm(1) by simp
  have lch: "length ?ch = min (clip_num ps msk) n" using lp by (simp add: ch)
  have sub: "set ?ch \<subseteq> set ?cs"
  proof -
    have "?cs ! i \<in> set ?cs" if "i \<in> set ?ix" for i
    proof (rule nth_mem)
      show "i < length ?cs" using subsetD [OF ix that] by (simp add: n_def)
    qed
    then show ?thesis unfolding ch set_map by (rule image_subsetI)
  qed
  have "set ?cs \<subseteq> set (cells a)" unfolding cov_candidates_def by (rule filter_is_subset)
  then have sc: "set ?ch \<subseteq> set (cells a)" using sub by blast
  have each: "\<forall>p \<in> set ?ch. cell msk p > 0 \<and> loss2_at c ol l a p \<le> loss1_at ol l a p
            \<and> cov_at l a msk p < default_to 5 (ps_clip_cov_ub ps) \<and> cov_at l a msk p > default_to 1 (ps_clip_cov_lb ps)"
  proof
    fix p assume "p \<in> set ?ch"
    then have "p \<in> set ?cs" using sub by blast
    then show "cell msk p > 0 \<and> loss2_at c ol l a p \<le> loss1_at ol l a p
            \<and> cov_at l a msk p < default_to 5 (ps_clip_cov_ub ps) \<and> cov_at l a msk p > default_to 1 (ps_clip_cov_lb ps)"
      by (simp add: cov_candidates_def linorder_not_less)
  qed
  have run: "clip_cov_losses randperm c ps ol l a msk = (?ch, of_cells a (\<lambda>p. max (loss1_at ol l a p) (loss2_at c ol l a p)
      * (if p \<in> set ?ch then 0 else 1)))"
    by (simp add: clip_cov_losses_def Let_def n_def)
  show ?thesis unfolding Let_def n_def [symmetric] run prod.case
    by (intro conjI dch lch sc each) (simp add: cell_of_cells)
qed

text \<open>The step of a policy that has not changed.\<close>

lemma gspo_on_policy:
  assumes "shaped n w ol" "shaped n w a" "shaped n w msk"
  shows "gspo_rows f ol ol msk a = map (map (f 1)) a"
proof -
  have "seq_log_ratio x x m = 0" for x m :: "real list"
  proof -
    have "sum_list (map (\<lambda>(ol, l, m). log_ratio ol l * m) (zip x (zip x m))) = 0"
      by (induction x m rule: list_induct2') (simp_all add: log_ratio_def)
    then show ?thesis by (simp add: seq_log_ratio_def)
  qed
  then have r: "gspo_ratio x x m = 1" for x m :: "real list" by (simp add: gspo_ratio_def)
  show ?thesis
    by (rule nth_equalityI) (use assms in \<open>simp_all add: gspo_rows_def r shaped_def\<close>)
qed

lemma map3d_on_policy:
  assumes "shaped n w ol" "shaped n w a" "\<And>x z. f x x z = g z"
  shows "map3d f ol ol a = map (map g) a"
  by (intro nth_equalityI) (use assms in \<open>simp_all add: map3d_def shaped_def\<close>)

text \<open>
  On the policy that generated the data nothing is clipped: the vanilla and the GSPO loss (aggregated alike) are both the
  aggregation of minus the advantage, for every clip range and dual clip.
\<close>

lemma on_policy_losses_agree:
  assumes s: "shaped n w ol" "shaped n w a" "shaped n w msk"
    and c: "clip_low (lc_actor c) \<ge> 0" "clip_high (lc_actor c) \<ge> 0" "clip_c (lc_actor c) > 1"
  shows "rbind (compute_policy_loss_gspo ol ol a msk mode (Some c) wts) (\<lambda>r. Inr (fst r))
       = loss_of c ''seq-mean-token-mean'' wts (map (map uminus) a) msk"
    and "rbind (compute_policy_loss_vanilla ol ol a msk ''seq-mean-token-mean'' (lc_actor c) wts) (\<lambda>r. Inr (fst r))
       = loss_of c ''seq-mean-token-mean'' wts (map (map uminus) a) msk"
proof -
  have one: "clamp (1 - clip_low (lc_actor c)) (1 + clip_high (lc_actor c)) 1 = 1" using c by (simp add: clamp_def)
  have g: "(\<lambda>r x. max (- x * r) (gspo_loss2 (lc_actor c) r x)) 1 = uminus" by (rule ext) (simp add: gspo_loss2_def one)
  have "gspo_rows (\<lambda>r x. max (- x * r) (gspo_loss2 (lc_actor c) r x)) ol ol msk a = map (map uminus) a"
    using gspo_on_policy [OF s, of "\<lambda>r x. max (- x * r) (gspo_loss2 (lc_actor c) r x)"] unfolding g .
  then show "rbind (compute_policy_loss_gspo ol ol a msk mode (Some c) wts) (\<lambda>r. Inr (fst r))
       = loss_of c ''seq-mean-token-mean'' wts (map (map uminus) a) msk"
    by (cases "loss_of c ''seq-mean-token-mean'' wts (map (map uminus) a) msk") (simp_all add: compute_policy_loss_gspo_def Let_def)
  have "dual_clip_loss (lc_actor c) x x z = - z" for x z
  proof -
    have k: "neg_approx_kl x x = 0" by (simp add: neg_approx_kl_def clamp_def)
    have "z < 0 \<Longrightarrow> - z \<le> - z * clip_c (lc_actor c)" using c(3) by (simp add: mult_less_cancel_left1 le_less)
    then show ?thesis by (auto simp: dual_clip_loss_def clip_pg_loss_def pg_loss1_def pg_loss2_def k one)
  qed
  then have "map3d (dual_clip_loss (lc_actor c)) ol ol a = map (map uminus) a" by (rule map3d_on_policy [OF s(1,2)])
  then show "rbind (compute_policy_loss_vanilla ol ol a msk ''seq-mean-token-mean'' (lc_actor c) wts) (\<lambda>r. Inr (fst r))
       = loss_of c ''seq-mean-token-mean'' wts (map (map uminus) a) msk"
    using c(3) by (cases "loss_of c ''seq-mean-token-mean'' wts (map (map uminus) a) msk")
      (simp_all add: compute_policy_loss_vanilla_def loss_of_def Let_def)
qed

lemma pick_rows_nth: "pick_rows idx x = map (\<lambda>i. x ! (idx ! i)) [0..<length idx]"
  unfolding pick_rows_def by (rule nth_equalityI) simp_all

lemma map_of_map_val: "map_of (map (\<lambda>(k, x). (k, f x)) xs) k = map_option f (map_of xs k)"
  by (induction xs) auto

text \<open>Resampling keeps rows together: row \<open>i\<close> of every column of the result is one and the same row of the batch.\<close>

lemma pf_rows_together:
  assumes "compute_pf_ppo_reweight_data multinomial reweight_method weight_pow d = Inr d'"
    and "\<And>ws k. length (multinomial ws k) = k \<and> set (multinomial ws k) \<subseteq> {..<k}"
  shows "\<exists>scores idx. map_of (pf_batch d) ''token_level_scores'' = Some scores \<and> length idx = length scores
      \<and> (\<forall>i < length idx. idx ! i < length scores)
      \<and> map_of (pf_batch d') k = map_option (\<lambda>x. map (\<lambda>i. x ! (idx ! i)) [0..<length idx]) (map_of (pf_batch d) k)
      \<and> map_of (pf_non_tensor d') k = map_option (\<lambda>x. map (\<lambda>i. x ! (idx ! i)) [0..<length idx]) (map_of (pf_non_tensor d) k)"
proof -
  obtain scores ws where run: "map_of (pf_batch d) ''token_level_scores'' = Some scores"
    "pf_ppo_weights reweight_method weight_pow (map sum_list scores) = Inr ws"
    using assms(1) by (auto simp: compute_pf_ppo_reweight_data_def rbind_eq_Inr_iff split: option.splits)
  define idx where "idx = multinomial ws (length scores)"
  have d': "pf_batch d' = map (\<lambda>(k, x). (k, pick_rows idx x)) (pf_batch d)"
    "pf_non_tensor d' = map (\<lambda>(k, x). (k, pick_rows idx x)) (pf_non_tensor d)"
    using assms(1) run by (auto simp: compute_pf_ppo_reweight_data_def Let_def idx_def)
  have len: "length idx = length scores" and sub: "set idx \<subseteq> {..<length scores}"
    using assms(2) [of ws "length scores"] by (simp_all add: idx_def)
  have "idx ! i < length scores" if "i < length idx" for i using subsetD [OF sub nth_mem [OF that]] by simp
  then show ?thesis
    using run(1) len by (intro exI [of _ scores] exI [of _ idx]) (simp add: d' map_of_map_val pick_rows_nth [abs_def])
qed

end
