(* ===== verification/Rollout_Corr.thy ===== *)
theory Rollout_Corr
  imports Policy_Losses
begin

text \<open>
  \<open>verl/trainer/ppo/rollout_corr_helper.py\<close>: importance weights and rejection sampling for the mismatch between the
  rollout and the training policy, the specifications of their thresholds, the off-policy metrics, and the policy loss
  \<open>bypass_mode\<close> of \<open>core_algos.py\<close> that uses them.  Masks hold 0 and 1.  Texts have the characters 0 to 255; the
  numerals \<open>inf\<close> and \<open>nan\<close> of \<open>float\<close> are not modelled.
\<close>

section \<open>Texts\<close>

fun split_on :: "char \<Rightarrow> string \<Rightarrow> string list" where
  "split_on d [] = [[]]"
| "split_on d (c # cs) = (if c = d then [] # split_on d cs
     else (case split_on d cs of [] \<Rightarrow> [[c]] | x # xs \<Rightarrow> (c # x) # xs))"

text \<open>\<open>split(d, 1)\<close> of a text that has a \<open>d\<close>.\<close>

definition split_once :: "char \<Rightarrow> string \<Rightarrow> string \<times> string" where
  "split_once d s = (takeWhile (\<lambda>c. c \<noteq> d) s, drop 1 (dropWhile (\<lambda>c. c \<noteq> d) s))"

text \<open>\<open>float(s)\<close>: digits, which may be grouped by single underscores, with a sign, a point and an exponent.\<close>

definition exponent :: "string \<Rightarrow> int option" where
  "exponent s = (case s of [] \<Rightarrow> Some 0
     | c # cs \<Rightarrow> if c \<in> {CHR ''e'', CHR ''E''} then
         (let (neg, t) = take_sign cs; (ds, r) = digits False t in
          if ds = [] \<or> r \<noteq> [] then None else Some (if neg then - int (digits_value ds) else int (digits_value ds)))
       else None)"

definition py_float :: "string \<Rightarrow> real option" where
  "py_float s =
     (let (neg, t) = take_sign (strip_spaces s); (ip, r) = digits False t;
          (fp, r') = (case r of c # cs \<Rightarrow> if c = CHR ''.'' then digits False cs else ([], r) | [] \<Rightarrow> ([], r)) in
      if ip = [] \<and> fp = [] then None
      else case exponent r' of None \<Rightarrow> None
        | Some e \<Rightarrow> Some ((if neg then - 1 else 1) * (of_nat (digits_value (ip @ fp)) / 10 ^ length fp)
                       * (if e \<ge> 0 then 10 ^ nat e else 1 / 10 ^ nat (- e))))"

section \<open>Thresholds\<close>

datatype threshold = T_bool bool | T_num real | T_str string | T_other

definition parse_rollout_is_threshold :: "threshold \<Rightarrow> (real \<times> real option) result" where
  "parse_rollout_is_threshold spec =
     rbind (case spec of
              T_bool _ \<Rightarrow> Inl TypeError
            | T_num x \<Rightarrow> Inr (x, None)
            | T_str s \<Rightarrow>
                (let t = strip_spaces s in
                 if t = [] then Inl ValueError
                 else if CHR ''_'' \<in> set t then
                   (let (lo, up) = split_once (CHR ''_'') t in
                    case (py_float lo, py_float up) of (Some l, Some u) \<Rightarrow> Inr (u, Some l) | _ \<Rightarrow> Inl ValueError)
                 else (case py_float t of None \<Rightarrow> Inl ValueError | Some u \<Rightarrow> Inr (u, None)))
            | T_other \<Rightarrow> Inl TypeError)
       (\<lambda>(upper, lower).
          if upper \<le> 0 then Inl ValueError
          else case lower of None \<Rightarrow> Inr (upper, None)
            | Some l \<Rightarrow> if l \<le> 0 then Inl ValueError else if l > upper then Inl ValueError else Inr (upper, lower))"

text \<open>
  One entry of a rejection specification: a text, or a number, whose text has no underscore and reads back as itself.
\<close>

definition entry_float :: "threshold \<Rightarrow> real result" where
  "entry_float e = (case e of T_num x \<Rightarrow> Inr x | T_str s \<Rightarrow> (case py_float s of None \<Rightarrow> Inl ValueError | Some x \<Rightarrow> Inr x) | _ \<Rightarrow> Inl TypeError)"

definition entry_pair :: "threshold \<Rightarrow> bool" where
  "entry_pair e = (case e of T_str s \<Rightarrow> CHR ''_'' \<in> set s | _ \<Rightarrow> False)"

definition reciprocal_bounds :: "threshold \<Rightarrow> (real \<times> real) result" where
  "reciprocal_bounds e = rbind (entry_float e) (\<lambda>u. if u = 0 then Inl ZeroDivisionError else Inr (1 / u, u))"

definition is_k1 :: "string \<Rightarrow> bool" where
  "is_k1 opt = (drop (length opt - 2) opt = ''k1'')"

definition rs_entry :: "string \<Rightarrow> threshold \<Rightarrow> (string \<times> real option \<times> real) result" where
  "rs_entry opt spec =
     (if is_k1 opt then
        rbind (case spec of
                 T_str s \<Rightarrow>
                   (if CHR ''_'' \<in> set s then
                     (let (lo, up) = split_once (CHR ''_'') s in
                      case (py_float lo, py_float up) of (Some l, Some u) \<Rightarrow> Inr (l, u) | _ \<Rightarrow> Inl ValueError)
                    else reciprocal_bounds spec)
               | _ \<Rightarrow> reciprocal_bounds spec)
          (\<lambda>(lower, upper).
             if lower \<le> 0 \<or> upper \<le> 0 then Inl ValueError
             else if lower > upper then Inl ValueError else Inr (opt, Some lower, upper))
      else if entry_pair spec then Inl ValueError
      else rbind (entry_float spec) (\<lambda>upper. if upper \<le> 0 then Inl ValueError else Inr (opt, None, upper)))"

definition raw_specs :: "threshold option \<Rightarrow> threshold list result" where
  "raw_specs spec = (case spec of
       None \<Rightarrow> Inl ValueError
     | Some (T_bool b) \<Rightarrow> Inr [T_str (if b then ''True'' else ''False'')]
     | Some (T_num x) \<Rightarrow> Inr [T_num x]
     | Some (T_str s) \<Rightarrow> Inr (map T_str (filter (\<lambda>p. p \<noteq> []) (map strip_spaces (split_on (CHR '','') s))))
     | Some T_other \<Rightarrow> Inl TypeError)"

definition parse_rollout_rs_thresholds :: "string list \<Rightarrow> threshold option \<Rightarrow> (string \<times> real option \<times> real) list result" where
  "parse_rollout_rs_thresholds options spec =
     rbind (raw_specs spec) (\<lambda>raw.
     if raw = [] then Inl ValueError
     else if length raw \<noteq> 1 \<and> length raw \<noteq> length options then Inl ValueError
     else map_r (\<lambda>(opt, s). rs_entry opt s) (zip options (if length raw = 1 \<and> length options > 1 then replicate (length options) (hd raw) else raw)))"

section \<open>Rejection sampling\<close>

definition SUPPORTED_ROLLOUT_RS_OPTIONS :: "string list" where
  "SUPPORTED_ROLLOUT_RS_OPTIONS =
     [''token_k1'', ''token_k2'', ''token_k3'', ''seq_sum_k1'', ''seq_sum_k2'', ''seq_sum_k3'',
      ''seq_mean_k1'', ''seq_mean_k2'', ''seq_mean_k3'', ''seq_max_k2'', ''seq_max_k3'']"

text \<open>The options without the repeated ones, in the order of their first occurrence.\<close>

fun normalize_options :: "string list \<Rightarrow> string list \<Rightarrow> string list result" where
  "normalize_options seen [] = Inr []"
| "normalize_options seen (opt # opts) =
     (if opt \<notin> set SUPPORTED_ROLLOUT_RS_OPTIONS then Inl ValueError
      else if opt \<in> set seen then normalize_options seen opts
      else rbind (normalize_options (seen @ [opt]) opts) (\<lambda>rest. Inr (opt # rest)))"

definition option_modes :: "string \<Rightarrow> string list" where
  "option_modes rs = filter (\<lambda>p. p \<noteq> []) (map strip_spaces (split_on (CHR '','') rs))"

definition safe :: "real \<Rightarrow> real" where
  "safe x = clamp (- 20) 20 x"

definition token_stat :: "string \<Rightarrow> real \<Rightarrow> real" where
  "token_stat opt lratio =
     (let x = safe lratio; k = last opt in
      if k = CHR ''1'' then - x else if k = CHR ''2'' then 1 / 2 * (x * x) else exp x - 1 - x)"

definition has_prefix :: "string \<Rightarrow> string \<Rightarrow> bool" where
  "has_prefix p s = (take (length p) s = p)"

definition sequence_stat :: "string \<Rightarrow> real list \<Rightarrow> real list \<Rightarrow> real" where
  "sequence_stat opt vals msk =
     (if has_prefix ''seq_sum'' opt then masked_sum1 vals msk
      else if has_prefix ''seq_mean'' opt then masked_sum1 vals msk / (sum_list msk + 1 / 10 ^ 8)
      else (let valid = map fst (filter (\<lambda>(_, m). m \<noteq> 0) (zip vals msk)) in if valid = [] then 0 else Max (set valid)))"

definition in_bounds :: "real option \<Rightarrow> real \<Rightarrow> real \<Rightarrow> bool" where
  "in_bounds lower upper s = (case lower of Some l \<Rightarrow> ln l \<le> s \<and> s \<le> ln upper | None \<Rightarrow> s \<le> upper)"

text \<open>Which tokens of a row one option keeps.\<close>

definition keep_row :: "string \<times> real option \<times> real \<Rightarrow> real list \<Rightarrow> real list \<Rightarrow> bool list" where
  "keep_row t lratio msk = (case t of (opt, lower, upper) \<Rightarrow>
     (let stats = map (token_stat opt) lratio in
      if has_prefix ''token'' opt then map (in_bounds lower upper) stats
      else replicate (length lratio) (in_bounds lower upper (sequence_stat opt stats msk))))"

definition final_mask :: "(string \<times> real option \<times> real) list \<Rightarrow> mat \<Rightarrow> mat \<Rightarrow> mat" where
  "final_mask ts lratio msk =
     fold (\<lambda>t acc. map2d (*) acc (map2 (\<lambda>r m. map bool_real (keep_row t r m)) lratio msk)) ts (map (map (\<lambda>_. 1)) msk)"

text \<open>The diagnostic metrics: names and values.\<close>

type_synonym metrics = "(string \<times> fl) list"

definition row_means :: "mat \<Rightarrow> mat \<Rightarrow> real list" where
  "row_means xs msk = map2 (\<lambda>r m. masked_sum1 r m / (sum_list m + 1 / 10 ^ 8)) xs msk"

definition valid_values :: "mat \<Rightarrow> mat \<Rightarrow> real list" where
  "valid_values xs msk = map fst (filter (\<lambda>(_, m). m \<noteq> 0) (zip (concat xs) (concat msk)))"

definition fraction :: "(real \<Rightarrow> bool) \<Rightarrow> real list \<Rightarrow> real" where
  "fraction p xs = mean_of (map (\<lambda>x. bool_real (p x)) xs)"

definition masked_fraction :: "(real \<Rightarrow> bool) \<Rightarrow> mat \<Rightarrow> mat \<Rightarrow> real" where
  "masked_fraction p xs msk = masked_mean (map (map (\<lambda>x. bool_real (p x))) xs) msk"

definition clamped_std :: "real \<Rightarrow> real \<Rightarrow> mat \<Rightarrow> mat \<Rightarrow> real" where
  "clamped_std lo hi xs msk =
     (if sum2d msk > 1 then
        (let ys = map (map (clamp lo hi)) xs; m = masked_mean ys msk in
         sqrt (max 0 (masked_mean (map (map (\<lambda>x. x * x)) ys) msk - m * m)))
      else 0)"

definition std_if_many :: "real list \<Rightarrow> real" where
  "std_if_many xs = (if length xs > 1 then std_of xs else 0)"

definition with_prefix :: "string \<Rightarrow> (string \<times> 'a) list \<Rightarrow> (string \<times> 'a) list" where
  "with_prefix p ms = map (\<lambda>(k, x). (p @ k, x)) ms"

definition real_metrics :: "(string \<times> real) list \<Rightarrow> metrics" where
  "real_metrics ms = map (\<lambda>(k, x). (k, Fin x)) ms"

definition option_seq_values :: "string \<Rightarrow> mat \<Rightarrow> mat \<Rightarrow> real list" where
  "option_seq_values opt lratio msk =
     (if has_prefix ''token'' opt then row_means (map (map (token_stat opt)) lratio) msk
      else map2 (\<lambda>r m. sequence_stat opt (map (token_stat opt) r) m) lratio msk)"

text \<open>One response at least is valid when the metrics are computed.\<close>

definition compute_rs_metrics :: "string \<times> real option \<times> real \<Rightarrow> mat \<Rightarrow> mat \<Rightarrow> (string \<times> real) list result" where
  "compute_rs_metrics t lratio msk = (case t of (opt, lower, upper) \<Rightarrow>
     if \<forall>m \<in> set (concat msk). m = 0 then Inl ValueError
     else
       let token = has_prefix ''token'' opt;
           seqs = option_seq_values opt lratio msk;
           stat = (if token then map (map (token_stat opt)) lratio else map2 (\<lambda>s m. map (\<lambda>_. s) m) seqs msk);
           valid = map fst (filter (\<lambda>(_, m). sum_list m > 0) (zip seqs msk));
           hi = (if lower = None then upper else ln upper);
           lo = (case lower of None \<Rightarrow> 0 | Some l \<Rightarrow> ln l);
           low_fraction = (\<lambda>f. if lower = None then 0 else f (\<lambda>x. x < lo)) in
       Inr (with_prefix (''rollout_rs_'' @ opt @ ''_'')
         ([(''mean'', masked_mean stat msk),
           (''max'', Max (set (if token then valid_values stat msk else valid))),
           (''min'', Min (set (if token then valid_values stat msk else valid))),
           (''fraction_high'', if token then masked_fraction (\<lambda>x. x > hi) stat msk else fraction (\<lambda>x. x > hi) valid),
           (''fraction_low'', low_fraction (\<lambda>p. if token then masked_fraction p stat msk else fraction p valid)),
           (''std'', clamped_std lo hi stat msk),
           (''seq_mean'', mean_of valid),
           (''seq_std'', std_if_many valid),
           (''seq_max'', Max (set valid)),
           (''seq_min'', Min (set valid)),
           (''seq_max_deviation'', Max (abs ` set valid)),
           (''seq_fraction_high'', fraction (\<lambda>x. x > hi) valid)]
          @ (if lower = None then [] else [(''seq_fraction_low'', fraction (\<lambda>x. x < lo) valid)]))))"

text \<open>What one option masks: of the valid tokens, and of the responses that have one.\<close>

definition keep_metrics :: "string \<times> real option \<times> real \<Rightarrow> mat \<Rightarrow> mat \<Rightarrow> (string \<times> real) list" where
  "keep_metrics t lratio msk =
     (let keep = map2 (\<lambda>r m. map bool_real (keep_row t r m)) lratio msk;
          rows = filter (\<lambda>(_, m). sum_list m > 0) (zip keep msk) in
      with_prefix (''rollout_rs_'' @ fst t @ ''_'')
        [(''masked_fraction'', masked_mean (map (map (\<lambda>x. 1 - x)) keep) msk),
         (''seq_masked_fraction'', if rows = [] then 0
            else mean_of (map (\<lambda>(k, m). bool_real (\<exists>(x, b) \<in> set (zip k m). x = 0 \<and> b \<noteq> 0)) rows))])"

definition final_metrics :: "mat \<Rightarrow> mat \<Rightarrow> (string \<times> real) list" where
  "final_metrics fm msk =
     [(''rollout_rs_masked_fraction'', masked_mean (map (map (\<lambda>x. 1 - x)) fm) msk),
      (''rollout_rs_seq_masked_fraction'',
         mean_of (map2 (\<lambda>k m. bool_real (\<exists>(x, b) \<in> set (zip k m). \<not> x > 1 / 2 \<and> b \<noteq> 0)) fm msk))]"

text \<open>An empty batch is returned as it is.\<close>

definition compute_rollout_rejection_mask ::
  "mat \<Rightarrow> mat \<Rightarrow> string option \<Rightarrow> threshold option \<Rightarrow> (mat \<times> metrics) result" where
  "compute_rollout_rejection_mask lratio response_mask rollout_rs spec =
     (case rollout_rs of None \<Rightarrow> Inl ValueError | Some rs \<Rightarrow>
        if spec = None then Inl ValueError
        else if lratio = [] then Inr (response_mask, [])
        else if option_modes rs = [] then Inl ValueError
        else rbind (normalize_options [] (option_modes rs)) (\<lambda>opts.
          rbind (parse_rollout_rs_thresholds opts spec) (\<lambda>ts.
          rbind (map_r (\<lambda>t. compute_rs_metrics t lratio response_mask) ts) (\<lambda>ms.
          let fm = final_mask ts lratio response_mask in
          Inr (map2d (*) response_mask fm,
               real_metrics (concat ms @ concat (map (\<lambda>t. keep_metrics t lratio response_mask) ts) @ final_metrics fm response_mask))))))"

section \<open>Importance weights\<close>

definition raw_weights :: "bool \<Rightarrow> mat \<Rightarrow> mat \<Rightarrow> mat" where
  "raw_weights token_level lratio response_mask =
     (if token_level then map2d (\<lambda>x m. exp (safe x) * m) lratio response_mask
      else map2 (\<lambda>r msk. map (\<lambda>m. exp (safe (masked_sum1 r msk)) * m) msk) lratio response_mask)"

definition truncate_weight :: "real \<Rightarrow> real option \<Rightarrow> real \<Rightarrow> real" where
  "truncate_weight upper lower w = (case lower of
       None \<Rightarrow> min w upper
     | Some l \<Rightarrow> if l \<le> w \<and> w \<le> upper then w else 0)"

text \<open>The mean for the batch normalisation; \<open>all_reduce\<close> sums over the ranks when \<open>torch.distributed\<close> is running.\<close>

definition weights_mean :: "((real \<times> real) \<Rightarrow> (real \<times> real)) option \<Rightarrow> bool \<Rightarrow> mat \<Rightarrow> mat \<Rightarrow> fl" where
  "weights_mean all_reduce token_level w msk =
     (let seqs = map2 (\<lambda>r m. masked_sum1 r m / (sum_list m + 1 / 10 ^ 8)) w msk;
          live = map (\<lambda>m. if sum_list m > 0 then 1 else 0) msk in
      case all_reduce of
        Some f \<Rightarrow>
          (let (s, n) = f (if token_level then (sum2d (map2d (*) w msk), sum2d msk) else (sum_list (map2 (*) seqs live), sum_list live)) in
           fl_div (Fin s) n)
      | None \<Rightarrow> Fin (if token_level then masked_mean w msk else sum_list (map2 (*) seqs live) / max (sum_list live) (1 / 10 ^ 8)))"

definition fl_above :: "fl \<Rightarrow> real \<Rightarrow> bool" where
  "fl_above x b = (case x of Fin r \<Rightarrow> r > b | PInf \<Rightarrow> True | _ \<Rightarrow> False)"

definition normalize_weights :: "fl \<Rightarrow> mat \<Rightarrow> mat" where
  "normalize_weights mean w = (if fl_above mean (1 / 10 ^ 8) then (case mean of Fin r \<Rightarrow> map (map (\<lambda>x. x / r)) w | _ \<Rightarrow> map (map (\<lambda>_. 0)) w) else w)"

definition compute_is_metrics :: "mat \<Rightarrow> mat \<Rightarrow> mat \<Rightarrow> mat \<Rightarrow> bool \<Rightarrow> real \<Rightarrow> real option \<Rightarrow> (string \<times> real) list result" where
  "compute_is_metrics wts raw lratio msk token_level upper lower =
     (if \<forall>m \<in> set (concat msk). m = 0 then Inl ValueError
      else
        let lo = default_to (1 / upper) lower;
            logs = map2 masked_sum1 lratio msk;
            level = (if token_level then
                [(''ratio_fraction_high'', masked_fraction (\<lambda>x. x > upper) raw msk),
                 (''ratio_fraction_low'', masked_fraction (\<lambda>x. x < lo) raw msk),
                 (''max'', Max (set (valid_values wts msk))),
                 (''min'', Min (set (valid_values wts msk)))]
              else
                [(''max'', exp (min (Max (set logs)) 20)),
                 (''min'', exp (Min (set logs))),
                 (''ratio_fraction_high'', fraction (\<lambda>x. x > ln upper) logs),
                 (''ratio_fraction_low'', fraction (\<lambda>x. x < ln lo) logs)]);
            clamped = map (map (clamp 0 upper)) wts;
            mean = masked_mean clamped msk;
            ess = masked_mean (map (map (\<lambda>x. x / (mean + 1 / 10 ^ 8) * (x / (mean + 1 / 10 ^ 8)))) clamped) msk;
            seqs = row_means wts msk; raw_seqs = row_means raw msk in
        if ess = 0 then Inl ZeroDivisionError
        else Inr (with_prefix ''rollout_is_'' ((''mean'', masked_mean wts msk) # level @
          [(''std'', clamped_std 0 upper wts msk),
           (''eff_sample_size'', 1 / ess),
           (''seq_mean'', mean_of seqs),
           (''seq_std'', std_if_many seqs),
           (''seq_max'', Max (set seqs)),
           (''seq_min'', Min (set seqs)),
           (''seq_max_deviation'', Max (set (map (\<lambda>x. \<bar>x - 1\<bar>) seqs))),
           (''seq_fraction_high'', fraction (\<lambda>x. x > upper) raw_seqs),
           (''seq_fraction_low'', fraction (\<lambda>x. x < lo) raw_seqs)])))"

definition compute_rollout_correction_weights ::
  "((real \<times> real) \<Rightarrow> (real \<times> real)) option \<Rightarrow> mat \<Rightarrow> mat \<Rightarrow> string \<Rightarrow> threshold \<Rightarrow> bool \<Rightarrow> (mat \<times> metrics) result" where
  "compute_rollout_correction_weights all_reduce lratio response_mask rollout_is spec batch_normalize =
     (if rollout_is \<notin> {''token'', ''sequence''} then Inl ValueError
      else rbind (parse_rollout_is_threshold spec) (\<lambda>(upper, lower).
        let token_level = (rollout_is = ''token'');
            raw = raw_weights token_level lratio response_mask;
            w = map (map (truncate_weight upper lower)) raw;
            oob = (case lower of None \<Rightarrow> [] | Some l \<Rightarrow>
                     [(''rollout_is_oob_ratio'', masked_fraction (\<lambda>x. x < l \<or> x > upper) raw response_mask)]) in
        rbind (compute_is_metrics w raw lratio response_mask token_level upper lower) (\<lambda>ms.
        Inr (if batch_normalize then
               (let mean = weights_mean all_reduce token_level w response_mask in
                (normalize_weights mean w,
                 real_metrics (ms @ oob) @ [(''rollout_is_batch_norm_factor'', if fl_above mean (1 / 10 ^ 8) then mean else Fin 1)]))
             else (w, real_metrics (ms @ oob))))))"

section \<open>Off-policy metrics\<close>

text \<open>The perplexity of the training policy, and what needs the rollout policy.\<close>

definition compute_offpolicy_metrics :: "mat \<Rightarrow> mat option \<Rightarrow> mat \<Rightarrow> (string \<times> real) list result" where
  "compute_offpolicy_metrics old_log_prob rollout_log_prob response_mask =
     (if \<forall>m \<in> set (concat response_mask). m = 0 then Inl AssertionError
      else
        let training = row_means old_log_prob response_mask in
        Inr ([(''training_ppl'', mean_of (map (\<lambda>x. exp (- x)) training)), (''training_log_ppl'', mean_of (map uminus training))]
          @ (case rollout_log_prob of None \<Rightarrow> [] | Some ro \<Rightarrow>
               (let lratio = map2d (-) old_log_prob ro; rollout = row_means ro response_mask; diff = map2 (-) rollout training in
                [(''kl'', masked_mean (map2d (-) ro old_log_prob) response_mask),
                 (''k3_kl'', masked_mean (map (map (\<lambda>x. exp x - x - 1)) lratio) response_mask),
                 (''rollout_ppl'', mean_of (map (\<lambda>x. exp (- x)) rollout)),
                 (''rollout_log_ppl'', mean_of (map uminus rollout)),
                 (''log_ppl_diff'', mean_of diff),
                 (''log_ppl_abs_diff'', mean_of (map abs diff)),
                 (''log_ppl_diff_max'', Max (set diff)),
                 (''log_ppl_diff_min'', Min (set diff)),
                 (''ppl_ratio'', mean_of (map exp diff)),
                 (''chi2_token'', masked_mean (map (map (\<lambda>x. exp (safe x) * exp (safe x))) lratio) response_mask - 1),
                 (''chi2_seq'', mean_of (map2 (\<lambda>r m. exp (2 * safe (masked_sum1 r m))) lratio response_mask) - 1)]))))"

definition compute_rollout_corr_metrics_from_logprobs :: "mat \<Rightarrow> mat \<Rightarrow> mat \<Rightarrow> metrics result" where
  "compute_rollout_corr_metrics_from_logprobs log_prob rollout_log_prob response_mask =
     rbind (compute_offpolicy_metrics log_prob (Some rollout_log_prob) response_mask) (\<lambda>ms.
     Inr (with_prefix ''rollout_corr/'' (real_metrics ms)))"

section \<open>The pipeline and the bypass loss\<close>

definition same_shape :: "mat \<Rightarrow> mat \<Rightarrow> bool" where
  "same_shape xs ys \<longleftrightarrow> map length xs = map length ys"

definition compute_rollout_correction_and_rejection_mask ::
  "((real \<times> real) \<Rightarrow> (real \<times> real)) option \<Rightarrow> mat \<Rightarrow> mat \<Rightarrow> mat \<Rightarrow> string option \<Rightarrow> threshold option \<Rightarrow> bool \<Rightarrow> string option \<Rightarrow> threshold option
   \<Rightarrow> (mat option \<times> mat \<times> metrics) result" where
  "compute_rollout_correction_and_rejection_mask all_reduce old_log_prob rollout_log_prob response_mask
     rollout_is is_spec batch_normalize rollout_rs rs_spec =
     (if \<forall>m \<in> set (concat response_mask). m = 0 then Inl ValueError
      else if \<not> same_shape old_log_prob rollout_log_prob then Inl ValueError
      else if \<not> same_shape old_log_prob response_mask then Inl ValueError
      else
        let lratio = map2d (-) old_log_prob rollout_log_prob in
        rbind (case (rollout_is, is_spec) of
                 (Some level, Some spec) \<Rightarrow>
                   rbind (compute_rollout_correction_weights all_reduce lratio response_mask level spec batch_normalize) (\<lambda>(w, ms). Inr (Some w, ms))
               | _ \<Rightarrow> Inr (None, [])) (\<lambda>(weights, is_ms).
        rbind (case rollout_rs of
                 None \<Rightarrow> Inr (response_mask, [])
               | Some rs \<Rightarrow> (case rs_spec of None \<Rightarrow> Inl ValueError
                   | Some spec \<Rightarrow> compute_rollout_rejection_mask lratio response_mask (Some rs) (Some spec))) (\<lambda>(msk, rs_ms).
        rbind (compute_offpolicy_metrics old_log_prob (Some rollout_log_prob) response_mask) (\<lambda>off.
        Inr (weights, msk, with_prefix ''rollout_corr/'' (is_ms @ rs_ms @ real_metrics off))))))"

record correction_config =
  rc_loss_type :: string
  rc_is :: "string option"
  rc_is_threshold :: "threshold option"
  rc_batch_normalize :: bool
  rc_rs :: "string option"
  rc_rs_threshold :: "threshold option"

text \<open>The columns of the batch, and the part of the policy-loss configuration that the bypass mode sets.\<close>

type_synonym columns = "string \<Rightarrow> mat option"

definition compute_rollout_correction_and_add_to_batch ::
  "((real \<times> real) \<Rightarrow> (real \<times> real)) option \<Rightarrow> columns \<Rightarrow> correction_config \<Rightarrow> (columns \<times> metrics) result" where
  "compute_rollout_correction_and_add_to_batch all_reduce batch rc =
     (case (batch ''old_log_probs'', batch ''rollout_log_probs'', batch ''response_mask'') of
        (Some old, Some rollout, Some msk) \<Rightarrow>
          rbind (compute_rollout_correction_and_rejection_mask all_reduce old rollout msk
                   (rc_is rc) (rc_is_threshold rc) (rc_batch_normalize rc) (rc_rs rc) (rc_rs_threshold rc)) (\<lambda>(weights, msk', ms).
          let batch' = batch(''response_mask'' \<mapsto> msk') in
          case weights of None \<Rightarrow> Inr (batch', ms)
          | Some w \<Rightarrow> if batch' ''rollout_is_weights'' \<noteq> None \<and> batch' ''rollout_is_weights'' \<noteq> Some w then Inl AssertionError
                      else Inr (batch'(''rollout_is_weights'' \<mapsto> w), ms))
      | _ \<Rightarrow> Inl KeyError)"

record policy_config =
  plc_loss_mode :: string
  plc_correction :: "correction_config option"

definition apply_bypass_mode :: "columns \<Rightarrow> correction_config option \<Rightarrow> policy_config \<Rightarrow> (columns \<times> policy_config) result" where
  "apply_bypass_mode batch rc policy =
     (case batch ''rollout_log_probs'' of None \<Rightarrow> Inl ValueError
      | Some ro \<Rightarrow> Inr (batch(''old_log_probs'' \<mapsto> ro), policy\<lparr>plc_correction := rc, plc_loss_mode := ''bypass_mode''\<rparr>))"

definition compute_policy_loss_bypass_mode ::
  "((real \<times> real) \<Rightarrow> (real \<times> real)) option \<Rightarrow> mat \<Rightarrow> mat \<Rightarrow> mat \<Rightarrow> mat \<Rightarrow> string \<Rightarrow> loss_config option \<Rightarrow> correction_config option
   \<Rightarrow> (fl \<times> real \<times> metrics) result" where
  "compute_policy_loss_bypass_mode all_reduce old_log_prob log_prob advantages response_mask mode config correction =
     (case config of None \<Rightarrow> Inl AssertionError | Some c \<Rightarrow>
      case correction of None \<Rightarrow> Inl ValueError | Some rc \<Rightarrow>
        rbind (compute_rollout_correction_and_rejection_mask all_reduce log_prob old_log_prob response_mask
                 (rc_is rc) (rc_is_threshold rc) (rc_batch_normalize rc) (rc_rs rc) (rc_rs_threshold rc)) (\<lambda>(weights, msk, ms).
        if rc_loss_type rc = ''reinforce'' then
          rbind (compute_policy_loss_reinforce old_log_prob log_prob advantages msk mode (Some c) weights) (\<lambda>(loss, kl).
          Inr (loss, kl, ms))
        else if rc_loss_type rc = ''ppo_clip'' then
          rbind (compute_policy_loss_vanilla old_log_prob log_prob advantages msk mode (lc_actor c) None) (\<lambda>(loss, metrics).
          Inr (loss, pm_ppo_kl metrics, ms))
        else Inl ValueError))"

section \<open>Rejection is exact\<close>

lemma normalize_options_result:
  "normalize_options seen opts = Inr ns \<Longrightarrow>
     set ns = set opts - set seen \<and> set opts \<subseteq> set SUPPORTED_ROLLOUT_RS_OPTIONS \<and> distinct ns"
proof (induction seen opts arbitrary: ns rule: normalize_options.induct)
  case (2 seen opt opts)
  show ?case
  proof (cases "opt \<in> set seen")
    case True
    have sup: "opt \<in> set SUPPORTED_ROLLOUT_RS_OPTIONS" using "2.prems" by (cases "opt \<in> set SUPPORTED_ROLLOUT_RS_OPTIONS") simp_all
    moreover have "normalize_options seen opts = Inr ns" using "2.prems" sup True by simp
    ultimately show ?thesis using "2.IH"(1) [of ns] True by auto
  next
    case False
    with "2.prems" obtain rest where r: "normalize_options (seen @ [opt]) opts = Inr rest" "ns = opt # rest"
      by (auto simp: rbind_eq_Inr_iff split: if_splits)
    have sup: "opt \<in> set SUPPORTED_ROLLOUT_RS_OPTIONS" using "2.prems" by (auto split: if_splits)
    then have "set rest = set opts - set (seen @ [opt]) \<and> set opts \<subseteq> set SUPPORTED_ROLLOUT_RS_OPTIONS \<and> distinct rest"
      using "2.IH"(2) [OF _ False r(1)] by blast
    then show ?thesis using sup False by (auto simp: r(2))
  qed
qed simp

text \<open>What one option says about one token: its own statistic, or that of its response, is within the bounds.\<close>

definition passes :: "string \<times> real option \<times> real \<Rightarrow> real list \<Rightarrow> real list \<Rightarrow> nat \<Rightarrow> bool" where
  "passes t lratio msk j = (case t of (opt, lower, upper) \<Rightarrow>
     in_bounds lower upper (if has_prefix ''token'' opt then token_stat opt (lratio ! j)
                            else sequence_stat opt (map (token_stat opt) lratio) msk))"

lemma keep_row_nth: "j < length r \<Longrightarrow> keep_row t r m ! j = passes t r m j"
  by (cases t) (simp add: keep_row_def passes_def Let_def)

lemma length_keep_row [simp]: "length (keep_row t r m) = length r"
  by (cases t) (simp add: keep_row_def Let_def)

lemma final_mask_cell:
  assumes "shaped n w lratio" "shaped n w msk" "i < n" "j < w"
  shows "shaped n w (final_mask ts lratio msk) \<and>
    final_mask ts lratio msk ! i ! j = bool_real (\<forall>t \<in> set ts. passes t (lratio ! i) (msk ! i) j)"
proof -
  have step: "shaped n w (map2d (*) acc (map2 (\<lambda>r m. map bool_real (keep_row t r m)) lratio msk))
      \<and> map2d (*) acc (map2 (\<lambda>r m. map bool_real (keep_row t r m)) lratio msk) ! i ! j
        = acc ! i ! j * bool_real (passes t (lratio ! i) (msk ! i) j)" if "shaped n w acc" for acc t
  proof -
    have k: "shaped n w (map2 (\<lambda>r m. map bool_real (keep_row t r m)) lratio msk)"
      using assms(1,2) by (auto simp: shaped_def set_zip)
    show ?thesis using shaped_map2d [OF that k] shaped_nth [OF that assms(3)] shaped_nth [OF assms(1) assms(3)] assms(3,4) that assms(1,2)
      by (simp add: nth_map2d shaped_def keep_row_nth)
  qed
  have "shaped n w (fold (\<lambda>t acc. map2d (*) acc (map2 (\<lambda>r m. map bool_real (keep_row t r m)) lratio msk)) ts acc)
      \<and> fold (\<lambda>t acc. map2d (*) acc (map2 (\<lambda>r m. map bool_real (keep_row t r m)) lratio msk)) ts acc ! i ! j
        = acc ! i ! j * bool_real (\<forall>t \<in> set ts. passes t (lratio ! i) (msk ! i) j)" if "shaped n w acc" for acc
    using that
  proof (induction ts arbitrary: acc)
    case (Cons t ts)
    define acc' where "acc' = map2d (*) acc (map2 (\<lambda>r m. map bool_real (keep_row t r m)) lratio msk)"
    have s: "shaped n w acc'" "acc' ! i ! j = acc ! i ! j * bool_real (passes t (lratio ! i) (msk ! i) j)"
      using step [OF Cons.prems, of t] by (simp_all only: acc'_def)
    have b: "bool_real (p \<and> q) = bool_real p * bool_real q" for p q by (simp add: bool_real_def)
    show ?case using Cons.IH [OF s(1)] unfolding fold_Cons comp_def acc'_def [symmetric] s(2) by (simp add: b)
  qed (simp add: bool_real_def)
  moreover have "shaped n w (map (map (\<lambda>_. 1)) msk)" using assms(2) by (auto simp: shaped_def)
  moreover have "map (map (\<lambda>_. 1 :: real)) msk ! i ! j = 1" using assms(2-4) by (simp add: shaped_def)
  ultimately show ?thesis by (simp add: final_mask_def)
qed

lemma rs_metrics_succeed:
  "map_r (\<lambda>t. compute_rs_metrics t lratio msk) ts = Inr ms \<Longrightarrow> \<exists>ms'. map_r (\<lambda>t. compute_rs_metrics t lratio' msk) ts = Inr ms'"
proof (induction ts arbitrary: ms)
  case (Cons t ts)
  then obtain x where x: "compute_rs_metrics t lratio msk = Inr x" by (auto simp: rbind_eq_Inr_iff)
  obtain opt lower upper where t: "t = (opt, lower, upper)" by (cases t)
  have nz: "\<not> (\<forall>m \<in> set (concat msk). m = 0)"
  proof
    assume z: "\<forall>m \<in> set (concat msk). m = 0"
    show False using x unfolding compute_rs_metrics_def t prod.case if_P [OF z] by simp
  qed
  have "\<exists>y. compute_rs_metrics t lratio' msk = Inr y"
    unfolding compute_rs_metrics_def t prod.case if_not_P [OF nz] Let_def by (rule exI) (rule refl)
  moreover obtain ms' where "map_r (\<lambda>t. compute_rs_metrics t lratio' msk) ts = Inr ms'"
    using Cons by (auto simp: rbind_eq_Inr_iff)
  ultimately show ?case by auto
qed simp

lemma final_mask_shaped:
  assumes "shaped n w lratio" "shaped n w msk"
  shows "shaped n w (final_mask ts lratio msk)"
proof -
  have k: "shaped n w (map2 (\<lambda>r m. map bool_real (keep_row t r m)) lratio msk)" for t
    using assms by (auto simp: shaped_def set_zip)
  have "shaped n w (fold (\<lambda>t acc. map2d (*) acc (map2 (\<lambda>r m. map bool_real (keep_row t r m)) lratio msk)) ts acc)"
    if "shaped n w acc" for acc
    using that
  proof (induction ts arbitrary: acc)
    case (Cons t ts)
    show ?case unfolding fold_Cons comp_def by (rule Cons.IH [OF shaped_map2d [OF Cons.prems k]])
  qed simp
  moreover have "shaped n w (map (map (\<lambda>_. 1)) msk)" using assms(2) by (auto simp: shaped_def)
  ultimately show ?thesis by (simp add: final_mask_def)
qed

lemma shaped_eqI:
  "\<lbrakk>shaped n w x; shaped n w y; \<And>i j. \<lbrakk>i < n; j < w\<rbrakk> \<Longrightarrow> x ! i ! j = y ! i ! j\<rbrakk> \<Longrightarrow> x = y"
  by (auto simp: shaped_def intro!: nth_equalityI)

text \<open>
  After \<open>apply_bypass_mode\<close>, and whenever both policies agree, every log-ratio is 0 and an option rejects nothing unless the
  ratio 1 is outside its own bounds.
\<close>

lemma sum_list_zeros: "(\<And>x. x \<in> set xs \<Longrightarrow> x = 0) \<Longrightarrow> sum_list xs = (0 :: real)"
  by (induction xs) auto

lemma token_stat_zero [simp]: "token_stat opt 0 = 0"
  by (simp add: token_stat_def safe_def clamp_def Let_def)

lemma on_policy_passes:
  assumes r: "set r \<subseteq> {0}" "length r = length m" "j < length r"
    and t: "0 < upper" "\<And>l. lower = Some l \<Longrightarrow> 0 < l"
  shows "passes (opt, lower, upper) r m j \<longleftrightarrow> (case lower of None \<Rightarrow> True | Some l \<Rightarrow> l \<le> 1 \<and> 1 \<le> upper)"
proof -
  have r0: "r = replicate (length m) 0" using r(1,2) by (auto simp: list_eq_iff_nth_eq dest!: subsetD [OF _ nth_mem])
  have sum0: "masked_sum1 (replicate k 0) m = 0" for k
    unfolding masked_sum1_def by (rule sum_list_zeros) (auto simp: mask_value_def dest: set_zip_leftD split: if_splits)
  have max0: "set (map fst (filter (\<lambda>(_, b). b \<noteq> 0) (zip (replicate k (0 :: real)) m))) \<subseteq> {0}" for k
    by (auto dest: set_zip_leftD split: if_splits)
  have "sequence_stat opt (map (token_stat opt) r) m = 0"
  proof -
    have stats: "map (token_stat opt) r = replicate (length m) 0" by (subst r0) simp
    define valid where "valid = map fst (filter (\<lambda>(_, b). b \<noteq> 0) (zip (replicate (length m) (0 :: real)) m))"
    have "set valid \<subseteq> {0}" using max0 unfolding valid_def .
    then have "valid = [] \<or> set valid = {0}" by (cases valid) auto
    then have "(if valid = [] then 0 else Max (set valid)) = 0"
    proof
      assume "set valid = {0}"
      then show ?thesis by (simp only: Max_singleton if_cancel)
    qed simp
    then show ?thesis unfolding stats sequence_stat_def Let_def sum0 valid_def [symmetric] by simp
  qed
  moreover have "token_stat opt (r ! j) = 0" using r by (metis nth_mem singletonD subsetD token_stat_zero)
  ultimately have "passes (opt, lower, upper) r m j = in_bounds lower upper 0" by (simp add: passes_def)
  then show ?thesis using t by (auto simp: in_bounds_def split: option.split)
qed

text \<open>Padding has no influence: a statistic reads a response only where its mask is 1.\<close>

lemma masked_sum1_cong:
  assumes "length xs = length m" "length ys = length m" "\<And>j. j < length m \<Longrightarrow> m ! j \<noteq> 0 \<Longrightarrow> xs ! j = ys ! j"
  shows "masked_sum1 xs m = masked_sum1 ys m"
proof -
  have "map (\<lambda>(v, m). mask_value v m) (zip xs m) = map (\<lambda>(v, m). mask_value v m) (zip ys m)"
    using assms by (intro nth_equalityI) (auto simp: mask_value_def)
  then show ?thesis by (simp add: masked_sum1_def)
qed

lemma valid_cong:
  assumes "length xs = length m" "length ys = length m" "\<And>j. j < length m \<Longrightarrow> m ! j \<noteq> (0::real) \<Longrightarrow> xs ! j = ys ! j"
  shows "map fst (filter (\<lambda>(_, b). b \<noteq> 0) (zip xs m)) = map fst (filter (\<lambda>(_, b). b \<noteq> 0) (zip ys m))"
  using assms
proof (induction m arbitrary: xs ys)
  case (Cons b m)
  obtain x xs' y ys' where xs: "xs = x # xs'" "ys = y # ys'" using Cons.prems(1,2) by (cases xs; cases ys) auto
  have "xs' ! j = ys' ! j" if "j < length m" "m ! j \<noteq> 0" for j using Cons.prems(3) [of "Suc j"] that by (simp add: xs)
  then have "map fst (filter (\<lambda>(_, b). b \<noteq> 0) (zip xs' m)) = map fst (filter (\<lambda>(_, b). b \<noteq> 0) (zip ys' m))"
    using Cons.prems(1,2) by (intro Cons.IH) (simp_all add: xs)
  then show ?case using Cons.prems(3) [of 0] by (simp add: xs)
qed simp

lemma passes_cong:
  assumes "length r = length m" "length r' = length m" "\<And>j. j < length m \<Longrightarrow> m ! j \<noteq> 0 \<Longrightarrow> r ! j = r' ! j"
    and "j < length m" "m ! j \<noteq> 0"
  shows "passes t r m j = passes t r' m j"
proof -
  obtain opt lo up where t: "t = (opt, lo, up)" by (cases t)
  have "sequence_stat opt (map (token_stat opt) r) m = sequence_stat opt (map (token_stat opt) r') m"
    using masked_sum1_cong [of "map (token_stat opt) r" m "map (token_stat opt) r'"]
      valid_cong [of "map (token_stat opt) r" m "map (token_stat opt) r'"] assms(1-3)
    by (simp add: sequence_stat_def)
  then show ?thesis using assms(3) [OF assms(4,5)] by (simp add: t passes_def)
qed

lemma rs_entry_Inr:
  assumes "rs_entry opt s = Inr t"
  shows "fst t = opt" "snd (snd t) > 0" "is_k1 opt \<Longrightarrow> \<exists>l. fst (snd t) = Some l \<and> 0 < l \<and> l \<le> snd (snd t)"
    "\<not> is_k1 opt \<Longrightarrow> fst (snd t) = None"
  using assms unfolding rs_entry_def by (auto simp: rbind_eq_Inr_iff not_le not_less split: if_splits prod.splits)

definition textual :: "threshold \<Rightarrow> bool" where
  "textual s \<longleftrightarrow> (case s of T_num _ \<Rightarrow> True | T_str _ \<Rightarrow> True | _ \<Rightarrow> False)"

lemma entry_float_error: "\<lbrakk>entry_float s = Inl e; textual s\<rbrakk> \<Longrightarrow> e = ValueError"
  by (auto simp: entry_float_def textual_def split: threshold.splits option.splits)

lemma rbind_eq_Inl_iff: "rbind m f = Inl e \<longleftrightarrow> m = Inl e \<or> (\<exists>x. m = Inr x \<and> f x = Inl e)"
  by (cases m) auto

lemma reciprocal_bounds_error:
  "\<lbrakk>reciprocal_bounds s = Inl e; textual s\<rbrakk> \<Longrightarrow> e = ValueError \<or> e = ZeroDivisionError \<and> entry_float s = Inr 0"
  by (auto simp: reciprocal_bounds_def rbind_eq_Inl_iff dest: entry_float_error split: if_splits)

lemma rs_entry_Inl:
  assumes "rs_entry opt s = Inl e" "textual s"
  shows "e = ValueError \<or> e = ZeroDivisionError \<and> is_k1 opt \<and> entry_float s = Inr 0"
proof (cases "is_k1 opt")
  case False
  then show ?thesis using assms by (auto simp: rs_entry_def rbind_eq_Inl_iff dest: entry_float_error split: if_splits)
next
  case True
  have check: "(if lower \<le> 0 \<or> upper \<le> 0 then Inl ValueError else if lower > upper then Inl ValueError
       else Inr (opt, Some lower, upper)) = (Inl e :: (string \<times> real option \<times> real) result) \<Longrightarrow> e = ValueError" for lower upper :: real
    by (simp split: if_splits)
  show ?thesis
  proof (cases "entry_pair s")
    case True
    then obtain cs where "s = T_str cs" "CHR ''_'' \<in> set cs" by (auto simp: entry_pair_def split: threshold.splits)
    then show ?thesis using assms(1) \<open>is_k1 opt\<close>
      by (auto simp: rs_entry_def rbind_eq_Inl_iff split: prod.splits option.splits if_splits)
  next
    case False
    then have "rbind (reciprocal_bounds s) (\<lambda>(lower, upper). if lower \<le> 0 \<or> upper \<le> 0 then Inl ValueError
         else if lower > upper then Inl ValueError else Inr (opt, Some lower, upper)) = Inl e"
      using assms(1) True by (cases s) (simp_all add: rs_entry_def entry_pair_def)
    then show ?thesis using reciprocal_bounds_error [OF _ assms(2), of e] check True by (auto simp: rbind_eq_Inl_iff)
  qed
qed

lemma raw_specs_textual: "raw_specs spec = Inr raw \<Longrightarrow> \<forall>s \<in> set raw. textual s"
  by (auto simp: raw_specs_def textual_def split: option.splits threshold.splits)

lemma map_r_Inl: "map_r f xs = Inl e \<Longrightarrow> \<exists>x \<in> set xs. f x = Inl e"
  by (induction xs) (auto simp: rbind_eq_Inl_iff)

lemma rs_thresholds_Inr:
  assumes "parse_rollout_rs_thresholds opts spec = Inr ts"
  shows "map fst ts = opts" "\<And>t. t \<in> set ts \<Longrightarrow> snd (snd t) > 0"
    "\<And>t. \<lbrakk>t \<in> set ts; is_k1 (fst t)\<rbrakk> \<Longrightarrow> \<exists>l. fst (snd t) = Some l \<and> 0 < l \<and> l \<le> snd (snd t)"
    "\<And>t. \<lbrakk>t \<in> set ts; \<not> is_k1 (fst t)\<rbrakk> \<Longrightarrow> fst (snd t) = None"
proof -
  obtain raw0 where raw0: "raw_specs spec = Inr raw0" "raw0 \<noteq> []" "length raw0 = 1 \<or> length raw0 = length opts"
    and run: "map_r (\<lambda>(opt, s). rs_entry opt s) (zip opts (if length raw0 = 1 \<and> length opts > 1 then replicate (length opts) (hd raw0) else raw0)) = Inr ts"
    using assms unfolding parse_rollout_rs_thresholds_def rbind_eq_Inr_iff by (fastforce split: if_splits)
  define raw where "raw = (if length raw0 = 1 \<and> length opts > 1 then replicate (length opts) (hd raw0) else raw0)"
  have raw: "length raw \<ge> length opts" "map_r (\<lambda>(opt, s). rs_entry opt s) (zip opts raw) = Inr ts"
    using raw0(3) run by (auto simp: raw_def)
  have len: "length ts = length opts" using map_r_length [OF raw(2)] raw(1) by simp
  have each: "rs_entry (opts ! i) (raw ! i) = Inr (ts ! i)" if "i < length ts" for i
    using map_r_nth [OF raw(2), of i] that len raw(1) by simp
  show m: "map fst ts = opts" using len rs_entry_Inr(1) [OF each] by (intro nth_equalityI) simp_all
  fix t assume "t \<in> set ts"
  then obtain i where i: "i < length ts" "t = ts ! i" by (auto simp: in_set_conv_nth)
  then have o: "opts ! i = fst t" using m by auto
  show "snd (snd t) > 0" using rs_entry_Inr(2) [OF each [OF i(1)]] by (simp add: i(2))
  show "is_k1 (fst t) \<Longrightarrow> \<exists>l. fst (snd t) = Some l \<and> 0 < l \<and> l \<le> snd (snd t)"
    using rs_entry_Inr(3) [OF each [OF i(1)]] o by (simp add: i(2))
  show "\<not> is_k1 (fst t) \<Longrightarrow> fst (snd t) = None"
    using rs_entry_Inr(4) [OF each [OF i(1)]] o by (simp add: i(2))
qed

text \<open>
  A rejection specification either gives one threshold per option, in order, all positive, with a lower bound below the
  upper one exactly for the k1 options, or it fails: with \<open>TypeError\<close> exactly when it is neither a number nor a text, with
  \<open>ZeroDivisionError\<close> only when a k1 option reads an entry that is zero, and otherwise with \<open>ValueError\<close>.
\<close>

lemma rs_threshold_errors:
  "case parse_rollout_rs_thresholds opts spec of
     Inr ts \<Rightarrow> map fst ts = opts \<and> spec \<noteq> Some T_other
       \<and> (\<forall>(opt, lower, upper) \<in> set ts. 0 < upper
            \<and> (case lower of None \<Rightarrow> \<not> is_k1 opt | Some l \<Rightarrow> is_k1 opt \<and> 0 < l \<and> l \<le> upper))
   | Inl e \<Rightarrow> (e = TypeError \<longleftrightarrow> spec = Some T_other) \<and> e \<in> {TypeError, ValueError, ZeroDivisionError}
       \<and> (e = ZeroDivisionError \<longrightarrow> (\<exists>opt \<in> set opts. is_k1 opt)
            \<and> (\<exists>raw. raw_specs spec = Inr raw \<and> (\<exists>s \<in> set raw. entry_float s = Inr 0)))"
proof (cases "parse_rollout_rs_thresholds opts spec")
  case (Inr ts)
  have "spec \<noteq> Some T_other" using Inr by (auto simp: parse_rollout_rs_thresholds_def raw_specs_def)
  moreover have "\<forall>t \<in> set ts. case t of (opt, lower, upper) \<Rightarrow>
      0 < upper \<and> (case lower of None \<Rightarrow> \<not> is_k1 opt | Some l \<Rightarrow> is_k1 opt \<and> 0 < l \<and> l \<le> upper)"
  proof
    fix t assume t: "t \<in> set ts"
    show "case t of (opt, lower, upper) \<Rightarrow>
        0 < upper \<and> (case lower of None \<Rightarrow> \<not> is_k1 opt | Some l \<Rightarrow> is_k1 opt \<and> 0 < l \<and> l \<le> upper)"
      using rs_thresholds_Inr(2-4) [OF Inr t] by (cases t; cases "is_k1 (fst t)") auto
  qed
  ultimately show ?thesis using rs_thresholds_Inr(1) [OF Inr] by (simp add: Inr)
next
  case (Inl e)
  have raw_err: "e = ValueError \<and> spec \<noteq> Some T_other \<or> e = TypeError \<and> spec = Some T_other" if "raw_specs spec = Inl e"
    using that by (auto simp: raw_specs_def split: option.splits threshold.splits)
  consider "raw_specs spec = Inl e" | raw where "raw_specs spec = Inr raw" "e = ValueError"
    | raw opt s where "raw_specs spec = Inr raw" "opt \<in> set opts" "s \<in> set raw" "rs_entry opt s = Inl e"
  proof (cases "raw_specs spec")
    case (Inr raw)
    define used where "used = (if length raw = 1 \<and> length opts > 1 then replicate (length opts) (hd raw) else raw)"
    show thesis
    proof (cases "raw = [] \<or> length raw \<noteq> 1 \<and> length raw \<noteq> length opts")
      case True
      then have "e = ValueError" using Inl Inr by (auto simp: parse_rollout_rs_thresholds_def split: if_splits)
      then show thesis using that(2) [OF Inr] by blast
    next
      case False
      then have "map_r (\<lambda>(opt, s). rs_entry opt s) (zip opts used) = Inl e"
        using Inl Inr unfolding parse_rollout_rs_thresholds_def used_def by (auto split: if_splits)
      then obtain opt s where e: "(opt, s) \<in> set (zip opts used)" "rs_entry opt s = Inl e" by (auto dest: map_r_Inl)
      have "set used \<subseteq> set raw" using False by (auto simp: used_def)
      then show thesis using that(3) [OF Inr _ _ e(2)] e(1) by (auto dest: set_zip_leftD set_zip_rightD)
    qed
  qed (use Inl that(1) in \<open>simp add: parse_rollout_rs_thresholds_def\<close>)
  then show ?thesis
  proof cases
    case 3
    then have "textual s" using raw_specs_textual by blast
    moreover have "spec \<noteq> Some T_other" using 3(1) by (auto simp: raw_specs_def)
    ultimately show ?thesis using rs_entry_Inl [OF 3(4)] 3(1-3) by (auto simp: Inl)
  next
    case 2
    then have "spec \<noteq> Some T_other" by (auto simp: raw_specs_def)
    then show ?thesis by (simp add: Inl 2(2))
  qed (use raw_err in \<open>auto simp: Inl\<close>)
qed

text \<open>
  C37. Rejection sampling is exact and blind to padding: the options are the supported ones of the specification without
  repetition, each with its own threshold; a token stays in the mask exactly when it was in it and its statistic, or that of
  its response, passes every option, all other tokens become 0; and the log-ratios of masked tokens do not matter.
\<close>

theorem rejection_mask_exact:
  assumes s: "shaped n w lratio" "shaped n w lratio'" "shaped n w msk" and n: "n > 0"
    and eq: "\<And>i j. \<lbrakk>i < n; j < w; msk ! i ! j \<noteq> 0\<rbrakk> \<Longrightarrow> lratio ! i ! j = lratio' ! i ! j"
    and run: "compute_rollout_rejection_mask lratio msk (Some rs) spec = Inr (mask', ms)"
  shows "\<exists>opts ts. normalize_options [] (option_modes rs) = Inr opts \<and> set opts = set (option_modes rs) \<and> distinct opts
      \<and> set opts \<subseteq> set SUPPORTED_ROLLOUT_RS_OPTIONS \<and> parse_rollout_rs_thresholds opts spec = Inr ts \<and> map fst ts = opts
      \<and> shaped n w mask'
      \<and> (\<forall>i < n. \<forall>j < w. mask' ! i ! j = (if \<forall>t \<in> set ts. passes t (lratio ! i) (msk ! i) j then msk ! i ! j else 0))
      \<and> (\<exists>ms'. compute_rollout_rejection_mask lratio' msk (Some rs) spec = Inr (mask', ms'))"
proof -
  have ne: "lratio \<noteq> []" "lratio' \<noteq> []" using s n by (auto simp: shaped_def)
  obtain opts where opts: "normalize_options [] (option_modes rs) = Inr opts"
    using run ne by (auto simp: compute_rollout_rejection_mask_def rbind_eq_Inr_iff split: if_splits)
  obtain ts where ts: "parse_rollout_rs_thresholds opts spec = Inr ts"
    using run ne opts by (auto simp: compute_rollout_rejection_mask_def rbind_eq_Inr_iff split: if_splits)
  obtain ms1 where ms1: "map_r (\<lambda>t. compute_rs_metrics t lratio msk) ts = Inr ms1"
    and m: "mask' = map2d (*) msk (final_mask ts lratio msk)"
    using run ne opts ts by (auto simp: compute_rollout_rejection_mask_def rbind_eq_Inr_iff Let_def split: if_splits)
  obtain ms2 where ms2: "map_r (\<lambda>t. compute_rs_metrics t lratio' msk) ts = Inr ms2"
    using rs_metrics_succeed [OF ms1] by blast
  have cell: "map2d (*) msk (final_mask ts r msk) ! i ! j = (if \<forall>t \<in> set ts. passes t (r ! i) (msk ! i) j then msk ! i ! j else 0)"
    and sh: "shaped n w (map2d (*) msk (final_mask ts r msk))" if "shaped n w r" "i < n" "j < w" for r i j
  proof -
    have f: "shaped n w (final_mask ts r msk)"
      "final_mask ts r msk ! i ! j = bool_real (\<forall>t \<in> set ts. passes t (r ! i) (msk ! i) j)"
      using final_mask_cell [OF that(1) s(3) that(2,3), of ts] by simp_all
    show "shaped n w (map2d (*) msk (final_mask ts r msk))" by (rule shaped_map2d [OF s(3) f(1)])
    show "map2d (*) msk (final_mask ts r msk) ! i ! j = (if \<forall>t \<in> set ts. passes t (r ! i) (msk ! i) j then msk ! i ! j else 0)"
      using s(3) f that(2,3) shaped_nth [OF s(3) that(2)] shaped_nth [OF f(1) that(2)]
      by (simp add: nth_map2d shaped_def bool_real_def)
  qed
  have fsh: "shaped n w (map2d (*) msk (final_mask ts r msk))" if "shaped n w r" for r
    using final_mask_shaped [OF that s(3)] by (rule shaped_map2d [OF s(3)])
  have same: "map2d (*) msk (final_mask ts lratio' msk) = map2d (*) msk (final_mask ts lratio msk)"
  proof (rule shaped_eqI [OF fsh [OF s(2)] fsh [OF s(1)]])
    fix i j assume ij: "i < n" "j < w"
    have "passes t (lratio ! i) (msk ! i) j = passes t (lratio' ! i) (msk ! i) j" if "msk ! i ! j \<noteq> 0" for t
      using eq [OF ij(1)] ij(2) that shaped_nth [OF s(1) ij(1)] shaped_nth [OF s(2) ij(1)] shaped_nth [OF s(3) ij(1)]
      by (intro passes_cong) simp_all
    then show "map2d (*) msk (final_mask ts lratio' msk) ! i ! j = map2d (*) msk (final_mask ts lratio msk) ! i ! j"
      unfolding cell [OF s(2) ij] cell [OF s(1) ij] by (cases "msk ! i ! j = 0") simp_all
  qed
  have "\<exists>ms'. compute_rollout_rejection_mask lratio' msk (Some rs) spec = Inr (mask', ms')"
    using run ne opts ts same ms2 by (auto simp: compute_rollout_rejection_mask_def m Let_def split: if_splits)
  then show ?thesis
    using opts ts normalize_options_result [OF opts] rs_thresholds_Inr(1) [OF ts] fsh [OF s(1)] cell [OF s(1)]
    by (intro exI [of _ opts] exI [of _ ts]) (simp add: m)
qed

section \<open>Importance weights are bounded\<close>

lemma sum_list_divided: "sum_list (map (\<lambda>x. f x / r) xs) = sum_list (map f xs) / (r :: real)"
  by (induction xs) (simp_all add: add_divide_distrib)

lemma masked_sum1_divided: "masked_sum1 (map (\<lambda>x. x / r) xs) m = masked_sum1 xs m / r"
proof -
  have "masked_sum1 (map (\<lambda>x. x / r) xs) m = sum_list (map (\<lambda>p. (case p of (v, b) \<Rightarrow> mask_value v b) / r) (zip xs m))"
    unfolding masked_sum1_def zip_map1 map_map
    by (rule arg_cong [where f = sum_list], rule map_cong) (auto simp: mask_value_def)
  then show ?thesis by (simp add: sum_list_divided masked_sum1_def)
qed

lemma masked_sum_as_rows: "masked_sum xs m = sum_list (map2 masked_sum1 xs m)"
  by (simp add: masked_sum_def sum2d_def map2d_def masked_sum1_def comp_def case_prod_unfold)

lemma masked_mean_divided: "masked_mean (map (map (\<lambda>x. x / r)) xs) m = masked_mean xs m / r"
proof -
  have "masked_sum (map (map (\<lambda>x. x / r)) xs) m = sum_list (map (\<lambda>p. (case p of (v, b) \<Rightarrow> masked_sum1 v b) / r) (zip xs m))"
    unfolding masked_sum_as_rows zip_map1 map_map
    by (rule arg_cong [where f = sum_list], rule map_cong) (auto simp: masked_sum1_divided)
  then show ?thesis by (simp add: sum_list_divided masked_sum_as_rows masked_mean_def)
qed

text \<open>Dividing the weights divides their mean; so the batch normalisation makes the mean one.\<close>

lemma sequence_means_divided:
  "map2 (*) (map2 (\<lambda>v m. masked_sum1 v m / c m) (map (map (\<lambda>x. x / r)) wts) msk) (map live msk)
     = map (\<lambda>x. x / r) (map2 (*) (map2 (\<lambda>v m. masked_sum1 v m / c m) wts msk) (map live msk))"
  by (induction wts msk rule: list_induct2') (simp_all add: masked_sum1_divided)

definition live_rows :: "mat \<Rightarrow> real list" where
  "live_rows msk = map (\<lambda>m. if sum_list m > 0 then 1 else 0) msk"

definition sequence_total :: "mat \<Rightarrow> mat \<Rightarrow> real" where
  "sequence_total wts msk = sum_list (map2 (*) (map2 (\<lambda>v m. masked_sum1 v m / (sum_list m + 1 / 10 ^ 8)) wts msk) (live_rows msk))"

lemma sequence_total_divided: "sequence_total (map (map (\<lambda>x. x / r)) wts) msk = sequence_total wts msk / r"
  unfolding sequence_total_def live_rows_def sequence_means_divided by (simp only: sum_list_divided list.map_ident)

lemma weights_mean_forms:
  "weights_mean None True wts msk = Fin (masked_mean wts msk)"
  "weights_mean None False wts msk = Fin (sequence_total wts msk / max (sum_list (live_rows msk)) (1 / 10 ^ 8))"
  unfolding weights_mean_def sequence_total_def live_rows_def Let_def by simp_all

lemma weights_mean_divided:
  assumes "weights_mean None tk wts msk = Fin a"
  shows "weights_mean None tk (map (map (\<lambda>x. x / r)) wts) msk = Fin (a / r)"
proof (cases tk)
  case False
  then have tk: "tk = False" by simp
  have "sequence_total wts msk / r / max (sum_list (live_rows msk)) (1 / 10 ^ 8)
      = sequence_total wts msk / max (sum_list (live_rows msk)) (1 / 10 ^ 8) / r" by (simp only: divide_divide_eq_left mult.commute)
  then show ?thesis using assms unfolding tk weights_mean_forms sequence_total_divided by (simp only: fl.inject)
next
  case True
  then have tk: "tk = True" by simp
  show ?thesis using assms unfolding tk weights_mean_forms masked_mean_divided by (simp only: fl.inject)
qed

lemma is_threshold_positive:
  assumes "parse_rollout_is_threshold spec = Inr (upper, lower)"
  shows "0 < upper \<and> (\<forall>l. lower = Some l \<longrightarrow> 0 < l \<and> l \<le> upper)"
proof -
  obtain u lo where "(if u \<le> 0 then Inl ValueError
          else case lo of None \<Rightarrow> Inr (u, None)
            | Some l \<Rightarrow> if l \<le> 0 then Inl ValueError else if l > u then Inl ValueError else Inr (u, lo)) = (Inr (upper, lower) :: (real \<times> real option) result)"
    using assms unfolding parse_rollout_is_threshold_def rbind_eq_Inr_iff by (elim exE conjE) (simp only: split_paired_all prod.case)
  then show ?thesis by (cases lo) (auto split: if_splits)
qed

lemma truncate_weight_bounds:
  assumes "parse_rollout_is_threshold spec = Inr (upper, lower)" "0 \<le> x"
  shows "0 \<le> truncate_weight upper lower x \<and> truncate_weight upper lower x \<le> upper"
    and "lower = Some l \<Longrightarrow> truncate_weight upper lower x = 0 \<or> l \<le> truncate_weight upper lower x"
    and "truncate_weight upper lower 0 = 0"
  using is_threshold_positive [OF assms(1)] assms(2) by (auto simp: truncate_weight_def split: option.splits)

definition raw_ratio :: "bool \<Rightarrow> mat \<Rightarrow> mat \<Rightarrow> nat \<Rightarrow> nat \<Rightarrow> real" where
  "raw_ratio token_level lratio msk i j = exp (safe (if token_level then lratio ! i ! j else masked_sum1 (lratio ! i) (msk ! i)))"

lemma raw_weights_cell:
  assumes "shaped n w lratio" "shaped n w msk"
  shows "shaped n w (raw_weights tk lratio msk)"
    and "\<lbrakk>i < n; j < w\<rbrakk> \<Longrightarrow> raw_weights tk lratio msk ! i ! j = raw_ratio tk lratio msk i j * msk ! i ! j"
proof -
  show "shaped n w (raw_weights tk lratio msk)"
    using assms shaped_map2d [OF assms] by (auto simp: raw_weights_def shaped_def set_zip)
  show "raw_weights tk lratio msk ! i ! j = raw_ratio tk lratio msk i j * msk ! i ! j" if "i < n" "j < w"
    using assms that shaped_nth [OF assms(1) that(1)] shaped_nth [OF assms(2) that(1)]
    by (simp add: raw_weights_def raw_ratio_def nth_map2d shaped_def)
qed

lemma sum_list_map2_nth:
  assumes "length xs = n" "length ys = n"
  shows "sum_list (map2 f xs ys) = (\<Sum>i<n. f (xs ! i) (ys ! i) :: real)"
proof -
  have "sum_list (map2 f xs ys) = (\<Sum>i = 0..<length (map2 f xs ys). map2 f xs ys ! i)" by (rule sum_list_sum_nth)
  also have "\<dots> = (\<Sum>i<n. f (xs ! i) (ys ! i))" by (rule sum.cong) (use assms in auto)
  finally show ?thesis .
qed

lemma masked_sum_cells:
  assumes "shaped n w xs" "shaped n w msk"
  shows "masked_sum xs msk = (\<Sum>i<n. \<Sum>j<w. mask_value (xs ! i ! j) (msk ! i ! j))"
proof -
  have row: "masked_sum1 r m = (\<Sum>j<w. mask_value (r ! j) (m ! j))" if "length r = w" "length m = w" for r m
    unfolding masked_sum1_def by (rule sum_list_map2_nth [OF that])
  have len: "length xs = n" "length msk = n" using assms by (simp_all add: shaped_def)
  have "masked_sum xs msk = (\<Sum>i<n. masked_sum1 (xs ! i) (msk ! i))"
    unfolding masked_sum_as_rows by (rule sum_list_map2_nth [OF len])
  also have "\<dots> = (\<Sum>i<n. \<Sum>j<w. mask_value (xs ! i ! j) (msk ! i ! j))"
    by (rule sum.cong [OF refl], rule row) (simp_all add: shaped_nth [OF assms(1)] shaped_nth [OF assms(2)])
  finally show ?thesis .
qed

text \<open>The effective sample size is infinite, and the division by zero, exactly when no valid token has a weight.\<close>

lemma masked_mean_zero_iff:
  assumes "shaped n w xs" "shaped n w msk" "\<And>i j. \<lbrakk>i < n; j < w\<rbrakk> \<Longrightarrow> 0 \<le> xs ! i ! j \<and> msk ! i ! j \<in> {0, 1}"
  shows "0 \<le> masked_mean xs msk" "masked_mean xs msk = 0 \<longleftrightarrow> (\<forall>i < n. \<forall>j < w. msk ! i ! j = 0 \<or> xs ! i ! j = 0)"
proof -
  have v: "0 \<le> mask_value (xs ! i ! j) (msk ! i ! j)"
    "mask_value (xs ! i ! j) (msk ! i ! j) = 0 \<longleftrightarrow> msk ! i ! j = 0 \<or> xs ! i ! j = 0" if "i < n" "j < w" for i j
    using assms(3) [OF that] by (auto simp: mask_value_def)
  have nn: "0 \<le> (\<Sum>j<w. mask_value (xs ! i ! j) (msk ! i ! j))" if "i < n" for i
    using v(1) [OF that] by (intro sum_nonneg) simp
  have "0 \<le> sum_list (msk ! i)" if i: "i < n" for i
  proof (rule sum_list_nonneg)
    fix x assume "x \<in> set (msk ! i)"
    then obtain j where "j < w" "x = msk ! i ! j" using shaped_nth [OF assms(2) i] by (metis in_set_conv_nth)
    then show "0 \<le> x" using assms(3) [OF i, of j] by auto
  qed
  then have "0 \<le> sum_list r" if "r \<in> set msk" for r
    using that assms(2) unfolding shaped_def in_set_conv_nth by blast
  then have "0 \<le> sum2d msk" unfolding sum2d_def by (intro sum_list_nonneg) auto
  then have d: "sum2d msk + 1 / 10 ^ 8 > 0" by (simp add: add_nonneg_pos)
  have s: "0 \<le> masked_sum xs msk" unfolding masked_sum_cells [OF assms(1,2)] by (rule sum_nonneg) (use nn in simp)
  show "0 \<le> masked_mean xs msk" unfolding masked_mean_def using s d by simp
  have "masked_sum xs msk = 0 \<longleftrightarrow> (\<forall>i < n. (\<Sum>j<w. mask_value (xs ! i ! j) (msk ! i ! j)) = 0)"
    unfolding masked_sum_cells [OF assms(1,2)] using nn by (subst sum_nonneg_eq_0_iff) auto
  also have "\<dots> \<longleftrightarrow> (\<forall>i < n. \<forall>j < w. msk ! i ! j = 0 \<or> xs ! i ! j = 0)"
  proof -
    have "(\<Sum>j<w. mask_value (xs ! i ! j) (msk ! i ! j)) = 0 \<longleftrightarrow> (\<forall>j < w. msk ! i ! j = 0 \<or> xs ! i ! j = 0)" if "i < n" for i
      using v [OF that] by (subst sum_nonneg_eq_0_iff) auto
    then show ?thesis by simp
  qed
  finally show "masked_mean xs msk = 0 \<longleftrightarrow> (\<forall>i < n. \<forall>j < w. msk ! i ! j = 0 \<or> xs ! i ! j = 0)"
    unfolding masked_mean_def using d by simp
qed

lemma shaped_all_cells:
  assumes "shaped n w xs"
  shows "(\<forall>m \<in> set (concat xs). P m) \<longleftrightarrow> (\<forall>i < n. \<forall>j < w. P (xs ! i ! j))"
proof -
  have "(\<forall>m \<in> set r. P m) \<longleftrightarrow> (\<forall>j < w. P (r ! j))" if "length r = w" for r
    using that by (auto simp: all_set_conv_all_nth)
  then show ?thesis using assms unfolding shaped_def by (auto simp: all_set_conv_all_nth)
qed

text \<open>The effective sample size.\<close>

lemma is_metrics_error:
  assumes s: "shaped n w lratio" "shaped n w msk" "shaped n w wts" "shaped n w raw"
    and b: "\<And>i j. \<lbrakk>i < n; j < w\<rbrakk> \<Longrightarrow> msk ! i ! j \<in> {0, 1} \<and> 0 \<le> wts ! i ! j \<and> wts ! i ! j \<le> upper"
    and nz: "\<not> (\<forall>m \<in> set (concat msk). m = 0)"
  shows "if \<forall>i < n. \<forall>j < w. msk ! i ! j = 0 \<or> wts ! i ! j = 0
         then compute_is_metrics wts raw lratio msk tk upper lower = Inl ZeroDivisionError
         else \<exists>ms. compute_is_metrics wts raw lratio msk tk upper lower = Inr ms"
proof -
  let ?c = "map (map (clamp 0 upper)) wts"
  define m where "m = masked_mean ?c msk"
  let ?sq = "map (map (\<lambda>x. x / (m + 1 / 10 ^ 8) * (x / (m + 1 / 10 ^ 8)))) ?c"
  have sc: "shaped n w ?c" "shaped n w ?sq" using s(3) by (auto simp: shaped_def)
  have c: "?c ! i ! j = wts ! i ! j" if "i < n" "j < w" for i j
    using b [OF that] s(3) that shaped_nth [OF s(3) that(1)] by (simp add: shaped_def clamp_def)
  have mpos: "m + 1 / 10 ^ 8 > 0"
    using masked_mean_zero_iff(1) [OF sc(1) s(2)] b c unfolding m_def by (simp add: add_nonneg_pos)
  have sq: "?sq ! i ! j = wts ! i ! j / (m + 1 / 10 ^ 8) * (wts ! i ! j / (m + 1 / 10 ^ 8))" if "i < n" "j < w" for i j
    using c [OF that] sc(1) that shaped_nth [OF sc(1) that(1)] by (simp add: shaped_def)
  have "masked_mean ?sq msk = 0 \<longleftrightarrow> (\<forall>i < n. \<forall>j < w. msk ! i ! j = 0 \<or> ?sq ! i ! j = 0)"
    by (rule masked_mean_zero_iff(2) [OF sc(2) s(2)]) (use b sq in simp)
  also have "\<dots> \<longleftrightarrow> (\<forall>i < n. \<forall>j < w. msk ! i ! j = 0 \<or> wts ! i ! j = 0)" using sq mpos by auto
  finally show ?thesis
    unfolding compute_is_metrics_def if_not_P [OF nz] Let_def m_def by simp
qed

text \<open>The weights before the normalisation, cell by cell.\<close>

definition plain_weights :: "bool \<Rightarrow> real \<Rightarrow> real option \<Rightarrow> mat \<Rightarrow> mat \<Rightarrow> mat" where
  "plain_weights tk upper lower lratio msk = map (map (truncate_weight upper lower)) (raw_weights tk lratio msk)"

definition spec_weight :: "real \<Rightarrow> real option \<Rightarrow> real \<Rightarrow> real" where
  "spec_weight upper lower ratio = (case lower of None \<Rightarrow> min upper ratio | Some l \<Rightarrow> if l \<le> ratio \<and> ratio \<le> upper then ratio else 0)"

lemma plain_weights_cell:
  assumes s: "shaped n w lratio" "shaped n w msk" and b: "\<forall>i < n. \<forall>j < w. msk ! i ! j \<in> {0, 1}"
    and p: "parse_rollout_is_threshold spec = Inr (upper, lower)"
  shows "shaped n w (plain_weights tk upper lower lratio msk)"
    and "\<lbrakk>i < n; j < w\<rbrakk> \<Longrightarrow> plain_weights tk upper lower lratio msk ! i ! j
        = (if msk ! i ! j = 0 then 0 else spec_weight upper lower (raw_ratio tk lratio msk i j))"
    and "\<lbrakk>i < n; j < w\<rbrakk> \<Longrightarrow> 0 \<le> plain_weights tk upper lower lratio msk ! i ! j \<and> plain_weights tk upper lower lratio msk ! i ! j \<le> upper
        \<and> (\<forall>l. lower = Some l \<longrightarrow> plain_weights tk upper lower lratio msk ! i ! j = 0 \<or> l \<le> plain_weights tk upper lower lratio msk ! i ! j)"
proof -
  note raw = raw_weights_cell [OF s, where tk = tk]
  show "shaped n w (plain_weights tk upper lower lratio msk)" using raw(1) by (auto simp: plain_weights_def shaped_def)
  assume ij: "i < n" "j < w"
  have cell: "plain_weights tk upper lower lratio msk ! i ! j = truncate_weight upper lower (raw_ratio tk lratio msk i j * msk ! i ! j)"
    using raw(2) [OF ij] raw(1) shaped_nth [OF raw(1) ij(1)] ij by (simp add: plain_weights_def shaped_def)
  show "plain_weights tk upper lower lratio msk ! i ! j
        = (if msk ! i ! j = 0 then 0 else spec_weight upper lower (raw_ratio tk lratio msk i j))"
  proof (cases "msk ! i ! j = 0")
    case True
    then show ?thesis using truncate_weight_bounds(3) [OF p, of 0] by (simp add: cell)
  next
    case False
    then have "msk ! i ! j = 1" using b ij by auto
    then show ?thesis by (simp add: cell truncate_weight_def spec_weight_def min.commute split: option.split)
  qed
  have "msk ! i ! j \<in> {0, 1}" using b ij by blast
  then have pos: "0 \<le> raw_ratio tk lratio msk i j * msk ! i ! j" by (auto simp: raw_ratio_def)
  show "0 \<le> plain_weights tk upper lower lratio msk ! i ! j \<and> plain_weights tk upper lower lratio msk ! i ! j \<le> upper
        \<and> (\<forall>l. lower = Some l \<longrightarrow> plain_weights tk upper lower lratio msk ! i ! j = 0 \<or> l \<le> plain_weights tk upper lower lratio msk ! i ! j)"
    unfolding cell using truncate_weight_bounds(1,2) [OF p pos] by blast
qed

definition valid_level :: "string \<Rightarrow> bool" where
  "valid_level level \<longleftrightarrow> level \<in> {''token'', ''sequence''}"

lemma weights_run:
  assumes "valid_level level" "parse_rollout_is_threshold spec = Inr (upper, lower)"
  shows "compute_rollout_correction_weights ar lratio msk level spec bn =
     rbind (compute_is_metrics (plain_weights (level = ''token'') upper lower lratio msk) (raw_weights (level = ''token'') lratio msk)
              lratio msk (level = ''token'') upper lower) (\<lambda>ms.
       let w = plain_weights (level = ''token'') upper lower lratio msk;
           oob = (case lower of None \<Rightarrow> [] | Some l \<Rightarrow>
              [(''rollout_is_oob_ratio'', masked_fraction (\<lambda>x. x < l \<or> x > upper) (raw_weights (level = ''token'') lratio msk) msk)]);
           mean = weights_mean ar (level = ''token'') w msk in
       Inr (if bn then (normalize_weights mean w,
              real_metrics (ms @ oob) @ [(''rollout_is_batch_norm_factor'', if fl_above mean (1 / 10 ^ 8) then mean else Fin 1)])
            else (w, real_metrics (ms @ oob))))"
proof -
  have lvl: "\<not> level \<notin> {''token'', ''sequence''}" using assms(1) by (simp add: valid_level_def)
  show ?thesis
    unfolding compute_rollout_correction_weights_def if_not_P [OF lvl] assms(2) rbind_Inr prod.case Let_def plain_weights_def ..
qed

lemma plain_weight_nonzero:
  assumes "parse_rollout_is_threshold spec = Inr (upper, lower)"
  shows "spec_weight upper lower (raw_ratio tk lratio msk i j) = 0
      \<longleftrightarrow> (\<exists>l. lower = Some l \<and> \<not> (l \<le> raw_ratio tk lratio msk i j \<and> raw_ratio tk lratio msk i j \<le> upper))"
proof -
  have "raw_ratio tk lratio msk i j > 0" by (simp add: raw_ratio_def)
  then show ?thesis using is_threshold_positive [OF assms] by (auto simp: spec_weight_def min_def split: option.splits)
qed

lemma is_threshold_error:
  assumes "parse_rollout_is_threshold spec = Inl e"
  shows "e = (if \<exists>b. spec = T_bool b \<or> spec = T_other then TypeError else ValueError)"
proof -
  have "(case x of (upper, lower) \<Rightarrow> if upper \<le> 0 then Inl ValueError
          else case lower of None \<Rightarrow> Inr (upper, None)
            | Some l \<Rightarrow> if l \<le> 0 then Inl ValueError else if l > upper then Inl ValueError else Inr (upper, lower))
        = (Inl e :: (real \<times> real option) result) \<Longrightarrow> e = ValueError" for x :: "real \<times> real option"
    by (auto split: prod.splits option.splits if_splits)
  then show ?thesis
    using assms unfolding parse_rollout_is_threshold_def rbind_eq_Inl_iff
    by (cases spec) (auto simp: Let_def split: if_splits option.splits prod.splits)
qed

text \<open>
  C36. How the importance weights fail: with \<open>TypeError\<close> exactly for a threshold that is a truth value or neither a number nor a
  text, with \<open>ZeroDivisionError\<close> exactly when the two-sided form (IcePop) rejects every valid token of the batch, whose
  effective sample size is then divided by, and otherwise with \<open>ValueError\<close>; every other batch gets its weights.
\<close>

theorem is_weights_errors:
  assumes s: "shaped n w lratio" "shaped n w msk" and b: "\<forall>i < n. \<forall>j < w. msk ! i ! j \<in> {0, 1}"
  shows "case compute_rollout_correction_weights ar lratio msk level spec bn of
      Inr _ \<Rightarrow> valid_level level \<and> (\<exists>upper lower. parse_rollout_is_threshold spec = Inr (upper, lower)
         \<and> (\<exists>i < n. \<exists>j < w. msk ! i ! j = 1 \<and> spec_weight upper lower (raw_ratio (level = ''token'') lratio msk i j) \<noteq> 0))
    | Inl e \<Rightarrow> (e = ZeroDivisionError \<longleftrightarrow> valid_level level \<and> (\<exists>upper l. parse_rollout_is_threshold spec = Inr (upper, Some l)
           \<and> (\<exists>i < n. \<exists>j < w. msk ! i ! j = 1)
           \<and> (\<forall>i < n. \<forall>j < w. msk ! i ! j = 1 \<longrightarrow>
                \<not> (l \<le> raw_ratio (level = ''token'') lratio msk i j \<and> raw_ratio (level = ''token'') lratio msk i j \<le> upper))))
         \<and> (e = TypeError \<longleftrightarrow> valid_level level \<and> (\<exists>b. spec = T_bool b \<or> spec = T_other))
         \<and> e \<in> {TypeError, ValueError, ZeroDivisionError}"
proof (cases "valid_level level")
  case False
  then have "compute_rollout_correction_weights ar lratio msk level spec bn = Inl ValueError"
    by (simp add: compute_rollout_correction_weights_def valid_level_def)
  then show ?thesis using False by simp
next
  case lvl: True
  show ?thesis
  proof (cases "parse_rollout_is_threshold spec")
    case (Inl e)
    then have "compute_rollout_correction_weights ar lratio msk level spec bn = Inl e"
      using lvl by (simp add: compute_rollout_correction_weights_def valid_level_def)
    then show ?thesis using lvl is_threshold_error [OF Inl] Inl by simp
  next
    case (Inr bounds)
    obtain upper lower where p: "parse_rollout_is_threshold spec = Inr (upper, lower)" using Inr by (cases bounds) simp
    have ok_type: "\<not> (\<exists>b. spec = T_bool b \<or> spec = T_other)" using p by (auto simp: parse_rollout_is_threshold_def)
    let ?tk = "level = ''token''"
    let ?wts = "plain_weights ?tk upper lower lratio msk"
    note cell = plain_weights_cell [OF s b p, where tk = ?tk]
    have anyv: "(\<forall>m \<in> set (concat msk). m = 0) \<longleftrightarrow> (\<forall>i < n. \<forall>j < w. msk ! i ! j = 0)"
      by (rule shaped_all_cells [OF s(2)])
    have one: "msk ! i ! j = 1 \<longleftrightarrow> msk ! i ! j \<noteq> 0" if "i < n" "j < w" for i j using b that by auto
    show ?thesis
    proof (cases "\<forall>m \<in> set (concat msk). m = 0")
      case True
      then have "compute_rollout_correction_weights ar lratio msk level spec bn = Inl ValueError"
        unfolding weights_run [OF lvl p] compute_is_metrics_def if_P [OF True] by simp
      moreover have "\<not> (\<exists>i < n. \<exists>j < w. msk ! i ! j = 1)" using True one unfolding anyv by auto
      ultimately show ?thesis using ok_type by auto
    next
      case False
      have zero: "(\<forall>i < n. \<forall>j < w. msk ! i ! j = 0 \<or> ?wts ! i ! j = 0)
          \<longleftrightarrow> (\<forall>i < n. \<forall>j < w. msk ! i ! j = 1 \<longrightarrow> spec_weight upper lower (raw_ratio ?tk lratio msk i j) = 0)"
        by (auto simp: cell(2) one)
      have err: "if \<forall>i < n. \<forall>j < w. msk ! i ! j = 0 \<or> ?wts ! i ! j = 0
         then compute_is_metrics ?wts (raw_weights ?tk lratio msk) lratio msk ?tk upper lower = Inl ZeroDivisionError
         else \<exists>ms. compute_is_metrics ?wts (raw_weights ?tk lratio msk) lratio msk ?tk upper lower = Inr ms"
        by (rule is_metrics_error [OF s cell(1) raw_weights_cell(1) [OF s] _ False]) (use b cell(3) in blast)
      have some: "\<exists>i < n. \<exists>j < w. msk ! i ! j = 1" using False one unfolding anyv by auto
      show ?thesis
      proof (cases "\<forall>i < n. \<forall>j < w. msk ! i ! j = 1 \<longrightarrow> spec_weight upper lower (raw_ratio ?tk lratio msk i j) = 0")
        case True
        then have "compute_rollout_correction_weights ar lratio msk level spec bn = Inl ZeroDivisionError"
          using err unfolding weights_run [OF lvl p] zero by simp
        moreover have "\<exists>l. lower = Some l \<and> (\<forall>i < n. \<forall>j < w. msk ! i ! j = 1 \<longrightarrow>
                \<not> (l \<le> raw_ratio ?tk lratio msk i j \<and> raw_ratio ?tk lratio msk i j \<le> upper))"
          using some True unfolding plain_weight_nonzero [OF p] by (cases lower) auto
        ultimately show ?thesis using lvl p some ok_type by auto
      next
        case nz: False
        then have nn: "\<not> (\<forall>i < n. \<forall>j < w. msk ! i ! j = 0 \<or> ?wts ! i ! j = 0)" unfolding zero .
        obtain ms where "compute_is_metrics ?wts (raw_weights ?tk lratio msk) lratio msk ?tk upper lower = Inr ms"
          using err unfolding if_not_P [OF nn] by (rule exE)
        then have "\<exists>r. compute_rollout_correction_weights ar lratio msk level spec bn = Inr r"
          unfolding weights_run [OF lvl p] by (simp add: Let_def)
        then obtain r where r: "compute_rollout_correction_weights ar lratio msk level spec bn = Inr r" by blast
        have ex: "\<exists>i < n. \<exists>j < w. msk ! i ! j = 1 \<and> spec_weight upper lower (raw_ratio ?tk lratio msk i j) \<noteq> 0"
          using nz by blast
        show ?thesis unfolding r sum.case by (intro conjI lvl exI [of _ upper] exI [of _ lower] p ex)
      qed
    qed
  qed
qed

text \<open>
  C38. Importance weights are bounded: padding has weight 0; truncation (TIS) gives a valid token \<open>min upper ratio\<close>, the
  two-sided form (IcePop) its ratio when that is within the bounds and 0 otherwise; so every weight lies in \<open>[0, upper]\<close>, and a
  non-zero one of the two-sided form is at least \<open>lower\<close>.  The batch normalisation makes the mean weight exactly 1.
\<close>

theorem is_weights_bounded:
  assumes s: "shaped n w lratio" "shaped n w msk" and b: "\<forall>i < n. \<forall>j < w. msk ! i ! j \<in> {0, 1}"
    and run: "compute_rollout_correction_weights None lratio msk level spec False = Inr (wts, ms)"
  shows "\<exists>upper lower. parse_rollout_is_threshold spec = Inr (upper, lower) \<and> 0 < upper \<and> shaped n w wts
      \<and> (\<forall>i < n. \<forall>j < w. wts ! i ! j = (if msk ! i ! j = 0 then 0 else spec_weight upper lower (raw_ratio (level = ''token'') lratio msk i j))
          \<and> 0 \<le> wts ! i ! j \<and> wts ! i ! j \<le> upper \<and> (\<forall>l. lower = Some l \<longrightarrow> wts ! i ! j = 0 \<or> l \<le> wts ! i ! j))
      \<and> (\<exists>wts' ms'. compute_rollout_correction_weights None lratio msk level spec True = Inr (wts', ms')
          \<and> (fl_above (weights_mean None (level = ''token'') wts msk) (1 / 10 ^ 8) \<longrightarrow>
               weights_mean None (level = ''token'') wts' msk = Fin 1))"
proof -
  let ?tk = "level = ''token''"
  have lvl: "valid_level level"
    using run by (auto simp: compute_rollout_correction_weights_def valid_level_def split: if_splits)
  obtain upper lower where p: "parse_rollout_is_threshold spec = Inr (upper, lower)"
    using run by (auto simp: compute_rollout_correction_weights_def rbind_eq_Inr_iff split: if_splits)
  let ?wts = "plain_weights ?tk upper lower lratio msk"
  obtain ms0 where ms0: "compute_is_metrics ?wts (raw_weights ?tk lratio msk) lratio msk ?tk upper lower = Inr ms0"
    and wts: "wts = ?wts"
    using run unfolding weights_run [OF lvl p] by (auto simp: rbind_eq_Inr_iff Let_def)
  note cell = plain_weights_cell [OF s b p, where tk = ?tk, folded wts]
  define mean where "mean = weights_mean None ?tk wts msk"
  obtain a where a: "mean = Fin a" by (simp add: mean_def weights_mean_def Let_def)
  have norm: "\<exists>ms'. compute_rollout_correction_weights None lratio msk level spec True = Inr (normalize_weights mean wts, ms')"
    unfolding weights_run [OF lvl p] ms0 by (simp add: Let_def mean_def wts)
  have one: "weights_mean None ?tk (normalize_weights mean wts) msk = Fin 1" if "fl_above mean (1 / 10 ^ 8)"
  proof -
    have "a \<noteq> 0" using that by (auto simp: a fl_above_def)
    then show ?thesis using that weights_mean_divided [OF mean_def [symmetric, unfolded a], of a]
      by (simp add: normalize_weights_def a)
  qed
  have up: "0 < upper" using is_threshold_positive [OF p] by blast
  have cells: "\<forall>i < n. \<forall>j < w. wts ! i ! j = (if msk ! i ! j = 0 then 0 else spec_weight upper lower (raw_ratio ?tk lratio msk i j))
          \<and> 0 \<le> wts ! i ! j \<and> wts ! i ! j \<le> upper \<and> (\<forall>l. lower = Some l \<longrightarrow> wts ! i ! j = 0 \<or> l \<le> wts ! i ! j)"
    by (intro allI impI conjI cell(2)) (use cell(3) in blast)+
  obtain ms' where ms': "compute_rollout_correction_weights None lratio msk level spec True = Inr (normalize_weights mean wts, ms')"
    using norm by blast
  show ?thesis
    by (intro exI [of _ upper] exI [of _ lower] exI [of _ "normalize_weights mean wts"] exI [of _ ms'] conjI impI p up cell(1) cells ms')
      (use one in \<open>simp add: mean_def\<close>)
qed

section \<open>Instances\<close>

theorem rejection_mask_exact_witness:
  "\<exists>mask' ms ms'. compute_rollout_rejection_mask [[0, 1]] [[1, 0]] (Some ''token_k2'') (Some (T_num 2)) = Inr (mask', ms)
     \<and> compute_rollout_rejection_mask [[0, 7]] [[1, 0]] (Some ''token_k2'') (Some (T_num 2)) = Inr (mask', ms')"
proof -
  have modes: "option_modes ''token_k2'' = [''token_k2'']" by code_simp
  have opts: "normalize_options [] [''token_k2''] = Inr [''token_k2'']" by code_simp
  have ts: "parse_rollout_rs_thresholds [''token_k2''] (Some (T_num 2)) = Inr [(''token_k2'', None, 2)]"
    by (simp add: parse_rollout_rs_thresholds_def raw_specs_def rs_entry_def is_k1_def entry_pair_def entry_float_def)
  have nz: "\<not> (\<forall>m \<in> set (concat [[1 :: real, 0]]). m = 0)" by simp
  obtain m where m: "compute_rs_metrics (''token_k2'', None, 2) [[0, 1]] [[1, 0]] = Inr m"
    unfolding compute_rs_metrics_def prod.case if_not_P [OF nz] Let_def by blast
  have "\<exists>r. compute_rollout_rejection_mask [[0, 1]] [[1, 0]] (Some ''token_k2'') (Some (T_num 2)) = Inr r"
    by (simp add: compute_rollout_rejection_mask_def modes opts ts m Let_def del: normalize_options.simps)
  then obtain mask' ms where run: "compute_rollout_rejection_mask [[0, 1]] [[1, 0]] (Some ''token_k2'') (Some (T_num 2)) = Inr (mask', ms)"
    by auto
  have "i < 1 \<Longrightarrow> j < 2 \<Longrightarrow> [[1 :: real, 0]] ! i ! j \<noteq> 0 \<Longrightarrow> [[0 :: real, 1]] ! i ! j = [[0, 7]] ! i ! j" for i j
    by (cases j) auto
  then show ?thesis using rejection_mask_exact [OF _ _ _ _ _ run, of 1 2 "[[0, 7]]"] run by (auto simp: shaped_def)
qed

theorem is_weights_errors_witness:
  "compute_rollout_correction_weights None [[1]] [[1]] ''token'' (T_str ''0.5_1'') False = Inl ZeroDivisionError"
proof -
  have p: "parse_rollout_is_threshold (T_str ''0.5_1'') = Inr (1, Some (1 / 2))"
    by (simp add: parse_rollout_is_threshold_def strip_spaces_def py_space_def split_once_def py_float_def take_sign_def is_digit_def
        exponent_def digits_value_def)
  have gt: "raw_ratio True [[1]] [[1]] 0 0 > 1" by (simp add: raw_ratio_def safe_def clamp_def masked_sum1_def)
  have zero: "spec_weight 1 (Some (1 / 2)) (raw_ratio True [[1]] [[1]] 0 0) = 0" using gt by (simp add: spec_weight_def)
  have rejected: "\<exists>upper l. parse_rollout_is_threshold (T_str ''0.5_1'') = Inr (upper, Some l)
      \<and> (\<exists>i < 1. \<exists>j < 1. [[1 :: real]] ! i ! j = 1)
      \<and> (\<forall>i < 1. \<forall>j < 1. [[1 :: real]] ! i ! j = 1 \<longrightarrow> \<not> (l \<le> raw_ratio True [[1]] [[1]] i j \<and> raw_ratio True [[1]] [[1]] i j \<le> upper))"
    by (intro exI [of _ 1] exI [of _ "1 / 2"]) (use gt in \<open>simp add: p\<close>)
  have s: "shaped 1 1 [[1]]" "\<forall>i < 1. \<forall>j < 1. [[1 :: real]] ! i ! j \<in> {0, 1}" "valid_level ''token''"
    by (simp_all add: shaped_def valid_level_def)
  note claim = is_weights_errors [OF s(1) s(1) s(2), where ar = None and level = "''token''" and spec = "T_str ''0.5_1''" and bn = False]
  show ?thesis
  proof (cases "compute_rollout_correction_weights None [[1]] [[1]] ''token'' (T_str ''0.5_1'') False")
    case (Inl e)
    show ?thesis using claim s(3) rejected unfolding Inl sum.case by simp
  next
    case (Inr r)
    show ?thesis using claim zero unfolding Inr sum.case by (simp add: p)
  qed
qed

theorem is_weights_bounded_witness:
  "\<exists>wts ms. compute_rollout_correction_weights None [[0, 5]] [[1, 0]] ''token'' (T_num 2) False = Inr (wts, ms)
     \<and> wts ! 0 ! 0 \<le> 2 \<and> wts ! 0 ! 1 = 0"
proof -
  have p: "parse_rollout_is_threshold (T_num 2) = Inr (2, None)" by (simp add: parse_rollout_is_threshold_def)
  have s: "shaped 1 2 [[0, 5]]" "shaped 1 2 [[1, 0]]" by (simp_all add: shaped_def)
  have b: "\<forall>i < 1. \<forall>j < 2. [[1 :: real, 0]] ! i ! j \<in> {0, 1}" by (auto simp: less_Suc_eq numeral_2_eq_2)
  note cell = plain_weights_cell [OF s b p, where tk = True]
  have first: "plain_weights True 2 None [[0, 5]] [[1, 0]] ! 0 ! 0 \<noteq> 0"
    using cell(2) [of 0 0] by (simp add: spec_weight_def raw_ratio_def min_def)
  have nn: "\<not> (\<forall>i < 1. \<forall>j < 2. [[1 :: real, 0]] ! i ! j = 0 \<or> plain_weights True 2 None [[0, 5]] [[1, 0]] ! i ! j = 0)"
    using first by (auto intro!: exI [of _ 0])
  have nz: "\<not> (\<forall>m \<in> set (concat [[1 :: real, 0]]). m = 0)" by simp
  have "if \<forall>i < 1. \<forall>j < 2. [[1 :: real, 0]] ! i ! j = 0 \<or> plain_weights True 2 None [[0, 5]] [[1, 0]] ! i ! j = 0
        then compute_is_metrics (plain_weights True 2 None [[0, 5]] [[1, 0]]) (raw_weights True [[0, 5]] [[1, 0]]) [[0, 5]] [[1, 0]] True 2 None = Inl ZeroDivisionError
        else \<exists>ms. compute_is_metrics (plain_weights True 2 None [[0, 5]] [[1, 0]]) (raw_weights True [[0, 5]] [[1, 0]]) [[0, 5]] [[1, 0]] True 2 None = Inr ms"
    by (rule is_metrics_error [OF s cell(1) raw_weights_cell(1) [OF s] _ nz]) (use b cell(3) in blast)
  then obtain ms0 where m: "compute_is_metrics (plain_weights True 2 None [[0, 5]] [[1, 0]]) (raw_weights True [[0, 5]] [[1, 0]]) [[0, 5]] [[1, 0]] True 2 None = Inr ms0"
    unfolding if_not_P [OF nn] by blast
  have "valid_level ''token''" by (simp add: valid_level_def)
  then have "\<exists>r. compute_rollout_correction_weights None [[0, 5]] [[1, 0]] ''token'' (T_num 2) False = Inr r"
    using m by (simp add: weights_run [OF _ p] Let_def)
  then obtain wts ms where run: "compute_rollout_correction_weights None [[0, 5]] [[1, 0]] ''token'' (T_num 2) False = Inr (wts, ms)" by auto
  show ?thesis using is_weights_bounded [OF _ _ _ run, of 1 2] run
    by (auto simp: shaped_def less_Suc_eq numeral_2_eq_2 p [unfolded numeral_2_eq_2])
qed

end
