(* ===== verification/Continuous_Token.thy ===== *)
theory Continuous_Token
  imports Prelude
begin

text \<open>
  \<open>verl/utils/tokenizer/continuous_token.py\<close>: the token stream of a conversation that grows turn by turn, and the edits of its
  masks and log-probabilities; \<open>chat_template.py\<close>: the template calls and the token runs recovered from them; the choice of
  a builder in \<open>continuous_token_wiring.py\<close>.  The tokenizer with its chat template is an argument.  The builder of
  \<open>deepseek.py\<close> is not modelled.  Tools are a parameter type, \<open>None\<close> for no tools.
\<close>

section \<open>Messages and tokenizers\<close>

text \<open>The content of a message: a text, a list of typed parts with their texts, or another value with its \<open>str\<close>.\<close>

datatype content = C_none | C_text string | C_parts "(string \<times> string) list" | C_other string

text \<open>A tool call has an id and a function name, either of which may be absent.\<close>

record message =
  m_role :: "string option"
  m_content :: content
  m_reasoning :: "string option"
  m_name :: "string option"
  m_tool_call_id :: "string option"
  m_tool_calls :: "(string option \<times> string option) list"

text \<open>\<open>processor.apply_chat_template\<close> with \<open>tokenize=True\<close>, \<open>encode\<close> and \<open>convert_tokens_to_ids\<close>.\<close>

record 't chat_tokenizer =
  ct_template :: "message list \<Rightarrow> bool \<Rightarrow> 't option \<Rightarrow> int list result"
  ct_encode :: "string \<Rightarrow> int list"
  ct_token_id :: "string \<Rightarrow> int option"
  ct_eos :: "int list"

definition plain_message :: "string \<Rightarrow> content \<Rightarrow> message" where
  "plain_message role c = \<lparr>m_role = Some role, m_content = c, m_reasoning = None, m_name = None, m_tool_call_id = None, m_tool_calls = []\<rparr>"

section \<open>Chat templates\<close>

text \<open>A template that fails is tried again behind a dummy user message.\<close>

definition dummy_user_message :: message where
  "dummy_user_message = plain_message ''user'' (C_parts [(''text'', '''')])"

definition apply_chat_template :: "'t chat_tokenizer \<Rightarrow> message list \<Rightarrow> bool \<Rightarrow> 't option \<Rightarrow> int list result" where
  "apply_chat_template tk messages gen tools =
     (case ct_template tk messages gen tools of
        Inr out \<Rightarrow> Inr out
      | Inl _ \<Rightarrow>
          rbind (ct_template tk [dummy_user_message] False tools) (\<lambda>prefix.
          rbind (ct_template tk (dummy_user_message # messages) gen tools) (\<lambda>out.
          Inr (drop (length prefix) out))))"

text \<open>\<open>xs[:e]\<close> for any integer \<open>e\<close>.\<close>

definition py_upto :: "'a list \<Rightarrow> int \<Rightarrow> 'a list" where
  "py_upto xs e = take (nat (if e < 0 then int (length xs) + e else e)) xs"

definition initialize_system_prompt :: "'t chat_tokenizer \<Rightarrow> int list result" where
  "initialize_system_prompt tk =
     (let u = plain_message ''user'' (C_text '''') in
      rbind (ct_template tk [u] False None) (\<lambda>token1.
      rbind (ct_template tk [u, u] False None) (\<lambda>token2.
      Inr (py_upto token1 (- (int (length token2) - int (length token1)))))))"

definition extract_system_prompt_and_generation :: "'t chat_tokenizer \<Rightarrow> (int list \<times> int list) result" where
  "extract_system_prompt_and_generation tk =
     (let u = plain_message ''user'' (C_text '''') in
      rbind (initialize_system_prompt tk) (\<lambda>system_prompt.
      rbind (ct_template tk [u] False None) (\<lambda>token1.
      rbind (ct_template tk [u] True None) (\<lambda>token3.
      Inr (system_prompt, drop (length token1) token3)))))"

fun common_prefix :: "'a list \<Rightarrow> 'a list \<Rightarrow> 'a list" where
  "common_prefix (x # xs) (y # ys) = (if x = y then x # common_prefix xs ys else [])"
| "common_prefix _ _ = []"

text \<open>The common trailing run of two user turns, without the closing token.\<close>

definition separator_of :: "int list \<Rightarrow> int list \<Rightarrow> int list \<Rightarrow> int list" where
  "separator_of eos blank filled =
     (let suffix = rev (common_prefix (rev blank) (rev filled)) in
      if suffix = [] then []
      else if \<exists>t \<in> set suffix. t \<in> set eos then rev (takeWhile (\<lambda>t. t \<notin> set eos) (rev suffix))
      else tl suffix)"

definition initialize_turn_separator :: "'t chat_tokenizer \<Rightarrow> int list" where
  "initialize_turn_separator tk =
     (let probe = (\<lambda>c1 c2. rbind (ct_template tk [plain_message ''user'' c1] False None) (\<lambda>blank.
                           rbind (ct_template tk [plain_message ''user'' c2] False None) (\<lambda>filled. Inr (blank, filled)))) in
      case probe (C_text '''') (C_text ''x'') of
        Inr (blank, filled) \<Rightarrow> separator_of (ct_eos tk) blank filled
      | Inl _ \<Rightarrow> (case probe (C_parts [(''text'', '''')]) (C_parts [(''text'', ''x'')]) of
          Inr (blank, filled) \<Rightarrow> separator_of (ct_eos tk) blank filled
        | Inl _ \<Rightarrow> []))"

section \<open>Builders\<close>

record merge_result =
  mr_tokens :: "int list"
  mr_appended :: nat
  mr_assistant :: bool
  mr_inserted :: "int list"
  mr_removed :: nat

text \<open>The classes, with the token ids their constructors look up.\<close>

datatype builder =
    Default_builder
  | Gpt_oss
  | Qwen int int
  | Mini_max int int
  | Glm int int
  | Gemma4 int

definition SUPPORTED_APPEND_ROLES :: "string list" where
  "SUPPORTED_APPEND_ROLES = [''tool'', ''user'', ''system'']"

definition synthetic_system :: message where
  "synthetic_system = plain_message ''system'' (C_text ''continuous token synthetic system'')"

definition synthetic_user :: message where
  "synthetic_user = plain_message ''user'' (C_text ''continuous token synthetic user'')"

definition render_tokens :: "'t chat_tokenizer \<Rightarrow> message list \<Rightarrow> bool \<Rightarrow> 't option \<Rightarrow> int list result" where
  "render_tokens = apply_chat_template"

definition build_initial_tokens :: "'t chat_tokenizer \<Rightarrow> message list \<Rightarrow> 't option \<Rightarrow> int list result" where
  "build_initial_tokens tk messages tools = render_tokens tk messages True tools"

definition render_delta_token_id ::
  "'t chat_tokenizer \<Rightarrow> message list \<Rightarrow> message list \<Rightarrow> bool \<Rightarrow> 't option \<Rightarrow> int list result" where
  "render_delta_token_id tk prefix appended gen tools =
     rbind (render_tokens tk prefix False tools) (\<lambda>p.
     rbind (render_tokens tk (prefix @ appended) gen tools) (\<lambda>f.
     if take (length p) f \<noteq> p then Inl ValueError else Inr (drop (length p) f)))"

definition is_tool :: "message \<Rightarrow> bool" where
  "is_tool m = (m_role m = Some ''tool'')"

text \<open>Consecutive tool messages form a group, every other message one of its own.\<close>

function iter_append_groups :: "message list \<Rightarrow> message list list" where
  "iter_append_groups [] = []"
| "iter_append_groups (m # ms) =
     (if is_tool m then (m # takeWhile is_tool ms) # iter_append_groups (dropWhile is_tool ms)
      else [m] # iter_append_groups ms)"
  by pat_completeness auto
termination
  by (relation "measure length") (auto simp: le_imp_less_Suc length_dropWhile_le)

definition assert_append_only :: "string list \<Rightarrow> message list \<Rightarrow> message list \<Rightarrow> unit result" where
  "assert_append_only allowed previous updated =
     (if length updated < length previous then Inl ValueError
      else if take (length previous) updated \<noteq> previous then Inl ValueError
      else if \<exists>m \<in> set (drop (length previous) updated). (case m_role m of None \<Rightarrow> True | Some r \<Rightarrow> r \<notin> set allowed) then Inl ValueError
      else Inr ())"

definition truthy :: "string option \<Rightarrow> bool" where
  "truthy x = (x \<noteq> None \<and> x \<noteq> Some [])"

fun nat_string :: "nat \<Rightarrow> string" where
  "nat_string n = (if n < 10 then [char_of (48 + n)] else nat_string (n div 10) @ [char_of (48 + n mod 10)])"

definition tool_call_id_or_dummy :: "message \<Rightarrow> nat \<Rightarrow> string" where
  "tool_call_id_or_dummy m index = (case m_tool_call_id m of Some i \<Rightarrow> i | None \<Rightarrow> ''continuous_token_call_'' @ nat_string index)"

definition tool_message_name_or_dummy :: "message \<Rightarrow> string" where
  "tool_message_name_or_dummy m = (if truthy (m_name m) then the (m_name m) else ''continuous_token_tool'')"

definition synthetic_assistant_for_tools :: "message list \<Rightarrow> message" where
  "synthetic_assistant_for_tools tool_messages =
     \<lparr>m_role = Some ''assistant'', m_content = C_text '''', m_reasoning = Some ''reasoning'', m_name = None, m_tool_call_id = None,
      m_tool_calls = map (\<lambda>(i, m). (Some (tool_call_id_or_dummy m i), Some (tool_message_name_or_dummy m))) (enumerate 0 tool_messages)\<rparr>"

text \<open>The names of the latest assistant message's tool calls; the first call with an id decides its name.\<close>

definition latest_assistant_tool_call_names :: "message list \<Rightarrow> (string \<times> string) list \<times> string option list" where
  "latest_assistant_tool_call_names messages =
     (case filter (\<lambda>m. m_role m = Some ''assistant'') (rev messages) of
        [] \<Rightarrow> ([], [])
      | m # _ \<Rightarrow> (List.map_filter (\<lambda>(i, n). case (i, n) of (Some i, Some n) \<Rightarrow> Some (i, n) | _ \<Rightarrow> None) (m_tool_calls m),
                  map snd (m_tool_calls m)))"

definition resolve_required_tool_name :: "message \<Rightarrow> nat \<Rightarrow> message list \<Rightarrow> message list \<Rightarrow> string result" where
  "resolve_required_tool_name m index tool_messages previous =
     (if truthy (m_name m) then Inr (the (m_name m))
      else let (by_id, positional) = latest_assistant_tool_call_names previous in
        case (case m_tool_call_id m of None \<Rightarrow> None | Some i \<Rightarrow> map_of by_id i) of
          Some n \<Rightarrow> Inr n
        | None \<Rightarrow>
            if length tool_messages \<noteq> length positional then Inl ValueError
            else if index \<ge> length positional then Inl ValueError
            else (case positional ! index of None \<Rightarrow> Inl ValueError | Some n \<Rightarrow> Inr n))"

definition stringify_tool_content :: "content \<Rightarrow> string" where
  "stringify_tool_content c = (case c of
       C_none \<Rightarrow> '''' | C_text s \<Rightarrow> s
     | C_parts ps \<Rightarrow> concat (map snd (filter (\<lambda>(ty, _). ty = ''text'') ps))
     | C_other s \<Rightarrow> s)"

definition gpt_oss_tool_response :: "string \<Rightarrow> message \<Rightarrow> string" where
  "gpt_oss_tool_response name m =
     ''<|start|>functions.'' @ name @ '' to=assistant<|channel|>commentary<|message|>'' @ stringify_tool_content (m_content m) @ ''<|end|>''"

definition quote_mark :: string where
  "quote_mark = ''<|'' @ [CHR 0x22] @ ''|>''"

definition gemma4_tool_response :: "string \<Rightarrow> message \<Rightarrow> string" where
  "gemma4_tool_response name m =
     ''<|tool_response>response:'' @ name @ ''{value:'' @ quote_mark @ stringify_tool_content (m_content m) @ quote_mark @ ''}<tool_response|>''"

definition tool_texts :: "(string \<Rightarrow> message \<Rightarrow> string) \<Rightarrow> message list \<Rightarrow> message list \<Rightarrow> string result" where
  "tool_texts fmt tool_messages previous =
     rbind (map_r (\<lambda>(i, m). rbind (resolve_required_tool_name m i tool_messages previous) (\<lambda>n. Inr (fmt n m))) (enumerate 0 tool_messages)) (\<lambda>ts.
     Inr (concat ts))"

definition tokenize_tool_group ::
  "builder \<Rightarrow> 't chat_tokenizer \<Rightarrow> message list \<Rightarrow> message list \<Rightarrow> 't option \<Rightarrow> int list result" where
  "tokenize_tool_group b tk tool_messages previous tools = (case b of
       Gpt_oss \<Rightarrow> rbind (tool_texts gpt_oss_tool_response tool_messages previous) (\<lambda>s. Inr (ct_encode tk s))
     | Gemma4 _ \<Rightarrow> rbind (tool_texts gemma4_tool_response tool_messages previous) (\<lambda>s. Inr (ct_encode tk s))
     | _ \<Rightarrow> render_delta_token_id tk [synthetic_system, synthetic_user, synthetic_assistant_for_tools tool_messages] tool_messages False tools)"

definition tokenize_single_non_tool :: "'t chat_tokenizer \<Rightarrow> message \<Rightarrow> 't option \<Rightarrow> int list result" where
  "tokenize_single_non_tool tk m tools = render_delta_token_id tk [synthetic_system, synthetic_user] [m] False tools"

definition tokenize_generation_prompt_delta ::
  "builder \<Rightarrow> 't chat_tokenizer \<Rightarrow> message list \<Rightarrow> 't option \<Rightarrow> int list result" where
  "tokenize_generation_prompt_delta b tk updated tools = (case b of
       Gemma4 _ \<Rightarrow>
         (if updated = [] then Inl IndexError
          else if m_role (last updated) \<notin> {Some ''user'', Some ''system''} then Inr []
          else render_delta_token_id tk [synthetic_system, synthetic_user, last updated] [] True tools)
     | _ \<Rightarrow> render_delta_token_id tk updated [] True tools)"

definition tokenize_group ::
  "builder \<Rightarrow> 't chat_tokenizer \<Rightarrow> message list \<Rightarrow> 't option \<Rightarrow> message list \<Rightarrow> int list result" where
  "tokenize_group b tk previous tools g =
     (case m_role (hd g) of
        None \<Rightarrow> Inl ValueError
      | Some r \<Rightarrow>
          if r = ''tool'' then tokenize_tool_group b tk g previous tools
          else if r \<in> {''user'', ''system''} then
            (if length g \<noteq> 1 then Inl ValueError else tokenize_single_non_tool tk (hd g) tools)
          else Inl ValueError)"

definition tokenize_non_assistant_incremental_messages ::
  "builder \<Rightarrow> string list \<Rightarrow> 't chat_tokenizer \<Rightarrow> message list \<Rightarrow> message list \<Rightarrow> 't option \<Rightarrow> int list result" where
  "tokenize_non_assistant_incremental_messages b allowed tk previous updated tools =
     rbind (assert_append_only allowed previous updated) (\<lambda>_.
     let appended = drop (length previous) updated in
     if appended = [] then Inr []
     else
       rbind (map_r (tokenize_group b tk previous tools) (iter_append_groups appended)) (\<lambda>ids.
       rbind (tokenize_generation_prompt_delta b tk updated tools) (\<lambda>gen.
       Inr (concat ids @ gen))))"

text \<open>How the classes join the runtime tokens and the appended ones.\<close>

definition merge_non_assistant_token_ids :: "builder \<Rightarrow> int list \<Rightarrow> int list \<Rightarrow> merge_result" where
  "merge_non_assistant_token_ids b runtime appended =
     (let joined = (\<lambda>pre ins rem. \<lparr>mr_tokens = pre @ appended, mr_appended = length appended, mr_assistant = False, mr_inserted = ins, mr_removed = rem\<rparr>) in
      case b of
        Qwen newline im_end \<Rightarrow> if runtime \<noteq> [] \<and> last runtime = im_end then joined (runtime @ [newline]) [newline] 0 else joined runtime [] 0
      | Mini_max newline eos \<Rightarrow> if runtime \<noteq> [] \<and> last runtime = eos then joined (runtime @ [newline]) [newline] 0 else joined runtime [] 0
      | Glm observation user \<Rightarrow> if runtime \<noteq> [] \<and> last runtime \<in> {observation, user} then joined (butlast runtime) [] 1 else joined runtime [] 0
      | _ \<Rightarrow> joined runtime [] 0)"

definition merge_non_assistant_tokens ::
  "builder \<Rightarrow> string list \<Rightarrow> 't chat_tokenizer \<Rightarrow> message list \<Rightarrow> message list \<Rightarrow> int list \<Rightarrow> 't option \<Rightarrow> merge_result result" where
  "merge_non_assistant_tokens b allowed tk previous updated runtime tools =
     rbind (tokenize_non_assistant_incremental_messages b allowed tk previous updated tools) (\<lambda>appended.
     case b of
       Gemma4 response_id \<Rightarrow>
         (let add = drop (length previous) updated \<noteq> [] \<and> \<not> (runtime \<noteq> [] \<and> last runtime = response_id) in
          Inr \<lparr>mr_tokens = (if add then runtime @ [response_id] else runtime) @ appended, mr_appended = length appended, mr_assistant = False,
               mr_inserted = (if add then [response_id] else []), mr_removed = 0\<rparr>)
     | _ \<Rightarrow> Inr (merge_non_assistant_token_ids b runtime appended))"

definition merge_assistant_tokens :: "int list \<Rightarrow> int list \<Rightarrow> merge_result" where
  "merge_assistant_tokens runtime assistant =
     \<lparr>mr_tokens = runtime @ assistant, mr_appended = length assistant, mr_assistant = True, mr_inserted = [], mr_removed = 0\<rparr>"

section \<open>Masks and log-probabilities\<close>

definition align_response_metadata ::
  "merge_result \<Rightarrow> int list \<Rightarrow> real list option \<Rightarrow> real list option \<Rightarrow> (int list \<times> real list option) result" where
  "align_response_metadata r response_mask response_logprobs assistant_logprobs =
     (if response_logprobs = None \<and> assistant_logprobs \<noteq> None then Inl ValueError
      else
        let trim = (\<lambda>n. n - mr_removed r);
            mask = take (trim (length response_mask)) response_mask @ replicate (length (mr_inserted r)) 0;
            lps = map_option (\<lambda>l. take (trim (length l)) l @ replicate (length (mr_inserted r)) 0) response_logprobs in
        if mr_assistant r then
          (case lps of
             None \<Rightarrow> Inr (mask @ replicate (mr_appended r) 1, None)
           | Some l \<Rightarrow>
               if assistant_logprobs = None \<and> mr_appended r > 0 then Inl ValueError
               else
                 let new = (case assistant_logprobs of None \<Rightarrow> [] | Some a \<Rightarrow> a) in
                 if length new \<noteq> mr_appended r then Inl ValueError
                 else Inr (mask @ replicate (mr_appended r) 1, Some (l @ new)))
        else Inr (mask @ replicate (mr_appended r) 0, map_option (\<lambda>l. l @ replicate (mr_appended r) 0) lps))"

section \<open>Choosing a builder\<close>

definition require_token_id :: "'t chat_tokenizer \<Rightarrow> string \<Rightarrow> int result" where
  "require_token_id tk token = (case ct_token_id tk token of None \<Rightarrow> Inl ValueError | Some i \<Rightarrow> if i < 0 then Inl ValueError else Inr i)"

definition newline_id :: "'t chat_tokenizer \<Rightarrow> int result" where
  "newline_id tk = (case ct_encode tk [CHR 0x0A] of [i] \<Rightarrow> Inr i | _ \<Rightarrow> Inl ValueError)"

datatype family =
  FAuto | FDefault | FQwen | FQwen25 | FQwen3 | FQwen35 | FMinimax | FMinimax_m2 | FMinimax_m25 | FMinimax_m27 | FGlm47 | FGlm5 | FGemma4 | FGptoss | FDeepseek_v4

definition lower_char :: "char \<Rightarrow> char" where
  "lower_char c = (let n = (of_char c :: nat) in if 65 \<le> n \<and> n \<le> 90 then char_of (n + 32) else c)"

fun has_substring :: "string \<Rightarrow> string \<Rightarrow> bool" where
  "has_substring p [] = (p = [])"
| "has_substring p (c # cs) = (take (length p) (c # cs) = p \<or> has_substring p cs)"

definition compact :: "string \<Rightarrow> string" where
  "compact s = filter (\<lambda>c. let n = (of_char c :: nat) in (97 \<le> n \<and> n \<le> 122) \<or> (48 \<le> n \<and> n \<le> 57)) s"

fun join_with :: "string \<Rightarrow> string list \<Rightarrow> string" where
  "join_with sep [] = []"
| "join_with sep [x] = x"
| "join_with sep (x # xs) = x @ sep @ join_with sep xs"

text \<open>A family is named by its value, whatever its case, spaces and punctuation.\<close>

definition family_values :: "(string \<times> family) list" where
  "family_values = [(''auto'', FAuto), (''default'', FDefault), (''qwen'', FQwen), (''qwen25'', FQwen25), (''qwen3'', FQwen3), (''qwen35'', FQwen35),
     (''minimax'', FMinimax), (''minimaxm2'', FMinimax_m2), (''minimaxm25'', FMinimax_m25), (''minimaxm27'', FMinimax_m27),
     (''glm47'', FGlm47), (''glm5'', FGlm5), (''gemma4'', FGemma4), (''gptoss'', FGptoss), (''deepseekv4'', FDeepseek_v4)]"

definition normalize_model_family :: "string \<Rightarrow> family result" where
  "normalize_model_family s = (case map_of family_values (compact (map lower_char s)) of None \<Rightarrow> Inl ValueError | Some f \<Rightarrow> Inr f)"

definition infer_continuous_token_model_family :: "string option list \<Rightarrow> family" where
  "infer_continuous_token_model_family candidates =
     (let hay = join_with '' '' (map (\<lambda>c. map lower_char (the c)) (filter truthy candidates)); com = compact hay;
          any = (\<lambda>ps s. \<exists>p \<in> set ps. has_substring p s) in
      if any [''glm-5'', ''glm_5''] hay \<or> any [''glm5''] com then FGlm5
      else if any [''glm-4.7'', ''glm_4.7'', ''glm4.7''] hay \<or> any [''glm47''] com then FGlm47
      else if any [''gemma-4'', ''gemma_4''] hay \<or> any [''gemma4'', ''gemma4unified''] com then FGemma4
      else if any [''gpt-oss'', ''gpt_oss''] hay \<or> any [''gptoss''] com then FGptoss
      else if any [''deepseekv4'', ''dsv4''] com then FDeepseek_v4
      else if any [''minimaxm27''] com then FMinimax_m27
      else if any [''minimaxm25''] com then FMinimax_m25
      else if any [''minimaxm2''] com then FMinimax_m2
      else if any [''minimax''] com then FMinimax
      else if any [''qwen3.5'', ''qwen3_5'', ''qwen3-5''] hay \<or> any [''qwen35''] com then FQwen35
      else if any [''qwen2.5'', ''qwen2_5'', ''qwen2-5''] hay \<or> any [''qwen25''] com then FQwen25
      else if any [''qwen3''] com then FQwen3
      else FDefault)"

text \<open>The registered class of a family, built; \<open>None\<close> for the one that is not modelled.\<close>

definition make_builder :: "'t chat_tokenizer \<Rightarrow> family \<Rightarrow> builder option result" where
  "make_builder tk f =
     (let qwen = rbind (newline_id tk) (\<lambda>n. rbind (require_token_id tk ''<|im_end|>'') (\<lambda>e. Inr (Some (Qwen n e))));
          minimax = rbind (newline_id tk) (\<lambda>n. rbind (require_token_id tk ''[e~['') (\<lambda>e. Inr (Some (Mini_max n e))));
          glm = rbind (require_token_id tk ''<|observation|>'') (\<lambda>ob. rbind (require_token_id tk ''<|user|>'') (\<lambda>u. Inr (Some (Glm ob u)))) in
      case f of
        FAuto \<Rightarrow> Inl ValueError
      | FDefault \<Rightarrow> Inr (Some Default_builder)
      | FQwen \<Rightarrow> qwen | FQwen25 \<Rightarrow> qwen | FQwen3 \<Rightarrow> qwen | FQwen35 \<Rightarrow> qwen
      | FMinimax \<Rightarrow> minimax | FMinimax_m2 \<Rightarrow> minimax | FMinimax_m25 \<Rightarrow> minimax | FMinimax_m27 \<Rightarrow> minimax
      | FGlm47 \<Rightarrow> glm | FGlm5 \<Rightarrow> glm
      | FGemma4 \<Rightarrow> rbind (require_token_id tk ''<|tool_response>'') (\<lambda>i. Inr (Some (Gemma4 i)))
      | FGptoss \<Rightarrow> Inr (Some Gpt_oss)
      | FDeepseek_v4 \<Rightarrow> Inr None)"

definition resolve_continuous_token_model_family :: "string \<Rightarrow> string option list \<Rightarrow> family result" where
  "resolve_continuous_token_model_family s candidates =
     rbind (normalize_model_family s) (\<lambda>f. Inr (if f = FAuto then infer_continuous_token_model_family candidates else f))"

definition create_continuous_token_builder :: "'t chat_tokenizer \<Rightarrow> string \<Rightarrow> string option list \<Rightarrow> builder option result" where
  "create_continuous_token_builder tk s candidates = rbind (resolve_continuous_token_model_family s candidates) (make_builder tk)"

section \<open>Merging is rendering\<close>

text \<open>
  A template that renders turn by turn: a head, then the messages one after the other, then the generation prompt.
\<close>

definition turnwise :: "'t chat_tokenizer \<Rightarrow> 't option \<Rightarrow> int list \<Rightarrow> (message \<Rightarrow> int list) \<Rightarrow> int list \<Rightarrow> bool" where
  "turnwise tk tools start seg gp \<longleftrightarrow>
     (\<forall>ms gen. ct_template tk ms gen tools = Inr (start @ concat (map seg ms) @ (if gen then gp else [])))"

lemma turnwise_render: "turnwise tk tools start seg gp \<Longrightarrow> render_tokens tk ms gen tools = Inr (start @ concat (map seg ms) @ (if gen then gp else []))"
  by (simp add: render_tokens_def apply_chat_template_def turnwise_def)

lemma turnwise_delta:
  assumes "turnwise tk tools start seg gp"
  shows "render_delta_token_id tk prefix appended gen tools = Inr (concat (map seg appended) @ (if gen then gp else []))"
  by (simp add: render_delta_token_id_def turnwise_render [OF assms])

definition by_template :: "builder \<Rightarrow> bool" where
  "by_template b = (case b of Gpt_oss \<Rightarrow> False | Gemma4 _ \<Rightarrow> False | _ \<Rightarrow> True)"

lemma turnwise_group:
  assumes "turnwise tk tools start seg gp" "by_template b" "g \<noteq> []"
    and "\<And>m. m \<in> set g \<Longrightarrow> m_role m \<in> {Some ''tool'', Some ''user'', Some ''system''}" "\<not> is_tool (hd g) \<Longrightarrow> length g = 1"
  shows "tokenize_group b tk previous tools g = Inr (concat (map seg g))"
proof -
  obtain m ms where g: "g = m # ms" using assms(3) by (cases g) auto
  have r: "m_role m \<in> {Some ''tool'', Some ''user'', Some ''system''}" using assms(4) by (simp add: g)
  show ?thesis
  proof (cases "is_tool m")
    case True
    then show ?thesis
      using assms(2) by (cases b) (simp_all add: g tokenize_group_def is_tool_def tokenize_tool_group_def by_template_def turnwise_delta [OF assms(1)])
  next
    case False
    then have "ms = []" using assms(5) by (simp add: g)
    then show ?thesis using r False
      by (auto simp: g tokenize_group_def is_tool_def tokenize_single_non_tool_def turnwise_delta [OF assms(1)])
  qed
qed

lemma append_groups_shape:
  "g \<in> set (iter_append_groups ms) \<Longrightarrow> g \<noteq> [] \<and> set g \<subseteq> set ms \<and> (\<not> is_tool (hd g) \<longrightarrow> length g = 1)"
proof (induction ms rule: iter_append_groups.induct)
  case (2 m ms)
  have "set (takeWhile is_tool ms) \<subseteq> set ms" "set (dropWhile is_tool ms) \<subseteq> set ms"
    by (auto dest: set_takeWhileD set_dropWhileD)
  then show ?case using 2 by (cases "is_tool m") auto
qed simp

lemma concat_append_groups: "concat (iter_append_groups ms) = ms"
  by (induction ms rule: iter_append_groups.induct) auto

lemma turnwise_incremental:
  assumes t: "turnwise tk tools start seg gp" and b: "by_template b"
    and r: "\<And>m. m \<in> set appended \<Longrightarrow> m_role m \<in> {Some ''tool'', Some ''user'', Some ''system''} \<and> m_role m \<in> Some ` set allowed"
    and ne: "appended \<noteq> []"
  shows "tokenize_non_assistant_incremental_messages b allowed tk previous (previous @ appended) tools
       = Inr (concat (map seg appended) @ gp)"
proof -
  have ok: "assert_append_only allowed previous (previous @ appended) = Inr ()"
    using r by (fastforce simp: assert_append_only_def split: option.splits)
  have groups: "map_r (tokenize_group b tk previous tools) (iter_append_groups appended)
      = Inr (map (\<lambda>g. concat (map seg g)) (iter_append_groups appended))"
  proof (rule map_r_Inr)
    fix g assume "g \<in> set (iter_append_groups appended)"
    then have "g \<noteq> [] \<and> set g \<subseteq> set appended \<and> (\<not> is_tool (hd g) \<longrightarrow> length g = 1)" by (rule append_groups_shape)
    then show "tokenize_group b tk previous tools g = Inr (concat (map seg g))"
      using r by (intro turnwise_group [OF t b]) blast+
  qed
  have "concat (map (\<lambda>g. concat (map seg g)) gs) = concat (map seg (concat gs))" for gs by (induction gs) auto
  then have "concat (map (\<lambda>g. concat (map seg g)) (iter_append_groups appended)) = concat (map seg appended)"
    by (simp add: concat_append_groups)
  moreover have "tokenize_generation_prompt_delta b tk (previous @ appended) tools = Inr gp"
    using b by (cases b) (simp_all add: tokenize_generation_prompt_delta_def by_template_def turnwise_delta [OF t])
  ultimately show ?thesis using ne by (simp add: tokenize_non_assistant_incremental_messages_def ok groups Let_def)
qed

text \<open>
  Where the model may stop: at the end of the rendered turn, or, for the classes with a boundary token, just before the
  newline that the template puts behind the closing token, or behind the stop token that opens the next turn.
\<close>

definition stopped_at :: "builder \<Rightarrow> int list \<Rightarrow> int list \<Rightarrow> bool" where
  "stopped_at b rendered runtime = (case b of
       Qwen newline im_end \<Rightarrow> if runtime \<noteq> [] \<and> last runtime = im_end then rendered = runtime @ [newline] else rendered = runtime
     | Mini_max newline eos \<Rightarrow> if runtime \<noteq> [] \<and> last runtime = eos then rendered = runtime @ [newline] else rendered = runtime
     | Glm observation user \<Rightarrow> if runtime \<noteq> [] \<and> last runtime \<in> {observation, user} then runtime = rendered @ [last runtime] else rendered = runtime
     | _ \<Rightarrow> rendered = runtime)"

lemma butlast_of_last: "xs = ys @ [last xs] \<Longrightarrow> butlast xs = ys"
  by (metis butlast_snoc)

text \<open>
  C32. Continuous tokens are the rendered conversation: with a template that renders turn by turn, merging any sequence of
  tool, user and system messages into the runtime tokens gives exactly the tokens of the whole updated conversation with the
  generation prompt, although only synthetic conversations are rendered and the boundary token may be missing or doubled.
\<close>

theorem merge_is_render:
  assumes "turnwise tk tools start seg gp" "by_template b" "appended \<noteq> []"
    and "\<And>m. m \<in> set appended \<Longrightarrow> m_role m \<in> {Some ''tool'', Some ''user'', Some ''system''} \<and> m_role m \<in> Some ` set allowed"
    and "render_tokens tk previous False tools = Inr rendered" "stopped_at b rendered runtime"
  shows "\<exists>r. merge_non_assistant_tokens b allowed tk previous (previous @ appended) runtime tools = Inr r
      \<and> render_tokens tk (previous @ appended) True tools = Inr (mr_tokens r)"
proof -
  have inc: "tokenize_non_assistant_incremental_messages b allowed tk previous (previous @ appended) tools
      = Inr (concat (map seg appended) @ gp)"
    by (rule turnwise_incremental) (use assms(1-4) in blast)+
  have r: "rendered = start @ concat (map seg previous)" using assms(5) by (simp add: turnwise_render [OF assms(1)])
  have full: "render_tokens tk (previous @ appended) True tools = Inr (rendered @ concat (map seg appended) @ gp)"
    by (simp add: turnwise_render [OF assms(1)] r)
  have "mr_tokens (merge_non_assistant_token_ids b runtime (concat (map seg appended) @ gp)) = rendered @ concat (map seg appended) @ gp"
    using assms(2,6) by (cases b) (auto simp: merge_non_assistant_token_ids_def stopped_at_def by_template_def Let_def butlast_of_last)
  moreover have "merge_non_assistant_tokens b allowed tk previous (previous @ appended) runtime tools
      = Inr (merge_non_assistant_token_ids b runtime (concat (map seg appended) @ gp))"
    using inc assms(2) by (cases b) (simp_all add: merge_non_assistant_tokens_def by_template_def)
  ultimately show ?thesis using full by simp
qed

section \<open>Metadata follows the tokens\<close>

lemma merge_shape:
  assumes "merge_non_assistant_tokens b allowed tk previous updated runtime tools = Inr r"
  shows "\<exists>appended. length appended = mr_appended r \<and> \<not> mr_assistant r \<and> mr_removed r \<le> length runtime
      \<and> mr_tokens r = take (length runtime - mr_removed r) runtime @ mr_inserted r @ appended"
proof -
  obtain appended where "(case b of
       Gemma4 response_id \<Rightarrow>
         (let add = drop (length previous) updated \<noteq> [] \<and> \<not> (runtime \<noteq> [] \<and> last runtime = response_id) in
          Inr \<lparr>mr_tokens = (if add then runtime @ [response_id] else runtime) @ appended, mr_appended = length appended, mr_assistant = False,
               mr_inserted = (if add then [response_id] else []), mr_removed = 0\<rparr>)
     | _ \<Rightarrow> Inr (merge_non_assistant_token_ids b runtime appended)) = (Inr r :: merge_result result)"
    using assms unfolding merge_non_assistant_tokens_def rbind_eq_Inr_iff by blast
  then show ?thesis
    by (intro exI [of _ appended], cases b)
      (auto simp: merge_non_assistant_token_ids_def Let_def butlast_conv_take Suc_le_eq split: if_splits)
qed

text \<open>
  C33. The response metadata follow the token stream: a merge drops the last tokens of the runtime stream, at most the stale
  boundary token, and appends a tail; the mask and the log-probabilities lose the same number of entries and gain one entry
  per token of the tail, 1 and the model's own log-probability for a generated token, 0 for every other one.
\<close>

theorem metadata_follows_tokens:
  assumes "r = merge_assistant_tokens runtime generated \<or> merge_non_assistant_tokens b allowed tk previous updated runtime tools = Inr r"
    and "align_response_metadata r msk lps alps = Inr (mask', lps')" "mr_removed r \<le> length msk"
    and "\<And>l. lps = Some l \<Longrightarrow> length l = length msk"
  shows "\<exists>tail flags. mr_tokens r = take (length runtime - mr_removed r) runtime @ tail
      \<and> mask' = take (length msk - mr_removed r) msk @ flags \<and> length flags = length tail
      \<and> set flags \<subseteq> {if mr_assistant r then 1 else 0}
      \<and> (case lps of None \<Rightarrow> lps' = None
         | Some l \<Rightarrow> \<exists>vals. lps' = Some (take (length msk - mr_removed r) l @ vals) \<and> length vals = length tail
             \<and> (if mr_assistant r then vals = (case alps of None \<Rightarrow> [] | Some a \<Rightarrow> a) else set vals \<subseteq> {0}))"
proof -
  obtain appended where r: "length appended = mr_appended r" "mr_assistant r \<Longrightarrow> mr_inserted r = []"
    "mr_tokens r = take (length runtime - mr_removed r) runtime @ mr_inserted r @ appended"
    using assms(1)
  proof
    assume "r = merge_assistant_tokens runtime generated"
    then show thesis using that [of generated] by (simp add: merge_assistant_tokens_def)
  next
    assume "merge_non_assistant_tokens b allowed tk previous updated runtime tools = Inr r"
    then show thesis using that merge_shape by blast
  qed
  let ?tail = "mr_inserted r @ appended"
  show ?thesis
  proof (cases "mr_assistant r")
    case True
    let ?flags = "replicate (mr_appended r) (1 :: int)"
    have m: "mask' = take (length msk - mr_removed r) msk @ ?flags"
      using assms(2) True r(2) by (auto simp: align_response_metadata_def Let_def split: if_splits option.splits)
    have l: "case lps of None \<Rightarrow> lps' = None
         | Some l \<Rightarrow> lps' = Some (take (length msk - mr_removed r) l @ (case alps of None \<Rightarrow> [] | Some a \<Rightarrow> a))
             \<and> length (case alps of None \<Rightarrow> [] | Some a \<Rightarrow> a) = mr_appended r"
      using assms(2,4) True r(2) by (auto simp: align_response_metadata_def Let_def split: if_splits option.splits)
    show ?thesis
      by (intro exI [of _ ?tail] exI [of _ ?flags]) (use m l r True in \<open>auto split: option.splits\<close>)
  next
    case False
    let ?flags = "replicate (length ?tail) (0 :: int)"
    have m: "mask' = take (length msk - mr_removed r) msk @ ?flags"
      using assms(2) False r(1) by (auto simp: align_response_metadata_def Let_def replicate_add split: if_splits option.splits)
    have l: "case lps of None \<Rightarrow> lps' = None
         | Some l \<Rightarrow> lps' = Some (take (length msk - mr_removed r) l @ replicate (length ?tail) 0)"
      using assms(2,4) False r(1) by (auto simp: align_response_metadata_def Let_def replicate_add split: if_splits option.splits)
    show ?thesis
      by (intro exI [of _ ?tail] exI [of _ ?flags]) (use m l r False in \<open>auto split: option.splits\<close>)
  qed
qed

section \<open>The turn separator\<close>

lemma common_prefix_append: "common_prefix (zs @ xs) (zs @ ys) = zs @ common_prefix xs ys"
  by (induction zs) auto

text \<open>
  When the template closes a turn with an end token and a separator, and the tokens before the end token differ, the probe
  recovers exactly the separator.
\<close>

lemma separator_recovered:
  assumes "close \<in> set eos" "\<And>t. t \<in> set sep \<Longrightarrow> t \<notin> set eos" "pre \<noteq> []" "body \<noteq> []" "last pre \<noteq> last body"
  shows "separator_of eos (pre @ close # sep) (body @ close # sep) = sep"
proof -
  have "common_prefix (rev pre) (rev body) = []"
    using assms(3-5) by (cases pre rule: rev_cases; cases body rule: rev_cases) auto
  then have c: "common_prefix (rev (pre @ close # sep)) (rev (body @ close # sep)) = rev sep @ [close]"
    using common_prefix_append [of "rev sep @ [close]" "rev pre" "rev body"] by simp
  have "takeWhile (\<lambda>t. t \<notin> set eos) (rev sep @ [close]) = rev sep"
    using assms(1,2) by (induction sep rule: rev_induct) auto
  then show ?thesis using assms(1) unfolding separator_of_def c Let_def by simp
qed

section \<open>Instances\<close>

definition demo_chat :: "unit chat_tokenizer" where
  "demo_chat = \<lparr>ct_template = (\<lambda>ms gen tools. Inr (concat (map (\<lambda>m. [int (length (the (m_role m))), 5, 6]) ms) @ (if gen then [1] else []))),
     ct_encode = (\<lambda>_. []), ct_token_id = (\<lambda>_. None), ct_eos = [5]\<rparr>"

theorem merge_is_render_witness:
  "\<exists>r. merge_non_assistant_tokens (Qwen 6 5) [''tool''] demo_chat [plain_message ''user'' C_none]
        ([plain_message ''user'' C_none] @ [plain_message ''tool'' C_none]) [4, 5] None = Inr r
      \<and> render_tokens demo_chat ([plain_message ''user'' C_none] @ [plain_message ''tool'' C_none]) True None = Inr (mr_tokens r)"
proof (rule merge_is_render)
  show "turnwise demo_chat None [] (\<lambda>m. [int (length (the (m_role m))), 5, 6]) [1]" by (simp add: turnwise_def demo_chat_def)
  show "render_tokens demo_chat [plain_message ''user'' C_none] False None = Inr [4, 5, 6]"
    by (simp add: render_tokens_def apply_chat_template_def demo_chat_def plain_message_def)
qed (simp_all add: by_template_def stopped_at_def plain_message_def)

theorem metadata_follows_tokens_witness:
  "\<exists>tail flags. mr_tokens (merge_assistant_tokens [7, 8] [9]) = take (2 - 0) [7, 8] @ tail
      \<and> [1, 1] = take (1 - 0) [1] @ flags \<and> length flags = length tail"
proof -
  have "align_response_metadata (merge_assistant_tokens [7, 8] [9]) [1] (Some [- 1]) (Some [- 2]) = Inr ([1, 1], Some [- 1, - 2])"
    by (simp add: align_response_metadata_def merge_assistant_tokens_def)
  then have "\<exists>tail flags. mr_tokens (merge_assistant_tokens [7, 8] [9]) = take (length [7, 8 :: int] - mr_removed (merge_assistant_tokens [7, 8] [9])) [7, 8] @ tail
      \<and> [1, 1] = take (length [1 :: int] - mr_removed (merge_assistant_tokens [7, 8] [9])) [1] @ flags \<and> length flags = length tail"
    using metadata_follows_tokens [of "merge_assistant_tokens [7, 8] [9]" "[7, 8]" "[9]" Default_builder "[]" demo_chat "[]" "[]" None "[1]" "Some [- 1]" "Some [- 2]" "[1, 1]" "Some [- 1, - 2]"]
    by (fastforce simp: merge_assistant_tokens_def)
  then show ?thesis by (simp add: merge_assistant_tokens_def)
qed

end
