(* ===== verification/Tool_Agent.thy ===== *)
theory Tool_Agent
  imports Continuous_Token
begin

text \<open>
  \<open>verl/experimental/agent_loop/tool_agent_loop.py\<close>, \<open>single_turn_agent_loop.py\<close>, \<open>template_agent_loop.py\<close> and \<open>utils.py\<close>: the
  state machine of a tool-calling rollout, the two single-turn loops, and the prompt building of \<open>AgentLoopBase\<close>, for models
  without a multi-modal processor.  The server, the tools, the tool parser and the tokenizer are arguments; what they answer
  may depend on how many calls came before.  Timers and traces are left out.
\<close>

section \<open>Tools\<close>

record tool_response =
  tr_text :: "string option"
  tr_image :: bool
  tr_video :: bool

definition text_response :: "string \<Rightarrow> tool_response" where
  "text_response s = \<lparr>tr_text = Some s, tr_image = False, tr_video = False\<rparr>"

text \<open>What a function tool may return; the other values come with their \<open>str\<close>.\<close>

datatype raw_value = Raw_response tool_response | Raw_text string | Raw_dict string | Raw_other string
datatype tool_return = Ret raw_value | Ret_tuple nat raw_value "real option"

definition coerce_response :: "raw_value \<Rightarrow> tool_response" where
  "coerce_response v = (case v of Raw_response r \<Rightarrow> r | Raw_text s \<Rightarrow> text_response s | Raw_dict s \<Rightarrow> text_response s | Raw_other s \<Rightarrow> text_response s)"

definition normalize_function_tool_return :: "tool_return \<Rightarrow> (tool_response \<times> real) result" where
  "normalize_function_tool_return r = (case r of
       Ret v \<Rightarrow> Inr (coerce_response v, 0)
     | Ret_tuple n v reward \<Rightarrow>
         if \<not> (1 \<le> n \<and> n \<le> 3) then Inl TypeError
         else Inr (coerce_response v, if n < 2 then 0 else (case reward of None \<Rightarrow> 0 | Some x \<Rightarrow> x)))"

text \<open>A call fails with the text of its exception; an occasion is the turn and the position of the call.\<close>

type_synonym occasion = "nat \<times> nat"

datatype 'j tool =
    Function_tool "occasion \<Rightarrow> 'j \<Rightarrow> string + tool_return"
  | Base_tool "occasion \<Rightarrow> string + string option" "occasion \<Rightarrow> string option \<Rightarrow> 'j \<Rightarrow> string + tool_response \<times> real option"

record tool_call =
  tc_name :: string
  tc_arguments :: string
  tc_id :: "string option"

datatype instance_event = Created string | Released string

section \<open>Environment, configuration and data\<close>

record gen_output =
  go_tokens :: "int list"
  go_log_probs :: "real list option"
  go_routed :: "nat list option"
  go_preempted :: "int option"
  go_extra :: "(string \<times> int) list"

record ('t, 'j) agent_env =
  ae_tokenizer :: "'t chat_tokenizer"
  ae_generate :: "nat \<Rightarrow> int list \<Rightarrow> int set \<Rightarrow> gen_output"
  ae_parse :: "int list \<Rightarrow> string \<times> tool_call list"
  ae_json :: "string \<Rightarrow> string + 'j"
  ae_json_object :: "'j \<Rightarrow> bool"
  ae_tuple_error :: string
  ae_schemas :: "string list \<Rightarrow> 't"

record agent_config =
  ag_builder :: "builder option"
  ag_allowed_roles :: "string list"
  ag_max_user_turns :: nat
  ag_max_assistant_turns :: nat
  ag_max_parallel_calls :: nat
  ag_max_tool_response_length :: nat
  ag_truncate_side :: string
  ag_parser_name :: string
  ag_stop_tokens :: "int set"
  ag_request_stop_tokens :: "int set"
  ag_prompt_length :: nat
  ag_response_length :: nat
  ag_system_prompt :: "int list"
  ag_turn_separator :: "int list"

record 'j agent_data =
  ad_messages :: "message list"
  ad_tools :: "(string \<times> 'j tool) list"
  ad_budget :: nat
  ad_prompt_ids :: "int list"
  ad_response_ids :: "int list"
  ad_mask :: "int list"
  ad_logprobs :: "real list"
  ad_tool_rewards :: "real list"
  ad_user_turns :: nat
  ad_assistant_turns :: nat
  ad_tool_calls :: "tool_call list"
  ad_routed :: "nat list option"
  ad_preempted :: "int option"
  ad_extra :: "(string \<times> int) list"
  ad_instances :: "instance_event list"

datatype agent_state = Pending | Generating | Processing_tools | Terminated

section \<open>Prompts\<close>

definition cap_text_prompt_length :: "agent_config \<Rightarrow> int list \<Rightarrow> int list" where
  "cap_text_prompt_length c ids = (if length ids > ag_prompt_length c then py_take_last (ag_prompt_length c) ids else ids)"

definition base_apply_chat_template ::
  "'t chat_tokenizer \<Rightarrow> agent_config \<Rightarrow> message list \<Rightarrow> 't option \<Rightarrow> bool \<Rightarrow> int list result" where
  "base_apply_chat_template tk c messages tools remove_system_prompt =
     rbind (apply_chat_template tk messages True tools) (\<lambda>ids.
     Inr (cap_text_prompt_length c (if remove_system_prompt then drop (length (ag_system_prompt c)) ids else ids)))"

definition ct_build_initial_tokens :: "'t chat_tokenizer \<Rightarrow> agent_config \<Rightarrow> message list \<Rightarrow> 't option \<Rightarrow> int list result" where
  "ct_build_initial_tokens tk c messages tools =
     rbind (build_initial_tokens tk messages tools) (\<lambda>ids. Inr (cap_text_prompt_length c ids))"

section \<open>Calling a tool\<close>

definition apostrophe :: string where
  "apostrophe = [CHR 0x27]"

text \<open>The list of names as Python prints it, for names without quotes and backslashes.\<close>

definition names_repr :: "string list \<Rightarrow> string" where
  "names_repr ns = ''['' @ join_with '', '' (map (\<lambda>n. apostrophe @ n @ apostrophe) ns) @ '']''"

definition truncate_tool_text :: "agent_config \<Rightarrow> string \<Rightarrow> string" where
  "truncate_tool_text c s =
     (let n = ag_max_tool_response_length c in
      if length s > n then
        (if ag_truncate_side c = ''left'' then ''(truncated)...'' @ py_take_last n s
         else if ag_truncate_side c = ''right'' then take n s @ ''...(truncated)''
         else take (n div 2) s @ ''...(truncated)...'' @ py_take_last (n div 2) s)
      else s)"

lemma truncated_text_bounded:
  assumes "2 \<le> ag_max_tool_response_length c"
  shows "length (truncate_tool_text c s) \<le> ag_max_tool_response_length c + 17"
  using assms by (auto simp: truncate_tool_text_def Let_def py_take_last_def)

text \<open>A limit of 1 keeps the whole text: half of it is 0, and the slice from \<open>-0\<close> on is everything.\<close>

lemma truncated_text_whole:
  assumes "ag_max_tool_response_length c = 1" "ag_truncate_side c = ''middle''" "1 < length s"
  shows "truncate_tool_text c s = ''...(truncated)...'' @ s"
  using assms by (simp add: truncate_tool_text_def py_take_last_def)

definition execute_tool ::
  "('t, 'j) agent_env \<Rightarrow> 'j tool \<Rightarrow> occasion \<Rightarrow> 'j \<Rightarrow> (string + tool_response \<times> real option) \<times> instance_event list" where
  "execute_tool e t occ args = (case t of
       Function_tool f \<Rightarrow>
         ((case f occ args of Inl err \<Rightarrow> Inl err
           | Inr ret \<Rightarrow> (case normalize_function_tool_return ret of Inl _ \<Rightarrow> Inl (ae_tuple_error e) | Inr (r, x) \<Rightarrow> Inr (r, Some x))), [])
     | Base_tool create execute \<Rightarrow>
         (case create occ of Inl err \<Rightarrow> (Inl err, [])
          | Inr inst \<Rightarrow> (execute occ inst args, if truthy inst then [Created (the inst), Released (the inst)] else [])))"

definition call_tool ::
  "('t, 'j) agent_env \<Rightarrow> agent_config \<Rightarrow> (string \<times> 'j tool) list \<Rightarrow> occasion \<Rightarrow> tool_call \<Rightarrow> tool_response \<times> real option \<times> instance_event list" where
  "call_tool e c tools occ call =
     (let n = tc_name call; quoted = apostrophe @ n @ apostrophe in
      case map_of tools n of
        None \<Rightarrow> (text_response (''Unknown function '' @ quoted @ ''. Available tools: '' @ names_repr (map fst tools)), Some 0, [])
      | Some t \<Rightarrow> (case ae_json e (tc_arguments call) of
          Inl err \<Rightarrow> (text_response (''Invalid JSON in arguments for '' @ quoted @ '': '' @ err), Some 0, [])
        | Inr args \<Rightarrow> (case execute_tool e t occ args of
            (Inl err, evs) \<Rightarrow> (text_response (''Error executing tool '' @ quoted @ '': '' @ err), Some 0, evs)
          | (Inr (r, reward), evs) \<Rightarrow> (r\<lparr>tr_text := map_option (truncate_tool_text c) (tr_text r)\<rparr>, reward, evs))))"

section \<open>The handlers\<close>

definition active_schemas :: "('t, 'j) agent_env \<Rightarrow> 'j agent_data \<Rightarrow> 't option" where
  "active_schemas e d = Some (ae_schemas e (map fst (ad_tools d)))"

definition handle_pending_state :: "('t, 'j) agent_env \<Rightarrow> agent_config \<Rightarrow> 'j agent_data \<Rightarrow> (agent_state \<times> 'j agent_data) result" where
  "handle_pending_state e c d =
     rbind (if ag_builder c \<noteq> None then ct_build_initial_tokens (ae_tokenizer e) c (ad_messages d) (active_schemas e d)
            else base_apply_chat_template (ae_tokenizer e) c (ad_messages d) (active_schemas e d) False) (\<lambda>ids.
     Inr (Generating, d\<lparr>ad_prompt_ids := ids\<rparr>))"

definition SPEC_DECODE_EXTRA_KEYS :: "string list" where
  "SPEC_DECODE_EXTRA_KEYS = [''spec_num_draft_tokens'', ''spec_num_accepted_tokens'', ''spec_num_verify_steps'']"

definition merge_preempted :: "int option \<Rightarrow> int option \<Rightarrow> int option" where
  "merge_preempted old new = (case old of None \<Rightarrow> Some (case new of None \<Rightarrow> - 1 | Some n \<Rightarrow> n)
     | Some k \<Rightarrow> Some (k + (case new of None \<Rightarrow> 0 | Some n \<Rightarrow> n)))"

definition merge_extra :: "(string \<times> int) list \<Rightarrow> (string \<times> int) list \<Rightarrow> (string \<times> int) list" where
  "merge_extra old new =
     (if old = [] then new
      else
        let old' = (case map_of new ''max_global_steps'' of Some v \<Rightarrow> if v \<noteq> 0 then AList.update ''max_global_steps'' v old else old | None \<Rightarrow> old) in
        fold (\<lambda>k acc. case (map_of new k, map_of acc k) of (Some v, Some w) \<Rightarrow> AList.update k (w + v) acc | _ \<Rightarrow> acc) SPEC_DECODE_EXTRA_KEYS old')"

text \<open>The part of the assistant message that the continuous tokens need; arguments that are no JSON object are an error.\<close>

definition build_assistant_message :: "('t, 'j) agent_env \<Rightarrow> agent_config \<Rightarrow> string \<Rightarrow> tool_call list \<Rightarrow> message result" where
  "build_assistant_message e c content calls =
     rbind (map_r (\<lambda>call. case ae_json e (tc_arguments call) of
                Inr j \<Rightarrow> if ae_json_object e j then Inr (tc_id call, Some (tc_name call)) else Inl ValueError
              | Inl _ \<Rightarrow> Inl ValueError) (take (ag_max_parallel_calls c) calls)) (\<lambda>tcs.
     Inr (plain_message ''assistant'' (C_text content)\<lparr>m_tool_calls := tcs\<rparr>))"

definition append_generated ::
  "agent_config \<Rightarrow> gen_output \<Rightarrow> 'j agent_data \<Rightarrow> 'j agent_data result" where
  "append_generated c out d =
     (let lps = (case go_log_probs out of None \<Rightarrow> [] | Some l \<Rightarrow> l) in
      if ag_builder c \<noteq> None then
        (let r = merge_assistant_tokens (ad_prompt_ids d) (go_tokens out) in
         rbind (align_response_metadata r (ad_mask d) (if ad_logprobs d \<noteq> [] \<or> lps \<noteq> [] then Some (ad_logprobs d) else None)
                  (if lps \<noteq> [] then Some lps else None)) (\<lambda>(msk, l).
         Inr (d\<lparr>ad_prompt_ids := mr_tokens r, ad_mask := msk, ad_logprobs := (case l of None \<Rightarrow> ad_logprobs d | Some l \<Rightarrow> l)\<rparr>)))
      else Inr (d\<lparr>ad_prompt_ids := ad_prompt_ids d @ go_tokens out,
                  ad_mask := ad_mask d @ replicate (length (go_tokens out)) 1,
                  ad_logprobs := ad_logprobs d @ lps\<rparr>))"

text \<open>What follows the appended generation: the limits, then the tool calls of the turn.\<close>

definition after_generation ::
  "('t, 'j) agent_env \<Rightarrow> agent_config \<Rightarrow> gen_output \<Rightarrow> 'j agent_data \<Rightarrow> (agent_state \<times> 'j agent_data) result" where
  "after_generation e c out d2 =
     (let d3 = (case go_routed out of None \<Rightarrow> d2 | Some x \<Rightarrow> d2\<lparr>ad_routed := Some x\<rparr>) in
      if length (ad_mask d3) \<ge> ad_budget d3 then Inr (Terminated, d3)
      else if ag_max_assistant_turns c \<noteq> 0 \<and> ad_assistant_turns d3 \<ge> ag_max_assistant_turns c then Inr (Terminated, d3)
      else if ag_max_user_turns c \<noteq> 0 \<and> ad_user_turns d3 \<ge> ag_max_user_turns c then Inr (Terminated, d3)
      else
        let (content, calls) = ae_parse e (go_tokens out); d4 = d3\<lparr>ad_tool_calls := calls\<rparr>;
            next_state = (if calls \<noteq> [] then Processing_tools else Terminated) in
        if ag_builder c \<noteq> None then
          rbind (build_assistant_message e c content calls) (\<lambda>m. Inr (next_state, d4\<lparr>ad_messages := ad_messages d4 @ [m]\<rparr>))
        else Inr (next_state, d4))"

definition handle_generating_state :: "('t, 'j) agent_env \<Rightarrow> agent_config \<Rightarrow> 'j agent_data \<Rightarrow> (agent_state \<times> 'j agent_data) result" where
  "handle_generating_state e c d =
     (let out = ae_generate e (ad_assistant_turns d) (ad_prompt_ids d) (ag_request_stop_tokens c \<union> ag_stop_tokens c) in
      rbind (append_generated c out (d\<lparr>ad_preempted := merge_preempted (ad_preempted d) (go_preempted out), ad_extra := merge_extra (ad_extra d) (go_extra out),
                 ad_assistant_turns := ad_assistant_turns d + 1, ad_response_ids := go_tokens out\<rparr>)) (after_generation e c out))"

text \<open>Without a processor an image or a video is an error.\<close>

definition tool_message :: "tool_call \<Rightarrow> tool_response \<Rightarrow> message result" where
  "tool_message call r =
     (if tr_image r \<or> tr_video r then Inl ValueError
      else Inr (plain_message ''tool'' (C_text (case tr_text r of None \<Rightarrow> '''' | Some s \<Rightarrow> s))\<lparr>m_tool_call_id := tc_id call\<rparr>))"

definition build_gpt_oss_tool_response_text :: "message list \<Rightarrow> string list \<Rightarrow> string" where
  "build_gpt_oss_tool_response_text messages names =
     concat (map (\<lambda>(m, n). gpt_oss_tool_response n m) (zip messages names)) @ ''<|start|>assistant''"

definition tool_response_ids ::
  "('t, 'j) agent_env \<Rightarrow> agent_config \<Rightarrow> message list \<Rightarrow> string list \<Rightarrow> int list result" where
  "tool_response_ids e c messages names =
     (if ag_parser_name c = ''gpt-oss'' then Inr (ct_encode (ae_tokenizer e) (build_gpt_oss_tool_response_text messages names))
      else if ag_parser_name c = ''gemma4'' then
        Inr (ct_encode (ae_tokenizer e) (concat (map (\<lambda>(m, n). gemma4_tool_response n m) (zip messages names))))
      else rbind (base_apply_chat_template (ae_tokenizer e) c messages None True) (\<lambda>ids. Inr (ag_turn_separator c @ ids)))"

definition handle_processing_tools_state :: "('t, 'j) agent_env \<Rightarrow> agent_config \<Rightarrow> 'j agent_data \<Rightarrow> (agent_state \<times> 'j agent_data) result" where
  "handle_processing_tools_state e c d =
     (let calls = take (ag_max_parallel_calls c) (ad_tool_calls d);
          replies = map (\<lambda>(i, call). call_tool e c (ad_tools d) (ad_user_turns d, i) call) (enumerate 0 calls);
          d1 = d\<lparr>ad_instances := ad_instances d @ concat (map (\<lambda>(_, _, evs). evs) replies)\<rparr> in
      rbind (map_r (\<lambda>(call, r, _). tool_message call r) (zip calls replies)) (\<lambda>added.
      let d2 = d1\<lparr>ad_messages := ad_messages d @ added,
                  ad_tool_rewards := ad_tool_rewards d @ List.map_filter (\<lambda>(_, reward, _). reward) replies\<rparr> in
      case ag_builder c of
        Some b \<Rightarrow>
          rbind (merge_non_assistant_tokens b (ag_allowed_roles c) (ae_tokenizer e) (ad_messages d) (ad_messages d2) (ad_prompt_ids d) (active_schemas e d)) (\<lambda>r.
          rbind (align_response_metadata r (ad_mask d) (if ad_logprobs d \<noteq> [] then Some (ad_logprobs d) else None) None) (\<lambda>(msk, l).
          if length msk \<ge> ad_budget d then Inr (Terminated, d2)
          else Inr (Generating, d2\<lparr>ad_prompt_ids := mr_tokens r, ad_mask := msk,
                 ad_logprobs := (if ad_logprobs d \<noteq> [] then (case l of None \<Rightarrow> [] | Some l \<Rightarrow> l) else []),
                 ad_user_turns := ad_user_turns d + 1\<rparr>)))
      | None \<Rightarrow>
          rbind (tool_response_ids e c added (map tc_name calls)) (\<lambda>ids.
          if length (ad_mask d) + length ids \<ge> ad_budget d then Inr (Terminated, d2)
          else Inr (Generating, d2\<lparr>ad_prompt_ids := ad_prompt_ids d @ ids, ad_mask := ad_mask d @ replicate (length ids) 0,
                 ad_logprobs := (if ad_logprobs d \<noteq> [] then ad_logprobs d @ replicate (length ids) 0 else []),
                 ad_user_turns := ad_user_turns d + 1\<rparr>))))"

section \<open>The loop and its output\<close>

definition agent_step :: "('t, 'j) agent_env \<Rightarrow> agent_config \<Rightarrow> agent_state \<times> 'j agent_data \<Rightarrow> (agent_state \<times> 'j agent_data) result" where
  "agent_step e c s = (case fst s of
       Pending \<Rightarrow> handle_pending_state e c (snd s)
     | Generating \<Rightarrow> handle_generating_state e c (snd s)
     | Processing_tools \<Rightarrow> handle_processing_tools_state e c (snd s)
     | Terminated \<Rightarrow> Inr s)"

text \<open>The loop, with fuel; \<open>None\<close> when it has not ended.\<close>

fun agent_loop :: "nat \<Rightarrow> ('t, 'j) agent_env \<Rightarrow> agent_config \<Rightarrow> agent_state \<times> 'j agent_data \<Rightarrow> 'j agent_data result option" where
  "agent_loop fuel e c s =
     (if fst s = Terminated then Some (Inr (snd s))
      else case fuel of 0 \<Rightarrow> None
      | Suc k \<Rightarrow> (case agent_step e c s of Inl err \<Rightarrow> Some (Inl err) | Inr s' \<Rightarrow> agent_loop k e c s'))"

record agent_output =
  ao_prompt_ids :: "int list"
  ao_response_ids :: "int list"
  ao_mask :: "int list"
  ao_logprobs :: "real list option"
  ao_routed :: "nat list option"
  ao_num_turns :: nat
  ao_preempted :: "int option"
  ao_extra :: "(string \<times> int) list"
  ao_tool_rewards :: "real list"

definition finalize :: "'j agent_data \<Rightarrow> agent_output" where
  "finalize d =
     (let n = length (ad_mask d); prompt = take (length (ad_prompt_ids d) - n) (ad_prompt_ids d); budget = ad_budget d in
      \<lparr>ao_prompt_ids = prompt,
       ao_response_ids = take budget (py_take_last n (ad_prompt_ids d)),
       ao_mask = take budget (ad_mask d),
       ao_logprobs = (if ad_logprobs d \<noteq> [] then Some (take budget (ad_logprobs d)) else None),
       ao_routed = map_option (take (length prompt + budget)) (ad_routed d),
       ao_num_turns = ad_user_turns d + ad_assistant_turns d + 1,
       ao_preempted = ad_preempted d, ao_extra = ad_extra d, ao_tool_rewards = ad_tool_rewards d\<rparr>)"

text \<open>The budget: a validation run may carry its own.\<close>

definition response_budget :: "nat option \<Rightarrow> agent_config \<Rightarrow> nat" where
  "response_budget max_tokens c = (case max_tokens of Some n \<Rightarrow> if n \<noteq> 0 then n else ag_response_length c | None \<Rightarrow> ag_response_length c)"

definition select_tools :: "(string \<times> 'j tool) list \<Rightarrow> string list option \<Rightarrow> (string \<times> 'j tool) list" where
  "select_tools tools selection = (case selection of
       Some names \<Rightarrow> if names \<noteq> [] \<and> tools \<noteq> [] then List.map_filter (\<lambda>n. map_option (Pair n) (map_of tools n)) (rev (remdups (rev names))) else tools
     | None \<Rightarrow> tools)"

definition initial_data :: "agent_config \<Rightarrow> message list \<Rightarrow> (string \<times> 'j tool) list \<Rightarrow> nat option \<Rightarrow> 'j agent_data" where
  "initial_data c messages tools max_tokens =
     \<lparr>ad_messages = messages, ad_tools = tools, ad_budget = response_budget max_tokens c, ad_prompt_ids = [], ad_response_ids = [],
      ad_mask = [], ad_logprobs = [], ad_tool_rewards = [], ad_user_turns = 0, ad_assistant_turns = 0, ad_tool_calls = [],
      ad_routed = None, ad_preempted = None, ad_extra = [], ad_instances = []\<rparr>"

definition run_tool_agent ::
  "nat \<Rightarrow> ('t, 'j) agent_env \<Rightarrow> agent_config \<Rightarrow> (string \<times> 'j tool) list \<Rightarrow> message list \<Rightarrow> string list option \<Rightarrow> nat option \<Rightarrow> agent_output result option" where
  "run_tool_agent fuel e c tools messages selection max_tokens =
     map_option (\<lambda>r. rbind r (\<lambda>d. Inr (finalize d)))
       (agent_loop fuel e c (Pending, initial_data c messages (select_tools tools selection) max_tokens))"

section \<open>Single-turn loops\<close>

definition single_output :: "nat \<Rightarrow> gen_output \<Rightarrow> int list \<Rightarrow> int list \<Rightarrow> int list \<Rightarrow> real list option \<Rightarrow> agent_output" where
  "single_output budget out prompt response msk lps =
     \<lparr>ao_prompt_ids = prompt, ao_response_ids = take budget response, ao_mask = take budget msk,
      ao_logprobs = (case lps of None \<Rightarrow> None | Some l \<Rightarrow> if l = [] then None else Some (take budget l)),
      ao_routed = map_option (take (length prompt + budget)) (go_routed out),
      ao_num_turns = 2, ao_preempted = Some (case go_preempted out of None \<Rightarrow> - 1 | Some n \<Rightarrow> n), ao_extra = go_extra out, ao_tool_rewards = []\<rparr>"

definition run_single_turn ::
  "('t, 'j) agent_env \<Rightarrow> agent_config \<Rightarrow> message list \<Rightarrow> nat option \<Rightarrow> agent_output result" where
  "run_single_turn e c messages max_tokens =
     (let budget = response_budget max_tokens c in
      rbind (if ag_builder c \<noteq> None then ct_build_initial_tokens (ae_tokenizer e) c messages None
             else base_apply_chat_template (ae_tokenizer e) c messages None False) (\<lambda>prompt.
      let out = ae_generate e 0 prompt (ag_request_stop_tokens c) in
      if ag_builder c \<noteq> None then
        (let r = merge_assistant_tokens prompt (go_tokens out); lps = (case go_log_probs out of None \<Rightarrow> [] | Some l \<Rightarrow> l) in
         rbind (align_response_metadata r [] (if lps \<noteq> [] then Some [] else None) (if lps \<noteq> [] then Some lps else None)) (\<lambda>(msk, l).
         Inr (single_output budget out (take (length (mr_tokens r) - length msk) (mr_tokens r))
                (if msk \<noteq> [] then py_take_last (length msk) (mr_tokens r) else []) msk l)))
      else Inr (single_output budget out prompt (go_tokens out) (replicate (length (go_tokens out)) 1) (go_log_probs out))))"

text \<open>The template loop has no chat prompt: its prefix ids are those of \<open>Template_Prompt\<close>.\<close>

definition run_template_prefix :: "('t, 'j) agent_env \<Rightarrow> agent_config \<Rightarrow> int list \<Rightarrow> nat option \<Rightarrow> agent_output" where
  "run_template_prefix e c prefix_ids max_tokens =
     (let out = ae_generate e 0 prefix_ids (ag_request_stop_tokens c); budget = response_budget max_tokens c in
      single_output budget out prefix_ids (go_tokens out) (replicate (length (take budget (go_tokens out))) 1) (go_log_probs out))"

section \<open>The transcript\<close>

text \<open>The turns after the prompt: \<open>True\<close> with the tokens of a generation, \<open>False\<close> with those of the tool responses.\<close>

type_synonym turns = "(bool \<times> int list) list"

definition turn_tokens :: "turns \<Rightarrow> int list" where
  "turn_tokens ts = concat (map snd ts)"

definition turn_mask :: "turns \<Rightarrow> int list" where
  "turn_mask ts = concat (map (\<lambda>(g, t). replicate (length t) (if g then 1 else 0)) ts)"

definition generations :: "turns \<Rightarrow> nat" where
  "generations ts = length (filter fst ts)"

definition stop_set :: "agent_config \<Rightarrow> int set" where
  "stop_set c = ag_request_stop_tokens c \<union> ag_stop_tokens c"

text \<open>Every generated turn is what the server answered to the prompt followed by all turns before it.\<close>

definition served :: "('t, 'j) agent_env \<Rightarrow> agent_config \<Rightarrow> int list \<Rightarrow> turns \<Rightarrow> bool" where
  "served e c p0 ts \<longleftrightarrow> (\<forall>k < length ts. fst (ts ! k) \<longrightarrow>
     snd (ts ! k) = go_tokens (ae_generate e (generations (take k ts)) (p0 @ turn_tokens (take k ts)) (stop_set c)))"

lemma turns_snoc [simp]:
  "turn_tokens (ts @ [(g, t)]) = turn_tokens ts @ t"
  "turn_mask (ts @ [(g, t)]) = turn_mask ts @ replicate (length t) (if g then 1 else 0)"
  "generations (ts @ [(g, t)]) = generations ts + (if g then 1 else 0)"
  by (simp_all add: turn_tokens_def turn_mask_def generations_def)

lemma turns_Nil [simp]: "turn_tokens [] = []" "turn_mask [] = []" "generations [] = 0" "served e c p0 []"
  by (simp_all add: turn_tokens_def turn_mask_def generations_def served_def)

lemma length_turn_mask [simp]: "length (turn_mask ts) = length (turn_tokens ts)"
  by (induction ts) (auto simp: turn_mask_def turn_tokens_def)

lemma served_snoc:
  assumes "served e c p0 ts" "g \<Longrightarrow> t = go_tokens (ae_generate e (generations ts) (p0 @ turn_tokens ts) (stop_set c))"
  shows "served e c p0 (ts @ [(g, t)])"
  unfolding served_def
proof (intro allI impI)
  fix k assume k: "k < length (ts @ [(g, t)])" "fst ((ts @ [(g, t)]) ! k)"
  show "snd ((ts @ [(g, t)]) ! k) = go_tokens (ae_generate e (generations (take k (ts @ [(g, t)]))) (p0 @ turn_tokens (take k (ts @ [(g, t)]))) (stop_set c))"
  proof (cases "k < length ts")
    case True
    then show ?thesis using assms(1) k(2) by (simp add: served_def nth_append)
  next
    case False
    then have "k = length ts" using k(1) by simp
    then show ?thesis using assms(2) k(2) by simp
  qed
qed

text \<open>The server returns one log-probability per token, always; the parser finds no call in no tokens.\<close>

definition log_probs_given :: "('t, 'j) agent_env \<Rightarrow> bool" where
  "log_probs_given e \<longleftrightarrow> (\<forall>k p st. \<exists>l. go_log_probs (ae_generate e k p st) = Some l \<and> length l = length (go_tokens (ae_generate e k p st)))"

definition no_call_in_nothing :: "('t, 'j) agent_env \<Rightarrow> bool" where
  "no_call_in_nothing e \<longleftrightarrow> snd (ae_parse e []) = []"

definition agent_inv :: "('t, 'j) agent_env \<Rightarrow> agent_config \<Rightarrow> int list \<Rightarrow> turns \<Rightarrow> agent_state \<times> 'j agent_data \<Rightarrow> bool" where
  "agent_inv e c p0 ts s \<longleftrightarrow> (case s of (st, d) \<Rightarrow>
     ad_prompt_ids d = p0 @ turn_tokens ts \<and> ad_mask d = turn_mask ts \<and> served e c p0 ts
     \<and> ad_assistant_turns d = generations ts \<and> ad_user_turns d + ad_assistant_turns d = length ts
     \<and> (st = Processing_tools \<longrightarrow> no_call_in_nothing e \<longrightarrow> turn_tokens ts \<noteq> [])
     \<and> (log_probs_given e \<longrightarrow> no_call_in_nothing e \<longrightarrow> length (ad_logprobs d) = length (turn_tokens ts))
     \<and> st \<noteq> Pending)"

lemma after_generation_fields:
  assumes "after_generation e c out d = Inr (s', d')"
  shows "ad_prompt_ids d' = ad_prompt_ids d" "ad_mask d' = ad_mask d" "ad_logprobs d' = ad_logprobs d"
    "ad_assistant_turns d' = ad_assistant_turns d" "ad_user_turns d' = ad_user_turns d" "ad_budget d' = ad_budget d"
    "s' = Processing_tools \<and> length (ad_mask d) < ad_budget d \<and> snd (ae_parse e (go_tokens out)) \<noteq> [] \<or> s' = Terminated"
  using assms by (auto simp: after_generation_def Let_def rbind_eq_Inr_iff split: option.splits if_splits prod.splits)

lemma generating_invariant:
  assumes "ag_builder c = None" "agent_inv e c p0 ts (Generating, d)" "handle_generating_state e c d = Inr (s', d')"
  shows "\<exists>ts'. agent_inv e c p0 ts' (s', d') \<and> ad_budget d' = ad_budget d \<and> length (ad_mask d) \<le> length (ad_mask d')
      \<and> s' \<in> {Processing_tools, Terminated} \<and> (s' = Processing_tools \<longrightarrow> no_call_in_nothing e \<longrightarrow> length (ad_mask d) < length (ad_mask d'))"
proof -
  define out where "out = ae_generate e (ad_assistant_turns d) (ad_prompt_ids d) (stop_set c)"
  let ?ts = "ts @ [(True, go_tokens out)]"
  have d: "ad_prompt_ids d = p0 @ turn_tokens ts" "ad_mask d = turn_mask ts" "served e c p0 ts"
    "ad_assistant_turns d = generations ts" "ad_user_turns d + ad_assistant_turns d = length ts"
    "log_probs_given e \<Longrightarrow> no_call_in_nothing e \<Longrightarrow> length (ad_logprobs d) = length (turn_tokens ts)"
    using assms(2) by (auto simp: agent_inv_def)
  have sv: "served e c p0 ?ts" using served_snoc [OF d(3), of True "go_tokens out"] by (simp add: out_def d(1,4))
  have lp: "length (case go_log_probs out of None \<Rightarrow> [] | Some l \<Rightarrow> l) = length (go_tokens out)" if "log_probs_given e"
    using that unfolding log_probs_given_def out_def by (metis option.simps(5))
  obtain d2 where d2: "append_generated c out (d\<lparr>ad_preempted := merge_preempted (ad_preempted d) (go_preempted out),
        ad_extra := merge_extra (ad_extra d) (go_extra out), ad_assistant_turns := ad_assistant_turns d + 1, ad_response_ids := go_tokens out\<rparr>) = Inr d2"
      "after_generation e c out d2 = Inr (s', d')"
    using assms(3) unfolding handle_generating_state_def Let_def stop_set_def [symmetric] out_def [symmetric] rbind_eq_Inr_iff by blast
  note after = after_generation_fields [OF d2(2)]
  have fields: "ad_prompt_ids d' = ad_prompt_ids d @ go_tokens out" "ad_mask d' = ad_mask d @ replicate (length (go_tokens out)) 1"
    "ad_logprobs d' = ad_logprobs d @ (case go_log_probs out of None \<Rightarrow> [] | Some l \<Rightarrow> l)"
    "ad_assistant_turns d' = ad_assistant_turns d + 1" "ad_user_turns d' = ad_user_turns d" "ad_budget d' = ad_budget d"
    using d2(1) assms(1) unfolding after(1-6) by (auto simp: append_generated_def Let_def)
  have "go_tokens out \<noteq> []" if "s' = Processing_tools" "no_call_in_nothing e"
    using after(7) that by (auto simp: no_call_in_nothing_def)
  then have "agent_inv e c p0 ?ts (s', d')"
    using fields after(7) d sv lp by (auto simp: agent_inv_def)
  then show ?thesis using fields after(7) \<open>s' = Processing_tools \<Longrightarrow> no_call_in_nothing e \<Longrightarrow> go_tokens out \<noteq> []\<close>
    by (intro exI [of _ ?ts]) auto
qed

lemma processing_invariant:
  assumes "ag_builder c = None" "agent_inv e c p0 ts (Processing_tools, d)" "handle_processing_tools_state e c d = Inr (s', d')"
  shows "\<exists>ts'. agent_inv e c p0 ts' (s', d') \<and> ad_budget d' = ad_budget d \<and> length (ad_mask d) \<le> length (ad_mask d')
      \<and> s' \<in> {Generating, Terminated}"
proof -
  have d: "ad_prompt_ids d = p0 @ turn_tokens ts" "ad_mask d = turn_mask ts" "served e c p0 ts"
    "ad_assistant_turns d = generations ts" "ad_user_turns d + ad_assistant_turns d = length ts"
    "no_call_in_nothing e \<Longrightarrow> turn_tokens ts \<noteq> []"
    "log_probs_given e \<Longrightarrow> no_call_in_nothing e \<Longrightarrow> length (ad_logprobs d) = length (turn_tokens ts)"
    using assms(2) by (auto simp: agent_inv_def)
  have "(\<exists>ids. ad_prompt_ids d' = ad_prompt_ids d @ ids \<and> ad_mask d' = ad_mask d @ replicate (length ids) 0
        \<and> ad_logprobs d' = (if ad_logprobs d \<noteq> [] then ad_logprobs d @ replicate (length ids) 0 else [])
        \<and> ad_user_turns d' = ad_user_turns d + 1 \<and> s' = Generating)
      \<or> ad_prompt_ids d' = ad_prompt_ids d \<and> ad_mask d' = ad_mask d \<and> ad_logprobs d' = ad_logprobs d
        \<and> ad_user_turns d' = ad_user_turns d \<and> s' = Terminated"
    and b: "ad_budget d' = ad_budget d" "ad_assistant_turns d' = ad_assistant_turns d"
    using assms(1,3) by (auto simp: handle_processing_tools_state_def Let_def rbind_eq_Inr_iff split: if_splits)
  then consider (more) ids where "ad_prompt_ids d' = ad_prompt_ids d @ ids" "ad_mask d' = ad_mask d @ replicate (length ids) 0"
        "ad_logprobs d' = (if ad_logprobs d \<noteq> [] then ad_logprobs d @ replicate (length ids) 0 else [])"
        "ad_user_turns d' = ad_user_turns d + 1" "s' = Generating"
    | (stop) "ad_prompt_ids d' = ad_prompt_ids d" "ad_mask d' = ad_mask d" "ad_logprobs d' = ad_logprobs d"
        "ad_user_turns d' = ad_user_turns d" "s' = Terminated" by blast
  then show ?thesis
  proof cases
    case more
    have "served e c p0 (ts @ [(False, ids)])" by (rule served_snoc [OF d(3)]) simp
    moreover have "length (ad_logprobs d') = length (turn_tokens ts) + length ids" if "log_probs_given e" "no_call_in_nothing e"
      using d(6,7) that more(3) by auto
    ultimately have "agent_inv e c p0 (ts @ [(False, ids)]) (s', d')" using more d b by (auto simp: agent_inv_def)
    then show ?thesis using more b by (intro exI [of _ "ts @ [(False, ids)]"]) simp
  next
    case stop
    then have "agent_inv e c p0 ts (s', d')" using d b by (auto simp: agent_inv_def)
    then show ?thesis using stop b by (intro exI [of _ ts]) simp
  qed
qed

lemma step_invariant:
  assumes "ag_builder c = None" "agent_inv e c p0 ts s" "agent_step e c s = Inr s'"
  shows "\<exists>ts'. agent_inv e c p0 ts' s' \<and> ad_budget (snd s') = ad_budget (snd s)"
proof -
  obtain st d s1 d1 where s: "s = (st, d)" "s' = (s1, d1)" by (cases s; cases s')
  show ?thesis
  proof (cases st)
    case Generating
    then have "handle_generating_state e c d = Inr (s1, d1)" using assms(3) by (simp add: agent_step_def s)
    then show ?thesis using generating_invariant [OF assms(1), of e p0 ts d s1 d1] assms(2) Generating by (auto simp: s)
  next
    case Processing_tools
    then have "handle_processing_tools_state e c d = Inr (s1, d1)" using assms(3) by (simp add: agent_step_def s)
    then show ?thesis using processing_invariant [OF assms(1), of e p0 ts d s1 d1] assms(2) Processing_tools by (auto simp: s)
  next
    case Terminated
    then show ?thesis using assms(2,3) by (auto simp: agent_step_def s)
  qed (use assms(2) in \<open>simp add: agent_inv_def s\<close>)
qed

lemma loop_invariant:
  assumes "ag_builder c = None" "agent_inv e c p0 ts s" "agent_loop fuel e c s = Some (Inr d)"
  shows "\<exists>ts'. agent_inv e c p0 ts' (Terminated, d) \<and> ad_budget d = ad_budget (snd s)"
  using assms(2,3)
proof (induction fuel arbitrary: s ts)
  case 0
  then show ?case by (cases s) (auto split: if_splits)
next
  case (Suc fuel)
  show ?case
  proof (cases "fst s = Terminated")
    case True
    then show ?thesis using Suc.prems by (cases s) auto
  next
    case False
    then obtain s1 where s1: "agent_step e c s = Inr s1" "agent_loop fuel e c s1 = Some (Inr d)"
      using Suc.prems(2) by (auto split: sum.splits)
    then obtain ts1 where "agent_inv e c p0 ts1 s1" "ad_budget (snd s1) = ad_budget (snd s)"
      using step_invariant [OF assms(1) Suc.prems(1)] by blast
    then show ?thesis using Suc.IH [of ts1 s1] s1(2) by simp
  qed
qed

declare agent_loop.simps [simp del]

text \<open>
  C30. The output of a tool-calling rollout is its transcript: after the prompt come the generated turns, each exactly what the
  server answered to everything before it, and the tool turns; the mask is 1 on the former and 0 on the latter, response, mask
  and log-probabilities have the same length within the budget, and every turn is counted.  The exception is a rollout whose
  turns are all empty: its response is then the prompt itself, while its mask is empty.
\<close>

theorem tool_agent_output:
  assumes "ag_builder c = None" "run_tool_agent fuel e c tools messages selection max_tokens = Some (Inr out)"
  shows "\<exists>p0 ts. base_apply_chat_template (ae_tokenizer e) c messages (Some (ae_schemas e (map fst (select_tools tools selection)))) False = Inr p0
      \<and> served e c p0 ts \<and> ao_prompt_ids out = p0 \<and> ao_num_turns out = length ts + 1
      \<and> ao_mask out = take (response_budget max_tokens c) (turn_mask ts)
      \<and> ao_response_ids out = take (response_budget max_tokens c) (if turn_tokens ts = [] then p0 else turn_tokens ts)
      \<and> (log_probs_given e \<and> no_call_in_nothing e \<longrightarrow>
           (case ao_logprobs out of None \<Rightarrow> turn_tokens ts = [] | Some l \<Rightarrow> length l = length (ao_mask out)))"
proof -
  let ?d0 = "initial_data c messages (select_tools tools selection) max_tokens"
  obtain d where d: "agent_loop fuel e c (Pending, ?d0) = Some (Inr d)" "out = finalize d"
    using assms(2) by (auto simp: run_tool_agent_def rbind_eq_Inr_iff)
  obtain k where k: "fuel = Suc k" using d(1) by (cases fuel) (auto simp: agent_loop.simps)
  obtain s1 where s1: "agent_step e c (Pending, ?d0) = Inr s1" "agent_loop k e c s1 = Some (Inr d)"
    using d(1) by (auto simp: k agent_loop.simps [of "Suc k"] split: sum.splits)
  then obtain p0 where p0: "base_apply_chat_template (ae_tokenizer e) c messages (Some (ae_schemas e (map fst (select_tools tools selection)))) False = Inr p0"
    and s1': "s1 = (Generating, ?d0\<lparr>ad_prompt_ids := p0\<rparr>)"
    using assms(1) by (auto simp: agent_step_def handle_pending_state_def rbind_eq_Inr_iff active_schemas_def initial_data_def)
  have "agent_inv e c p0 [] s1" by (simp add: s1' agent_inv_def initial_data_def)
  then obtain ts where inv: "agent_inv e c p0 ts (Terminated, d)" and b: "ad_budget d = response_budget max_tokens c"
    using loop_invariant [OF assms(1) _ s1(2)] by (fastforce simp: s1' initial_data_def)
  have f: "ad_prompt_ids d = p0 @ turn_tokens ts" "ad_mask d = turn_mask ts" "served e c p0 ts"
    "ad_user_turns d + ad_assistant_turns d = length ts"
    "log_probs_given e \<Longrightarrow> no_call_in_nothing e \<Longrightarrow> length (ad_logprobs d) = length (turn_tokens ts)"
    using inv by (auto simp: agent_inv_def)
  show ?thesis
    using p0 f by (intro exI [of _ p0] exI [of _ ts]) (auto simp: d(2) finalize_def Let_def b py_take_last_def)
qed

section \<open>Termination\<close>

definition no_trimming :: "agent_config \<Rightarrow> bool" where
  "no_trimming c = (case ag_builder c of Some (Glm _ _) \<Rightarrow> False | _ \<Rightarrow> True)"

lemma align_length:
  assumes "align_response_metadata r msk lps alps = Inr (mask', lps')" "mr_removed r = 0"
  shows "length mask' = length msk + length (mr_inserted r) + mr_appended r"
  using assms by (auto simp: align_response_metadata_def Let_def split: if_splits option.splits)

lemma generating_grows:
  assumes "handle_generating_state e c d = Inr (s', d')"
  shows "ad_budget d' = ad_budget d \<and> (s' = Terminated \<or> s' = Processing_tools \<and> length (ad_mask d') < ad_budget d
      \<and> (no_call_in_nothing e \<longrightarrow> length (ad_mask d) < length (ad_mask d')))"
proof -
  define out where "out = ae_generate e (ad_assistant_turns d) (ad_prompt_ids d) (stop_set c)"
  obtain d2 where d2: "append_generated c out (d\<lparr>ad_preempted := merge_preempted (ad_preempted d) (go_preempted out),
        ad_extra := merge_extra (ad_extra d) (go_extra out), ad_assistant_turns := ad_assistant_turns d + 1, ad_response_ids := go_tokens out\<rparr>) = Inr d2"
      "after_generation e c out d2 = Inr (s', d')"
    using assms unfolding handle_generating_state_def Let_def stop_set_def [symmetric] out_def [symmetric] rbind_eq_Inr_iff by blast
  have "length (ad_mask d2) = length (ad_mask d) + length (go_tokens out) \<and> ad_budget d2 = ad_budget d"
    using d2(1) by (auto simp: append_generated_def Let_def rbind_eq_Inr_iff merge_assistant_tokens_def dest!: align_length split: if_splits)
  then show ?thesis using after_generation_fields [OF d2(2)] by (cases "go_tokens out") (auto simp: no_call_in_nothing_def)
qed

lemma merge_keeps_all:
  assumes "no_trimming c" "ag_builder c = Some b" "merge_non_assistant_tokens b allowed tk previous updated runtime tools = Inr r"
  shows "mr_removed r = 0"
  using assms by (cases b)
    (auto simp: no_trimming_def merge_non_assistant_tokens_def merge_non_assistant_token_ids_def rbind_eq_Inr_iff Let_def split: if_splits)

lemma processing_grows:
  assumes "no_trimming c" "handle_processing_tools_state e c d = Inr (s', d')"
  shows "ad_budget d' = ad_budget d \<and> (s' = Terminated \<or> s' = Generating \<and> length (ad_mask d) \<le> length (ad_mask d'))"
proof (cases "ag_builder c")
  case None
  then show ?thesis
    using assms(2) by (auto simp: handle_processing_tools_state_def Let_def rbind_eq_Inr_iff split: if_splits)
next
  case (Some b)
  then show ?thesis using assms(2)
    by (auto simp: handle_processing_tools_state_def Let_def rbind_eq_Inr_iff split: if_splits
        dest!: merge_keeps_all [OF assms(1) Some] align_length)
qed

fun remaining :: "agent_state \<times> 'j agent_data \<Rightarrow> nat" where
  "remaining (Pending, d) = 2 * (ad_budget d - length (ad_mask d)) + 2"
| "remaining (Generating, d) = 2 * (ad_budget d - length (ad_mask d)) + 1"
| "remaining (Processing_tools, d) = 2 * (ad_budget d - length (ad_mask d)) + 2"
| "remaining (Terminated, d) = 0"

lemma step_decreases:
  assumes "no_trimming c" "no_call_in_nothing e" "agent_step e c s = Inr s'" "fst s \<noteq> Terminated"
  shows "remaining s' < remaining s"
proof -
  obtain st d s1 d1 where s: "s = (st, d)" "s' = (s1, d1)" by (cases s; cases s')
  show ?thesis
  proof (cases st)
    case Pending
    then show ?thesis using assms(3) by (auto simp: agent_step_def s handle_pending_state_def rbind_eq_Inr_iff)
  next
    case Generating
    then have "handle_generating_state e c d = Inr (s1, d1)" using assms(3) by (simp add: agent_step_def s)
    from generating_grows [OF this] show ?thesis using Generating assms(2) by (auto simp: s)
  next
    case Processing_tools
    then have "handle_processing_tools_state e c d = Inr (s1, d1)" using assms(3) by (simp add: agent_step_def s)
    from processing_grows [OF assms(1) this] show ?thesis using Processing_tools by (auto simp: s)
  qed (use assms(4) in \<open>simp add: s\<close>)
qed

lemma loop_ends:
  assumes "no_trimming c" "no_call_in_nothing e" "remaining s \<le> fuel"
  shows "agent_loop fuel e c s \<noteq> None"
  using assms(3)
proof (induction fuel arbitrary: s)
  case 0
  then have "fst s = Terminated" by (cases s rule: remaining.cases) auto
  then show ?case by (simp add: agent_loop.simps)
next
  case (Suc fuel)
  show ?case
  proof (cases "fst s = Terminated")
    case False
    then show ?thesis using Suc step_decreases [OF assms(1,2) _ False]
      by (auto simp: agent_loop.simps [of "Suc fuel"] split: sum.splits)
  qed (simp add: agent_loop.simps)
qed

text \<open>
  C31. Even with no limit on the turns the rollout ends: every generation that calls a tool leaves at least one more token in the
  mask, so two steps per token of the response budget, and two more, are enough.  Only the class that cuts a runtime token at a
  tool turn is left out, for there the mask may shrink again.
\<close>

theorem tool_agent_ends:
  assumes "no_trimming c" "no_call_in_nothing e" "2 * response_budget max_tokens c + 2 \<le> fuel"
  shows "\<exists>r. run_tool_agent fuel e c tools messages selection max_tokens = Some r"
proof -
  let ?s = "(Pending, initial_data c messages (select_tools tools selection) max_tokens)"
  have "remaining ?s \<le> fuel" using assms(3) by (simp add: initial_data_def)
  then have "agent_loop fuel e c ?s \<noteq> None" by (rule loop_ends [OF assms(1,2)])
  then show ?thesis by (auto simp: run_tool_agent_def)
qed

section \<open>Instances\<close>

definition demo_agent :: "(unit, unit) agent_env" where
  "demo_agent = \<lparr>ae_tokenizer = demo_chat,
     ae_generate = (\<lambda>k p st. \<lparr>go_tokens = (if k = 0 then [7, 8] else [9]), go_log_probs = Some (if k = 0 then [- 1, - 2] else [- 3]),
        go_routed = None, go_preempted = None, go_extra = []\<rparr>),
     ae_parse = (\<lambda>ids. ('''', if 8 \<in> set ids then [\<lparr>tc_name = ''f'', tc_arguments = '''', tc_id = None\<rparr>] else [])),
     ae_json = (\<lambda>_. Inr ()), ae_json_object = (\<lambda>_. True), ae_tuple_error = '''', ae_schemas = (\<lambda>_. ())\<rparr>"

definition demo_agent_config :: agent_config where
  "demo_agent_config = \<lparr>ag_builder = None, ag_allowed_roles = [], ag_max_user_turns = 0, ag_max_assistant_turns = 0, ag_max_parallel_calls = 1,
     ag_max_tool_response_length = 10, ag_truncate_side = ''middle'', ag_parser_name = ''hermes'', ag_stop_tokens = {}, ag_request_stop_tokens = {},
     ag_prompt_length = 10, ag_response_length = 8, ag_system_prompt = [], ag_turn_separator = [6]\<rparr>"

definition demo_tools :: "(string \<times> unit tool) list" where
  "demo_tools = [(''f'', Function_tool (\<lambda>_ _. Inr (Ret (Raw_text ''ok''))))]"

lemma demo_agent_parser: "no_call_in_nothing demo_agent"
  by (simp add: no_call_in_nothing_def demo_agent_def)

lemma demo_agent_run:
  "run_tool_agent 20 demo_agent demo_agent_config demo_tools [plain_message ''user'' C_none] None None
     = Some (Inr \<lparr>ao_prompt_ids = [4, 5, 6, 1], ao_response_ids = [7, 8, 6, 4, 5, 6, 1, 9], ao_mask = [1, 1, 0, 0, 0, 0, 0, 1],
         ao_logprobs = Some [- 1, - 2, 0, 0, 0, 0, 0, - 3], ao_routed = None, ao_num_turns = 4, ao_preempted = Some (- 1), ao_extra = [], ao_tool_rewards = [0]\<rparr>)"
  by code_simp

theorem tool_agent_output_witness:
  "\<exists>p0 ts. base_apply_chat_template (ae_tokenizer demo_agent) demo_agent_config [plain_message ''user'' C_none]
        (Some (ae_schemas demo_agent (map fst (select_tools demo_tools None)))) False = Inr p0
      \<and> served demo_agent demo_agent_config p0 ts \<and> p0 = [4, 5, 6, 1] \<and> length ts = 3
      \<and> take 8 (turn_mask ts) = [1, 1, 0, 0, 0, 0, 0, 1] \<and> take 8 (turn_tokens ts) = [7, 8, 6, 4, 5, 6, 1, 9]"
proof -
  have b: "response_budget None demo_agent_config = 8" by (simp add: response_budget_def demo_agent_config_def)
  have n: "ag_builder demo_agent_config = None" by (simp add: demo_agent_config_def)
  from tool_agent_output [OF n demo_agent_run] obtain p0 ts where
    "base_apply_chat_template (ae_tokenizer demo_agent) demo_agent_config [plain_message ''user'' C_none]
        (Some (ae_schemas demo_agent (map fst (select_tools demo_tools None)))) False = Inr p0"
    "served demo_agent demo_agent_config p0 ts" "[4, 5, 6, 1] = p0" "4 = length ts + 1"
    and m: "[1, 1, 0, 0, 0, 0, 0, 1] = take 8 (turn_mask ts)"
    and t: "[7, 8, 6, 4, 5, 6, 1, 9] = take 8 (if turn_tokens ts = [] then p0 else turn_tokens ts)"
    unfolding agent_output.simps b by blast
  moreover have "turn_tokens ts \<noteq> []"
  proof
    assume "turn_tokens ts = []"
    then have "turn_mask ts = []" using length_turn_mask [of ts] by (simp del: length_turn_mask)
    then show False using m by simp
  qed
  ultimately show ?thesis by (intro exI [of _ p0] exI [of _ ts]) simp
qed

theorem tool_agent_ends_witness:
  "\<exists>r. run_tool_agent 18 demo_agent demo_agent_config demo_tools [plain_message ''user'' C_none] None None = Some r"
  by (rule tool_agent_ends) (simp_all add: demo_agent_parser no_trimming_def response_budget_def demo_agent_config_def)

end
