(* ===== verification/Spec2Isabelle.thy ===== *)
theory Spec2Isabelle
  imports Micro_Batching Opd_Trainer Dispatch Proto_Items Message_Queue Rate_Limit Replay_Buffer Opd_Algos
    Async_Rollouter Async_Trainer Dynamic_Schedule Load_Balancer Hybrid_Replicas Llm_Client Advantages Optimal_Baseline Policy_Losses Rollout_Corr Tool_Agent
begin

text \<open>
  A verification development for One-Shot-OPD, a fork of the reinforcement-learning library
  \<open>verl\<close> that adds on-policy distillation (OPD): a student model rolls out responses, one of several
  frozen teacher models, chosen by the ability a prompt belongs to, scores every token, and the
  dense reward is used directly as the advantage of a PPO update.  All paths are below
  \<open>src/verl/verl/\<close>.

  \<^bold>\<open>The program's parts and the theories that model them.\<close>

  \<^item> \<open>Prelude\<close>: Python's errors as a datatype and fallible code as a sum (\<open>result\<close>, \<open>rbind\<close>,
    \<open>map_r\<close>, \<open>fold_r\<close>), list indexing and slicing with Python's rules, dictionaries as association
    lists.  \<open>Tensor\<close>: real numbers with infinities and NaN (\<open>fl\<close>), as torch computes with them up to
    rounding.  \<open>Transition\<close>: runs of labelled transition systems and the locale
    \<open>history_invariant\<close>, which turns the two laws of an invariant into a fact about every run, and
    \<open>simulation\<close>, which carries the runs of a system over to its specification.

  \<^item> \<open>Teacher_Config\<close> (\<open>workers/config/fsdp_teacher.py\<close>): validation of the teacher configuration
    (\<open>post_init\<close>) and the routing of rows (\<open>route_by_ability\<close>, \<open>route\<close>).  \<open>Top_K_Reward\<close> and
    \<open>Teacher_Worker\<close> (\<open>workers/fsdp_teacher_worker.py\<close>): the top-K scores and rewards of a position,
    and the worker that groups its rows by teacher, runs micro-batches in lockstep with the other
    ranks and scatters the results back (\<open>compute_rm_score\<close>; \<open>cluster_scores\<close> is the whole
    data-parallel group).  Loading and running a model are arguments.  \<open>Opd_Trainer\<close>
    (\<open>trainer/ppo/opd_trainer_mixin.py\<close>): the hooks that install the teacher reward in a batch.
    \<open>Opd_Algos\<close> (\<open>trainer/ppo/opd_core_algos.py\<close>, parts of \<open>core_algos.py\<close> and
    \<open>utils/torch_functional.py\<close>): advantages, policy losses and loss aggregation.  \<open>Template_Prompt\<close>
    (\<open>utils/template_prompt.py\<close>): the prefix of template mode and the filters for self-generated
    queries.

  \<^item> \<open>Heapq\<close>, \<open>Seqlen_Balancing\<close>, \<open>Micro_Batching\<close> (\<open>utils/seqlen_balancing.py\<close>): Python's heap, the
    Karmarkar-Karp and greedy partitioners, and the splitting of a batch into micro-batches.

  \<^item> \<open>Data_Proto\<close> (\<open>protocol.py\<close>): the batch type every component exchanges.  \<open>Proto_Items\<close>
    (\<open>protocol.py\<close>): its rows, \<open>collate_fn\<close> and \<open>make_iterator\<close>, and the inductive set \<open>proto_value\<close> of
    the batches the operations can build.  \<open>Dispatch\<close>
    (\<open>single_controller/base/decorator.py\<close>, the call path of \<open>single_controller/ray/base.py\<close>): how a
    call is split over the workers of a group and collected.  It relies on batches only through
    the locale \<open>batch_protocol\<close>, interpreted with \<open>DataProto.chunk\<close> and \<open>DataProto.concat\<close>.

  \<^item> \<open>Message_Queue\<close> (\<open>experimental/fully_async_policy/message_queue.py\<close>), \<open>Rate_Limit\<close>
    (\<open>experimental/reward_loop/reward_manager/limited.py\<close>) and \<open>Replay_Buffer\<close>
    (\<open>trainer/ppo/v1/replay_buffer.py\<close>): the concurrent parts.  The first two are step relations whose
    atomic steps are the sections under the lock; the third is a polling loop over arbitrary
    sequences of snapshots of the store (locale \<open>polling\<close>).

  \<^item> \<open>Async_Rollouter\<close> (\<open>experimental/fully_async_policy/fully_async_rollouter.py\<close>): the coroutines of the
    rollouter (\<open>feeder\<close>, processor \<open>phase\<close>, sample tasks, \<open>monitor\<close>, main coroutine, \<open>reset_staleness\<close>) as one
    step relation \<open>ro_step\<close> whose steps run from one await to the next, on top of the queue of
    \<open>Message_Queue\<close>; \<open>schedule\<close> executes a given choice of coroutines.  \<open>Async_Trainer\<close>
    (\<open>fully_async_trainer.py\<close>, \<open>detach_utils.py\<close>): the batch taken from the queue, the counters that decide
    when weights are synchronised, and the aggregation of metrics.  \<open>Load_Balancer\<close>, \<open>Llm_Client\<close>
    (\<open>workers/rollout/llm_server.py\<close>): the balancer actor, with its sticky-session cache as a parameter, and the
    client that resumes aborted generations.  \<open>Hybrid_Replicas\<close> and \<open>Dynamic_Schedule\<close>
    (\<open>fully_async_rollouter.py\<close>, \<open>dynamic_schedule\<close>): the replicas that move between training and rollout,
    refined to the list of active ones, and the policies that decide when (locale
    \<open>schedule_policy\<close>, interpreted for all three).

  \<^item> \<open>Advantages\<close> and \<open>Optimal_Baseline\<close> (\<open>trainer/ppo/core_algos.py\<close>, \<open>utils/groupwise.py\<close>): all registered
    advantage estimators, the registries and the KL controllers.  \<open>Policy_Losses\<close> (\<open>core_algos.py\<close>): all registered
    policy losses, the value and entropy losses, the KL penalties and the resampling of PF-PPO.  \<open>Rollout_Corr\<close>
    (\<open>trainer/ppo/rollout_corr_helper.py\<close>): importance weights and rejection sampling between the rollout and the
    training policy, their threshold texts and metrics, and the \<open>bypass_mode\<close> loss.

  \<^bold>\<open>What the lemmas show.\<close>  Routing and scoring: every row of every rank is scored by the teacher
  its ability routes to, at its own position, and all ranks issue the same forwards; a validated
  configuration routes only to teachers that exist; the hook installs that reward and keeps the
  verifier's.  Rewards: the candidate weights are a distribution, the intersection reward is
  finite.  Losses: aggregation does not depend on data parallelism, the top-K loss generalises
  the vanilla one, GRPO advantages are relative to their group.  Batching: the partitioners
  return partitions of the required shape, micro-batches can be restored to batch order.
  Batches and dispatch: chunk and concat, padding and unpadding are inverse, and dispatching a
  row-wise method over any number of workers is transparent; every batch the operations build is
  well formed, and the iterator yields every row once per epoch.  Concurrency: the queue
  implements a drop-oldest channel, is a bounded FIFO without lost wake-ups and releases everyone at shutdown; the token bucket keeps its rate in
  every interleaving and \<open>acquire\<close> terminates; the replay buffer returns complete groups within
  its off-policy bound and refills what it evicts.  Template mode: the recovered chat markers
  rebuild the template, and only valid texts are selected.  Fully asynchronous training: in every
  interleaving the samples of one version stay within the staleness bound up to what resets
  forget, every fed sample reaches the trainer at most once and in a complete run exactly once,
  resumed generations are the uninterrupted ones, the balancer's counts are the requests in
  flight and its servers are the active replicas, and each version is synchronised once.
  Estimators: GAE skips observation tokens, the vectorised and the loop versions agree where they
  are meant to, and the multi-turn baseline extends the single-turn one.  Losses: the KL penalties
  are distances, on the policy that made the data the losses agree, clip-cov removes only
  candidates.  Correction: weights lie in their bounds, rejection keeps exactly the tokens every
  option accepts, and both fail only in the stated ways.

  \<^bold>\<open>Findings.\<close>  \<open>Teacher_Config.single_teacher_mapping_unchecked\<close>,
  \<open>Top_K_Reward.union_and_only_tch_are_only_stu\<close>, \<open>Micro_Batching.micro_batch_token_overflow\<close>,
  \<open>Dispatch.metric_call_drops_workers\<close>, \<open>Message_Queue.put_sample_result\<close>,
  \<open>Rate_Limit.zero_rate_raises\<close>, \<open>Opd_Algos.topk_clipfrac_exceeds_one\<close>, \<open>Async_Rollouter.reset_miscounts\<close>,
  \<open>Hybrid_Replicas.hybrid_replicas_counted_twice\<close>, \<open>Hybrid_Replicas.controller_roundtrip\<close>,
  \<open>Dynamic_Schedule.default_ratio_drifts\<close>, \<open>Dynamic_Schedule.fixed_ratio_unregistered\<close>,
  \<open>Async_Trainer.batch_is_next_samples\<close>, \<open>Async_Trainer.sync_schedule\<close>,
  \<open>Async_Trainer.aggregation_in_range\<close>, \<open>Advantages.rloo_leave_one_out\<close>,
  \<open>Rollout_Corr.is_weights_errors\<close>, \<open>Rollout_Corr.rs_threshold_errors\<close> and \<open>Policy_Losses.geo_mean_trust_region\<close> show behaviour of the
  code that differs from what it documents or means to do.

  \<^bold>\<open>Bounds and fuel.\<close>  Loops are total functions with termination proofs, except these: the loop of
  \<open>acquire\<close> has fuel, and fuel 2 is proved to suffice when no other request interferes; the polling
  loop of the replay buffer consumes a list of polls, since it depends on the environment when it
  ends; so do the resume loop of the client (a list of servers) and the polls of the trainer.  Floating-point numbers are real numbers with infinities and NaN: rounding is not modelled.
  Torch tensors are nested lists, and a call's tensors have matching shapes.

  \<^bold>\<open>Not modelled.\<close>  Third-party code is a parameter (tokenizers, models, \<open>torch.topk\<close>, the
  TransferQueue store, ray's transport) or left out: rollout servers, training engines, model
  classes, kernels, checkpoint formats, profilers, graders, data preparation and the driver loops
  of the trainers, which are I/O and orchestration around the parts above.  Of \<open>protocol.py\<close> serialisation, \<open>rename\<close> and folding of dimensions,
  and of \<open>fully_async_policy\<close> exceptions inside a
  coroutine, checkpoints, validation and request rebalancing remain for later theories.
\<close>

end
